(* ===== verification/Prelude.thy ===== *)
theory Prelude
  imports Main "HOL-Library.Word"
begin

unbundle bit_operations_syntax

text \<open>
  Shared vocabulary of the development: the machine integer types of types.h, the outcome of a
  kernel routine (a value, a blocked wait, or a fault the C code runs into), byte memories with
  their block load and store, little-endian words, and C strings.  The two theorem
  collections gather the frame facts (\<open>frame\<close>: which state an operation leaves alone) and the
  invariant facts (\<open>keeps\<close>: which operations preserve a component invariant).
\<close>

named_theorems frame
named_theorems keeps

type_synonym u8 = "8 word"
type_synonym u16 = "16 word"
type_synonym u32 = "32 word"
type_synonym mem = "nat \<Rightarrow> u8"

section \<open>Outcomes\<close>

text \<open>
  \<open>OutOfBounds\<close>: an array is indexed outside its object.  \<open>NullCall\<close>: a NULL function pointer of
  an operations table is called.  \<open>WildPointer\<close>: a pointer passed to the kernel does not lie in
  the page the kernel gave the process.  \<open>NoReturn\<close>: the loop of the C code does not end.
  \<open>Blocked\<close> is a wait whose wake-up event has not come within the events supplied.
\<close>

datatype fault = OutOfBounds | NullCall | WildPointer | NoReturn

datatype 'a outcome = Done 'a | Blocked | Fault fault

fun andthen :: "'a outcome \<Rightarrow> ('a \<Rightarrow> 'b outcome) \<Rightarrow> 'b outcome" where
  "andthen (Done a) f = f a"
| "andthen Blocked f = Blocked"
| "andthen (Fault e) f = Fault e"

lemma andthen_Done_iff:
  "andthen m f = Done b \<longleftrightarrow> (\<exists>a. m = Done a \<and> f a = Done b)"
  by (cases m) auto

lemma andthen_assoc: "andthen (andthen m f) g = andthen m (\<lambda>a. andthen (f a) g)"
  by (cases m) auto

fun of_opt :: "fault \<Rightarrow> 'a option \<Rightarrow> 'a outcome" where
  "of_opt e None = Fault e"
| "of_opt e (Some a) = Done a"

lemma of_opt_Done_iff [simp]: "of_opt e x = Done a \<longleftrightarrow> x = Some a"
  by (cases x) auto

section \<open>Byte memories\<close>

primrec store :: "mem \<Rightarrow> nat \<Rightarrow> u8 list \<Rightarrow> mem" where
  "store m a [] = m"
| "store m a (b # bs) = store (m(a := b)) (Suc a) bs"

definition load :: "mem \<Rightarrow> nat \<Rightarrow> nat \<Rightarrow> u8 list" where
  "load m a n = map m [a..<a + n]"

lemma length_load [simp]: "length (load m a n) = n"
  by (simp add: load_def)

lemma nth_load [simp]: "i < n \<Longrightarrow> load m a n ! i = m (a + i)"
  by (simp add: load_def)

lemma store_apply:
  "store m a bs x = (if a \<le> x \<and> x < a + length bs then bs ! (x - a) else m x)"
proof (induction bs arbitrary: m a)
  case Nil
  then show ?case by auto
next
  case (Cons b bs)
  show ?case
  proof (cases "x = a")
    case True
    with Cons.IH[of "m(a := b)" "Suc a"] show ?thesis by (simp add: fun_upd_def)
  next
    case False
    then show ?thesis by (auto simp: Cons.IH nth_Cons' Suc_le_eq)
  qed
qed

lemma load_store_same: "load (store m a bs) a (length bs) = bs"
  by (rule nth_equalityI) (simp_all add: store_apply)

lemma store_outside: "x < a \<or> a + length bs \<le> x \<Longrightarrow> store m a bs x = m x"
  by (auto simp: store_apply)

section \<open>Little-endian words\<close>

definition rd32 :: "mem \<Rightarrow> nat \<Rightarrow> u32" where
  "rd32 m a = ucast (m a) OR push_bit 8 (ucast (m (a + 1)))
     OR push_bit 16 (ucast (m (a + 2))) OR push_bit 24 (ucast (m (a + 3)))"

definition le32 :: "u32 \<Rightarrow> u8 list" where
  "le32 w = [ucast w, ucast (drop_bit 8 w), ucast (drop_bit 16 w), ucast (drop_bit 24 w)]"

lemma length_le32 [simp]: "length (le32 w) = 4"
  by (simp add: le32_def)

lemma rd32_cong:
  "(\<And>i. i < 4 \<Longrightarrow> m (a + i) = m' (a + i)) \<Longrightarrow> rd32 m a = rd32 m' a"
proof -
  assume h: "\<And>i. i < 4 \<Longrightarrow> m (a + i) = m' (a + i)"
  from h[of 0] h[of 1] h[of 2] h[of 3] show ?thesis by (simp add: rd32_def)
qed

lemma rd32_bytes:
  "m a = ucast w \<Longrightarrow> m (a + 1) = ucast (drop_bit 8 w) \<Longrightarrow> m (a + 2) = ucast (drop_bit 16 w) \<Longrightarrow>
   m (a + 3) = ucast (drop_bit 24 w) \<Longrightarrow> rd32 m a = w"
  unfolding rd32_def
proof (rule bit_word_eqI, goal_cases)
  case (1 n)
  consider "n < 8" | "8 \<le> n" "n < 16" | "16 \<le> n" "n < 24" | "24 \<le> n" by linarith
  then show ?case
    by cases (use 1 in \<open>auto simp: bit_simps not_less\<close>)
qed

lemma rd32_store_le32: "rd32 (store m a (le32 w)) a = w"
proof -
  have "\<And>i. i < 4 \<Longrightarrow> store m a (le32 w) (a + i) = le32 w ! i"
    by (simp add: store_apply)
  from this[of 0] this[of 1] this[of 2] this[of 3] show ?thesis
    by (intro rd32_bytes) (simp_all add: le32_def numeral_2_eq_2 numeral_3_eq_3)
qed

section \<open>C strings\<close>

text \<open>
  A \<open>char*\<close> that the code only reads is the list of bytes from the pointer to the end of the
  object it points into; the string is what comes before the first NUL.
\<close>

definition cstr :: "u8 list \<Rightarrow> u8 list" where
  "cstr s = takeWhile (\<lambda>c. c \<noteq> 0) s"

definition chars :: "string \<Rightarrow> u8 list" where
  "chars s = map of_char s"

definition c_lit :: "string \<Rightarrow> u8 list" where
  "c_lit s = chars s @ [0]"

lemma cstr_no_nul: "0 \<notin> set (cstr s)"
  by (auto simp: cstr_def dest: set_takeWhileD)

lemma cstr_Nil [simp]: "cstr [] = []"
  by (simp add: cstr_def)

lemma cstr_Cons [simp]: "cstr (c # s) = (if c = 0 then [] else c # cstr s)"
  by (simp add: cstr_def)

lemma cstr_append_nul: "0 \<notin> set xs \<Longrightarrow> cstr (xs @ 0 # ys) = xs"
  by (induction xs) auto

section \<open>Loops over an index range, small words\<close>

lemma fold_upd_range:
  "fold (\<lambda>i f. f(i := g i)) [a..<b] f = (\<lambda>j. if a \<le> j \<and> j < b then g j else f j)"
proof (induction b)
  case (Suc b)
  show ?case
  proof (cases "a \<le> b")
    case True
    with Suc show ?thesis by (auto simp: fun_eq_iff less_Suc_eq)
  next
    case False
    then show ?thesis by (auto simp: fun_eq_iff)
  qed
qed auto

lemma u32_less_6: "(p::u32) < 6 \<Longrightarrow> p = 0 \<or> p = 1 \<or> p = 2 \<or> p = 3 \<or> p = 4 \<or> p = 5"
  by (auto simp: word_less_nat_alt word_unat_eq_iff)

lemma u32_bound: "unat (x :: u32) < 2 ^ 32"
  using unsigned_less[of x] by simp

lemma sint_u32:
  assumes "unat (x :: u32) < 2 ^ 31"
  shows "sint x = int (unat x)"
proof -
  have x: "uint x = int (unat x)" by simp
  have "int n < 2 ^ 31 \<and> - (2 ^ 31) \<le> int n" if "n < 2 ^ 31" for n using that by simp
  from this[OF assms] have "signed_take_bit 31 (int (unat x)) = int (unat x)"
    by (simp only: signed_take_bit_int_eq_self_iff simp_thms)
  then show ?thesis by (simp only: sint_uint x) simp
qed

lemma min_u32: "unat (if a \<le> (b :: u32) then a else b) = min (unat a) (unat b)"
  by (simp add: word_le_nat_alt min_def)

lemma unat_of_int_u32: "0 \<le> v \<Longrightarrow> v < 2 ^ 32 \<Longrightarrow> unat (word_of_int v :: u32) = nat v"
  by (simp add: unsigned_of_int take_bit_int_eq_self)

lemma nat_sint: "0 \<le> sint (w :: u32) \<Longrightarrow> nat (sint w) = unat w"
  using unat_of_int_u32[of "sint w"] sint_lt[of w] by simp

lemma nat_uminus_sint: "sint (w :: u32) < 0 \<Longrightarrow> nat (- sint w) = unat (- w)"
  using unat_of_int_u32[of "- sint w"] sint_ge[of w] by simp

lemma pid_cases:
  assumes "0 \<le> (p::int)" "p < 6"
  obtains "p = 0" | "p = 1" | "p = 2" | "p = 3" | "p = 4" | "p = 5"
  using assms by linarith

end
