(* ===== verification/Lib_String.thy ===== *)
theory Lib_String
  imports Prelude
begin

text \<open>
  The string routines of student-distrib/lib.c: \<open>strlen\<close>, \<open>strrev\<close>, \<open>itoa\<close>, \<open>strncmp\<close>,
  \<open>strcpy\<close> and \<open>strncpy\<close>.  A pointer argument is the list of bytes from the pointer to the end
  of its object, so an access past the object is visible: the result is \<open>None\<close>.  The routines
  that write return the new contents of the destination object.
\<close>

section \<open>Definitions\<close>

fun strlen :: "u8 list \<Rightarrow> nat option" where
  "strlen [] = None"
| "strlen (c # s) = (if c = 0 then Some 0 else map_option Suc (strlen s))"

text \<open>\<open>strrev\<close> exchanges \<open>s[beg]\<close> and \<open>s[end]\<close> while \<open>beg < end\<close>; both are \<open>int32_t\<close>.\<close>

function strrev_loop :: "u8 list \<Rightarrow> int \<Rightarrow> int \<Rightarrow> u8 list" where
  "strrev_loop s beg fin =
     (if beg < fin
      then strrev_loop (s[nat fin := s ! nat beg, nat beg := s ! nat fin]) (beg + 1) (fin - 1)
      else s)"
  by pat_completeness auto
termination
  by (relation "measure (\<lambda>(s, beg, fin). nat (fin - beg))") auto

declare strrev_loop.simps [simp del]

definition strrev :: "u8 list \<Rightarrow> u8 list option" where
  "strrev s = (case strlen s of None \<Rightarrow> None | Some n \<Rightarrow> Some (strrev_loop s 0 (int n - 1)))"

definition lookup :: "u8 list" where
  "lookup = chars ''0123456789ABCDEFGHIJKLMNOPQRSTUVWXYZ''"

text \<open>
  The digit loop of \<open>itoa\<close>.  \<open>None\<close> covers a division by a zero radix, a digit outside the
  lookup table, a store outside the buffer, and the endless loop of radix 1.
\<close>

partial_function (option) itoa_loop :: "u32 \<Rightarrow> u32 \<Rightarrow> u8 list \<Rightarrow> nat \<Rightarrow> (u8 list \<times> nat) option" where
  "itoa_loop newval radix buf pos =
     (if newval = 0 then Some (buf, pos)
      else if radix = 0 \<or> length lookup \<le> unat (newval mod radix) \<or> length buf \<le> pos then None
      else itoa_loop (newval div radix) radix
             (buf[pos := lookup ! unat (newval mod radix)]) (Suc pos))"

definition itoa :: "u32 \<Rightarrow> u8 list \<Rightarrow> u32 \<Rightarrow> u8 list option" where
  "itoa val buf radix =
     (if val = 0
      then (if length buf < 2 then None else Some (buf[0 := of_char CHR ''0'', 1 := 0]))
      else (case itoa_loop val radix buf 0 of
              None \<Rightarrow> None
            | Some (buf', pos) \<Rightarrow>
                (if length buf' \<le> pos then None else strrev (buf'[pos := 0]))))"

fun strncmp :: "u8 list \<Rightarrow> u8 list \<Rightarrow> nat \<Rightarrow> int option" where
  "strncmp s1 s2 0 = Some 0"
| "strncmp (a # s1) (b # s2) (Suc n) =
     (if a \<noteq> b \<or> a = 0 then Some (sint a - sint b) else strncmp s1 s2 n)"
| "strncmp _ _ (Suc n) = None"

text \<open>\<open>strcpy\<close> writes \<open>dest[i]\<close> up to and including the NUL.\<close>

fun strcpy_from :: "u8 list \<Rightarrow> nat \<Rightarrow> u8 list \<Rightarrow> u8 list option" where
  "strcpy_from dest i [] = None"
| "strcpy_from dest i (c # src) =
     (if length dest \<le> i then None
      else if c = 0 then Some (dest[i := 0])
      else strcpy_from (dest[i := c]) (Suc i) src)"

definition strcpy :: "u8 list \<Rightarrow> u8 list \<Rightarrow> u8 list option" where
  "strcpy dest src = strcpy_from dest 0 src"

text \<open>
  The first loop of \<open>strncpy\<close> tests \<open>src[i]\<close> before it tests \<open>i < n\<close>, so it reads \<open>src[n]\<close> when
  no NUL came before; the second loop pads with NULs.
\<close>

fun strncpy_copy :: "u8 list \<Rightarrow> nat \<Rightarrow> u8 list \<Rightarrow> nat \<Rightarrow> (u8 list \<times> nat) option" where
  "strncpy_copy dest i [] n = None"
| "strncpy_copy dest i (c # src) n =
     (if c \<noteq> 0 \<and> i < n
      then (if length dest \<le> i then None else strncpy_copy (dest[i := c]) (Suc i) src n)
      else Some (dest, i))"

function strncpy_pad :: "u8 list \<Rightarrow> nat \<Rightarrow> nat \<Rightarrow> u8 list option" where
  "strncpy_pad dest i n =
     (if i < n
      then (if length dest \<le> i then None else strncpy_pad (dest[i := 0]) (Suc i) n)
      else Some dest)"
  by pat_completeness auto
termination
  by (relation "measure (\<lambda>(dest, i, n). n - i)") auto

declare strncpy_pad.simps [simp del]

definition strncpy :: "u8 list \<Rightarrow> u8 list \<Rightarrow> nat \<Rightarrow> u8 list option" where
  "strncpy dest src n =
     (case strncpy_copy dest 0 src n of
        None \<Rightarrow> None | Some (d, i) \<Rightarrow> strncpy_pad d i n)"

section \<open>strlen and strrev\<close>

lemma strlen_cstr: "strlen s = (if 0 \<in> set s then Some (length (cstr s)) else None)"
  by (induction s) auto

lemma cstr_take: "0 \<in> set s \<Longrightarrow> take (length (cstr s)) s = cstr s"
  by (induction s) auto

lemma cstr_length_less: "0 \<in> set s \<Longrightarrow> length (cstr s) < length s"
  by (induction s) auto

lemma cstr_nth_nul: "0 \<in> set s \<Longrightarrow> s ! length (cstr s) = 0"
  by (induction s) auto

lemma cstr_decompose: "0 \<in> set s \<Longrightarrow> s = cstr s @ 0 # drop (Suc (length (cstr s))) s"
  by (metis append_take_drop_id cstr_length_less cstr_nth_nul cstr_take Cons_nth_drop_Suc)

lemma strrev_loop_length [simp]: "length (strrev_loop s b e) = length s"
proof (induction s b e rule: strrev_loop.induct)
  case (1 s beg fin)
  then show ?case by (subst strrev_loop.simps) simp
qed

lemma strrev_loop_nth:
  "0 \<le> b \<Longrightarrow> e < int (length s) \<Longrightarrow> i < length s \<Longrightarrow>
   strrev_loop s b e ! i =
     (if b \<le> int i \<and> int i \<le> e then s ! nat (b + e - int i) else s ! i)"
proof (induction s b e rule: strrev_loop.induct)
  case (1 s b e)
  show ?case
  proof (cases "b < e")
    case False
    then show ?thesis
      by (subst strrev_loop.simps) (auto simp: intro!: arg_cong[where f = "nth s"])
  next
    case True
    let ?s = "s[nat e := s ! nat b, nat b := s ! nat e]"
    have "strrev_loop s b e ! i = strrev_loop ?s (b + 1) (e - 1) ! i"
      using True by (subst strrev_loop.simps) simp
    also have "\<dots> = (if b + 1 \<le> int i \<and> int i \<le> e - 1
                     then ?s ! nat (b + 1 + (e - 1) - int i) else ?s ! i)"
      using True "1.prems" by (intro "1.IH") auto
    also have "\<dots> = (if b \<le> int i \<and> int i \<le> e then s ! nat (b + e - int i) else s ! i)"
    proof -
      have len: "nat e < length s" "nat b < length s" using True "1.prems" by auto
      consider "int i = b" | "int i = e" | "b < int i" "int i < e" | "int i < b \<or> e < int i"
        by linarith
      then show ?thesis
      proof cases
        case 1
        then have "i = nat b" by simp
        then show ?thesis using True "1.prems" len by simp
      next
        case 2
        then have "i = nat e" "nat e \<noteq> nat b" using True "1.prems" by auto
        then show ?thesis using True "1.prems" len by simp
      next
        case 3
        then have "nat (b + e - int i) \<noteq> nat e" "nat (b + e - int i) \<noteq> nat b"
          using "1.prems" by auto
        then show ?thesis using 3 by simp
      next
        case 4
        have "int (nat e) = e" "int (nat b) = b" using True "1.prems" by simp_all
        then have "i \<noteq> nat e" "i \<noteq> nat b" using 4 True by linarith+
        then show ?thesis using 4 by auto
      qed
    qed
    finally show ?thesis .
  qed
qed

lemma strrev_loop_prefix:
  "n \<le> length s \<Longrightarrow> strrev_loop s 0 (int n - 1) = rev (take n s) @ drop n s"
proof (rule nth_equalityI, goal_cases)
  case (2 i)
  then show ?case
    by (subst strrev_loop_nth) (auto simp: nth_append rev_nth intro!: arg_cong[where f = "nth s"])
qed simp

lemma strrev_correct:
  "0 \<in> set s \<Longrightarrow> strrev s = Some (rev (cstr s) @ drop (length (cstr s)) s)"
  by (simp add: strrev_def strlen_cstr strrev_loop_prefix less_imp_le cstr_length_less cstr_take)

section \<open>itoa\<close>

text \<open>The reference: the digits of a number, least significant first, and reading text back.\<close>

fun digits :: "nat \<Rightarrow> nat \<Rightarrow> nat list" where
  "digits r v = (if v = 0 \<or> r < 2 then [] else (v mod r) # digits r (v div r))"

declare digits.simps [simp del]

definition digit_char :: "nat \<Rightarrow> u8" where
  "digit_char d = lookup ! d"

definition itoa_text :: "nat \<Rightarrow> nat \<Rightarrow> u8 list" where
  "itoa_text r v = (if v = 0 then [of_char CHR ''0''] else map digit_char (rev (digits r v)))"

definition digit_value :: "u8 \<Rightarrow> nat" where
  "digit_value c = (if c < 58 then unat c - 48 else unat c - 55)"

definition atoi :: "nat \<Rightarrow> u8 list \<Rightarrow> nat" where
  "atoi r = foldl (\<lambda>acc c. acc * r + digit_value c) 0"

lemma length_lookup [simp]: "length lookup = 36"
  by (simp add: lookup_def chars_def)

lemma lookup_values: "d < 36 \<Longrightarrow> digit_value (lookup ! d) = d \<and> lookup ! d \<noteq> 0"
proof -
  have "\<forall>d \<in> set [0..<36]. digit_value (lookup ! d) = d \<and> lookup ! d \<noteq> 0"
    by code_simp
  then show "d < 36 \<Longrightarrow> digit_value (lookup ! d) = d \<and> lookup ! d \<noteq> 0" by simp
qed

lemma digits_bound: "2 \<le> r \<Longrightarrow> d \<in> set (digits r v) \<Longrightarrow> d < r"
proof (induction r v rule: digits.induct)
  case (1 r v)
  then show ?case by (subst (asm) (2) digits.simps) (auto split: if_splits)
qed

lemma digits_length: "2 \<le> r \<Longrightarrow> v < r ^ k \<Longrightarrow> length (digits r v) \<le> k"
proof (induction k arbitrary: v)
  case 0
  then show ?case by (subst digits.simps) simp
next
  case (Suc k)
  then have "v div r < r ^ k"
    by (simp add: less_mult_imp_div_less mult.commute)
  with Suc show ?case by (subst digits.simps) simp
qed

lemma digits_value: "2 \<le> r \<Longrightarrow> foldr (\<lambda>d acc. acc * r + d) (digits r v) 0 = v"
proof (induction r v rule: digits.induct)
  case (1 r v)
  then show ?case by (subst digits.simps) (auto simp: mult.commute)
qed

lemma atoi_itoa_text:
  assumes "2 \<le> r" "r \<le> 36"
  shows "atoi r (itoa_text r v) = v"
proof (cases "v = 0")
  case True
  then show ?thesis by (simp add: itoa_text_def atoi_def digit_value_def)
next
  case False
  have dv: "digit_value (digit_char d) = d" if "d \<in> set (digits r v)" for d
    using digits_bound[OF assms(1) that] assms(2) lookup_values by (simp add: digit_char_def)
  have "atoi r (itoa_text r v) = foldr (\<lambda>d acc. acc * r + digit_value (digit_char d)) (digits r v) 0"
    using False by (simp add: atoi_def itoa_text_def foldl_conv_foldr rev_map foldr_map o_def)
  also have "\<dots> = foldr (\<lambda>d acc. acc * r + d) (digits r v) 0"
    using dv by (intro foldr_cong) auto
  finally show ?thesis using digits_value[OF assms(1)] by simp
qed

lemma itoa_text_nonzero:
  assumes "2 \<le> r" "r \<le> 36"
  shows "0 \<notin> set (itoa_text r v)"
proof -
  have "digit_char d \<noteq> 0" if "d \<in> set (digits r v)" for d
    using digits_bound[OF assms(1) that] assms(2) lookup_values by (simp add: digit_char_def)
  then show ?thesis by (auto simp: itoa_text_def)
qed

lemma itoa_loop_correct:
  "2 \<le> unat radix \<Longrightarrow> unat radix \<le> 36 \<Longrightarrow>
   pos + length (digits (unat radix) (unat v)) \<le> length buf \<Longrightarrow>
   itoa_loop v radix buf pos =
     Some (take pos buf @ map digit_char (digits (unat radix) (unat v))
             @ drop (pos + length (digits (unat radix) (unat v))) buf,
           pos + length (digits (unat radix) (unat v)))"
proof (induction "unat v" arbitrary: v buf pos rule: less_induct)
  case less
  show ?case
  proof (cases "v = 0")
    case True
    then show ?thesis by (simp add: itoa_loop.simps digits.simps)
  next
    case False
    let ?r = "unat radix"
    let ?d = "unat (v mod radix)"
    have v0: "unat v \<noteq> 0" using False by (simp add: unat_eq_zero)
    have ds: "digits ?r (unat v) = ?d # digits ?r (unat (v div radix))"
      using v0 less.prems by (subst digits.simps) (simp add: unat_mod unat_div)
    have dlt: "?d < ?r" using less.prems by (simp add: unat_mod)
    have smaller: "unat (v div radix) < unat v"
      using v0 less.prems by (simp add: unat_div)
    have pos: "pos < length buf" using less.prems ds by simp
    have step: "itoa_loop v radix buf pos
        = itoa_loop (v div radix) radix (buf[pos := lookup ! ?d]) (Suc pos)"
      using False dlt less.prems pos by (subst itoa_loop.simps) auto
    have "itoa_loop (v div radix) radix (buf[pos := lookup ! ?d]) (Suc pos) =
        Some (take (Suc pos) (buf[pos := lookup ! ?d])
               @ map digit_char (digits ?r (unat (v div radix)))
               @ drop (Suc pos + length (digits ?r (unat (v div radix)))) (buf[pos := lookup ! ?d]),
             Suc pos + length (digits ?r (unat (v div radix))))"
      using less.prems ds by (intro less.hyps[OF smaller]) simp_all
    then show ?thesis
      using step ds pos by (simp add: take_Suc_conv_app_nth digit_char_def drop_update_cancel)
  qed
qed

lemma itoa_correct:
  assumes r: "2 \<le> unat radix" "unat radix \<le> 36"
    and room: "length (itoa_text (unat radix) (unat v)) < length buf"
  shows "itoa v buf radix =
    Some (itoa_text (unat radix) (unat v)
          @ 0 # drop (Suc (length (itoa_text (unat radix) (unat v)))) buf)"
proof (cases "v = 0")
  case True
  then obtain a b bs where "buf = a # b # bs"
    using room by (cases buf; cases "tl buf") (auto simp: itoa_text_def)
  with True show ?thesis by (simp add: itoa_def itoa_text_def)
next
  case False
  let ?ds = "digits (unat radix) (unat v)"
  have v0: "unat v \<noteq> 0" using False by (simp add: unat_eq_zero)
  have txt_eq: "itoa_text (unat radix) (unat v) = rev (map digit_char ?ds)"
    using v0 by (simp add: itoa_text_def rev_map)
  have loop: "itoa_loop v radix buf 0 = Some (map digit_char ?ds @ drop (length ?ds) buf, length ?ds)"
    using room txt_eq r by (subst itoa_loop_correct) auto
  have nz: "0 \<notin> set (map digit_char ?ds)"
    using itoa_text_nonzero[OF r, of "unat v"] txt_eq by simp
  have len: "length ?ds < length buf" using room txt_eq by simp
  then have nul: "(map digit_char ?ds @ drop (length ?ds) buf)[length ?ds := 0]
      = map digit_char ?ds @ 0 # drop (Suc (length ?ds)) buf"
    by (simp add: list_update_append Cons_nth_drop_Suc[symmetric])
  have "itoa v buf radix = strrev (map digit_char ?ds @ 0 # drop (Suc (length ?ds)) buf)"
    using False loop nul len by (simp add: itoa_def)
  also have "\<dots> = Some (rev (map digit_char ?ds) @ 0 # drop (Suc (length ?ds)) buf)"
    using nz by (subst strrev_correct) (simp_all add: cstr_append_nul)
  finally show ?thesis using txt_eq by simp
qed

lemma itoa_text_length:
  assumes "2 \<le> r" "v < r ^ k" "0 < k"
  shows "length (itoa_text r v) \<le> k"
  using digits_length[OF assms(1,2)] assms(3) by (simp add: itoa_text_def)

section \<open>strncmp, strcpy and strncpy\<close>

lemma strncmp_zero_iff:
  "0 \<in> set (take n s1) \<or> n \<le> length s1 \<Longrightarrow> n \<le> length s2 \<Longrightarrow>
   strncmp s1 s2 n = Some 0 \<longleftrightarrow> take n (cstr s1) = take n (cstr s2)"
proof (induction s1 s2 n rule: strncmp.induct)
  case (2 a s1 b s2 n)
  then show ?case by (auto simp: signed_eq_0_iff dest: signed_word_eqI)
qed auto

lemma strncmp_returns:
  "0 \<in> set (take n s1) \<or> n \<le> length s1 \<Longrightarrow> n \<le> length s2 \<Longrightarrow> \<exists>r. strncmp s1 s2 n = Some r"
  by (induction s1 s2 n rule: strncmp.induct) auto

lemma strcpy_from_correct:
  "0 \<in> set src \<Longrightarrow> i + length (cstr src) < length dest \<Longrightarrow>
   strcpy_from dest i src =
     Some (take i dest @ cstr src @ 0 # drop (Suc (i + length (cstr src))) dest)"
proof (induction dest i src rule: strcpy_from.induct)
  case (2 dest i c src)
  then show ?case
    by (auto simp: upd_conv_take_nth_drop take_Suc_conv_app_nth add.commute)
qed simp

lemma strcpy_correct:
  "0 \<in> set src \<Longrightarrow> length (cstr src) < length dest \<Longrightarrow>
   strcpy dest src = Some (cstr src @ 0 # drop (Suc (length (cstr src))) dest)"
  by (simp add: strcpy_def strcpy_from_correct)

lemma strncpy_copy_correct:
  "i \<le> n \<Longrightarrow> n \<le> length dest \<Longrightarrow> 0 \<in> set (take (Suc (n - i)) src) \<or> n - i < length src \<Longrightarrow>
   strncpy_copy dest i src n =
     Some (take i dest @ take (n - i) (cstr src) @ drop (i + length (take (n - i) (cstr src))) dest,
           i + length (take (n - i) (cstr src)))"
proof (induction dest i src n rule: strncpy_copy.induct)
  case (2 dest i c src n)
  show ?case
  proof (cases "c \<noteq> 0 \<and> i < n")
    case True
    then have "n - i = Suc (n - Suc i)" by (simp add: Suc_diff_Suc)
    with True 2 show ?thesis
      by (auto simp: take_Suc_conv_app_nth drop_update_cancel)
  next
    case False
    then show ?thesis using 2 by auto
  qed
qed simp

lemma strncpy_pad_correct:
  "i \<le> n \<Longrightarrow> n \<le> length dest \<Longrightarrow>
   strncpy_pad dest i n = Some (take i dest @ replicate (n - i) 0 @ drop n dest)"
proof (induction dest i n rule: strncpy_pad.induct)
  case (1 dest i n)
  show ?case
  proof (cases "i < n")
    case True
    then have "n - i = Suc (n - Suc i)" by (simp add: Suc_diff_Suc)
    with True 1 show ?thesis
      by (subst strncpy_pad.simps) (simp add: take_Suc_conv_app_nth)
  next
    case False
    with 1 show ?thesis by (subst strncpy_pad.simps) simp
  qed
qed

lemma strncpy_correct:
  assumes "n \<le> length dest" "0 \<in> set (take (Suc n) src) \<or> n < length src"
  shows "strncpy dest src n =
    Some (take n (cstr src) @ replicate (n - length (cstr src)) 0 @ drop n dest)"
proof -
  let ?k = "length (take n (cstr src))"
  have "strncpy_copy dest 0 src n = Some (take n (cstr src) @ drop ?k dest, ?k)"
    using assms by (subst strncpy_copy_correct) simp_all
  then show ?thesis
    using assms by (simp add: strncpy_def strncpy_pad_correct min_def)
qed

end
