(* ===== verification/Lib_Mem.thy ===== *)
theory Lib_Mem
  imports Prelude
begin

text \<open>
  The memory routines of student-distrib/lib.c, which are inline assembly: \<open>memset\<close>,
  \<open>memset_word\<close>, \<open>memset_dword\<close>, \<open>memcpy\<close> and \<open>memmove\<close>.  The model follows the labels of the
  assembly (byte steps until the destination is 4-aligned, then \<open>rep stosl\<close>/\<open>rep movsl\<close>, then the
  remaining bytes) with \<open>edi\<close>, \<open>esi\<close> and \<open>ecx\<close> as natural numbers: no object wraps around the
  address space.  The reference operations are \<open>fill\<close> and \<open>copy\<close>.
\<close>

section \<open>Reference operations\<close>

definition fill :: "mem \<Rightarrow> nat \<Rightarrow> u8 \<Rightarrow> nat \<Rightarrow> mem" where
  "fill m a c n = (\<lambda>x. if a \<le> x \<and> x < a + n then c else m x)"

definition copy :: "mem \<Rightarrow> nat \<Rightarrow> nat \<Rightarrow> nat \<Rightarrow> mem" where
  "copy m dest src n = (\<lambda>x. if dest \<le> x \<and> x < dest + n then m (src + (x - dest)) else m x)"

lemma fill_0 [simp]: "fill m a c 0 = m"
  by (rule ext) (auto simp: fill_def)

lemma copy_0 [simp]: "copy m d s 0 = m"
  by (rule ext) (auto simp: copy_def)

section \<open>memset\<close>

fun rep_stosl :: "mem \<Rightarrow> nat \<Rightarrow> nat \<Rightarrow> u32 \<Rightarrow> mem" where
  "rep_stosl m edi 0 eax = m"
| "rep_stosl m edi (Suc ecx) eax = rep_stosl (store m edi (le32 eax)) (edi + 4) ecx eax"

fun memset_bottom :: "mem \<Rightarrow> nat \<Rightarrow> nat \<Rightarrow> u8 \<Rightarrow> mem" where
  "memset_bottom m edi 0 al = m"
| "memset_bottom m edi (Suc edx) al = memset_bottom (m(edi := al)) (Suc edi) edx al"

definition memset_aligned :: "mem \<Rightarrow> nat \<Rightarrow> nat \<Rightarrow> u32 \<Rightarrow> mem" where
  "memset_aligned m edi ecx eax =
     memset_bottom (rep_stosl m edi (ecx div 4) eax) (edi + 4 * (ecx div 4)) (ecx mod 4) (ucast eax)"

fun memset_top :: "mem \<Rightarrow> nat \<Rightarrow> nat \<Rightarrow> u32 \<Rightarrow> mem" where
  "memset_top m edi 0 eax = m"
| "memset_top m edi (Suc ecx) eax =
     (if edi mod 4 = 0 then memset_aligned m edi (Suc ecx) eax
      else memset_top (m(edi := ucast eax)) (Suc edi) ecx eax)"

definition memset :: "mem \<Rightarrow> nat \<Rightarrow> u32 \<Rightarrow> nat \<Rightarrow> mem" where
  "memset m s c n =
     (let c = c AND 0xFF;
          eax = push_bit 24 c OR push_bit 16 c OR push_bit 8 c OR c
      in memset_top m s n eax)"

fun rep_stosw :: "mem \<Rightarrow> nat \<Rightarrow> nat \<Rightarrow> u32 \<Rightarrow> mem" where
  "rep_stosw m edi 0 eax = m"
| "rep_stosw m edi (Suc ecx) eax =
     rep_stosw (store m edi [ucast eax, ucast (drop_bit 8 eax)]) (edi + 2) ecx eax"

definition memset_word :: "mem \<Rightarrow> nat \<Rightarrow> u32 \<Rightarrow> nat \<Rightarrow> mem" where
  "memset_word m s c n = rep_stosw m s n c"

definition memset_dword :: "mem \<Rightarrow> nat \<Rightarrow> u32 \<Rightarrow> nat \<Rightarrow> mem" where
  "memset_dword m s c n = rep_stosl m s n c"

lemma rep_stosl_apply:
  "rep_stosl m a n w x =
     (if a \<le> x \<and> x < a + 4 * n then le32 w ! ((x - a) mod 4) else m x)"
proof (induction n arbitrary: m a)
  case (Suc n)
  consider "x < a" | "a \<le> x" "x < a + 4" | "a + 4 \<le> x" by linarith
  then show ?case
  proof cases
    case 3
    then have "x - a = (x - (a + 4)) + 4" by simp
    then have "(x - (a + 4)) mod 4 = (x - a) mod 4" by (metis mod_add_self2)
    with 3 show ?thesis by (simp add: Suc.IH store_apply)
  qed (simp_all add: Suc.IH store_apply)
qed auto

lemma rep_stosw_apply:
  "rep_stosw m a n w x =
     (if a \<le> x \<and> x < a + 2 * n then le32 w ! ((x - a) mod 2) else m x)"
proof (induction n arbitrary: m a)
  case (Suc n)
  consider "x < a" | "a = x" | "x = Suc a" | "a + 2 \<le> x" by linarith
  then show ?case
  proof cases
    case 3
    have "rep_stosw m a (Suc n) w x = store m a [ucast w, ucast (drop_bit 8 w)] x"
      by (simp only: rep_stosw.simps Suc.IH) (simp add: 3)
    with 3 show ?thesis by (simp add: le32_def)
  next
    case 4
    then have "x - a = (x - (a + 2)) + 2" by simp
    then have "(x - (a + 2)) mod 2 = (x - a) mod 2" by (metis mod_add_self2)
    with 4 show ?thesis by (simp add: Suc.IH store_apply)
  qed (simp_all add: Suc.IH store_apply le32_def)
qed auto

lemma memset_bottom_fill: "memset_bottom m a n c = fill m a c n"
proof (induction m a n c rule: memset_bottom.induct)
  case (2 m a n c)
  have "memset_bottom m a (Suc n) c = fill (m(a := c)) (Suc a) c n"
    by (simp add: 2 del: fun_upd_apply)
  then show ?case by (auto simp: fill_def fun_eq_iff)
qed simp

definition same_bytes :: "u32 \<Rightarrow> bool" where
  "same_bytes w \<longleftrightarrow> le32 w = replicate 4 (ucast w)"

lemma rep_stosl_fill: "same_bytes w \<Longrightarrow> rep_stosl m a n w = fill m a (ucast w) (4 * n)"
  by (auto simp: fun_eq_iff rep_stosl_apply fill_def same_bytes_def)

lemma fill_fill: "fill (fill m a c k) (a + k) c n = fill m a c (k + n)"
  by (auto simp: fill_def fun_eq_iff)

lemma memset_aligned_fill: "same_bytes w \<Longrightarrow> memset_aligned m a n w = fill m a (ucast w) n"
  by (simp add: memset_aligned_def memset_bottom_fill rep_stosl_fill fill_fill)

lemma memset_top_fill: "same_bytes w \<Longrightarrow> memset_top m a n w = fill m a (ucast w) n"
proof (induction m a n w rule: memset_top.induct)
  case (2 m a n w)
  show ?case
  proof (cases "a mod 4 = 0")
    case True
    with 2 show ?thesis by (simp add: memset_aligned_fill)
  next
    case False
    with 2 have "memset_top m a (Suc n) w = fill (m(a := ucast w)) (Suc a) (ucast w) n"
      by (simp del: fun_upd_apply)
    then show ?thesis by (auto simp: fill_def fun_eq_iff)
  qed
qed simp

lemma spread_byte:
  fixes c :: u32
  defines "b \<equiv> c AND 0xFF"
  defines "w \<equiv> push_bit 24 b OR push_bit 16 b OR push_bit 8 b OR b"
  shows "same_bytes w" and "ucast w = (ucast c :: u8)"
proof -
  have b: "bit b n \<longleftrightarrow> n < 8 \<and> bit c n" for n
  proof -
    have "b = take_bit 8 c"
      by (simp add: b_def take_bit_eq_mask mask_eq_exp_minus_1)
    then show ?thesis by (auto simp: bit_simps)
  qed
  show 1: "ucast w = (ucast c :: u8)"
    by (rule bit_word_eqI) (auto simp: w_def b bit_simps)
  have "(ucast (drop_bit k w) :: u8) = ucast c" if "k \<in> {8, 16, 24}" for k
    using that by (intro bit_word_eqI) (auto simp: w_def b bit_simps)
  then show "same_bytes w"
    using 1 by (simp add: same_bytes_def le32_def numeral_eq_Suc)
qed

lemma memset_correct: "memset m s c n = fill m s (ucast c) n"
  using spread_byte[of c] by (simp add: memset_def Let_def memset_top_fill)

section \<open>memcpy and memmove\<close>

fun rep_movsl :: "mem \<Rightarrow> nat \<Rightarrow> nat \<Rightarrow> nat \<Rightarrow> mem" where
  "rep_movsl m edi esi 0 = m"
| "rep_movsl m edi esi (Suc ecx) =
     rep_movsl (store m edi (load m esi 4)) (edi + 4) (esi + 4) ecx"

text \<open>Byte moves upwards: the \<open>movb\<close> loops of \<open>memcpy\<close>, and \<open>rep movsb\<close> with DF clear.\<close>

fun movsb_up :: "mem \<Rightarrow> nat \<Rightarrow> nat \<Rightarrow> nat \<Rightarrow> mem" where
  "movsb_up m edi esi 0 = m"
| "movsb_up m edi esi (Suc ecx) = movsb_up (m(edi := m esi)) (Suc edi) (Suc esi) ecx"

text \<open>\<open>rep movsb\<close> with DF set: both pointers step down.\<close>

fun movsb_down :: "mem \<Rightarrow> nat \<Rightarrow> nat \<Rightarrow> nat \<Rightarrow> mem" where
  "movsb_down m edi esi 0 = m"
| "movsb_down m edi esi (Suc ecx) = movsb_down (m(edi := m esi)) (edi - 1) (esi - 1) ecx"

definition memcpy_aligned :: "mem \<Rightarrow> nat \<Rightarrow> nat \<Rightarrow> nat \<Rightarrow> mem" where
  "memcpy_aligned m edi esi ecx =
     movsb_up (rep_movsl m edi esi (ecx div 4)) (edi + 4 * (ecx div 4)) (esi + 4 * (ecx div 4))
       (ecx mod 4)"

fun memcpy_top :: "mem \<Rightarrow> nat \<Rightarrow> nat \<Rightarrow> nat \<Rightarrow> mem" where
  "memcpy_top m edi esi 0 = m"
| "memcpy_top m edi esi (Suc ecx) =
     (if edi mod 4 = 0 then memcpy_aligned m edi esi (Suc ecx)
      else memcpy_top (m(edi := m esi)) (Suc edi) (Suc esi) ecx)"

definition memcpy :: "mem \<Rightarrow> nat \<Rightarrow> nat \<Rightarrow> nat \<Rightarrow> mem" where
  "memcpy m dest src n = memcpy_top m dest src n"

text \<open>\<open>memmove\<close> also returns the direction flag it leaves behind.\<close>

definition memmove :: "mem \<Rightarrow> nat \<Rightarrow> nat \<Rightarrow> nat \<Rightarrow> mem \<times> bool" where
  "memmove m dest src n =
     (if dest \<le> src then (movsb_up m dest src n, False)
      else (movsb_down m (dest + n - 1) (src + n - 1) n, True))"

definition forward_ok :: "nat \<Rightarrow> nat \<Rightarrow> nat \<Rightarrow> bool" where
  "forward_ok dest src n \<longleftrightarrow> dest \<le> src \<or> src + n \<le> dest"

lemma forward_ok_step: "forward_ok d s (k + n) \<Longrightarrow> forward_ok (d + k) (s + k) n"
  by (auto simp: forward_ok_def)

lemma movsb_up_copy: "forward_ok d s n \<Longrightarrow> movsb_up m d s n = copy m d s n"
proof (induction m d s n rule: movsb_up.induct)
  case (1 m d s)
  then show ?case by simp
next
  case (2 m d s n)
  have "forward_ok (Suc d) (Suc s) n" using forward_ok_step[of d s 1 n] "2.prems" by simp
  with 2 have "movsb_up m d s (Suc n) = copy (m(d := m s)) (Suc d) (Suc s) n"
    by (simp del: fun_upd_apply)
  also have "\<dots> = copy m d s (Suc n)"
  proof
    fix x
    consider "x < d" | "x = d" | "d < x" "x < d + Suc n" | "d + Suc n \<le> x" by linarith
    then show "copy (m(d := m s)) (Suc d) (Suc s) n x = copy m d s (Suc n) x"
      using "2.prems" by cases (auto simp: copy_def forward_ok_def Suc_diff_Suc)
  qed
  finally show ?case .
qed

lemma movsb_up_add: "movsb_up m d s (k + n) = movsb_up (movsb_up m d s k) (d + k) (s + k) n"
  by (induction m d s k rule: movsb_up.induct) (simp_all del: fun_upd_apply)

lemma movsl_movsb:
  assumes "forward_ok d s 4"
  shows "store m d (load m s 4) = movsb_up m d s 4"
  using assms
  by (auto simp: movsb_up_copy fun_eq_iff store_apply copy_def)

lemma rep_movsl_movsb: "forward_ok d s (4 * n) \<Longrightarrow> rep_movsl m d s n = movsb_up m d s (4 * n)"
proof (induction m d s n rule: rep_movsl.induct)
  case (2 m d s n)
  have "forward_ok d s 4" "forward_ok (d + 4) (s + 4) (4 * n)"
    using "2.prems" by (auto simp: forward_ok_def)
  with 2 show ?case
    using movsb_up_add[of m d s 4 "4 * n"] by (simp add: movsl_movsb)
qed simp

lemma memcpy_aligned_movsb:
  assumes "forward_ok d s n"
  shows "memcpy_aligned m d s n = movsb_up m d s n"
proof -
  have "forward_ok d s (4 * (n div 4))" using assms by (auto simp: forward_ok_def)
  then show ?thesis
    using movsb_up_add[of m d s "4 * (n div 4)" "n mod 4"]
    by (simp add: memcpy_aligned_def rep_movsl_movsb)
qed

lemma memcpy_top_movsb: "forward_ok d s n \<Longrightarrow> memcpy_top m d s n = movsb_up m d s n"
proof (induction m d s n rule: memcpy_top.induct)
  case (2 m d s n)
  have "forward_ok (Suc d) (Suc s) n" using forward_ok_step[of d s 1 n] "2.prems" by simp
  with 2 show ?case by (simp add: memcpy_aligned_movsb del: fun_upd_apply)
qed simp

lemma memcpy_correct: "forward_ok d s n \<Longrightarrow> memcpy m d s n = copy m d s n"
  by (simp add: memcpy_def memcpy_top_movsb movsb_up_copy)

lemma movsb_down_copy:
  "s < d \<Longrightarrow> movsb_down m (d + n - 1) (s + n - 1) n = copy m d s n"
proof (induction n arbitrary: m)
  case 0
  then show ?case by simp
next
  case (Suc n)
  have "movsb_down m (d + Suc n - 1) (s + Suc n - 1) (Suc n)
      = movsb_down (m(d + n := m (s + n))) (d + n - 1) (s + n - 1) n" by simp
  also have "\<dots> = copy (m(d + n := m (s + n))) d s n" using Suc by simp
  also have "\<dots> = copy m d s (Suc n)"
  proof
    fix x
    consider "x < d" | "d \<le> x" "x < d + n" | "x = d + n" | "d + n < x" by linarith
    then show "copy (m(d + n := m (s + n))) d s n x = copy m d s (Suc n) x"
      using Suc.prems by cases (auto simp: copy_def)
  qed
  finally show ?case .
qed

lemma memmove_correct: "fst (memmove m d s n) = copy m d s n"
  using movsb_down_copy[of s d m n] by (simp add: memmove_def movsb_up_copy forward_ok_def)

lemma memmove_df: "snd (memmove m d s n) \<longleftrightarrow> s < d"
  by (auto simp: memmove_def)

end
