(* ===== verification/Kernel_State.thy ===== *)
theory Kernel_State
  imports Prelude
begin

text \<open>
  The global state of the kernel (types.h and the globals of the .c files): the terminal and
  process-control structures, the interrupt masks, page tables and TSS fields, the file-system
  image, and one byte-addressed store for physical memory (video memory and user pages).  Port
  output is a log; port input is an argument of the routine that reads the port.

  Not in the state: \<open>test_flag\<close>, a debugging mark that is written and never read, and the fields
  of types.h that no code uses.
\<close>

section \<open>Structures of types.h\<close>

text \<open>
  The operation tables of kernel.c are seven constants; a \<open>table_ptr\<close> is the name of one.
  \<open>int32_t\<close> fields that the code only compares with small constants are \<open>int\<close> or, where the code
  guards every decrement, \<open>nat\<close>; \<open>uint32_t\<close> fields are words.
\<close>

datatype op_table =
    files_operations | directories_operations | stdin_operations | stdout_operations
  | rtc_operations | terminal_operations | nothing_operations

record terminal_t =
  tempbuf :: "u8 list"
  videoMem :: nat
  terminal_id :: int
  line_length :: nat
  read_length :: nat
  cur_x :: nat
  cur_y :: nat
  pid :: int
  parentpid :: int
  halt_flag :: int
  shift_up_one_flag :: int
  init_flag :: int
  enter_flag :: int
  rtc_flag :: int
  rtc_counter :: u32
  rtc_target :: u32

record file_desct =
  table_ptr :: op_table
  inode_num :: u32
  file_position :: u32
  flags :: u32

record pcb_t =
  file_desc_array :: "nat \<Rightarrow> file_desct"
  pcb_active :: u32
  process_id :: u32
  parent_process_id :: u32
  task_esp :: u32
  task_ebp :: u32
  active_esp :: u32
  active_ebp :: u32
  terminal_cmd :: "u8 list"
  terminal_on :: int

section \<open>The kernel globals\<close>

text \<open>
  \<open>stack_junk\<close> stands for the bytes an uninitialised local variable holds; \<open>page_table_addr\<close> and
  \<open>page_table_video_addr\<close> are the addresses the linker gave the two page tables.  \<open>tlb_fresh\<close> says
  that no page structure was written since the TLB was last flushed.
\<close>

record kernel =
  if_flag :: bool
  outs :: "(nat \<times> u8) list"
  master_mask :: u8
  slave_mask :: u8
  phys :: mem
  terminal :: "nat \<Rightarrow> terminal_t"
  active_terminal :: nat
  displayed_terminal :: nat
  done_init_terminal :: int
  init_count :: int
  caps :: u32
  shift_key :: u32
  control_key :: u32
  alt_key :: u32
  str_len :: nat
  page_directory :: "nat \<Rightarrow> u32"
  page_table :: "nat \<Rightarrow> u32"
  page_table_video :: "nat \<Rightarrow> u32"
  page_table_addr :: u32
  page_table_video_addr :: u32
  cr0 :: u32
  cr4 :: u32
  tlb_fresh :: bool
  tss_ss0 :: u32
  tss_esp0 :: u32
  pid_array :: "nat \<Rightarrow> int"
  curr_pid :: int
  save_parent_pid :: int
  pcbs :: "u32 \<Rightarrow> pcb_t"
  fs :: mem
  inodesCount :: u32
  data_count_blk :: u32
  internalCounter :: int
  large_text_blk_count :: u32
  shared_btw_terminal_fs_drivers :: int
  stack_junk :: mem

section \<open>Interrupt flag, ports, field updates\<close>

definition cli :: "kernel \<Rightarrow> kernel" where
  "cli s = s\<lparr>if_flag := False\<rparr>"

definition sti :: "kernel \<Rightarrow> kernel" where
  "sti s = s\<lparr>if_flag := True\<rparr>"

definition outb :: "u8 \<Rightarrow> nat \<Rightarrow> kernel \<Rightarrow> kernel" where
  "outb data port s = s\<lparr>outs := outs s @ [(port, data)]\<rparr>"

definition upd_term :: "nat \<Rightarrow> (terminal_t \<Rightarrow> terminal_t) \<Rightarrow> kernel \<Rightarrow> kernel" where
  "upd_term t f s = s\<lparr>terminal := (terminal s)(t := f (terminal s t))\<rparr>"

definition upd_pcb :: "u32 \<Rightarrow> (pcb_t \<Rightarrow> pcb_t) \<Rightarrow> kernel \<Rightarrow> kernel" where
  "upd_pcb a f s = s\<lparr>pcbs := (pcbs s)(a := f (pcbs s a))\<rparr>"

definition upd_fd :: "nat \<Rightarrow> (file_desct \<Rightarrow> file_desct) \<Rightarrow> pcb_t \<Rightarrow> pcb_t" where
  "upd_fd i f p = p\<lparr>file_desc_array := (file_desc_array p)(i := f (file_desc_array p i))\<rparr>"

definition poke :: "nat \<Rightarrow> u8 \<Rightarrow> kernel \<Rightarrow> kernel" where
  "poke a b s = s\<lparr>phys := (phys s)(a := b)\<rparr>"

lemmas state_simps = cli_def sti_def outb_def upd_term_def upd_pcb_def poke_def

abbreviation active_term :: "kernel \<Rightarrow> terminal_t" where
  "active_term s \<equiv> terminal s (active_terminal s)"

abbreviation displayed_term :: "kernel \<Rightarrow> terminal_t" where
  "displayed_term s \<equiv> terminal s (displayed_terminal s)"

section \<open>Waiting\<close>

text \<open>
  A busy wait of the kernel (\<open>while (flag == v);\<close>) re-tests its condition while interrupt
  handlers run.  The list holds what happens between two consecutive tests of the waiting
  process; \<open>Blocked\<close> is a list that ends before the condition holds.
\<close>

fun wait_until :: "(kernel \<Rightarrow> bool) \<Rightarrow> (kernel \<Rightarrow> kernel) list \<Rightarrow> kernel \<Rightarrow> kernel outcome" where
  "wait_until c evs s =
     (if c s then Done s
      else (case evs of [] \<Rightarrow> Blocked | e # es \<Rightarrow> wait_until c es (e s)))"

declare wait_until.simps [simp del]

lemma wait_until_now [simp]: "c s \<Longrightarrow> wait_until c evs s = Done s"
  by (simp add: wait_until.simps)

lemma wait_until_Nil [simp]: "\<not> c s \<Longrightarrow> wait_until c [] s = Blocked"
  by (simp add: wait_until.simps)

lemma wait_until_Cons [simp]: "\<not> c s \<Longrightarrow> wait_until c (e # es) s = wait_until c es (e s)"
  by (simp add: wait_until.simps)

lemma wait_until_no_fault: "wait_until c evs s \<noteq> Fault f"
  by (induction evs arbitrary: s) (subst wait_until.simps, simp)+

lemma wait_until_cond: "wait_until c evs s = Done s' \<Longrightarrow> c s'"
proof (induction evs arbitrary: s)
  case Nil
  then show ?case by (cases "c s") auto
next
  case (Cons e es)
  then show ?case by (cases "c s") auto
qed

text \<open>What every event keeps, the wait keeps.\<close>

lemma wait_until_keeps:
  "wait_until c evs s = Done s' \<Longrightarrow> P s \<Longrightarrow> (\<And>e x. e \<in> set evs \<Longrightarrow> P x \<Longrightarrow> P (e x)) \<Longrightarrow> P s'"
proof (induction evs arbitrary: s)
  case Nil
  then show ?case by (cases "c s") auto
next
  case (Cons e es)
  then show ?case by (cases "c s") auto
qed

lemma wait_until_replicate:
  "(\<And>j. j < n \<Longrightarrow> \<not> c ((f ^^ j) s)) \<Longrightarrow> c ((f ^^ n) s) \<Longrightarrow>
   wait_until c (replicate k f) s = (if n \<le> k then Done ((f ^^ n) s) else Blocked)"
proof (induction n arbitrary: s k)
  case (Suc n)
  have now: "\<not> c s" using Suc.prems(1)[of 0] by simp
  show ?case
  proof (cases k)
    case (Suc k')
    have "\<not> c ((f ^^ j) (f s))" if "j < n" for j
      using Suc.prems(1)[of "Suc j"] that by (simp add: funpow_swap1)
    moreover have "c ((f ^^ n) (f s))" using Suc.prems(2) by (simp add: funpow_swap1)
    ultimately have "wait_until c (replicate k' f) (f s) =
        (if n \<le> k' then Done ((f ^^ n) (f s)) else Blocked)"
      by (rule Suc.IH)
    with Suc now show ?thesis by (simp add: funpow_swap1)
  qed (simp add: now)
qed simp

end
