(* ===== verification/I8259.thy ===== *)
theory I8259
  imports Kernel_State
begin

text \<open>
  The interrupt controller driver, student-distrib/i8259.c: the two mask registers mirrored in
  \<open>master_mask\<close> and \<open>slave_mask\<close>, the bytes sent to the ports, and the contract (locale
  \<open>irq_lines\<close>) that the device drivers rely on when they enable their line.
\<close>

abbreviation (input) "MASTER_8259_PORT \<equiv> (0x20::nat)"
abbreviation (input) "SLAVE_8259_PORT \<equiv> (0xA0::nat)"
abbreviation (input) "MASTER_8259_DATA \<equiv> (0x21::nat)"
abbreviation (input) "SLAVE_8259_DATA \<equiv> (0xA1::nat)"
abbreviation (input) "SLAVEIRQ \<equiv> (2::u32)"
abbreviation (input) "EOI \<equiv> (0x60::u8)"

section \<open>Operations\<close>

definition enable_irq :: "u32 \<Rightarrow> kernel \<Rightarrow> kernel" where
  "enable_irq irq s =
     (if irq \<ge> 16 then s
      else if irq < 8
      then (let v = ucast (NOT (push_bit (unat irq) (1::u32)) AND ucast (master_mask s))
            in outb v MASTER_8259_DATA (s\<lparr>master_mask := v\<rparr>))
      else (let v = ucast (NOT (push_bit (unat (irq - 8)) (1::u32)) AND ucast (slave_mask s))
            in outb v SLAVE_8259_DATA (s\<lparr>slave_mask := v\<rparr>)))"

definition disable_irq :: "u32 \<Rightarrow> kernel \<Rightarrow> kernel" where
  "disable_irq irq s =
     (if irq \<ge> 16 then s
      else if irq < 8
      then (let v = ucast (push_bit (unat irq) (1::u32) OR ucast (master_mask s))
            in outb v MASTER_8259_DATA (s\<lparr>master_mask := v\<rparr>))
      else (let v = ucast (push_bit (unat (irq - 8)) (1::u32) OR ucast (slave_mask s))
            in outb v SLAVE_8259_DATA (s\<lparr>slave_mask := v\<rparr>)))"

definition send_eoi :: "u32 \<Rightarrow> kernel \<Rightarrow> kernel" where
  "send_eoi irq s =
     (if irq \<ge> 16 then s
      else if irq \<ge> 8
      then outb (EOI OR ucast SLAVEIRQ) MASTER_8259_PORT
             (outb (EOI OR ucast (irq - 8)) SLAVE_8259_PORT s)
      else outb (EOI OR ucast irq) MASTER_8259_PORT s)"

definition i8259_init :: "kernel \<Rightarrow> kernel" where
  "i8259_init s =
     (let s = cli s;
          s = outb 0x11 MASTER_8259_PORT s;
          s = outb 0x11 SLAVE_8259_PORT s;
          s = outb 0x20 MASTER_8259_DATA s;
          s = outb 0x28 SLAVE_8259_DATA s;
          s = outb 0x04 MASTER_8259_DATA s;
          s = outb 0x02 SLAVE_8259_DATA s;
          s = outb 0x01 MASTER_8259_DATA s;
          s = outb 0x01 SLAVE_8259_DATA s
      in sti (enable_irq SLAVEIRQ s))"

section \<open>The line contract\<close>

definition irq_on :: "kernel \<Rightarrow> nat \<Rightarrow> bool" where
  "irq_on s k \<longleftrightarrow> (if k < 8 then \<not> bit (master_mask s) k else k < 16 \<and> \<not> bit (slave_mask s) (k - 8))"

locale irq_lines =
  fixes en :: "u32 \<Rightarrow> 's \<Rightarrow> 's"
    and dis :: "u32 \<Rightarrow> 's \<Rightarrow> 's"
    and on :: "'s \<Rightarrow> nat \<Rightarrow> bool"
  assumes on_en: "on (en irq s) k \<longleftrightarrow> on s k \<or> (irq < 16 \<and> k = unat irq)"
    and on_dis: "on (dis irq s) k \<longleftrightarrow> on s k \<and> \<not> (irq < 16 \<and> k = unat irq)"
begin

lemma enable_all: "on (fold en irqs s) k \<longleftrightarrow> on s k \<or> (\<exists>irq \<in> set irqs. irq < 16 \<and> k = unat irq)"
  by (induction irqs arbitrary: s) (auto simp: on_en)

lemma dis_en_restores:
  "\<not> on s (unat irq) \<Longrightarrow> on (dis irq (en irq s)) k \<longleftrightarrow> on s k"
  by (auto simp: on_en on_dis)

lemma en_comm: "on (en i (en j s)) k \<longleftrightarrow> on (en j (en i s)) k"
  by (auto simp: on_en)

end

lemma u32_16_cases: "irq < (16::u32) \<Longrightarrow> unat irq < 16"
  by (simp add: word_less_nat_alt)

lemma unat_sub_8: "8 \<le> irq \<Longrightarrow> unat (irq - (8::u32)) = unat irq - 8"
  by (simp add: unat_sub)

lemma irq_on_enable:
  "irq_on (enable_irq irq s) k \<longleftrightarrow> irq_on s k \<or> (irq < 16 \<and> k = unat irq)"
proof (cases "irq < 16")
  case False
  then show ?thesis by (auto simp: enable_irq_def not_less)
next
  case True
  then have lt: "unat irq < 16" by (rule u32_16_cases)
  show ?thesis
  proof (cases "irq < 8")
    case True
    then have "unat irq < 8" by (simp add: word_less_nat_alt)
    then show ?thesis
      using \<open>irq < 16\<close> True
      by (auto simp: enable_irq_def irq_on_def Let_def outb_def bit_simps)
  next
    case False
    then have "8 \<le> unat irq" "unat (irq - 8) = unat irq - 8"
      by (simp_all add: not_less word_le_nat_alt unat_sub_8)
    then show ?thesis
      using \<open>irq < 16\<close> False lt
      by (auto simp: enable_irq_def irq_on_def Let_def outb_def bit_simps)
  qed
qed

lemma irq_on_disable:
  "irq_on (disable_irq irq s) k \<longleftrightarrow> irq_on s k \<and> \<not> (irq < 16 \<and> k = unat irq)"
proof (cases "irq < 16")
  case False
  then show ?thesis by (auto simp: disable_irq_def not_less)
next
  case True
  then have lt: "unat irq < 16" by (rule u32_16_cases)
  show ?thesis
  proof (cases "irq < 8")
    case True
    then have "unat irq < 8" by (simp add: word_less_nat_alt)
    then show ?thesis
      using \<open>irq < 16\<close> True
      by (auto simp: disable_irq_def irq_on_def Let_def outb_def bit_simps)
  next
    case False
    then have "8 \<le> unat irq" "unat (irq - 8) = unat irq - 8"
      by (simp_all add: not_less word_le_nat_alt unat_sub_8)
    then show ?thesis
      using \<open>irq < 16\<close> False lt
      by (auto simp: disable_irq_def irq_on_def Let_def outb_def bit_simps)
  qed
qed

interpretation pic: irq_lines enable_irq disable_irq irq_on
  by unfold_locales (simp_all add: irq_on_enable irq_on_disable)

section \<open>End of interrupt\<close>

text \<open>The last byte each port received.\<close>

definition last_out :: "nat \<Rightarrow> kernel \<Rightarrow> u8 option" where
  "last_out port s =
     (case filter (\<lambda>(p, d). p = port) (rev (outs s)) of [] \<Rightarrow> None | (p, d) # _ \<Rightarrow> Some d)"

lemma send_eoi_master:
  "irq < 8 \<Longrightarrow> outs (send_eoi irq s) = outs s @ [(MASTER_8259_PORT, EOI OR ucast irq)]"
  by (auto simp: send_eoi_def outb_def word_less_nat_alt word_le_nat_alt)

lemma send_eoi_slave:
  "8 \<le> irq \<Longrightarrow> irq < 16 \<Longrightarrow>
   outs (send_eoi irq s) =
     outs s @ [(SLAVE_8259_PORT, EOI OR ucast (irq - 8)), (MASTER_8259_PORT, EOI OR 2)]"
  by (auto simp: send_eoi_def outb_def word_less_nat_alt word_le_nat_alt)

lemma mask_shadow:
  "irq < 16 \<Longrightarrow>
   last_out (if irq < 8 then MASTER_8259_DATA else SLAVE_8259_DATA) (enable_irq irq s)
     = Some (if irq < 8 then master_mask (enable_irq irq s) else slave_mask (enable_irq irq s))"
  by (auto simp: enable_irq_def last_out_def Let_def outb_def)

text \<open>Only the masks and the port log change.\<close>

lemma send_eoi_frame [frame]: "send_eoi irq s = s\<lparr>outs := outs (send_eoi irq s)\<rparr>"
  by (simp add: send_eoi_def outb_def)

lemma enable_irq_frame [frame]:
  "enable_irq irq s = s\<lparr>outs := outs (enable_irq irq s),
     master_mask := master_mask (enable_irq irq s), slave_mask := slave_mask (enable_irq irq s)\<rparr>"
  by (simp add: enable_irq_def outb_def Let_def)

end
