(* ===== verification/Paging.thy ===== *)
theory Paging
  imports Kernel_State
begin

text \<open>
  Paging and process memory: student-distrib/paging.c, task.c and paging_assembly.S.  The
  operations write the page directory and the two page tables; \<open>mmu\<close> is the two-level x86
  translation they configure (4 MB pages where PS is set), written as a specification.  The
  component invariant \<open>paging_inv\<close> says which entries user code can reach.  At the end, the
  kernel's accesses through user pointers (\<open>copy_in\<close>, \<open>copy_out\<close>).
\<close>

abbreviation (input) "VIDEO \<equiv> (0xB8000::nat)"
abbreviation (input) "VIDEO_INDEX \<equiv> (0xB8::nat)"
abbreviation (input) "FOUR_KB \<equiv> (4096::nat)"
abbreviation (input) "KERNEL \<equiv> (0x00400000::u32)"
abbreviation (input) "MASK_20_BITS \<equiv> (0xFFFFF000::u32)"
abbreviation (input) "MASK_10_BITS \<equiv> (0xFFC00000::u32)"
abbreviation (input) "PG_P \<equiv> (1::u32)"
abbreviation (input) "R_W \<equiv> (2::u32)"
abbreviation (input) "U_S \<equiv> (4::u32)"
abbreviation (input) "PG_PS \<equiv> (0x80::u32)"
abbreviation (input) "EIGHT_MB \<equiv> (0x800000::u32)"
abbreviation (input) "EIGHT_KB \<equiv> (0x2000::u32)"
abbreviation (input) "FOUR_MB \<equiv> (0x400000::u32)"
abbreviation (input) "VIRT_ADDR_PROGRAM \<equiv> (0x8000000::u32)"
abbreviation (input) "MAX_PROCESSES \<equiv> (6::nat)"

section \<open>Operations\<close>

definition set_pde :: "nat \<Rightarrow> u32 \<Rightarrow> kernel \<Rightarrow> kernel" where
  "set_pde i v s = s\<lparr>page_directory := (page_directory s)(i := v), tlb_fresh := False\<rparr>"

definition set_pte :: "nat \<Rightarrow> u32 \<Rightarrow> kernel \<Rightarrow> kernel" where
  "set_pte i v s = s\<lparr>page_table := (page_table s)(i := v), tlb_fresh := False\<rparr>"

definition set_pte_video :: "nat \<Rightarrow> u32 \<Rightarrow> kernel \<Rightarrow> kernel" where
  "set_pte_video i v s = s\<lparr>page_table_video := (page_table_video s)(i := v), tlb_fresh := False\<rparr>"

text \<open>Reloading CR3 drops the cached translations.\<close>

definition flush_tlb :: "kernel \<Rightarrow> kernel" where
  "flush_tlb s = s\<lparr>tlb_fresh := True\<rparr>"

definition loadPageDirectory :: "kernel \<Rightarrow> kernel" where
  "loadPageDirectory s = s\<lparr>tlb_fresh := True, cr4 := cr4 s OR 0x00000010\<rparr>"

definition enablePaging :: "kernel \<Rightarrow> kernel" where
  "enablePaging s = s\<lparr>cr0 := cr0 s OR 0x80000001\<rparr>"

definition init_paging :: "kernel \<Rightarrow> kernel" where
  "init_paging s =
     (let s = fold (\<lambda>i. set_pte i (of_nat (i * FOUR_KB) OR R_W)) [0..<1024] s;
          s = set_pte VIDEO_INDEX (of_nat (VIDEO_INDEX * FOUR_KB) OR PG_P OR R_W) s;
          s = set_pte (VIDEO_INDEX + 1) (of_nat ((VIDEO_INDEX + 1) * FOUR_KB) OR PG_P OR R_W) s;
          s = set_pte (VIDEO_INDEX + 2) (of_nat ((VIDEO_INDEX + 2) * FOUR_KB) OR PG_P OR R_W) s;
          s = set_pte (VIDEO_INDEX + 3) (of_nat ((VIDEO_INDEX + 3) * FOUR_KB) OR PG_P OR R_W) s;
          s = set_pde 0 ((page_table_addr s AND MASK_20_BITS) OR PG_P OR R_W) s;
          s = set_pde 1 ((KERNEL AND MASK_10_BITS) OR PG_P OR R_W OR PG_PS) s;
          s = flush_tlb s;
          s = fold (\<lambda>i. set_pde i 0) [2..<1024] s
      in enablePaging (loadPageDirectory s))"

definition remap_video_mem_user :: "nat \<Rightarrow> kernel \<Rightarrow> kernel" where
  "remap_video_mem_user tid s =
     (let s = set_pde 33 (page_table_video_addr s OR U_S OR R_W OR PG_P) s;
          s = (if displayed_terminal s = tid
               then set_pte_video 0 ((of_nat VIDEO AND MASK_20_BITS) OR U_S OR R_W OR PG_P) s
               else set_pte_video 0
                      ((of_nat (VIDEO + (tid + 1) * FOUR_KB) AND MASK_20_BITS) OR U_S OR R_W OR PG_P) s)
      in flush_tlb s)"

definition get_kernel_stack_addr :: "u32 \<Rightarrow> u32" where
  "get_kernel_stack_addr p = EIGHT_MB - ((p + 1) * EIGHT_KB) - 4"

definition get_pcb_addr :: "u32 \<Rightarrow> u32" where
  "get_pcb_addr p = EIGHT_MB - (p + 1) * EIGHT_KB"

definition get_pcb_blk :: "int \<Rightarrow> u32" where
  "get_pcb_blk p = word_of_int (0x800000 - (0x2000 * (p + 1)))"

definition init_process_id_array :: "kernel \<Rightarrow> kernel" where
  "init_process_id_array s =
     s\<lparr>pid_array := fold (\<lambda>i f. f(i := 0)) [3..<MAX_PROCESSES] (pid_array s)\<rparr>"

definition virt_to_phys_user :: "u32 \<Rightarrow> kernel \<Rightarrow> kernel" where
  "virt_to_phys_user p s =
     (let physical = (FOUR_MB * p) + EIGHT_MB;
          pdi = unat (drop_bit 22 (VIRT_ADDR_PROGRAM AND MASK_10_BITS));
          s = set_pde pdi ((physical AND MASK_10_BITS) OR PG_P OR R_W OR U_S OR PG_PS) s
      in flush_tlb s)"

lemmas page_write_defs = set_pde_def set_pte_def set_pte_video_def flush_tlb_def

lemma pdi_32 [simp]: "unat (drop_bit 22 (VIRT_ADDR_PROGRAM AND MASK_10_BITS)) = 32"
  by code_simp

section \<open>Frame facts\<close>

lemma fold_set_pte:
  "fold (\<lambda>i. set_pte i (g i)) is s =
     s\<lparr>page_table := fold (\<lambda>i f. f(i := g i)) is (page_table s), tlb_fresh := (tlb_fresh s \<and> is = [])\<rparr>"
  by (induction "is" arbitrary: s) (simp_all add: set_pte_def)

lemma fold_set_pde:
  "fold (\<lambda>i. set_pde i (g i)) is s =
     s\<lparr>page_directory := fold (\<lambda>i f. f(i := g i)) is (page_directory s), tlb_fresh := (tlb_fresh s \<and> is = [])\<rparr>"
  by (induction "is" arbitrary: s) (simp_all add: set_pde_def)

lemma init_paging_eq:
  "init_paging s = s\<lparr>
     page_table := (\<lambda>j. if VIDEO_INDEX \<le> j \<and> j < VIDEO_INDEX + 4 then of_nat (j * FOUR_KB) OR PG_P OR R_W
                        else if j < 1024 then of_nat (j * FOUR_KB) OR R_W else page_table s j),
     page_directory := (\<lambda>j. if j = 0 then (page_table_addr s AND MASK_20_BITS) OR PG_P OR R_W
                            else if j = 1 then (KERNEL AND MASK_10_BITS) OR PG_P OR R_W OR PG_PS
                            else if j < 1024 then 0 else page_directory s j),
     tlb_fresh := True, cr4 := cr4 s OR 0x10, cr0 := cr0 s OR 0x80000001\<rparr>" (is "_ = ?r")
proof -
  have four: "184 \<le> j \<and> j < 188 \<longleftrightarrow> j = 184 \<or> j = 185 \<or> j = 186 \<or> j = 187" for j :: nat
    by auto
  have e: "init_paging s = ?r\<lparr>page_table := page_table (init_paging s), page_directory := page_directory (init_paging s)\<rparr>"
    unfolding init_paging_def Let_def fold_set_pte fold_set_pde
    by (simp add: page_write_defs loadPageDirectory_def enablePaging_def del: of_nat_mult upt_rec_numeral)
  have pt: "page_table (init_paging s) = page_table ?r"
    unfolding init_paging_def Let_def fold_set_pte fold_set_pde fold_upd_range
    by (rule ext) (simp add: page_write_defs loadPageDirectory_def enablePaging_def four del: of_nat_mult)
  have pd: "page_directory (init_paging s) = page_directory ?r"
    unfolding init_paging_def Let_def fold_set_pte fold_set_pde fold_upd_range
    by (rule ext) (simp add: page_write_defs loadPageDirectory_def enablePaging_def del: of_nat_mult)
  show ?thesis by (subst e) (simp only: pt pd, simp del: of_nat_mult)
qed

lemma remap_video_mem_user_eq:
  "remap_video_mem_user tid s = s\<lparr>
     page_directory := (page_directory s)(33 := page_table_video_addr s OR U_S OR R_W OR PG_P),
     page_table_video := (page_table_video s)(0 :=
       (of_nat (if displayed_terminal s = tid then VIDEO else VIDEO + (tid + 1) * FOUR_KB) AND MASK_20_BITS)
         OR U_S OR R_W OR PG_P),
     tlb_fresh := True\<rparr>"
  by (simp add: remap_video_mem_user_def page_write_defs)

lemma virt_to_phys_user_eq:
  "virt_to_phys_user p s = s\<lparr>
     page_directory := (page_directory s)(32 :=
       ((FOUR_MB * p + EIGHT_MB) AND MASK_10_BITS) OR PG_P OR R_W OR U_S OR PG_PS),
     tlb_fresh := True\<rparr>"
  by (simp add: virt_to_phys_user_def page_write_defs)

section \<open>The translation the entries configure\<close>

text \<open>
  The processor's walk: directory entry by \<open>va div 4 MB\<close>; present bit 0, user bit 2, page size
  bit 7.  The directory only points to the two tables of paging.h, which the linker places at
  distinct 4 KB boundaries (\<open>linked\<close>).  The read/write bit is set in every present entry.
\<close>

definition mmu :: "kernel \<Rightarrow> bool \<Rightarrow> nat \<Rightarrow> nat option" where
  "mmu s user va =
     (let pde = page_directory s (va div 0x400000) in
      if \<not> bit pde 0 \<or> (user \<and> \<not> bit pde 2) then None
      else if bit pde 7 then Some (unat (pde AND MASK_10_BITS) + va mod 0x400000)
      else (let table = (if pde AND MASK_20_BITS = page_table_video_addr s then page_table_video s
                         else page_table s);
                pte = table (va div FOUR_KB mod 1024)
            in if \<not> bit pte 0 \<or> (user \<and> \<not> bit pte 2) then None
               else Some (unat (pte AND MASK_20_BITS) + va mod FOUR_KB)))"

definition linked :: "kernel \<Rightarrow> bool" where
  "linked s \<longleftrightarrow> page_table_addr s AND MASK_20_BITS = page_table_addr s \<and>
     page_table_video_addr s AND MASK_20_BITS = page_table_video_addr s \<and>
     page_table_addr s \<noteq> page_table_video_addr s"

definition user_pde :: "u32 \<Rightarrow> u32" where
  "user_pde p = ((FOUR_MB * p + EIGHT_MB) AND MASK_10_BITS) OR PG_P OR R_W OR U_S OR PG_PS"

definition video_pte :: "nat \<Rightarrow> u32" where
  "video_pte k = (of_nat (VIDEO + k * FOUR_KB) AND MASK_20_BITS) OR U_S OR R_W OR PG_P"

definition paging_inv :: "kernel \<Rightarrow> bool" where
  "paging_inv s \<longleftrightarrow>
     linked s \<and>
     page_directory s 0 = page_table_addr s OR PG_P OR R_W \<and>
     page_directory s 1 = KERNEL OR PG_P OR R_W OR PG_PS \<and>
     (page_directory s 32 = 0 \<or> (\<exists>p<6. page_directory s 32 = user_pde p)) \<and>
     (page_directory s 33 = 0 \<or> page_directory s 33 = page_table_video_addr s OR U_S OR R_W OR PG_P) \<and>
     (\<forall>j\<in>{2..<1024} - {32, 33}. page_directory s j = 0) \<and>
     (page_table_video s 0 = 0 \<or> (\<exists>k\<le>3. page_table_video s 0 = video_pte k)) \<and>
     (\<forall>j\<in>{1..<1024}. page_table_video s j = 0) \<and>
     (\<forall>j<1024. \<not> bit (page_table s j) 2)"

lemma mask_20: "MASK_20_BITS = NOT (mask 12)"
  by code_simp

lemma aligned_bits: "w AND MASK_20_BITS = w \<Longrightarrow> n < 12 \<Longrightarrow> \<not> bit w n"
  unfolding mask_20 by (metis bit_and_iff bit_not_iff bit_mask_iff)

lemma aligned_or_low:
  "w AND MASK_20_BITS = w \<Longrightarrow> l AND NOT (mask 12) = 0 \<Longrightarrow> (w OR l) AND MASK_20_BITS = w"
  unfolding mask_20 by (simp add: bit.conj_disj_distrib2)

lemma video_entry:
  assumes "linked s"
  defines "e \<equiv> page_table_video_addr s OR U_S OR R_W OR PG_P"
  shows "bit e 0" "bit e 2" "\<not> bit e 7" "e AND MASK_20_BITS = page_table_video_addr s"
proof -
  have a: "page_table_video_addr s AND MASK_20_BITS = page_table_video_addr s"
    using assms(1) by (simp add: linked_def)
  have e: "e = page_table_video_addr s OR 7" by (simp add: e_def or.assoc)
  show "bit e 0" "bit e 2" by (simp_all add: e bit_or_iff)
  show "\<not> bit e 7" using aligned_bits[OF a, of 7] by (simp add: e bit_or_iff)
  show "e AND MASK_20_BITS = page_table_video_addr s"
    unfolding e by (rule aligned_or_low[OF a]) code_simp
qed

lemma low_entry:
  assumes "linked s"
  defines "e \<equiv> page_table_addr s OR PG_P OR R_W"
  shows "bit e 0" "\<not> bit e 2" "\<not> bit e 7" "e AND MASK_20_BITS = page_table_addr s"
proof -
  have a: "page_table_addr s AND MASK_20_BITS = page_table_addr s"
    using assms(1) by (simp add: linked_def)
  have e: "e = page_table_addr s OR 3" by (simp add: e_def or.assoc)
  show "bit e 0" by (simp add: e bit_or_iff)
  show "\<not> bit e 2" "\<not> bit e 7"
    using aligned_bits[OF a, of 2] aligned_bits[OF a, of 7] by (simp_all add: e bit_or_iff)
  show "e AND MASK_20_BITS = page_table_addr s"
    unfolding e by (rule aligned_or_low[OF a]) code_simp
qed

lemma user_pde_fields:
  assumes "p < 6"
  shows "bit (user_pde p) 0" "bit (user_pde p) 2" "bit (user_pde p) 7"
    "unat (user_pde p AND MASK_10_BITS) = 0x800000 + 0x400000 * unat p"
  using u32_less_6[OF assms] by (auto simp: user_pde_def)

lemma video_pte_fields:
  assumes "k \<le> 3"
  shows "bit (video_pte k) 0" "bit (video_pte k) 2"
    "unat (video_pte k AND MASK_20_BITS) = VIDEO + k * FOUR_KB"
proof -
  have "k = 0 \<or> k = 1 \<or> k = 2 \<or> k = 3" using assms by linarith
  then show "bit (video_pte k) 0" "bit (video_pte k) 2"
    "unat (video_pte k AND MASK_20_BITS) = VIDEO + k * FOUR_KB"
    by (auto simp: video_pte_def)
qed

section \<open>The operations keep the invariant\<close>

lemma init_paging_inv [keeps]:
  assumes "linked s" "page_table_video s = (\<lambda>_. 0)"
  shows "paging_inv (init_paging s)"
proof -
  have "\<not> bit (of_nat (j * FOUR_KB) :: u32) 2" for j
  proof -
    have "(of_nat (j * FOUR_KB) :: u32) = push_bit 12 (of_nat j)" by (simp add: push_bit_eq_mult)
    then show ?thesis by (simp only: bit_push_bit_iff) simp
  qed
  then show ?thesis
    using assms by (auto simp: init_paging_eq paging_inv_def linked_def bit_or_iff simp del: of_nat_mult)
qed

lemma remap_video_inv [keeps]:
  assumes "paging_inv s" "tid < 3"
  shows "paging_inv (remap_video_mem_user tid s)"
proof -
  have "\<exists>k\<le>3. page_table_video (remap_video_mem_user tid s) 0 = video_pte k"
    using assms(2)
    by (intro exI[of _ "if displayed_terminal s = tid then 0 else tid + 1"])
       (simp add: remap_video_mem_user_eq video_pte_def)
  then show ?thesis
    using assms(1) by (auto simp: paging_inv_def linked_def remap_video_mem_user_eq)
qed

lemma virt_to_phys_inv [keeps]:
  "paging_inv s \<Longrightarrow> p < 6 \<Longrightarrow> paging_inv (virt_to_phys_user p s)"
  by (auto simp: paging_inv_def linked_def virt_to_phys_user_eq user_pde_def)

section \<open>What the mappings give\<close>

lemma mmu_user_page:
  assumes "p < 6" "off < 0x400000"
  shows "mmu (virt_to_phys_user p s) user (0x8000000 + off) = Some (0x800000 + 0x400000 * unat p + off)"
proof -
  have d1: "(0x8000000 + off) div 0x400000 = 32" using assms(2) by simp
  have "(0x8000000 + off) mod 0x400000 = (0x8000000 + off) - (0x8000000 + off) div 0x400000 * 0x400000"
    by (rule minus_div_mult_eq_mod[symmetric])
  then have d: "(0x8000000 + off) div 0x400000 = 32" "(0x8000000 + off) mod 0x400000 = off"
    using d1 by simp_all
  have "page_directory (virt_to_phys_user p s) 32 = user_pde p"
    by (simp add: virt_to_phys_user_eq user_pde_def)
  then show ?thesis
    unfolding mmu_def Let_def d by (simp add: user_pde_fields[OF assms(1)])
qed

lemma mmu_kernel:
  assumes "paging_inv s" "0x400000 \<le> va" "va < 0x800000"
  shows "mmu s False va = Some va" "mmu s True va = None"
proof -
  have "va div 0x400000 = 1" using assms(2,3) by simp
  moreover have "va mod 0x400000 = va - 0x400000" using assms(2,3) by (simp add: mod_if)
  ultimately show "mmu s False va = Some va" "mmu s True va = None"
    using assms by (simp_all add: mmu_def paging_inv_def Let_def)
qed

lemma mmu_confined:
  assumes inv: "paging_inv s" and va: "va < 2 ^ 32" and ok: "mmu s True va = Some pa"
  shows "(\<exists>p<6. page_directory s 32 = user_pde p \<and> 0x8000000 \<le> va \<and> va < 0x8400000 \<and>
                pa = 0x800000 + 0x400000 * unat p + (va - 0x8000000)) \<or>
         (\<exists>k\<le>3. 0x8400000 \<le> va \<and> va < 0x8401000 \<and> pa = VIDEO + k * FOUR_KB + (va - 0x8400000))"
proof -
  let ?i = "va div 0x400000"
  have i: "?i < 1024" using va by (simp add: less_mult_imp_div_less)
  have "?i \<noteq> 0"
  proof
    assume "?i = 0"
    moreover have "page_directory s 0 = page_table_addr s OR PG_P OR R_W" "linked s"
      using inv by (simp_all add: paging_inv_def)
    ultimately show False using ok low_entry[of s] by (simp add: mmu_def Let_def)
  qed
  moreover have "?i \<noteq> 1"
    using inv ok by (auto simp: mmu_def Let_def paging_inv_def)
  moreover have "page_directory s ?i \<noteq> 0" using ok by (auto simp: mmu_def Let_def)
  ultimately have "?i = 32 \<or> ?i = 33" using inv i by (auto simp: paging_inv_def)
  then show ?thesis
  proof
    assume i: "?i = 32"
    have "va = 32 * 0x400000 + va mod 0x400000" "va mod 0x400000 < 0x400000"
      using i mult_div_mod_eq[of "0x400000" va] by simp_all
    then have r: "0x8000000 \<le> va" "va < 0x8400000" "va mod 0x400000 = va - 0x8000000"
      by linarith+
    obtain p where p: "p < 6" "page_directory s 32 = user_pde p"
      using inv ok i by (auto simp: paging_inv_def mmu_def Let_def)
    have "mmu s True va = Some (0x800000 + 0x400000 * unat p + va mod 0x400000)"
      unfolding mmu_def Let_def i p(2) by (simp add: user_pde_fields[OF p(1)])
    then have "pa = 0x800000 + 0x400000 * unat p + (va - 0x8000000)" using ok r(3) by simp
    then show ?thesis using p r by blast
  next
    assume i: "?i = 33"
    then have r: "0x8400000 \<le> va" "va < 0x8800000" by auto
    have l: "linked s" using inv by (simp add: paging_inv_def)
    have e: "page_directory s 33 = page_table_video_addr s OR U_S OR R_W OR PG_P"
      using inv ok i by (auto simp: paging_inv_def mmu_def Let_def)
    let ?j = "va div FOUR_KB mod 1024"
    have ok': "\<not> (\<not> bit (page_table_video s ?j) 0)"
        "pa = unat (page_table_video s ?j AND MASK_20_BITS) + va mod FOUR_KB"
      using ok i video_entry[OF l] by (auto simp: mmu_def Let_def e split: if_splits)
    have j0: "?j = 0"
    proof (rule ccontr)
      assume "?j \<noteq> 0"
      then have "?j \<in> {1..<1024}" by simp
      then show False using inv ok'(1) by (auto simp: paging_inv_def)
    qed
    then obtain k where k: "k \<le> 3" "page_table_video s 0 = video_pte k"
      using inv ok'(1) by (auto simp: paging_inv_def)
    have "va div FOUR_KB div 1024 = 33" using i by (simp flip: div_mult2_eq)
    moreover have "va div FOUR_KB = va div FOUR_KB div 1024 * 1024 + ?j" by (rule div_mult_mod_eq[symmetric])
    ultimately have "va div FOUR_KB = 0x8400" using j0 by simp
    moreover have "va = va div FOUR_KB * FOUR_KB + va mod FOUR_KB" by (rule div_mult_mod_eq[symmetric])
    moreover have "va mod FOUR_KB < FOUR_KB" by (rule mod_less_divisor) simp
    ultimately have va: "va < 0x8401000" "va mod FOUR_KB = va - 0x8400000" by linarith+
    have "pa = unat (page_table_video s 0 AND MASK_20_BITS) + va mod FOUR_KB"
      using ok'(2) unfolding j0 .
    then have "pa = VIDEO + k * FOUR_KB + (va - 0x8400000)"
      unfolding k(2) video_pte_fields(3)[OF k(1)] va(2) .
    then show ?thesis using k(1) r(1) va(1) by blast
  qed
qed

lemma mmu_video_page:
  assumes "linked s" "page_directory s 33 = page_table_video_addr s OR U_S OR R_W OR PG_P"
    and "page_table_video s 0 = video_pte k" "k \<le> 3" "off < 4096"
  shows "mmu s user (0x8400000 + off) = Some (VIDEO + k * FOUR_KB + off)"
proof -
  have d: "(0x8400000 + off) div 0x400000 = 33" "(0x8400000 + off) div FOUR_KB = 0x8400"
    using assms(5) by simp_all
  have "(0x8400 * FOUR_KB + off) mod FOUR_KB = off"
    using assms(5) by (simp only: mod_mult_self3 mod_less)
  moreover have "0x8400 * FOUR_KB + off = 0x8400000 + off" by simp
  ultimately have m: "(0x8400000 + off) mod FOUR_KB = off" by (simp only:)
  show ?thesis
    unfolding mmu_def Let_def d m assms(2,3)
    using video_entry[OF assms(1)] by (simp add: assms(3) video_pte_fields[OF assms(4)])
qed

end
