(* ===== verification/Task.thy ===== *)
theory Task
  imports Paging
begin

text \<open>
  Where a process lives (student-distrib/task.c): its control block and kernel stack in the
  kernel's 4 MB page, its program in a 4 MB user page; and the kernel's accesses through
  user-supplied pointers.
\<close>

section \<open>Control blocks and kernel stacks\<close>

lemma get_pcb_blk_addr: "get_pcb_blk p = get_pcb_addr (word_of_int p)"
  by (simp add: get_pcb_blk_def get_pcb_addr_def algebra_simps)

lemma get_pcb_blk_inj:
  assumes "0 \<le> p" "p < 6" "0 \<le> q" "q < 6"
  shows "get_pcb_blk p = get_pcb_blk q \<longleftrightarrow> p = q"
  by (rule pid_cases[OF assms(1,2)]; rule pid_cases[OF assms(3,4)]; simp add: get_pcb_blk_def)

text \<open>The size of \<open>pcb_t\<close>: 8 descriptors of 16 bytes, 7 words, 128 bytes, a padded byte, 4 words.\<close>

definition sizeof_pcb :: nat where
  "sizeof_pcb = 8 * 16 + 7 * 4 + 128 + 4 + 4 * 4"

definition pcb_region :: "u32 \<Rightarrow> nat set" where
  "pcb_region p = {unat (get_pcb_addr p) ..< unat (get_pcb_addr p) + sizeof_pcb}"

text \<open>
  \<open>esp0\<close> is the word below the block of the process, so its kernel stack grows down into the
  8 KB block whose bottom holds the next control block.
\<close>

definition stack_region :: "u32 \<Rightarrow> nat set" where
  "stack_region p = {unat (get_pcb_addr (p + 1)) + sizeof_pcb ..< unat (get_kernel_stack_addr p) + 4}"

lemma pcb_addr_nat:
  assumes "p < 6"
  shows "unat (get_pcb_addr p) = 0x800000 - 0x2000 * (unat p + 1)"
    and "unat (get_pcb_addr (p + 1)) = 0x800000 - 0x2000 * (unat p + 2)"
    and "unat (get_kernel_stack_addr p) + 4 = unat (get_pcb_addr p)"
  using u32_less_6[OF assms] by (auto simp: get_pcb_addr_def get_kernel_stack_addr_def)

lemma regions_disjoint:
  assumes "p < 6" "q < 6"
  shows "stack_region p \<inter> pcb_region q = {}"
    and "p \<noteq> q \<Longrightarrow> pcb_region p \<inter> pcb_region q = {} \<and> stack_region p \<inter> stack_region q = {}"
proof -
  have b: "unat p < 6" "unat q < 6" using assms by (simp_all add: word_less_nat_alt)
  note defs = stack_region_def pcb_region_def pcb_addr_nat[OF assms(1)] pcb_addr_nat[OF assms(2)]
    sizeof_pcb_def
  consider "unat p < unat q" | "unat p = unat q" | "unat q < unat p" by linarith
  then show "stack_region p \<inter> pcb_region q = {}"
    using b by cases (auto simp: defs)
  assume "p \<noteq> q"
  then consider "unat p < unat q" | "unat q < unat p" by (meson linorder_neqE_nat word_unat_eq_iff)
  then show "pcb_region p \<inter> pcb_region q = {} \<and> stack_region p \<inter> stack_region q = {}"
    using b by cases (auto simp: defs)
qed

lemma regions_in_kernel_page:
  assumes "p < 6"
  shows "pcb_region p \<union> stack_region p \<subseteq> {0x400000 ..< 0x800000}"
proof -
  have "unat p < 6" using assms by (simp add: word_less_nat_alt)
  then show ?thesis
    by (auto simp: stack_region_def pcb_region_def pcb_addr_nat[OF assms] sizeof_pcb_def)
qed

section \<open>User pointers\<close>

text \<open>
  The kernel dereferences the pointers of a system call directly, in ring 0 and without a check.
  Inside the 4 MB program page the access reaches the frame that directory entry 32 names, and this
  is the part that the two functions compute.  Anywhere else the source reads or writes what happens
  to be mapped there, the kernel's own data included, and nothing can be said of the state after a
  write; the functions are partial and mark such a call by \<open>WildPointer\<close>.  The step relation \<open>kstep\<close>
  of System does not leave these calls out: it lets every state follow them and marks the step as
  going astray.
\<close>

definition user_phys :: "kernel \<Rightarrow> nat \<Rightarrow> nat" where
  "user_phys s va = unat (page_directory s 32 AND MASK_10_BITS) + (va - 0x8000000)"

definition in_user :: "kernel \<Rightarrow> nat \<Rightarrow> nat \<Rightarrow> bool" where
  "in_user s va n \<longleftrightarrow> bit (page_directory s 32) 0 \<and> 0x8000000 \<le> va \<and> va + n \<le> 0x8400000"

definition copy_out :: "nat \<Rightarrow> u8 list \<Rightarrow> kernel \<Rightarrow> kernel outcome" where
  "copy_out va bs s =
     (if bs = [] then Done s
      else if in_user s va (length bs)
      then Done (s\<lparr>phys := store (phys s) (user_phys s va) bs\<rparr>)
      else Fault WildPointer)"

definition copy_in :: "nat \<Rightarrow> nat \<Rightarrow> kernel \<Rightarrow> u8 list outcome" where
  "copy_in va n s =
     (if n = 0 then Done []
      else if in_user s va n then Done (load (phys s) (user_phys s va) n)
      else Fault WildPointer)"

lemma copy_out_frame [frame]:
  "copy_out va bs s = Done s' \<Longrightarrow> s' = s\<lparr>phys := phys s'\<rparr>"
  by (auto simp: copy_out_def split: if_splits)

lemma copy_in_out:
  "copy_out va bs s = Done s' \<Longrightarrow> copy_in va (length bs) s' = Done bs"
  by (auto simp: copy_out_def copy_in_def in_user_def user_phys_def load_store_same
      split: if_splits)

lemma copy_out_other:
  assumes "copy_out va bs s = Done s'" and "page_directory s 32 = user_pde p" "p < 6"
    and "x < 0x800000 + 0x400000 * unat p \<or> 0x800000 + 0x400000 * (unat p + 1) \<le> x"
  shows "phys s' x = phys s x"
proof (cases "bs = []")
  case True
  then show ?thesis using assms(1) by (simp add: copy_out_def)
next
  case False
  then have "s' = s\<lparr>phys := store (phys s) (user_phys s va) bs\<rparr>" "in_user s va (length bs)"
    using assms(1) by (auto simp: copy_out_def split: if_splits)
  moreover have "user_phys s va = 0x800000 + 0x400000 * unat p + (va - 0x8000000)"
    using user_pde_fields[OF assms(3)] by (simp add: user_phys_def assms(2))
  ultimately show ?thesis
    using assms(4) by (auto simp: in_user_def intro!: store_outside)
qed

lemma user_phys_mmu:
  assumes "page_directory s 32 = user_pde p" "p < 6" "in_user s va (Suc 0)"
  shows "mmu s True va = Some (user_phys s va)"
proof -
  have "va div 0x400000 = 32" using assms(3) by (auto simp: in_user_def)
  moreover have "va mod 0x400000 = va - 0x8000000"
    using calculation by (simp add: minus_div_mult_eq_mod[symmetric])
  ultimately show ?thesis
    by (simp add: mmu_def Let_def assms(1) user_phys_def user_pde_fields[OF assms(2)])
qed

end
