(* ===== verification/RTC.thy ===== *)
theory RTC
  imports I8259 Task
begin

text \<open>
  The virtualised real-time clock, student-distrib/rtc.c: the hardware runs at 1024 Hz and each
  terminal counts its own interrupts down from \<open>rtc_target\<close>.  Port reads (\<open>inb\<close>) are arguments.
  The countdown contract is the locale \<open>countdown\<close>; the interrupt handler provides it for every
  initialised terminal.
\<close>

abbreviation (input) "RTC_REG_NUM \<equiv> (0x70::nat)"
abbreviation (input) "CMOS_PORT \<equiv> (0x71::nat)"
abbreviation (input) "RTC_IRQ \<equiv> (8::u32)"
abbreviation (input) "DEFAULT_FREQ \<equiv> (2::int)"
abbreviation (input) "DEFAULT_HW_FREQ \<equiv> (1024::int)"
abbreviation (input) "DEFAULT_COUNTER \<equiv> (512::u32)"
abbreviation (input) "DEFAULT_TARGET \<equiv> (512::u32)"

section \<open>Operations\<close>

definition init_freq_hw :: "u8 \<Rightarrow> kernel \<Rightarrow> kernel" where
  "init_freq_hw old_reg_A s =
     (let s = outb 0x0A RTC_REG_NUM s;
          s = outb 0x0A RTC_REG_NUM s
      in outb ((old_reg_A AND 0xF0) OR 0x06) CMOS_PORT s)"

definition init_rtc :: "u8 \<Rightarrow> u8 \<Rightarrow> kernel \<Rightarrow> kernel" where
  "init_rtc regb_data old_reg_A s =
     (let s = cli s;
          s = outb 0x0B RTC_REG_NUM s;
          s = outb 0x0B RTC_REG_NUM s;
          s = outb (regb_data OR 0x40) CMOS_PORT s;
          s = enable_irq RTC_IRQ s;
          s = init_freq_hw old_reg_A s
      in sti s)"

definition hz_to_bin :: "int \<Rightarrow> u32" where
  "hz_to_bin freq =
     (if freq = 1024 then 0x06 else if freq = 512 then 0x07 else if freq = 256 then 0x08
      else if freq = 128 then 0x09 else if freq = 64 then 0x0A else if freq = 32 then 0x0B
      else if freq = 16 then 0x0C else if freq = 8 then 0x0D else if freq = 4 then 0x0E
      else if freq = 2 then 0x0F else 0)"

definition change_freq_virt :: "int \<Rightarrow> kernel \<Rightarrow> kernel" where
  "change_freq_virt freq s =
     (if hz_to_bin freq = 0 then s
      else upd_term (active_terminal s)
             (\<lambda>t. t\<lparr>rtc_counter := word_of_int (DEFAULT_HW_FREQ div freq),
                    rtc_target := word_of_int (DEFAULT_HW_FREQ div freq)\<rparr>) s)"

text \<open>The body of the loop in \<open>rtc_intr\<close> for one terminal; the counter is unsigned.\<close>

definition rtc_tick :: "terminal_t \<Rightarrow> terminal_t" where
  "rtc_tick t =
     (if init_flag t = 1
      then (let t = t\<lparr>rtc_counter := rtc_counter t - 1\<rparr>
            in if rtc_counter t \<le> 0 then t\<lparr>rtc_flag := 0, rtc_counter := rtc_target t\<rparr> else t)
      else t)"

definition rtc_intr :: "kernel \<Rightarrow> kernel" where
  "rtc_intr s =
     (let s = cli s;
          s = fold (\<lambda>i. upd_term i rtc_tick) [0..<3] s;
          s = outb 0x0C RTC_REG_NUM s;
          s = send_eoi RTC_IRQ s
      in sti s)"

definition rtc_open :: "u8 \<Rightarrow> kernel \<Rightarrow> int \<times> kernel" where
  "rtc_open old_reg_A s = (0, change_freq_virt DEFAULT_FREQ (init_freq_hw old_reg_A s))"

definition rtc_close :: "int \<Rightarrow> kernel \<Rightarrow> (int \<times> kernel) outcome" where
  "rtc_close fd s = Done (0, s)"

definition rtc_read ::
    "(kernel \<Rightarrow> kernel) list \<Rightarrow> int \<Rightarrow> nat \<Rightarrow> int \<Rightarrow> kernel \<Rightarrow> (int \<times> kernel) outcome" where
  "rtc_read evs fd buf nbytes s =
     andthen (wait_until (\<lambda>s. rtc_flag (active_term s) \<noteq> 1) evs
                (upd_term (active_terminal s) (\<lambda>t. t\<lparr>rtc_flag := 1\<rparr>) s))
       (\<lambda>s. Done (0, s))"

definition rtc_write :: "int \<Rightarrow> nat \<Rightarrow> int \<Rightarrow> kernel \<Rightarrow> (int \<times> kernel) outcome" where
  "rtc_write fd buf nbytes s =
     (if buf = 0 then Done (-1, s)
      else andthen (copy_in buf 4 s)
             (\<lambda>bs. let freq = sint (rd32 (\<lambda>i. bs ! i) 0)
                   in if hz_to_bin freq = 0 then Done (-1, s)
                      else Done (4, change_freq_virt freq s)))"

section \<open>Frequencies\<close>

definition valid_freq :: "int \<Rightarrow> bool" where
  "valid_freq f \<longleftrightarrow> f \<in> {2, 4, 8, 16, 32, 64, 128, 256, 512, 1024}"

lemma hz_to_bin_nonzero: "hz_to_bin f \<noteq> 0 \<longleftrightarrow> valid_freq f"
  by (auto simp: hz_to_bin_def valid_freq_def)

text \<open>The data sheet's rate: rate selector \<open>r\<close> gives \<open>32768 >> (r - 1)\<close> Hz.\<close>

lemma hz_to_bin_rate: "valid_freq f \<Longrightarrow> f = 32768 div 2 ^ (unat (hz_to_bin f) - 1)"
  by (auto simp: hz_to_bin_def valid_freq_def)

lemma valid_freq_period:
  "valid_freq f \<Longrightarrow> unat (word_of_int (1024 div f) :: u32) = nat (1024 div f) \<and> 0 < 1024 div f"
  by (auto simp: valid_freq_def)

section \<open>The countdown\<close>

locale countdown =
  fixes tick :: "'s \<Rightarrow> 's"
    and live :: "'s \<Rightarrow> bool"
    and cnt :: "'s \<Rightarrow> nat"
    and period :: "'s \<Rightarrow> nat"
    and waiting :: "'s \<Rightarrow> bool"
  assumes tick_live: "live s \<Longrightarrow> live (tick s)"
    and tick_period: "live s \<Longrightarrow> period (tick s) = period s"
    and tick_down: "live s \<Longrightarrow> 1 < cnt s \<Longrightarrow> cnt (tick s) = cnt s - 1 \<and> waiting (tick s) = waiting s"
    and tick_fire: "live s \<Longrightarrow> cnt s = 1 \<Longrightarrow> cnt (tick s) = period s \<and> \<not> waiting (tick s)"
begin

lemma ticks_live: "live s \<Longrightarrow> live ((tick ^^ k) s)"
  by (induction k) (simp_all add: tick_live)

lemma ticks_period: "live s \<Longrightarrow> period ((tick ^^ k) s) = period s"
  by (induction k) (simp_all add: tick_period ticks_live)

lemma ticks_before:
  "live s \<Longrightarrow> k < cnt s \<Longrightarrow> cnt ((tick ^^ k) s) = cnt s - k \<and> waiting ((tick ^^ k) s) = waiting s"
proof (induction k)
  case (Suc k)
  then show ?case using tick_down[of "(tick ^^ k) s"] by (simp add: ticks_live)
qed simp

lemma ticks_fire:
  assumes "live s" "0 < cnt s"
  shows "\<not> waiting ((tick ^^ cnt s) s)" "cnt ((tick ^^ cnt s) s) = period s"
proof -
  obtain k where k: "cnt s = Suc k" using assms(2) by (cases "cnt s") auto
  have "cnt ((tick ^^ k) s) = 1" using ticks_before[OF assms(1), of k] k by simp
  then show "\<not> waiting ((tick ^^ cnt s) s)" "cnt ((tick ^^ cnt s) s) = period s"
    using tick_fire[of "(tick ^^ k) s"] k ticks_period[OF assms(1), of k]
    by (simp_all add: ticks_live assms(1))
qed

text \<open>The wake-ups come at \<open>cnt s\<close> and then every \<open>period s\<close> ticks.\<close>

lemma ticks_again:
  assumes "live s" "0 < cnt s" "0 < period s"
  shows "cnt ((tick ^^ (cnt s + n * period s)) s) = period s"
proof (induction n)
  case 0
  then show ?case using ticks_fire[OF assms(1,2)] by simp
next
  case (Suc n)
  let ?t = "(tick ^^ (cnt s + n * period s)) s"
  have "cnt s + Suc n * period s = period s + (cnt s + n * period s)" by simp
  then have "(tick ^^ (cnt s + Suc n * period s)) s = (tick ^^ period s) ?t"
    by (simp only: funpow_add o_apply)
  then have "(tick ^^ (cnt s + Suc n * period s)) s = (tick ^^ cnt ?t) ?t" using Suc by simp
  then show ?case
    using ticks_fire(2)[of ?t] Suc assms by (simp add: ticks_live ticks_period)
qed

end

lemma fold_upd_term:
  "distinct is \<Longrightarrow>
   fold (\<lambda>i. upd_term i f) is s =
     s\<lparr>terminal := (\<lambda>t. if t \<in> set is then f (terminal s t) else terminal s t)\<rparr>"
  by (induction "is" arbitrary: s) (auto simp: upd_term_def fun_eq_iff intro!: kernel.equality)

lemma rtc_intr_eq:
  "rtc_intr s = s\<lparr>if_flag := True, outs := outs (rtc_intr s),
     terminal := (\<lambda>t. if t < 3 then rtc_tick (terminal s t) else terminal s t)\<rparr>"
  by (rule kernel.equality)
     (simp_all add: rtc_intr_def fold_upd_term cli_def sti_def outb_def send_eoi_def Let_def fun_eq_iff)

lemma rtc_intr_frame [frame]:
  "active_terminal (rtc_intr s) = active_terminal s"
  "displayed_terminal (rtc_intr s) = displayed_terminal s"
  "pcbs (rtc_intr s) = pcbs s" "phys (rtc_intr s) = phys s"
  by (subst rtc_intr_eq, simp)+

lemma terminal_rtc_intr: "t < 3 \<Longrightarrow> terminal (rtc_intr s) t = rtc_tick (terminal s t)"
  by (subst rtc_intr_eq) simp

lemma rtc_tick_other [simp]:
  "init_flag (rtc_tick t) = init_flag t" "rtc_target (rtc_tick t) = rtc_target t"
  by (simp_all add: rtc_tick_def Let_def)

lemma rtc_tick_counter:
  assumes "init_flag t = 1" "rtc_counter t \<noteq> 0"
  shows "unat (rtc_counter (rtc_tick t)) =
      (if unat (rtc_counter t) = 1 then unat (rtc_target t) else unat (rtc_counter t) - 1)"
    and "rtc_flag (rtc_tick t) = (if unat (rtc_counter t) = 1 then 0 else rtc_flag t)"
proof -
  have "unat (rtc_counter t - 1) = unat (rtc_counter t) - 1" using assms(2) by (rule unat_minus_one)
  moreover have "unat (rtc_counter t) \<noteq> 0" using assms(2) by (simp add: unat_eq_zero)
  ultimately show "unat (rtc_counter (rtc_tick t)) =
      (if unat (rtc_counter t) = 1 then unat (rtc_target t) else unat (rtc_counter t) - 1)"
    "rtc_flag (rtc_tick t) = (if unat (rtc_counter t) = 1 then 0 else rtc_flag t)"
    using assms(1) by (auto simp: rtc_tick_def Let_def word_le_nat_alt unat_eq_zero)
qed

interpretation rtc: countdown rtc_intr
    "\<lambda>s. t < 3 \<and> init_flag (terminal s t) = 1"
    "\<lambda>s. unat (rtc_counter (terminal s t))"
    "\<lambda>s. unat (rtc_target (terminal s t))"
    "\<lambda>s. rtc_flag (terminal s t) = 1" for t
proof unfold_locales
  fix s :: kernel
  assume live: "t < 3 \<and> init_flag (terminal s t) = 1"
  then show "t < 3 \<and> init_flag (terminal (rtc_intr s) t) = 1"
    "unat (rtc_target (terminal (rtc_intr s) t)) = unat (rtc_target (terminal s t))"
    by (simp_all add: terminal_rtc_intr)
  have nz: "0 < unat (rtc_counter (terminal s t)) \<Longrightarrow> rtc_counter (terminal s t) \<noteq> 0" by auto
  show "1 < unat (rtc_counter (terminal s t)) \<Longrightarrow>
      unat (rtc_counter (terminal (rtc_intr s) t)) = unat (rtc_counter (terminal s t)) - 1 \<and>
      (rtc_flag (terminal (rtc_intr s) t) = 1) = (rtc_flag (terminal s t) = 1)"
    "unat (rtc_counter (terminal s t)) = 1 \<Longrightarrow>
      unat (rtc_counter (terminal (rtc_intr s) t)) = unat (rtc_target (terminal s t)) \<and>
      rtc_flag (terminal (rtc_intr s) t) \<noteq> 1"
    using live nz by (simp_all add: terminal_rtc_intr rtc_tick_counter)
qed

section \<open>Reading the clock\<close>

lemma ticks_frame [frame]:
  "active_terminal ((rtc_intr ^^ k) s) = active_terminal s"
  "displayed_terminal ((rtc_intr ^^ k) s) = displayed_terminal s"
  "pcbs ((rtc_intr ^^ k) s) = pcbs s"
  by (induction k) (simp_all add: rtc_intr_frame)

definition rtc_ready :: "nat \<Rightarrow> kernel \<Rightarrow> bool" where
  "rtc_ready t s \<longleftrightarrow> t < 3 \<and> init_flag (terminal s t) = 1 \<and> rtc_counter (terminal s t) \<noteq> 0"

lemma rtc_read_ticks:
  assumes "rtc_ready (active_terminal s) s"
  defines "c \<equiv> unat (rtc_counter (active_term s))"
    and "s1 \<equiv> upd_term (active_terminal s) (\<lambda>t. t\<lparr>rtc_flag := 1\<rparr>) s"
  shows "rtc_read (replicate k rtc_intr) fd buf n s =
    (if k < c then Blocked else Done (0, (rtc_intr ^^ c) s1))"
proof -
  let ?a = "active_terminal s"
  have live: "?a < 3 \<and> init_flag (terminal s1 ?a) = 1"
    and cnt: "unat (rtc_counter (terminal s1 ?a)) = c" and pos: "0 < c"
    using assms(1) by (auto simp: s1_def upd_term_def rtc_ready_def c_def unat_gt_0)
  have act: "active_terminal s1 = ?a" by (simp add: s1_def upd_term_def)
  have "rtc_flag (terminal s1 ?a) = 1" by (simp add: s1_def upd_term_def)
  then have before: "rtc_flag (active_term ((rtc_intr ^^ j) s1)) = 1" if "j < c" for j
    using rtc.ticks_before[OF live, of j] that cnt by (simp add: ticks_frame act)
  have "rtc_flag (active_term ((rtc_intr ^^ c) s1)) \<noteq> 1"
    using rtc.ticks_fire(1)[OF live] cnt pos by (simp add: ticks_frame act)
  then have "wait_until (\<lambda>s. rtc_flag (active_term s) \<noteq> 1) (replicate k rtc_intr) s1 =
      (if c \<le> k then Done ((rtc_intr ^^ c) s1) else Blocked)"
    using before by (intro wait_until_replicate) auto
  then show ?thesis by (simp add: rtc_read_def s1_def[symmetric] not_less[symmetric])
qed

lemma rtc_write_ok:
  assumes "buf \<noteq> 0" "copy_in buf 4 s = Done bs" "valid_freq (sint (rd32 (\<lambda>i. bs ! i) 0))"
  shows "rtc_write fd buf n s = Done (4, change_freq_virt (sint (rd32 (\<lambda>i. bs ! i) 0)) s)"
proof -
  have "hz_to_bin (sint (rd32 (\<lambda>i. bs ! i) 0)) \<noteq> 0" using assms(3) hz_to_bin_nonzero by blast
  then show ?thesis using assms(1,2) by (simp add: rtc_write_def Let_def)
qed

lemma change_freq_ready:
  assumes "valid_freq f" "active_terminal s < 3" "init_flag (active_term s) = 1"
  shows "rtc_ready (active_terminal s) (change_freq_virt f s)"
    and "unat (rtc_counter (active_term (change_freq_virt f s))) = nat (1024 div f)"
    and "rtc_target (active_term (change_freq_virt f s)) = rtc_counter (active_term (change_freq_virt f s))"
    and "active_terminal (change_freq_virt f s) = active_terminal s"
  using assms hz_to_bin_nonzero[of f] valid_freq_period[OF assms(1)]
  by (auto simp: change_freq_virt_def upd_term_def rtc_ready_def unat_gt_0)

end
