(* ===== verification/File_System.thy ===== *)
theory File_System
  imports Lib_String Task
begin

text \<open>
  The read-only file system, student-distrib/file_system.c, over the bytes of its image:
  boot block at 0 (three counts, then the directory entries from byte 64), one 4 KB inode per
  block from 4096 on, then the data blocks.  The image is the store \<open>fs\<close> of the state; the
  pointers \<open>dentry_addr\<close> and \<open>inode_addr\<close> of the code are the offsets 64 and 4096 of it.
\<close>

abbreviation (input) "BOOT_BLOCK_MAX_DENTRY \<equiv> (63::nat)"
abbreviation (input) "FILENAME_LEN \<equiv> (32::nat)"
abbreviation (input) "DENTRY_RESERVED \<equiv> (24::nat)"
abbreviation (input) "ABS_BLK_SIZE \<equiv> (4096::nat)"
abbreviation (input) "FILE_LEN \<equiv> (17::int)"

section \<open>Layout\<close>

record dentry_t =
  filename :: "u8 list"
  filetype :: u32
  dentry_inode :: u32
  reserved :: "u8 list"

definition dentry_off :: "nat \<Rightarrow> nat" where
  "dentry_off i = 64 + 64 * i"

definition dentry_at :: "mem \<Rightarrow> nat \<Rightarrow> dentry_t" where
  "dentry_at m i =
     \<lparr>filename = load m (dentry_off i) FILENAME_LEN,
      filetype = rd32 m (dentry_off i + 32),
      dentry_inode = rd32 m (dentry_off i + 36),
      reserved = load m (dentry_off i + 40) DENTRY_RESERVED\<rparr>"

definition inode_off :: "u32 \<Rightarrow> nat" where
  "inode_off inode = 4096 + 4096 * unat inode"

definition inode_length :: "mem \<Rightarrow> u32 \<Rightarrow> u32" where
  "inode_length m inode = rd32 m (inode_off inode)"

definition NumDataBlk :: "mem \<Rightarrow> u32 \<Rightarrow> nat \<Rightarrow> u32" where
  "NumDataBlk m inode idx = rd32 m (inode_off inode + 4 + 4 * idx)"

definition data_off :: "u32 \<Rightarrow> u32 \<Rightarrow> nat" where
  "data_off inodes blk = 4096 + 4096 * unat inodes + ABS_BLK_SIZE * unat blk"

text \<open>kernel.c saves the two counts of the boot block in globals.\<close>

definition parse_boot_block :: "kernel \<Rightarrow> kernel" where
  "parse_boot_block s = s\<lparr>inodesCount := rd32 (fs s) 4, data_count_blk := rd32 (fs s) 8\<rparr>"

section \<open>Directory entries\<close>

text \<open>The loop runs to index 63 inclusive, and keeps the last match.\<close>

fun search_dentry :: "mem \<Rightarrow> u8 list \<Rightarrow> nat list \<Rightarrow> u32 \<Rightarrow> u32 option" where
  "search_dentry m fname [] target_index = Some target_index"
| "search_dentry m fname (i # is) target_index =
     (case strncmp fname (filename (dentry_at m i)) 32 of
        None \<Rightarrow> None
      | Some r \<Rightarrow> search_dentry m fname is (if r = 0 then of_nat i else target_index))"

definition read_dentry_by_name :: "kernel \<Rightarrow> u8 list \<Rightarrow> bool \<Rightarrow> (int \<times> dentry_t option) outcome" where
  "read_dentry_by_name s fname dentry_null =
     (if dentry_null then Done (-1, None)
      else andthen (of_opt OutOfBounds (strlen fname))
        (\<lambda>input_length.
           if input_length = 0 then Done (-1, None)
           else if input_length > FILENAME_LEN then Done (-1, None)
           else andthen (of_opt OutOfBounds
                           (search_dentry (fs s) fname [0..<BOOT_BLOCK_MAX_DENTRY + 1] (-1)))
             (\<lambda>target_index.
                if target_index > of_nat BOOT_BLOCK_MAX_DENTRY then Done (-1, None)
                else Done (0, Some (dentry_at (fs s) (unat target_index))))))"

definition read_dentry_by_index :: "kernel \<Rightarrow> u32 \<Rightarrow> bool \<Rightarrow> int \<times> dentry_t option" where
  "read_dentry_by_index s index dentry_null =
     (if index > of_nat BOOT_BLOCK_MAX_DENTRY \<or> dentry_null then (-1, None)
      else (0, Some (dentry_at (fs s) (unat index))))"

section \<open>File data\<close>

text \<open>
  The copy loop of \<open>read_data\<close>, at the width of its \<open>uint32_t\<close> variables: the bytes stored to
  \<open>buf\<close> in order, and whether the loop ran to its end (\<open>False\<close>: a block number was out of
  range).  \<open>None\<close> is a loop that does not end, possible for \<open>length = 0\<close> only.
\<close>

partial_function (option) read_loop ::
    "kernel \<Rightarrow> u32 \<Rightarrow> u32 \<Rightarrow> u32 \<Rightarrow> u32 \<Rightarrow> u32 \<Rightarrow> u8 list \<Rightarrow> (bool \<times> u8 list) option" where
  "read_loop s inode len buf_index idxDataBlk curr_byte bs =
     (if buf_index \<le> len - 1 then
        (let blk = NumDataBlk (fs s) inode (unat idxDataBlk) in
         if blk < data_count_blk s then
           (let b = fs s (data_off (inodesCount s) blk + unat curr_byte) in
            if curr_byte + 1 \<ge> 4096
            then read_loop s inode len (buf_index + 1) (idxDataBlk + 1) 0 (bs @ [b])
            else read_loop s inode len (buf_index + 1) idxDataBlk (curr_byte + 1) (bs @ [b]))
         else Some (False, bs))
      else Some (True, bs))"

text \<open>The inode number an uninitialised or filled \<open>temp_dent\<close> holds.\<close>

definition verylarge_inode :: "kernel \<Rightarrow> u32" where
  "verylarge_inode s =
     (case read_dentry_by_name s (c_lit ''verylargetextwithverylongname.tx'') False of
        Done (r, Some d) \<Rightarrow> dentry_inode d
      | _ \<Rightarrow> rd32 (stack_junk s) 0)"

definition note_verylarge :: "u32 \<Rightarrow> kernel \<Rightarrow> kernel" where
  "note_verylarge inode s =
     (if verylarge_inode s = inode
      then s\<lparr>large_text_blk_count := large_text_blk_count s + 1, shared_btw_terminal_fs_drivers := 1\<rparr>
      else s\<lparr>large_text_blk_count := 0\<rparr>)"

definition read_result :: "kernel \<Rightarrow> u32 \<Rightarrow> u32 \<Rightarrow> int" where
  "read_result s file_length len =
     sint (if shared_btw_terminal_fs_drivers s \<noteq> 0 \<and> file_length < len * large_text_blk_count s
           then file_length - len * (large_text_blk_count s - 1)
           else if file_length \<ge> len then len else file_length)"

text \<open>Return value, bytes stored at \<open>buf\<close>, and the state.\<close>

definition read_data ::
    "u32 \<Rightarrow> u32 \<Rightarrow> bool \<Rightarrow> u32 \<Rightarrow> kernel \<Rightarrow> (int \<times> u8 list \<times> kernel) outcome" where
  "read_data inode offset buf_null len s =
     (if inode > inodesCount s then Done (-1, [], s)
      else if buf_null then Done (-1, [], s)
      else (let s = note_verylarge inode s;
                file_length = inode_length (fs s) inode
            in if offset \<ge> file_length then Done (0, [], s)
               else andthen (of_opt NoReturn
                               (read_loop s inode len 0 (offset div 4096) (offset mod 4096) []))
                 (\<lambda>(finished, bs).
                    if finished then Done (read_result s file_length len, bs, s)
                    else Done (-1, bs, s))))"

section \<open>The file and directory drivers\<close>

text \<open>\<open>read_from_file\<close> finds its descriptor through the global \<open>curr_pid\<close>.\<close>

definition read_from_file :: "int \<Rightarrow> nat \<Rightarrow> int \<Rightarrow> kernel \<Rightarrow> (int \<times> kernel) outcome" where
  "read_from_file fd buf nbytes s =
     (if buf = 0 \<or> fd < 0 \<or> fd \<ge> 8 \<or> nbytes = 0 then Done (-1, s)
      else (let d = file_desc_array (pcbs s (get_pcb_blk (curr_pid s))) (nat fd) in
            andthen (read_data (inode_num d) (file_position d) False (word_of_int nbytes) s)
              (\<lambda>(ret, bs, s). andthen (copy_out buf bs s)
                 (\<lambda>s. if ret = -1 then Done (-1, s) else Done (ret, s)))))"

definition write_to_file :: "int \<Rightarrow> nat \<Rightarrow> int \<Rightarrow> kernel \<Rightarrow> (int \<times> kernel) outcome" where
  "write_to_file fd buf nbytes s = Done (-1, s)"

definition read_from_directory :: "int \<Rightarrow> nat \<Rightarrow> int \<Rightarrow> kernel \<Rightarrow> (int \<times> kernel) outcome" where
  "read_from_directory fd buf nbytes s =
     (if internalCounter s \<ge> FILE_LEN then Done (0, s\<lparr>internalCounter := 0\<rparr>)
      else (let name = (case read_dentry_by_index s (word_of_int (internalCounter s)) False of
                          (_, Some d) \<Rightarrow> filename d
                        | (_, None) \<Rightarrow> load (stack_junk s) 0 FILENAME_LEN)
            in andthen (copy_out buf name s)
                 (\<lambda>s. Done (int FILENAME_LEN, s\<lparr>internalCounter := internalCounter s + 1\<rparr>))))"

definition open_directory :: "kernel \<Rightarrow> int \<times> kernel" where
  "open_directory s = (0, s\<lparr>internalCounter := 0\<rparr>)"

definition write_to_directory :: "int \<Rightarrow> nat \<Rightarrow> int \<Rightarrow> kernel \<Rightarrow> (int \<times> kernel) outcome" where
  "write_to_directory fd buf nbytes s = Done (-1, s)"

definition close_directory :: "int \<Rightarrow> kernel \<Rightarrow> (int \<times> kernel) outcome" where
  "close_directory fd s = Done (0, s\<lparr>internalCounter := 0\<rparr>)"

definition open_file :: "u8 list option \<Rightarrow> kernel \<Rightarrow> int outcome" where
  "open_file buf s =
     (case buf of None \<Rightarrow> Done (-1)
      | Some name \<Rightarrow> andthen (read_dentry_by_name s name False) (\<lambda>(r, d). Done r))"

definition close_file :: "int \<Rightarrow> kernel \<Rightarrow> (int \<times> kernel) outcome" where
  "close_file fd s = Done (0, s)"


section \<open>Looking up a name\<close>

text \<open>Two names agree when the C strings in them do; an entry's name may fill all 32 bytes.\<close>

definition entry_named :: "mem \<Rightarrow> u8 list \<Rightarrow> nat \<Rightarrow> bool" where
  "entry_named m fname i \<longleftrightarrow> cstr (filename (dentry_at m i)) = cstr fname"

lemma length_cstr_le: "length (cstr s) \<le> length s"
  by (simp add: cstr_def length_takeWhile_le)

lemma name_comparable:
  "0 \<in> set fname \<Longrightarrow> length (cstr fname) \<le> n \<Longrightarrow> 0 \<in> set (take n fname) \<or> n \<le> length fname"
  by (auto simp: not_le dest: cstr_length_less)

lemma strncmp_entry:
  assumes "0 \<in> set fname" "length (cstr fname) \<le> 32"
  obtains r where "strncmp fname (filename (dentry_at m i)) 32 = Some r"
    and "r = 0 \<longleftrightarrow> entry_named m fname i"
proof -
  let ?name = "filename (dentry_at m i)"
  have len: "length ?name = 32" by (simp add: dentry_at_def)
  note cmp = name_comparable[OF assms]
  obtain r where r: "strncmp fname ?name 32 = Some r"
    using strncmp_returns[OF cmp, of ?name] len by auto
  have "length (cstr ?name) \<le> 32" using length_cstr_le[of ?name] len by simp
  then have "r = 0 \<longleftrightarrow> entry_named m fname i"
    using strncmp_zero_iff[OF cmp, of ?name] r len assms(2) by (auto simp: entry_named_def)
  with r show thesis by (rule that)
qed

lemma search_dentry_correct:
  assumes "0 \<in> set fname" "length (cstr fname) \<le> 32"
  shows "search_dentry m fname is t =
    Some (if filter (entry_named m fname) is = [] then t
          else of_nat (last (filter (entry_named m fname) is)))"
proof (induction "is" arbitrary: t)
  case (Cons i "is")
  obtain r where "strncmp fname (filename (dentry_at m i)) 32 = Some r"
    and "r = 0 \<longleftrightarrow> entry_named m fname i"
    using strncmp_entry[OF assms] by blast
  then show ?case by (simp add: Cons.IH)
qed simp

text \<open>
  What the loop finds: it runs over the indices 0 to 63 inclusive.  The boot block has the 63 entries
  0 to 62; index 63 is the beginning of the next block, that of inode 0, taken for an entry.
\<close>

definition dentries_named :: "mem \<Rightarrow> u8 list \<Rightarrow> nat list" where
  "dentries_named m fname = filter (entry_named m fname) [0..<64]"

lemma dentries_named_bound: "i \<in> set (dentries_named m fname) \<Longrightarrow> i < 64"
  by (simp add: dentries_named_def)

lemma read_dentry_by_name_eq:
  assumes "0 \<in> set fname"
  shows "read_dentry_by_name s fname False =
    Done (if cstr fname = [] \<or> length (cstr fname) > 32 \<or> dentries_named (fs s) fname = []
          then (-1, None)
          else (0, Some (dentry_at (fs s) (last (dentries_named (fs s) fname)))))"
proof (cases "cstr fname = [] \<or> length (cstr fname) > 32")
  case True
  then show ?thesis using assms by (auto simp: read_dentry_by_name_def strlen_cstr)
next
  case False
  show ?thesis
  proof (cases "dentries_named (fs s) fname = []")
    case True
    then show ?thesis using False assms
      by (simp add: read_dentry_by_name_def strlen_cstr search_dentry_correct dentries_named_def)
  next
    case ne: False
    let ?i = "last (dentries_named (fs s) fname)"
    have "?i < 64" using dentries_named_bound[OF last_in_set[OF ne]] .
    then have "unat (of_nat ?i :: u32) = ?i" by (simp add: unat_of_nat)
    moreover from this have "\<not> of_nat ?i > (63::u32)" using \<open>?i < 64\<close>
      by (simp add: word_less_nat_alt)
    ultimately show ?thesis using False ne assms
      by (simp add: read_dentry_by_name_def strlen_cstr search_dentry_correct
          dentries_named_def[symmetric])
  qed
qed

text \<open>The lookup in the 63 entries of the boot block, and what the index 63 adds to it.\<close>

definition directory_named :: "mem \<Rightarrow> u8 list \<Rightarrow> nat list" where
  "directory_named m name = filter (\<lambda>i. cstr (filename (dentry_at m i)) = name) [0..<63]"

lemma dentries_named_63:
  "dentries_named m fname = directory_named m (cstr fname) @
     (if cstr (filename (dentry_at m 63)) = cstr fname then [63] else [])"
proof -
  have "[0..<64] = [0..<63] @ [63::nat]" using upt_Suc_append[of 0 63] by (simp del: upt_rec_numeral)
  moreover have "entry_named m fname = (\<lambda>i. cstr (filename (dentry_at m i)) = cstr fname)"
    by (simp add: entry_named_def fun_eq_iff)
  ultimately show ?thesis by (simp add: dentries_named_def directory_named_def del: upt_rec_numeral)
qed

lemma read_dentry_by_index_eq:
  "i < 64 \<Longrightarrow> read_dentry_by_index s (of_nat i) False = (0, Some (dentry_at (fs s) i))"
  by (simp add: read_dentry_by_index_def word_less_nat_alt unat_of_nat)

text \<open>Index 63, which both readers accept, is no directory entry: it is inode 0.\<close>

lemma entry_63_is_inode_0: "dentry_off 63 = inode_off 0"
  by (simp add: dentry_off_def inode_off_def)

section \<open>The copy loop\<close>

definition block_ok :: "kernel \<Rightarrow> u32 \<Rightarrow> nat \<Rightarrow> bool" where
  "block_ok s inode k \<longleftrightarrow> NumDataBlk (fs s) inode (k div 4096) < data_count_blk s"

definition file_byte :: "kernel \<Rightarrow> u32 \<Rightarrow> nat \<Rightarrow> u8" where
  "file_byte s inode k =
     fs s (data_off (inodesCount s) (NumDataBlk (fs s) inode (k div 4096)) + k mod 4096)"

lemma block_step:
  fixes k :: nat
  assumes "k < 2 ^ 33"
  shows "unat (of_nat (k div 4096) :: u32) = k div 4096"
    and "unat (of_nat (k mod 4096) :: u32) = k mod 4096"
    and "1 + (of_nat (k mod 4096) :: u32) \<ge> 4096 \<longleftrightarrow> Suc (k mod 4096) = 4096"
    and "Suc (k mod 4096) = 4096 \<Longrightarrow> Suc k div 4096 = Suc (k div 4096) \<and> Suc k mod 4096 = 0"
    and "Suc (k mod 4096) \<noteq> 4096 \<Longrightarrow> Suc k div 4096 = k div 4096 \<and> Suc k mod 4096 = Suc (k mod 4096)"
proof -
  have b: "k mod 4096 < 4096" by simp
  have d: "k div 4096 < 2 ^ 21" using assms by simp
  then show "unat (of_nat (k div 4096) :: u32) = k div 4096" by (simp add: unat_of_nat)
  show m: "unat (of_nat (k mod 4096) :: u32) = k mod 4096" using b by (simp add: unat_of_nat)
  have "unat (1 + (of_nat (k mod 4096) :: u32)) = Suc (k mod 4096)"
    using b m by (subst unat_add_lem[THEN iffD1]) simp_all
  then show "1 + (of_nat (k mod 4096) :: u32) \<ge> 4096 \<longleftrightarrow> Suc (k mod 4096) = 4096"
    using b unfolding word_le_nat_alt by (auto simp del: of_nat_mod)
qed (auto simp: div_Suc mod_Suc)

lemma read_loop_step:
  assumes "k < 2 ^ 33" "i \<le> len - 1"
  shows "read_loop s inode len i (of_nat (k div 4096)) (of_nat (k mod 4096)) bs =
    (if block_ok s inode k
     then read_loop s inode len (i + 1) (of_nat (Suc k div 4096)) (of_nat (Suc k mod 4096))
       (bs @ [file_byte s inode k])
     else Some (False, bs))"
proof -
  note st = block_step[OF assms(1)]
  show ?thesis
  proof (cases "Suc (k mod 4096) = 4096")
    case True
    from st(4)[OF this] have nx: "Suc k div 4096 = Suc (k div 4096)" "Suc k mod 4096 = 0"
      by simp_all
    show ?thesis
      unfolding nx by (subst read_loop.simps)
        (cases "block_ok s inode k"; simp only: assms(2) st(1,2,3) True block_ok_def file_byte_def
          Let_def if_True if_False of_nat_Suc semiring_1_class.of_nat_0 refl add.commute[of _ "1::u32"])
  next
    case False
    from st(5)[OF this] have nx: "Suc k div 4096 = k div 4096"
      "Suc k mod 4096 = Suc (k mod 4096)" by simp_all
    show ?thesis
      unfolding nx by (subst read_loop.simps)
        (cases "block_ok s inode k"; simp only: assms(2) st(1,2,3) False block_ok_def file_byte_def
          Let_def if_True if_False of_nat_Suc semiring_1_class.of_nat_0 refl add.commute[of _ "1::u32"])
  qed
qed

lemma read_loop_correct:
  assumes "off < 2 ^ 32" "len \<noteq> 0" "i \<le> unat len"
  shows "read_loop s inode len (of_nat i) (of_nat ((off + i) div 4096)) (of_nat ((off + i) mod 4096)) bs =
    (let ks = [off + i..<off + unat len]; ok = takeWhile (block_ok s inode) ks
     in Some (ok = ks, bs @ map (file_byte s inode) ok))"
  using assms(3)
proof (induction "unat len - i" arbitrary: i bs)
  case 0
  then have i: "i = unat len" by simp
  have "0 < unat len" using assms(2) by (simp add: unat_gt_0)
  then have "\<not> of_nat i \<le> len - 1"
    using assms(2) i by (simp add: word_le_nat_alt unat_minus_one)
  then show ?case using i by (subst read_loop.simps) (simp del: of_nat_mod)
next
  case (Suc n)
  let ?k = "off + i"
  have lt: "i < unat len" using Suc.hyps(2) by simp
  have k33: "?k < 2 ^ 33" using lt assms(1) u32_bound[of len] by simp
  have guard: "of_nat i \<le> len - 1"
    using lt assms(2) u32_bound[of len] by (simp add: word_le_nat_alt unat_minus_one unat_of_nat)
  have ks: "[?k..<off + unat len] = ?k # [off + Suc i..<off + unat len]"
    using lt by (simp add: upt_conv_Cons)
  have IH: "read_loop s inode len (of_nat (Suc i)) (of_nat ((off + Suc i) div 4096))
      (of_nat ((off + Suc i) mod 4096)) (bs @ [file_byte s inode ?k]) =
    (let ks = [off + Suc i..<off + unat len]; ok = takeWhile (block_ok s inode) ks
     in Some (ok = ks, (bs @ [file_byte s inode ?k]) @ map (file_byte s inode) ok))"
    by (rule Suc.hyps(1)) (use Suc.hyps(2) lt in simp_all)
  have "read_loop s inode len (of_nat i) (of_nat (?k div 4096)) (of_nat (?k mod 4096)) bs =
    (if block_ok s inode ?k
     then read_loop s inode len (of_nat (Suc i)) (of_nat ((off + Suc i) div 4096))
       (of_nat ((off + Suc i) mod 4096)) (bs @ [file_byte s inode ?k])
     else Some (False, bs))"
    unfolding read_loop_step[OF k33 guard] by (simp only: of_nat_Suc add_Suc_right add.commute)
  then show ?case unfolding IH ks by (simp add: Let_def)
qed

text \<open>The read loop of a whole call, from the start of a file of which the blocks are known.\<close>

lemma read_loop_call:
  assumes "len \<noteq> 0"
  shows "read_loop s inode len 0 (offset div 4096) (offset mod 4096) [] =
    (let ks = [unat offset..<unat offset + unat len]; ok = takeWhile (block_ok s inode) ks
     in Some (ok = ks, map (file_byte s inode) ok))"
proof -
  have "of_nat (unat offset div 4096) = offset div 4096"
    "of_nat (unat offset mod 4096) = offset mod 4096"
    by (simp_all add: word_arith_nat_div word_arith_nat_mod del: of_nat_mod)
  then show ?thesis
    using read_loop_correct[OF u32_bound[of offset] assms, of 0 s inode "[]"] by simp
qed


section \<open>Reading a file\<close>

definition file_content :: "kernel \<Rightarrow> u32 \<Rightarrow> u8 list" where
  "file_content s inode = map (file_byte s inode) [0..<unat (inode_length (fs s) inode)]"

definition readable :: "kernel \<Rightarrow> u32 \<Rightarrow> nat \<Rightarrow> nat \<Rightarrow> bool" where
  "readable s inode a b \<longleftrightarrow> (\<forall>k. a \<le> k \<and> k < b \<longrightarrow> block_ok s inode k)"

lemma note_verylarge_keeps [simp, frame]:
  "fs (note_verylarge inode s) = fs s" "inodesCount (note_verylarge inode s) = inodesCount s"
  "data_count_blk (note_verylarge inode s) = data_count_blk s"
  by (simp_all add: note_verylarge_def)

lemma note_verylarge_blocks [simp]:
  "block_ok (note_verylarge i s) inode = block_ok s inode"
  "file_byte (note_verylarge i s) inode = file_byte s inode"
  by (simp_all add: fun_eq_iff block_ok_def file_byte_def)

lemma read_data_eq:
  assumes "inode \<le> inodesCount s" "len \<noteq> 0"
  shows "read_data inode offset False len s =
    (if inode_length (fs s) inode \<le> offset then Done (0, [], note_verylarge inode s)
     else (let ks = [unat offset..<unat offset + unat len]; ok = takeWhile (block_ok s inode) ks
           in Done (if ok = ks then read_result (note_verylarge inode s) (inode_length (fs s) inode) len
                    else -1, map (file_byte s inode) ok, note_verylarge inode s)))"
proof -
  have "\<not> inodesCount s < inode" using assms(1) by simp
  with assms(2) show ?thesis by (simp add: read_data_def read_loop_call Let_def)
qed

lemma read_data_readable:
  assumes "inode \<le> inodesCount s" "len \<noteq> 0" "offset < inode_length (fs s) inode"
    and "readable s inode (unat offset) (unat offset + unat len)"
  shows "read_data inode offset False len s =
    Done (read_result (note_verylarge inode s) (inode_length (fs s) inode) len,
          map (file_byte s inode) [unat offset..<unat offset + unat len], note_verylarge inode s)"
proof -
  have tw: "takeWhile (block_ok s inode) [unat offset..<unat offset + unat len] =
      [unat offset..<unat offset + unat len]"
    using assms(4) by (simp add: takeWhile_eq_all_conv readable_def)
  have "\<not> inode_length (fs s) inode \<le> offset" using assms(3) by simp
  then show ?thesis
    by (subst read_data_eq[OF assms(1,2)]) (simp only: Let_def if_False refl if_True tw)
qed

text \<open>The bytes a chunk delivers are those of the file, then the bytes behind it in its block.\<close>

lemma chunk_content:
  assumes "off \<le> n" "n = unat (inode_length (fs s) inode)"
  shows "take (min len (n - off)) (map (file_byte s inode) [off..<off + len]) =
         take len (drop off (file_content s inode))"
  using assms by (intro nth_equalityI) (auto simp: file_content_def min_def)

text \<open>
  The value returned for an ordinary file: \<open>min length file_length\<close>, whatever the offset.  So it
  is right for a read that ends inside the file or starts at 0, and too large otherwise.
\<close>

lemma read_result_ordinary:
  assumes "inode \<noteq> verylarge_inode s" "unat flen < 2 ^ 31"
  shows "read_result (note_verylarge inode s) flen len = int (min (unat len) (unat flen))"
proof -
  have "read_result (note_verylarge inode s) flen len = sint (if flen \<ge> len then len else flen)"
    using assms(1) by (simp add: read_result_def note_verylarge_def)
  also have "\<dots> = int (min (unat len) (unat flen))"
    using assms(2) by (subst sint_u32) (simp_all add: word_le_nat_alt min_def)
  finally show ?thesis .
qed

text \<open>
  The repair in the code for one file: the \<open>k\<close>-th consecutive chunk of it, counted by
  \<open>large_text_blk_count\<close>, returns what is really left.
\<close>

lemma read_result_verylarge:
  assumes "inode = verylarge_inode s" "unat (large_text_blk_count s) = k"
    and "unat flen < 2 ^ 31" "unat len * Suc k < 2 ^ 32" "len \<noteq> 0" "unat len * k < unat flen"
  shows "read_result (note_verylarge inode s) flen len = int (min (unat len) (unat flen - unat len * k))"
proof -
  let ?c = "large_text_blk_count s + 1"
  have "0 < unat len" using assms(5) by (simp add: unat_gt_0)
  then have "Suc k \<le> unat len * Suc k" by (cases "unat len") auto
  then have "Suc k < 2 ^ 32" using assms(4) by linarith
  then have c: "unat ?c = Suc k"
    using assms(2) by (subst unat_add_lem[THEN iffD1]) simp_all
  have m: "unat (len * ?c) = unat len * Suc k"
    using assms(4) c by (subst unat_mult_lem[THEN iffD1]) simp_all
  have m0: "unat (len * (?c - 1)) = unat len * k"
    using assms(2,4) by (subst unat_mult_lem[THEN iffD1]) simp_all
  have "read_result (note_verylarge inode s) flen len =
      sint (if flen < len * ?c then flen - len * (?c - 1) else if flen \<ge> len then len else flen)"
    using assms(1) by (simp add: read_result_def note_verylarge_def)
  also have "\<dots> = int (if unat flen < unat len * Suc k then unat flen - unat len * k else unat len)"
  proof (cases "unat flen < unat len * Suc k")
    case True
    have "unat (flen - len * (?c - 1)) = unat flen - unat len * k"
      using assms(6) m0 by (subst unat_sub) (simp_all add: word_le_nat_alt)
    with True assms(3) m show ?thesis by (simp add: word_less_nat_alt sint_u32)
  next
    case False
    then have "unat len \<le> unat flen" by simp
    with False assms(3) m show ?thesis by (simp add: word_less_nat_alt word_le_nat_alt sint_u32)
  qed
  also have "\<dots> = int (min (unat len) (unat flen - unat len * k))"
    using assms(6) by (auto simp: min_def)
  finally show ?thesis .
qed

text \<open>Termination and totality: a read of a positive length always returns.\<close>

lemma read_data_returns: "len \<noteq> 0 \<Longrightarrow> \<exists>r. read_data inode offset buf_null len s = Done r"
  by (simp add: read_data_def read_loop_call Let_def)

section \<open>Reading the directory\<close>

lemma read_from_directory_steps:
  assumes "0 \<le> internalCounter s" "internalCounter s < 17" "in_user s buf 32"
  shows "read_from_directory fd buf n s =
    Done (32, s\<lparr>phys := store (phys s) (user_phys s buf)
                  (filename (dentry_at (fs s) (nat (internalCounter s)))),
                internalCounter := internalCounter s + 1\<rparr>)"
proof -
  have i: "word_of_int (internalCounter s) = (of_nat (nat (internalCounter s)) :: u32)"
    by (metis assms(1) int_nat_eq of_int_of_nat_eq)
  have "filename (dentry_at (fs s) (nat (internalCounter s))) \<noteq> []"
    using length_load by (auto simp: dentry_at_def load_def)
  then show ?thesis
    using assms(2,3) by (simp add: read_from_directory_def i read_dentry_by_index_eq copy_out_def
        dentry_at_def)
qed

lemma read_from_directory_end:
  "internalCounter s \<ge> 17 \<Longrightarrow> read_from_directory fd buf n s = Done (0, s\<lparr>internalCounter := 0\<rparr>)"
  by (simp add: read_from_directory_def)

end
