(* ===== verification/Console.thy ===== *)
theory Console
  imports Lib_String Paging
begin

text \<open>
  The text console: the cursor and video routines of student-distrib/lib.c (\<open>update_cursor\<close>,
  \<open>clear\<close>, \<open>terminal_putc\<close>, \<open>shift_up_by_one\<close>, \<open>puts\<close>, \<open>printf\<close>, \<open>test_interrupts\<close>) and
  \<open>print_filename\<close> of file_system.c.  A page of video memory holds 80 x 25 cells of a character
  and an attribute byte; the displayed terminal owns the hardware page at \<open>VIDEO\<close>, terminal \<open>t\<close>
  otherwise the backing page at \<open>VIDEO + 4 KB * (t + 1)\<close>.

  The abstract screen (\<open>screen\<close>) is the list of the 2000 characters and the linear cursor
  position; \<open>scr_putc\<close> says what a character does to it and \<open>terminal_putc_refines\<close> that the
  code does this.
\<close>

abbreviation (input) "NUM_COLS \<equiv> (80::nat)"
abbreviation (input) "NUM_ROWS \<equiv> (25::nat)"
abbreviation (input) "ATTRIB \<equiv> (7::u8)"
abbreviation (input) "CURSOR_ADDR_REG \<equiv> (0x3D4::nat)"
abbreviation (input) "CURSOR_DATA_REG \<equiv> (0x3D5::nat)"
abbreviation (input) "BACKSPACE \<equiv> (8::u8)"
abbreviation (input) "NEWLINE \<equiv> (10::u8)"
abbreviation (input) "RETURN \<equiv> (13::u8)"
abbreviation (input) "SPACE \<equiv> (32::u8)"

section \<open>The cursor\<close>

definition update_cursor :: "kernel \<Rightarrow> kernel" where
  "update_cursor s =
     (let pos = (of_nat (cur_y (displayed_term s) * NUM_COLS + cur_x (displayed_term s)) :: u16);
          s = outb 0x0F CURSOR_ADDR_REG s;
          s = outb (ucast (pos AND 0xFF)) CURSOR_DATA_REG s;
          s = outb 0x0E CURSOR_ADDR_REG s
      in outb (ucast (drop_bit 8 pos AND 0xFF)) CURSOR_DATA_REG s)"

definition update_screen_xy :: "nat \<Rightarrow> nat \<Rightarrow> kernel \<Rightarrow> kernel" where
  "update_screen_xy x y s =
     update_cursor (upd_term (displayed_terminal s) (\<lambda>t. t\<lparr>cur_x := x, cur_y := y\<rparr>) s)"

definition get_screen_x :: "kernel \<Rightarrow> nat" where
  "get_screen_x s = cur_x (displayed_term s)"

definition get_screen_y :: "kernel \<Rightarrow> nat" where
  "get_screen_y s = cur_y (displayed_term s)"

section \<open>Video memory\<close>

text \<open>One cell is two byte stores.\<close>

definition set_cell :: "nat \<Rightarrow> nat \<Rightarrow> u8 \<Rightarrow> u8 \<Rightarrow> mem \<Rightarrow> mem" where
  "set_cell base k c a m = m(base + 2 * k := c, base + 2 * k + 1 := a)"

definition poke_cell :: "nat \<Rightarrow> nat \<Rightarrow> u8 \<Rightarrow> kernel \<Rightarrow> kernel" where
  "poke_cell base k c s = s\<lparr>phys := set_cell base k c ATTRIB (phys s)\<rparr>"

definition clear :: "kernel \<Rightarrow> kernel" where
  "clear s =
     (let s = s\<lparr>phys := fold (\<lambda>i. set_cell VIDEO i 0 ATTRIB) [0..<NUM_ROWS * NUM_COLS] (phys s)\<rparr>;
          s = upd_term (displayed_terminal s) (\<lambda>t. t\<lparr>cur_x := 0, cur_y := 0\<rparr>) s
      in update_cursor s)"

definition vid_base :: "nat \<Rightarrow> kernel \<Rightarrow> nat" where
  "vid_base tid s = (if tid = displayed_terminal s then VIDEO else VIDEO + FOUR_KB * (tid + 1))"

definition copy_up :: "nat \<Rightarrow> nat \<Rightarrow> nat \<Rightarrow> mem \<Rightarrow> mem" where
  "copy_up base i j m =
     (let m = m(base + 2 * (NUM_COLS * j + i) := m (base + 2 * (NUM_COLS * (j + 1) + i)))
      in m(base + 2 * (NUM_COLS * j + i) + 1 := m (base + 2 * (NUM_COLS * (j + 1) + i) + 1)))"

definition scroll_mem :: "nat \<Rightarrow> mem \<Rightarrow> mem" where
  "scroll_mem base m =
     (let m = fold (\<lambda>i m. fold (copy_up base i) [0..<NUM_ROWS - 1] m) [0..<NUM_COLS] m
      in fold (\<lambda>i. set_cell base (NUM_COLS * (NUM_ROWS - 1) + i) SPACE ATTRIB) [0..<NUM_COLS] m)"

text \<open>The flag register is not saved: \<open>shift_up_by_one\<close> ends with interrupts on.\<close>

definition shift_up_by_one :: "nat \<Rightarrow> kernel \<Rightarrow> kernel" where
  "shift_up_by_one tid s =
     (let s = cli s; s = s\<lparr>phys := scroll_mem (vid_base tid s) (phys s)\<rparr> in sti s)"

definition test_interrupts :: "kernel \<Rightarrow> kernel" where
  "test_interrupts s =
     s\<lparr>phys := fold (\<lambda>i m. m(VIDEO + 2 * i := m (VIDEO + 2 * i) + 1)) [0..<NUM_ROWS * NUM_COLS] (phys s)\<rparr>"

section \<open>Printing a character\<close>

definition show_cursor :: "nat \<Rightarrow> kernel \<Rightarrow> kernel" where
  "show_cursor tid s =
     (if tid = displayed_terminal s
      then update_screen_xy (cur_x (terminal s tid)) (cur_y (terminal s tid)) s else s)"

definition putc_newline :: "nat \<Rightarrow> kernel \<Rightarrow> kernel" where
  "putc_newline tid s =
     (let s = upd_term tid (\<lambda>t. t\<lparr>shift_up_one_flag := 0, cur_y := cur_y t + 1, cur_x := 0\<rparr>) s;
          s = (if cur_y (terminal s tid) \<ge> NUM_ROWS
               then upd_term tid (\<lambda>t. t\<lparr>cur_y := NUM_ROWS - 1, cur_x := 0, shift_up_one_flag := 1\<rparr>) s
               else s)
      in show_cursor tid s)"

definition putc_backspace :: "nat \<Rightarrow> nat \<Rightarrow> kernel \<Rightarrow> kernel" where
  "putc_backspace base tid s =
     (let t = terminal s tid;
          s = (if cur_x t > 0 then upd_term tid (\<lambda>t. t\<lparr>cur_x := cur_x t - 1\<rparr>) s
               else if cur_x t = 0 \<and> cur_y t \<noteq> 0
               then upd_term tid (\<lambda>t. t\<lparr>cur_y := cur_y t - 1, cur_x := NUM_COLS - 1\<rparr>) s
               else s);
          s = show_cursor tid s
      in poke_cell base (NUM_COLS * cur_y (terminal s tid) + cur_x (terminal s tid)) SPACE s)"

definition putc_char :: "nat \<Rightarrow> u8 \<Rightarrow> nat \<Rightarrow> kernel \<Rightarrow> kernel" where
  "putc_char base c tid s =
     (let s = (if shift_up_one_flag (terminal s tid) = 1
               then upd_term tid (\<lambda>t. t\<lparr>shift_up_one_flag := 0\<rparr>) (shift_up_by_one tid s) else s);
          s = poke_cell base (NUM_COLS * cur_y (terminal s tid) + cur_x (terminal s tid)) c s;
          s = upd_term tid (\<lambda>t. t\<lparr>cur_x := cur_x t + 1\<rparr>) s;
          s = upd_term tid (\<lambda>t. t\<lparr>cur_y := (cur_y t + cur_x t div NUM_COLS) mod NUM_ROWS\<rparr>) s;
          s = upd_term tid (\<lambda>t. t\<lparr>cur_x := cur_x t mod NUM_COLS\<rparr>) s;
          s = (if shift_up_one_flag (terminal s tid) = 2
               then upd_term tid (\<lambda>t. t\<lparr>cur_x := 0, cur_y := NUM_ROWS - 1, shift_up_one_flag := 0\<rparr>)
                      (shift_up_by_one tid s)
               else s)
      in show_cursor tid s)"

text \<open>The end of \<open>terminal_putc\<close>: the mark on the last cell, and the pending scroll.\<close>

definition putc_finish :: "nat \<Rightarrow> kernel \<Rightarrow> kernel" where
  "putc_finish tid s =
     (let s = (if cur_y (terminal s tid) = NUM_ROWS - 1 \<and> cur_x (terminal s tid) = NUM_COLS - 1
               then show_cursor tid (upd_term tid (\<lambda>t. t\<lparr>shift_up_one_flag := 2\<rparr>) s)
               else s)
      in if shift_up_one_flag (terminal s tid) = 1
         then show_cursor tid
                (upd_term tid (\<lambda>t. t\<lparr>cur_x := 0, cur_y := NUM_ROWS - 1, shift_up_one_flag := 0\<rparr>)
                   (shift_up_by_one tid s))
         else s)"

definition terminal_putc :: "u8 \<Rightarrow> nat \<Rightarrow> kernel \<Rightarrow> kernel" where
  "terminal_putc c tid s =
     (let base = vid_base tid s;
          s = (if c = NEWLINE \<or> c = RETURN then putc_newline tid s
               else if c = BACKSPACE then putc_backspace base tid s
               else putc_char base c tid s)
      in putc_finish tid s)"

section \<open>Strings and formats\<close>

fun puts :: "u8 list \<Rightarrow> kernel \<Rightarrow> (nat \<times> kernel) outcome" where
  "puts [] s = Fault OutOfBounds"
| "puts (c # cs) s =
     (if c = 0 then Done (0, s)
      else andthen (puts cs (terminal_putc c (active_terminal s) s)) (\<lambda>(n, s). Done (Suc n, s)))"

text \<open>The words above \<open>format\<close> on the stack: a number, or a pointer to a string.\<close>

datatype printf_arg = Num u32 | Str "u8 list"

fun arg_word :: "printf_arg \<Rightarrow> u32 outcome" where
  "arg_word (Num w) = Done w"
| "arg_word (Str str) = Fault OutOfBounds"

definition pop_arg :: "printf_arg list \<Rightarrow> (printf_arg \<times> printf_arg list) outcome" where
  "pop_arg args = (case args of [] \<Rightarrow> Fault OutOfBounds | a # as \<Rightarrow> Done (a, as))"

definition print_hex :: "bool \<Rightarrow> u32 \<Rightarrow> kernel \<Rightarrow> kernel outcome" where
  "print_hex alternate w s =
     (let conv_buf = load (stack_junk s) 0 64 in
      if \<not> alternate
      then andthen (of_opt OutOfBounds (itoa w conv_buf 16)) (\<lambda>b. andthen (puts b s) (Done \<circ> snd))
      else andthen (of_opt OutOfBounds (itoa w (drop 8 conv_buf) 16))
        (\<lambda>b. andthen (of_opt OutOfBounds (strlen b))
          (\<lambda>i. let conv_buf = take 8 conv_buf @ b;
                   conv_buf = fold (\<lambda>i buf. buf[i := of_char CHR ''0'']) [i..<8] conv_buf
               in andthen (puts (drop i conv_buf) s) (Done \<circ> snd))))"

definition print_unsigned :: "u32 \<Rightarrow> kernel \<Rightarrow> kernel outcome" where
  "print_unsigned w s =
     andthen (of_opt OutOfBounds (itoa w (load (stack_junk s) 0 36) 10))
       (\<lambda>b. andthen (puts b s) (Done \<circ> snd))"

definition print_signed :: "u32 \<Rightarrow> kernel \<Rightarrow> kernel outcome" where
  "print_signed w s =
     (let conv_buf = load (stack_junk s) 0 36 in
      if sint w < 0
      then andthen (of_opt OutOfBounds (itoa (- w) (drop 1 conv_buf) 10))
             (\<lambda>b. andthen (puts (of_char CHR ''-'' # b) s) (Done \<circ> snd))
      else andthen (of_opt OutOfBounds (itoa w conv_buf 10))
             (\<lambda>b. andthen (puts b s) (Done \<circ> snd)))"

text \<open>
  The conversion after a \<open>%\<close>, the \<open>goto\<close> of \<open>#\<close> included: the rest of the format behind the
  conversion character, and the state.  An unknown character prints nothing, and so does the NUL
  behind a final \<open>%\<close>, which the loop then steps over.
\<close>

fun printf_conv ::
    "bool \<Rightarrow> u8 list \<Rightarrow> printf_arg list \<Rightarrow> kernel \<Rightarrow> (u8 list \<times> printf_arg list \<times> kernel) outcome" where
  "printf_conv alternate [] args s = Fault OutOfBounds"
| "printf_conv alternate (c # cs) args s =
     (if c = of_char CHR ''%'' then Done (cs, args, terminal_putc (of_char CHR ''%'') (displayed_terminal s) s)
      else if c = of_char CHR ''#'' then printf_conv True cs args s
      else if c = of_char CHR ''x'' then
        andthen (pop_arg args) (\<lambda>(a, args). andthen (arg_word a) (\<lambda>w.
          andthen (print_hex alternate w s) (\<lambda>s. Done (cs, args, s))))
      else if c = of_char CHR ''u'' then
        andthen (pop_arg args) (\<lambda>(a, args). andthen (arg_word a) (\<lambda>w.
          andthen (print_unsigned w s) (\<lambda>s. Done (cs, args, s))))
      else if c = of_char CHR ''d'' then
        andthen (pop_arg args) (\<lambda>(a, args). andthen (arg_word a) (\<lambda>w.
          andthen (print_signed w s) (\<lambda>s. Done (cs, args, s))))
      else if c = of_char CHR ''c'' then
        andthen (pop_arg args) (\<lambda>(a, args). andthen (arg_word a) (\<lambda>w.
          Done (cs, args, terminal_putc (ucast w) (displayed_terminal s) s)))
      else if c = of_char CHR ''s'' then
        andthen (pop_arg args) (\<lambda>(a, args).
          (case a of Num w \<Rightarrow> Fault WildPointer
           | Str str \<Rightarrow> andthen (puts str s) (\<lambda>(n, s). Done (cs, args, s))))
      else Done (cs, args, s))"

lemma printf_conv_shorter:
  "printf_conv alternate cs args s = Done (cs', args', s') \<Longrightarrow> length cs' < length cs"
proof (induction alternate cs args s rule: printf_conv.induct)
  case (2 alternate c cs args s)
  then show ?case
    by (auto simp: andthen_Done_iff pop_arg_def split: if_splits list.splits printf_arg.splits)
qed simp

text \<open>The value of \<open>printf\<close> is the number of format bytes consumed.\<close>

function printf :: "u8 list \<Rightarrow> printf_arg list \<Rightarrow> kernel \<Rightarrow> (nat \<times> kernel) outcome" where
  "printf [] args s = Fault OutOfBounds"
| "printf (c # cs) args s =
     (if c = 0 then Done (0, s)
      else if c = of_char CHR ''%'' then
        (case printf_conv False cs args s of
           Done (cs', args', s') \<Rightarrow>
             andthen (printf cs' args' s') (\<lambda>(n, s). Done (n + Suc (length cs - length cs'), s))
         | Blocked \<Rightarrow> Blocked
         | Fault e \<Rightarrow> Fault e)
      else andthen (printf cs args (terminal_putc c (active_terminal s) s))
             (\<lambda>(n, s). Done (Suc n, s)))"
  by pat_completeness auto
termination
  by (relation "measure (\<lambda>(cs, args, s). length cs)") (auto dest: printf_conv_shorter)

text \<open>\<open>print_filename\<close> prints the 32 bytes of a name field, NULs included.\<close>

definition print_filename :: "u8 list \<Rightarrow> kernel \<Rightarrow> kernel outcome" where
  "print_filename filename s =
     (if length filename < 32 then Fault OutOfBounds
      else let s = fold (\<lambda>i s. terminal_putc (filename ! i) (displayed_terminal s) s) [0..<32] s
           in andthen (printf [NEWLINE, 0] [] s) (Done \<circ> snd))"

section \<open>Scrolling\<close>

definition row_of :: "nat \<Rightarrow> nat \<Rightarrow> nat" where
  "row_of base x = (x - base) div 2 div NUM_COLS"

definition col_of :: "nat \<Rightarrow> nat \<Rightarrow> nat" where
  "col_of base x = (x - base) div 2 mod NUM_COLS"

lemma cell_bytes:
  assumes "i < 80"
  shows "x = base + 2 * (80 * j + i) \<or> x = base + 2 * (80 * j + i) + 1 \<longleftrightarrow>
    base \<le> x \<and> col_of base x = i \<and> row_of base x = j"
proof
  assume "x = base + 2 * (80 * j + i) \<or> x = base + 2 * (80 * j + i) + 1"
  then show "base \<le> x \<and> col_of base x = i \<and> row_of base x = j"
    using assms by (auto simp: col_of_def row_of_def)
next
  assume h: "base \<le> x \<and> col_of base x = i \<and> row_of base x = j"
  then have "(x - base) div 2 = 80 * j + i"
    using div_mult_mod_eq[of "(x - base) div 2" 80] by (simp add: col_of_def row_of_def)
  moreover have "base \<le> x" using h by simp
  ultimately show "x = base + 2 * (80 * j + i) \<or> x = base + 2 * (80 * j + i) + 1" by presburger
qed

lemma next_row:
  "base \<le> x \<Longrightarrow> row_of base (x + 160) = Suc (row_of base x) \<and> col_of base (x + 160) = col_of base x"
proof -
  assume "base \<le> x"
  then have "(x + 160 - base) div 2 = (x - base) div 2 + 80" by linarith
  moreover have "(q + 80) div 80 = Suc (q div 80) \<and> (q + 80) mod 80 = q mod 80" for q :: nat
    by simp
  ultimately show ?thesis by (simp only: row_of_def col_of_def)
qed

lemma copy_up_apply:
  assumes "i < 80"
  shows "copy_up base i j m x =
    (if base \<le> x \<and> col_of base x = i \<and> row_of base x = j then m (x + 160) else m x)"
  unfolding cell_bytes[OF assms, symmetric]
  by (auto simp: copy_up_def Let_def algebra_simps)

lemma copy_up_column:
  assumes "i < 80"
  shows "fold (copy_up base i) [0..<n] m x =
    (if base \<le> x \<and> col_of base x = i \<and> row_of base x < n then m (x + 160) else m x)"
proof (induction n arbitrary: x)
  case (Suc n)
  have "fold (copy_up base i) [0..<Suc n] m x = copy_up base i n (fold (copy_up base i) [0..<n] m) x"
    by simp
  then show ?case
    using next_row[of base x] unfolding copy_up_apply[OF assms, of base n _ x] Suc.IH by auto
qed simp

lemma copy_up_all:
  "n \<le> 80 \<Longrightarrow> fold (\<lambda>i m. fold (copy_up base i) [0..<k] m) [0..<n] m x =
    (if base \<le> x \<and> col_of base x < n \<and> row_of base x < k then m (x + 160) else m x)"
proof (induction n arbitrary: x)
  case (Suc n)
  then have n: "n < 80" by simp
  have IH: "fold (\<lambda>i m. fold (copy_up base i) [0..<k] m) [0..<n] m y =
    (if base \<le> y \<and> col_of base y < n \<and> row_of base y < k then m (y + 160) else m y)" for y
    using Suc by simp
  have "fold (\<lambda>i m. fold (copy_up base i) [0..<k] m) [0..<Suc n] m x =
      fold (copy_up base n) [0..<k] (fold (\<lambda>i m. fold (copy_up base i) [0..<k] m) [0..<n] m) x"
    by simp
  then show ?case
    using next_row[of base x] unfolding copy_up_column[OF n, of base k _ x] IH by auto
qed simp

lemma clear_row:
  "n \<le> 80 \<Longrightarrow> fold (\<lambda>i. set_cell base (80 * r + i) c a) [0..<n] m x =
    (if base \<le> x \<and> row_of base x = r \<and> col_of base x < n
     then (if even (x - base) then c else a) else m x)"
proof (induction n arbitrary: x)
  case (Suc n)
  then have n: "n < 80" by simp
  have "set_cell base (80 * r + n) c a m' x =
    (if base \<le> x \<and> col_of base x = n \<and> row_of base x = r then (if even (x - base) then c else a) else m' x)"
    for m'
    unfolding cell_bytes[OF n, symmetric]
    by (auto simp: set_cell_def)
  then show ?case using Suc by (auto simp: less_Suc_eq)
qed simp

lemma row_bounds: "base \<le> x \<Longrightarrow> row_of base x < n \<longleftrightarrow> x < base + 160 * n"
  by (simp add: row_of_def div_less_iff_less_mult flip: div_mult2_eq) linarith

lemma col_bound [simp]: "col_of base x < 80"
  by (simp add: col_of_def)

lemma scroll_mem_apply:
  "scroll_mem base m x =
    (if base \<le> x \<and> x < base + 3840 then m (x + 160)
     else if base + 3840 \<le> x \<and> x < base + 4000 then (if even (x - base) then SPACE else ATTRIB)
     else m x)"
proof -
  have r: "base \<le> x \<Longrightarrow> row_of base x = 24 \<longleftrightarrow> base + 3840 \<le> x \<and> x < base + 4000"
    using row_bounds[of base x 24] row_bounds[of base x 25] by auto
  show ?thesis
    using row_bounds[of base x 24] r clear_row[of 80 base 24 SPACE ATTRIB]
    by (auto simp: scroll_mem_def Let_def copy_up_all)
qed

section \<open>The abstract screen\<close>

record screen =
  cells :: "u8 list"
  cursor :: nat

definition page_chars :: "nat \<Rightarrow> mem \<Rightarrow> u8 list" where
  "page_chars base m = map (\<lambda>k. m (base + 2 * k)) [0..<2000]"

definition screen_of :: "nat \<Rightarrow> kernel \<Rightarrow> screen" where
  "screen_of tid s =
     \<lparr>cells = page_chars (vid_base tid s) (phys s),
      cursor = NUM_COLS * cur_y (terminal s tid) + cur_x (terminal s tid)\<rparr>"

definition scr_scroll :: "u8 list \<Rightarrow> u8 list" where
  "scr_scroll cs = drop 80 cs @ replicate 80 SPACE"

definition scr_putc :: "u8 \<Rightarrow> screen \<Rightarrow> screen" where
  "scr_putc c w =
     (if c = NEWLINE \<or> c = RETURN then
        (if cursor w < 1920 then w\<lparr>cursor := (cursor w div 80 + 1) * 80\<rparr>
         else w\<lparr>cells := scr_scroll (cells w), cursor := 1920\<rparr>)
      else if c = BACKSPACE then
        w\<lparr>cells := (cells w)[cursor w - 1 := SPACE], cursor := cursor w - 1\<rparr>
      else if cursor w < 1999 then
        w\<lparr>cells := (cells w)[cursor w := c], cursor := cursor w + 1\<rparr>
      else w\<lparr>cells := scr_scroll ((cells w)[cursor w := c]), cursor := 1920\<rparr>)"

lemma length_page_chars [simp]: "length (page_chars base m) = 2000"
  by (simp add: page_chars_def)

lemma page_chars_set_cell:
  "k < 2000 \<Longrightarrow> page_chars base (set_cell base k c a m) = (page_chars base m)[k := c]"
  by (rule nth_equalityI) (auto simp: page_chars_def set_cell_def nth_list_update)

lemma page_chars_scroll: "page_chars base (scroll_mem base m) = scr_scroll (page_chars base m)"
proof (rule nth_equalityI)
  fix k assume "k < length (page_chars base (scroll_mem base m))"
  then have k: "k < 2000" by simp
  show "page_chars base (scroll_mem base m) ! k = scr_scroll (page_chars base m) ! k"
  proof (cases "k < 1920")
    case True
    then show ?thesis by (simp add: page_chars_def scr_scroll_def scroll_mem_apply nth_append algebra_simps)
  next
    case False
    then show ?thesis using k
      by (simp add: page_chars_def scr_scroll_def scroll_mem_apply nth_append)
  qed
qed (simp add: scr_scroll_def)

section \<open>What the routines change\<close>

definition cursor_bytes :: "nat \<Rightarrow> (nat \<times> u8) list" where
  "cursor_bytes pos =
     [(CURSOR_ADDR_REG, 0x0F), (CURSOR_DATA_REG, ucast ((of_nat pos :: u16) AND 0xFF)),
      (CURSOR_ADDR_REG, 0x0E), (CURSOR_DATA_REG, ucast (drop_bit 8 (of_nat pos :: u16) AND 0xFF))]"

lemma show_cursor_eq:
  "show_cursor tid s =
     s\<lparr>outs := outs s @ (if tid = displayed_terminal s
        then cursor_bytes (cur_y (terminal s tid) * NUM_COLS + cur_x (terminal s tid)) else [])\<rparr>"
  by (simp add: show_cursor_def update_screen_xy_def update_cursor_def cursor_bytes_def
      upd_term_def outb_def Let_def)

lemma shift_up_by_one_eq:
  "shift_up_by_one tid s = s\<lparr>if_flag := True, phys := scroll_mem (vid_base tid s) (phys s)\<rparr>"
  by (simp add: shift_up_by_one_def cli_def sti_def Let_def vid_base_def)

lemmas putc_defs = terminal_putc_def putc_newline_def putc_backspace_def putc_char_def
  show_cursor_eq shift_up_by_one_eq poke_cell_def upd_term_def

text \<open>
  The frame of a print to terminal \<open>tid\<close>: its cursor and scroll flag, its video page, the
  cursor ports and the interrupt flag.
\<close>

definition no_console :: "nat \<Rightarrow> kernel \<Rightarrow> kernel" where
  "no_console tid s =
     s\<lparr>if_flag := False, outs := [], phys := (\<lambda>a. 0),
       terminal := (terminal s)(tid := (terminal s tid)\<lparr>cur_x := 0, cur_y := 0,
         shift_up_one_flag := 0\<rparr>)\<rparr>"

lemma no_console_upd [frame]:
  "(\<And>t. (f t)\<lparr>cur_x := 0, cur_y := 0, shift_up_one_flag := 0\<rparr> =
       t\<lparr>cur_x := 0, cur_y := 0, shift_up_one_flag := 0\<rparr>) \<Longrightarrow>
   no_console tid (upd_term tid f s) = no_console tid s"
  by (simp add: no_console_def upd_term_def)

lemma no_console_parts [frame]:
  "no_console tid (show_cursor tid s) = no_console tid s"
  "no_console tid (poke_cell base k c s) = no_console tid s"
  "no_console tid (shift_up_by_one tid s) = no_console tid s"
  by (simp_all add: no_console_def show_cursor_eq poke_cell_def shift_up_by_one_eq)

lemma no_console_let:
  "no_console tid e = c \<Longrightarrow> (\<And>x. no_console tid x = c \<Longrightarrow> no_console tid (f x) = c) \<Longrightarrow>
   no_console tid (let x = e in f x) = c"
  by (simp add: Let_def)

lemma no_console_if:
  "no_console tid a = c \<Longrightarrow> no_console tid b = c \<Longrightarrow> no_console tid (if d then a else b) = c"
  by simp

lemma putc_newline_frame [frame]: "no_console tid (putc_newline tid s) = no_console tid s"
  unfolding putc_newline_def
  by (intro no_console_let no_console_if) (simp_all add: frame)

lemma putc_backspace_frame [frame]: "no_console tid (putc_backspace base tid s) = no_console tid s"
  unfolding putc_backspace_def Let_def[of "terminal s tid"]
  by (intro no_console_let no_console_if) (simp_all add: frame)

lemma putc_char_frame [frame]: "no_console tid (putc_char base c tid s) = no_console tid s"
  unfolding putc_char_def
  by (intro no_console_let no_console_if) (simp_all add: frame)

lemma putc_finish_frame [frame]: "no_console tid (putc_finish tid s) = no_console tid s"
  unfolding putc_finish_def
  by (intro no_console_let no_console_if) (simp_all add: frame)

lemma terminal_putc_frame [frame]: "no_console tid (terminal_putc c tid s) = no_console tid s"
  unfolding terminal_putc_def Let_def[of "vid_base tid s"]
  by (intro no_console_let no_console_if) (simp_all add: frame)

lemma no_console_eqD:
  assumes "no_console tid s' = no_console tid s"
  shows "displayed_terminal s' = displayed_terminal s" "active_terminal s' = active_terminal s"
    and "pcbs s' = pcbs s" "fs s' = fs s" "pid_array s' = pid_array s" "curr_pid s' = curr_pid s"
    and "u \<noteq> tid \<Longrightarrow> terminal s' u = terminal s u"
    and "tempbuf (terminal s' u) = tempbuf (terminal s u)"
    and "line_length (terminal s' u) = line_length (terminal s u)"
    and "read_length (terminal s' u) = read_length (terminal s u)"
    and "enter_flag (terminal s' u) = enter_flag (terminal s u)"
proof -
  have f: "h (no_console tid s') = h (no_console tid s)" for h :: "kernel \<Rightarrow> 'z" using assms by simp
  show "displayed_terminal s' = displayed_terminal s" "active_terminal s' = active_terminal s"
    "pcbs s' = pcbs s" "fs s' = fs s" "pid_array s' = pid_array s" "curr_pid s' = curr_pid s"
    using assms[THEN arg_cong, of displayed_terminal] assms[THEN arg_cong, of active_terminal]
      assms[THEN arg_cong, of pcbs] assms[THEN arg_cong, of fs] assms[THEN arg_cong, of pid_array]
      assms[THEN arg_cong, of curr_pid]
    by (simp_all add: no_console_def)
  show "u \<noteq> tid \<Longrightarrow> terminal s' u = terminal s u"
    using assms[THEN arg_cong, of "\<lambda>s. terminal s u"] by (simp add: no_console_def)
  show "tempbuf (terminal s' u) = tempbuf (terminal s u)"
    "line_length (terminal s' u) = line_length (terminal s u)"
    "read_length (terminal s' u) = read_length (terminal s u)"
    "enter_flag (terminal s' u) = enter_flag (terminal s u)"
    using assms[THEN arg_cong, of "\<lambda>s. tempbuf (terminal s u)"]
      assms[THEN arg_cong, of "\<lambda>s. line_length (terminal s u)"]
      assms[THEN arg_cong, of "\<lambda>s. read_length (terminal s u)"]
      assms[THEN arg_cong, of "\<lambda>s. enter_flag (terminal s u)"]
    by (simp_all add: no_console_def split: if_splits)
qed

section \<open>The code implements the abstract screen\<close>

text \<open>The scroll flag is 2 exactly while the cursor stands on the last cell.\<close>

definition console_ok :: "nat \<Rightarrow> kernel \<Rightarrow> bool" where
  "console_ok tid s \<longleftrightarrow>
     cur_x (terminal s tid) < NUM_COLS \<and> cur_y (terminal s tid) < NUM_ROWS \<and>
     shift_up_one_flag (terminal s tid) =
       (if cur_y (terminal s tid) = NUM_ROWS - 1 \<and> cur_x (terminal s tid) = NUM_COLS - 1 then 2 else 0)"

text \<open>The part that every character keeps, a backspace on the last cell included.\<close>

definition cursor_ok :: "nat \<Rightarrow> kernel \<Rightarrow> bool" where
  "cursor_ok tid s \<longleftrightarrow>
     cur_x (terminal s tid) < NUM_COLS \<and> cur_y (terminal s tid) < NUM_ROWS \<and>
     shift_up_one_flag (terminal s tid) \<in> {0, 2} \<and>
     (cur_y (terminal s tid) = NUM_ROWS - 1 \<and> cur_x (terminal s tid) = NUM_COLS - 1 \<longrightarrow>
        shift_up_one_flag (terminal s tid) = 2)"

lemma console_ok_cursor_ok: "console_ok tid s \<Longrightarrow> cursor_ok tid s"
  by (auto simp: console_ok_def cursor_ok_def)

lemma linear_cursor:
  fixes x y :: nat
  assumes "x < 80" "y < 25"
  shows "80 * y + x < 2000" and "80 * y + x < 1920 \<longleftrightarrow> y < 24"
    and "80 * y + x < 1999 \<longleftrightarrow> \<not> (y = 24 \<and> x = 79)" and "(80 * y + x) div 80 = y"
  using assms by auto

lemma linear_mod_div:
  fixes x y :: nat
  assumes "x < 80"
  shows "(80 * y + x) mod 80 = x" and "(80 * y + x) div 80 = y"
  using assms by simp_all

lemma cursor_retreat:
  fixes x y :: nat
  assumes "x < 80"
  shows "(80 * y + x - 1) mod 80 = (if x > 0 then x - 1 else if y = 0 then 0 else 79)"
    and "(80 * y + x - 1) div 80 = (if x > 0 then y else y - 1)"
proof -
  have pos: "80 * y + x - 1 = 80 * y + (x - 1)" if "x > 0" using that by simp
  have zero: "80 * y + x - 1 = 80 * (y - 1) + 79" if "x = 0" "y > 0"
    using that by (cases y) simp_all
  show "(80 * y + x - 1) mod 80 = (if x > 0 then x - 1 else if y = 0 then 0 else 79)"
    using assms pos zero linear_mod_div(1)[of "x - 1" y] linear_mod_div(1)[of 79 "y - 1"]
    by (cases "x = 0"; cases "y = 0") simp_all
  show "(80 * y + x - 1) div 80 = (if x > 0 then y else y - 1)"
    using assms pos zero linear_mod_div(2)[of "x - 1" y] linear_mod_div(2)[of 79 "y - 1"]
    by (cases "x = 0"; cases "y = 0") simp_all
qed

lemma cursor_advance:
  fixes x y :: nat
  assumes "x < 80"
  shows "Suc (80 * y + x) mod 80 = Suc x mod 80"
    and "y < 25 \<Longrightarrow> 80 * y + x < 1999 \<Longrightarrow> Suc (80 * y + x) div 80 = (y + Suc x div 80) mod 25"
proof -
  have e: "Suc (80 * y + x) = 80 * y + Suc x" by simp
  show "Suc (80 * y + x) mod 80 = Suc x mod 80" unfolding e by simp
  assume "y < 25" "80 * y + x < 1999"
  then consider "x = 79" "y < 24" | "x < 79" using assms by linarith
  then show "Suc (80 * y + x) div 80 = (y + Suc x div 80) mod 25"
    unfolding e by cases (use \<open>y < 25\<close> in simp_all)
qed

lemma vid_base_cong: "displayed_terminal s' = displayed_terminal s \<Longrightarrow> vid_base tid s' = vid_base tid s"
  by (simp add: vid_base_def)

lemma console_proj:
  "terminal (show_cursor tid s) = terminal s" "phys (show_cursor tid s) = phys s"
  "displayed_terminal (show_cursor tid s) = displayed_terminal s"
  "terminal (shift_up_by_one tid s) = terminal s"
  "phys (shift_up_by_one tid s) = scroll_mem (vid_base tid s) (phys s)"
  "displayed_terminal (shift_up_by_one tid s) = displayed_terminal s"
  "terminal (poke_cell base k c s) = terminal s"
  "phys (poke_cell base k c s) = set_cell base k c ATTRIB (phys s)"
  "displayed_terminal (poke_cell base k c s) = displayed_terminal s"
  "terminal (upd_term tid f s) u = (if u = tid then f (terminal s tid) else terminal s u)"
  "phys (upd_term tid f s) = phys s"
  "displayed_terminal (upd_term tid f s) = displayed_terminal s"
  by (simp_all add: show_cursor_eq shift_up_by_one_eq poke_cell_def upd_term_def)

lemmas putc_step_defs = console_proj Let_def

lemma finish_step:
  "terminal (putc_finish tid s) tid =
    (if cur_y (terminal s tid) = 24 \<and> cur_x (terminal s tid) = 79
     then (terminal s tid)\<lparr>shift_up_one_flag := 2\<rparr>
     else if shift_up_one_flag (terminal s tid) = 1
     then (terminal s tid)\<lparr>cur_x := 0, cur_y := 24, shift_up_one_flag := 0\<rparr>
     else terminal s tid)"
  "phys (putc_finish tid s) =
    (if \<not> (cur_y (terminal s tid) = 24 \<and> cur_x (terminal s tid) = 79)
        \<and> shift_up_one_flag (terminal s tid) = 1
     then scroll_mem (vid_base tid s) (phys s) else phys s)"
  by (auto simp: putc_finish_def putc_step_defs)

lemma newline_part:
  "terminal (putc_newline tid s) tid = (terminal s tid)\<lparr>cur_x := 0,
      cur_y := (if cur_y (terminal s tid) < 24 then cur_y (terminal s tid) + 1 else 24),
      shift_up_one_flag := (if cur_y (terminal s tid) < 24 then 0 else 1)\<rparr>"
  "phys (putc_newline tid s) = phys s"
  by (simp_all add: putc_newline_def putc_step_defs)

lemma backspace_part:
  assumes "cur_x (terminal s tid) < 80"
  defines "k \<equiv> 80 * cur_y (terminal s tid) + cur_x (terminal s tid) - 1"
  shows "terminal (putc_backspace base tid s) tid = (terminal s tid)\<lparr>cur_x := k mod 80, cur_y := k div 80\<rparr>"
    and "phys (putc_backspace base tid s) = set_cell base k SPACE ATTRIB (phys s)"
proof -
  let ?x = "cur_x (terminal s tid)" and ?y = "cur_y (terminal s tid)"
  have k: "k mod 80 = (if ?x > 0 then ?x - 1 else if ?y = 0 then 0 else 79)"
    "k div 80 = (if ?x > 0 then ?y else ?y - 1)"
    unfolding k_def by (rule cursor_retreat[OF assms(1)])+
  have t: "terminal (putc_backspace base tid s) tid = (terminal s tid)\<lparr>cur_x := (if ?x > 0 then ?x - 1 else if ?y = 0 then 0 else 79),
      cur_y := (if ?x > 0 then ?y else ?y - 1)\<rparr>"
    by (simp add: putc_backspace_def putc_step_defs)
  then show "terminal (putc_backspace base tid s) tid = (terminal s tid)\<lparr>cur_x := k mod 80, cur_y := k div 80\<rparr>"
    by (simp only: k)
  have "k = 80 * (k div 80) + k mod 80" by simp
  moreover have "phys (putc_backspace base tid s) =
      set_cell base (80 * (if ?x > 0 then ?y else ?y - 1) + (if ?x > 0 then ?x - 1 else if ?y = 0 then 0 else 79))
        SPACE ATTRIB (phys s)"
    by (simp add: putc_backspace_def putc_step_defs)
  ultimately show "phys (putc_backspace base tid s) = set_cell base k SPACE ATTRIB (phys s)"
    by (simp only: k)
qed

lemma char_part:
  fixes tid s
  defines "x \<equiv> cur_x (terminal s tid)" and "y \<equiv> cur_y (terminal s tid)"
  shows "shift_up_one_flag (terminal s tid) = 0 \<Longrightarrow>
      terminal (putc_char base c tid s) tid = (terminal s tid)\<lparr>cur_x := Suc x mod 80, cur_y := (y + Suc x div 80) mod 25\<rparr> \<and>
      phys (putc_char base c tid s) = set_cell base (80 * y + x) c ATTRIB (phys s)"
    and "shift_up_one_flag (terminal s tid) = 2 \<Longrightarrow>
      terminal (putc_char base c tid s) tid = (terminal s tid)\<lparr>cur_x := 0, cur_y := 24, shift_up_one_flag := 0\<rparr> \<and>
      phys (putc_char base c tid s) = scroll_mem (vid_base tid s) (set_cell base (80 * y + x) c ATTRIB (phys s))"
  by (simp_all add: putc_char_def putc_step_defs x_def y_def vid_base_def)

lemma vid_base_frame: "no_console tid s' = no_console tid s \<Longrightarrow> vid_base u s' = vid_base u s"
  by (rule vid_base_cong, rule no_console_eqD(1))

lemma vid_base_parts [simp]:
  "vid_base u (putc_newline tid s) = vid_base u s"
  "vid_base u (putc_backspace base tid s) = vid_base u s"
  "vid_base u (putc_char base c tid s) = vid_base u s"
  "vid_base u (terminal_putc c tid s) = vid_base u s"
  by (rule vid_base_frame[of tid], rule frame)+

lemma putc_cases:
  obtains "c = NEWLINE \<or> c = RETURN" "terminal_putc c tid s = putc_finish tid (putc_newline tid s)"
  | "c = BACKSPACE" "terminal_putc c tid s = putc_finish tid (putc_backspace (vid_base tid s) tid s)"
  | "c \<noteq> NEWLINE" "c \<noteq> RETURN" "c \<noteq> BACKSPACE"
    "terminal_putc c tid s = putc_finish tid (putc_char (vid_base tid s) c tid s)"
  by (cases "c = NEWLINE \<or> c = RETURN"; cases "c = BACKSPACE"; simp add: terminal_putc_def)

lemma screen_of_eq:
  "cursor (screen_of tid s) = k \<Longrightarrow> page_chars (vid_base tid s) (phys s) = cs \<Longrightarrow>
   screen_of tid s = \<lparr>cells = cs, cursor = k\<rparr>"
  by (simp add: screen_of_def)

theorem terminal_putc_refines:
  assumes ok: "console_ok tid s"
  shows "screen_of tid (terminal_putc c tid s) = scr_putc c (screen_of tid s) \<and>
    (\<not> (c = BACKSPACE \<and> cursor (screen_of tid s) = 1999) \<longrightarrow> console_ok tid (terminal_putc c tid s))"
proof -
  define x y where "x = cur_x (terminal s tid)" and "y = cur_y (terminal s tid)"
  define k where "k = 80 * y + x"
  have x: "cur_x (terminal s tid) = x" and y: "cur_y (terminal s tid) = y"
    and b: "x < 80" "y < 25" and flag: "shift_up_one_flag (terminal s tid) = (if k = 1999 then 2 else 0)"
    using ok linear_cursor(3)[of x y] by (auto simp: console_ok_def x_def y_def k_def)
  have k: "k < 2000" "k div 80 = y" using b by (simp_all add: k_def)
  have w: "screen_of tid s = \<lparr>cells = page_chars (vid_base tid s) (phys s), cursor = k\<rparr>"
    by (simp add: screen_of_def x y k_def)
  let ?t = "terminal s tid" and ?b = "vid_base tid s" and ?s' = "terminal_putc c tid s"
  have w': "screen_of tid (terminal_putc d tid s) = \<lparr>cells = page_chars ?b (phys (terminal_putc d tid s)),
      cursor = 80 * cur_y (terminal (terminal_putc d tid s) tid)
        + cur_x (terminal (terminal_putc d tid s) tid)\<rparr>" for d
    by (simp add: screen_of_def)
  note defs = w w' scr_putc_def console_ok_def page_chars_set_cell page_chars_scroll
  note parts = finish_step newline_part x y k
  show ?thesis
  proof (cases rule: putc_cases[of c tid s])
    case 1
    show ?thesis
    proof (cases "y < 24")
      case True
      then have "k < 1920" using b by (simp add: k_def)
      moreover have "terminal ?s' tid = ?t\<lparr>cur_x := 0, cur_y := y + 1, shift_up_one_flag := 0\<rparr>"
        "phys ?s' = phys s" using True by (simp_all add: 1(2) parts)
      ultimately show ?thesis using 1(1) True k by (simp add: defs)
    next
      case False
      then have "\<not> k < 1920" using b by (simp add: k_def)
      moreover have "terminal ?s' tid = ?t\<lparr>cur_x := 0, cur_y := 24, shift_up_one_flag := 0\<rparr>"
        "phys ?s' = scroll_mem ?b (phys s)" using False by (simp_all add: 1(2) parts)
      ultimately show ?thesis using 1(1) by (simp add: defs)
    qed
  next
    case 2
    have kk: "80 * ((k - 1) div 80) + (k - 1) mod 80 = k - 1" by simp
    have nl: "\<not> ((k - 1) div 80 = 24 \<and> (k - 1) mod 80 = 79)"
    proof
      assume a: "(k - 1) div 80 = 24 \<and> (k - 1) mod 80 = 79"
      have "80 * 24 + 79 = k - 1" using kk by (simp only: a)
      with k show False by simp
    qed
    note bp = backspace_part[of s tid, unfolded x y, OF b(1), folded k_def]
    have "terminal ?s' tid = ?t\<lparr>cur_x := (k - 1) mod 80, cur_y := (k - 1) div 80\<rparr>"
      "phys ?s' = set_cell ?b (k - 1) SPACE ATTRIB (phys s)"
      using nl flag by (auto simp: 2(2) finish_step bp)
    then show ?thesis using 2(1) k(1) kk nl flag by (auto simp: defs)
  next
    case 3
    show ?thesis
    proof (cases "k < 1999")
      case True
      have z: "Suc k mod 80 = Suc x mod 80" "Suc k div 80 = (y + Suc x div 80) mod 25"
        using cursor_advance(1)[OF b(1), of y] cursor_advance(2)[OF b] True by (simp_all add: k_def)
      have kk: "80 * (Suc k div 80) + Suc k mod 80 = Suc k" by simp
      have bd: "Suc k div 80 < 25" using True by simp
      have "shift_up_one_flag ?t = 0" using flag True by simp
      note cp = char_part(1)[OF this, of _ c, unfolded x y, folded z k_def]
      have "terminal ?s' tid = ?t\<lparr>cur_x := Suc k mod 80, cur_y := Suc k div 80,
          shift_up_one_flag := (if Suc k div 80 = 24 \<and> Suc k mod 80 = 79 then 2 else 0)\<rparr>"
        "phys ?s' = set_cell ?b k c ATTRIB (phys s)"
        using cp flag True by (simp_all add: 3(4) finish_step)
      then show ?thesis using 3(1-3) True kk bd by (simp add: defs)
    next
      case False
      then have last: "k = 1999" "shift_up_one_flag ?t = 2" using flag k by simp_all
      note cp = char_part(2)[OF last(2), of _ c, unfolded x y, folded k_def]
      have "terminal ?s' tid = ?t\<lparr>cur_x := 0, cur_y := 24, shift_up_one_flag := 0\<rparr>"
        "phys ?s' = scroll_mem ?b (set_cell ?b k c ATTRIB (phys s))"
        using cp by (simp_all add: 3(4) finish_step)
      then show ?thesis using 3(1-3) last(1) by (simp add: defs)
    qed
  qed
qed

section \<open>Bounds and isolation\<close>

theorem terminal_putc_cursor_ok:
  assumes "cursor_ok tid s"
  shows "cursor_ok tid (terminal_putc c tid s)"
proof -
  define x y where "x = cur_x (terminal s tid)" and "y = cur_y (terminal s tid)"
  define k where "k = 80 * y + x"
  have x: "cur_x (terminal s tid) = x" and y: "cur_y (terminal s tid) = y"
    and b: "x < 80" "y < 25" and flag: "shift_up_one_flag (terminal s tid) \<in> {0, 2}"
    using assms by (auto simp: cursor_ok_def x_def y_def)
  note bp = backspace_part[of s tid, unfolded x y, OF b(1), folded k_def]
  have "(k - 1) div 80 < 25" "(k - 1) mod 80 < 80" using b by (simp_all add: k_def)
  note kb = this
  show ?thesis
  proof (cases rule: putc_cases[of c tid s])
    case 1
    show ?thesis unfolding 1(2) cursor_ok_def using b
      by (auto simp: finish_step newline_part x y)
  next
    case 2
    show ?thesis unfolding 2(2) cursor_ok_def using kb flag
      by (auto simp: finish_step bp)
  next
    case 3
    show ?thesis
    proof (cases "shift_up_one_flag (terminal s tid) = 0")
      case True
      note cp = char_part(1)[OF this, of _ c, unfolded x y]
      show ?thesis unfolding 3(4) cursor_ok_def using True
        by (auto simp: finish_step cp)
    next
      case False
      then have "shift_up_one_flag (terminal s tid) = 2" using flag by simp
      note cp = char_part(2)[OF this, of _ c, unfolded x y]
      show ?thesis unfolding 3(4) cursor_ok_def
        by (auto simp: finish_step cp)
    qed
  qed
qed

definition page :: "nat \<Rightarrow> kernel \<Rightarrow> nat set" where
  "page tid s = {vid_base tid s ..< vid_base tid s + 4000}"

lemma set_cell_outside: "k < 2000 \<Longrightarrow> a < b \<or> b + 4000 \<le> a \<Longrightarrow> set_cell b k c d m a = m a"
  by (auto simp: set_cell_def)

lemma scroll_mem_outside: "a < b \<or> b + 4000 \<le> a \<Longrightarrow> scroll_mem b m a = m a"
  by (auto simp: scroll_mem_apply)

theorem terminal_putc_in_page:
  assumes "cursor_ok tid s" "a \<notin> page tid s"
  shows "phys (terminal_putc c tid s) a = phys s a"
proof -
  have b: "cur_x (terminal s tid) < 80" "cur_y (terminal s tid) < 25"
    and flag: "shift_up_one_flag (terminal s tid) \<in> {0, 2}"
    using assms(1) by (auto simp: cursor_ok_def)
  have a: "a < vid_base tid s \<or> vid_base tid s + 4000 \<le> a" using assms(2) by (auto simp: page_def)
  let ?k = "80 * cur_y (terminal s tid) + cur_x (terminal s tid)"
  have k: "?k < 2000" using linear_cursor(1)[OF b] .
  note outside = scroll_mem_outside[OF a] set_cell_outside[OF _ a]
  show ?thesis
  proof (cases rule: putc_cases[of c tid s])
    case 1
    show ?thesis unfolding 1(2) by (simp add: finish_step newline_part outside)
  next
    case 2
    have "?k - 1 < 2000" using k by simp
    from set_cell_outside[OF this a] show ?thesis
      unfolding 2(2) by (simp add: finish_step backspace_part[OF b(1)] outside)
  next
    case 3
    show ?thesis
    proof (cases "shift_up_one_flag (terminal s tid) = 0")
      case True
      from char_part(1)[OF this, of _ c] show ?thesis
        unfolding 3(4) by (simp add: finish_step outside k)
    next
      case False
      then have "shift_up_one_flag (terminal s tid) = 2" using flag by simp
      from char_part(2)[OF this, of _ c] show ?thesis
        unfolding 3(4) by (simp add: finish_step outside k)
    qed
  qed
qed

lemma pages_disjoint: "u \<noteq> tid \<Longrightarrow> page u s \<inter> page tid s = {}"
proof -
  assume "u \<noteq> tid"
  then consider "u < tid" | "tid < u" by linarith
  then show ?thesis by cases (auto simp: page_def vid_base_def)
qed

lemma page_chars_cong: "(\<And>a. b \<le> a \<Longrightarrow> a < b + 4000 \<Longrightarrow> m a = m' a) \<Longrightarrow> page_chars b m = page_chars b m'"
  by (simp add: page_chars_def)

theorem terminal_putc_isolated:
  assumes "cursor_ok tid s" "u \<noteq> tid"
  shows "screen_of u (terminal_putc c tid s) = screen_of u s"
proof -
  note fr = terminal_putc_frame[of tid c s]
  have "page_chars (vid_base u s) (phys (terminal_putc c tid s)) = page_chars (vid_base u s) (phys s)"
    by (rule page_chars_cong, rule terminal_putc_in_page[OF assms(1)])
      (use pages_disjoint[OF assms(2), of s] in \<open>auto simp: page_def\<close>)
  then show ?thesis
    using no_console_eqD(7)[OF fr assms(2)] by (simp add: screen_of_def)
qed

section \<open>A backspace on the last cell\<close>

text \<open>
  The scroll mark survives it, so the next character scrolls the screen although the row is not
  full, and is left in the row above the cursor.
\<close>

lemma backspace_on_last_cell:
  assumes "console_ok tid s" "cursor (screen_of tid s) = 1999"
    and "c \<noteq> NEWLINE" "c \<noteq> RETURN" "c \<noteq> BACKSPACE"
  defines "s1 \<equiv> terminal_putc BACKSPACE tid s"
  shows "cursor (screen_of tid s1) = 1998 \<and> shift_up_one_flag (terminal s1 tid) = 2
    \<and> cursor (screen_of tid (terminal_putc c tid s1)) = 1920"
proof -
  have "cur_x (terminal s tid) < 80" "cur_y (terminal s tid) < 25"
    using assms(1) by (auto simp: console_ok_def)
  from linear_cursor(3)[OF this] have b: "cur_x (terminal s tid) = 79" "cur_y (terminal s tid) = 24"
    using assms(2) by (simp_all add: screen_of_def)
  then have b': "shift_up_one_flag (terminal s tid) = 2" using assms(1) by (simp add: console_ok_def)
  have s1: "s1 = putc_finish tid (putc_backspace (vid_base tid s) tid s)"
    by (simp add: s1_def terminal_putc_def)
  have t1: "terminal s1 tid = (terminal s tid)\<lparr>cur_x := 78, cur_y := 24\<rparr>"
    unfolding s1 using backspace_part(1)[of s tid "vid_base tid s"] by (simp add: finish_step b b')
  then have f: "shift_up_one_flag (terminal s1 tid) = 2" by (simp add: b')
  have "terminal_putc c tid s1 = putc_finish tid (putc_char (vid_base tid s1) c tid s1)"
    using assms(3-5) by (simp add: terminal_putc_def)
  then have "cursor (screen_of tid (terminal_putc c tid s1)) = 1920"
    using char_part(1)[of s1 tid] char_part(2)[OF f, of _ c] by (simp add: screen_of_def finish_step)
  then show ?thesis using f t1 by (simp add: screen_of_def)
qed

section \<open>Printing strings and formats\<close>

lemma puts_eq:
  "0 \<in> set str \<Longrightarrow>
   puts str s = Done (length (cstr str), fold (\<lambda>c s. terminal_putc c (active_terminal s) s) (cstr str) s)"
  by (induction str arbitrary: s) auto

lemma active_terminal_putc [simp]: "active_terminal (terminal_putc c tid s) = active_terminal s"
  by (rule no_console_eqD(2), rule terminal_putc_frame)

lemma displayed_terminal_putc [simp]: "displayed_terminal (terminal_putc c tid s) = displayed_terminal s"
  by (rule no_console_eqD(1), rule terminal_putc_frame)

lemma print_refines:
  assumes "console_ok tid s" "BACKSPACE \<notin> set cs"
  shows "screen_of tid (fold (\<lambda>c. terminal_putc c tid) cs s) = fold scr_putc cs (screen_of tid s)
    \<and> console_ok tid (fold (\<lambda>c. terminal_putc c tid) cs s)"
  using assms
proof (induction cs arbitrary: s)
  case (Cons c cs)
  then show ?case using terminal_putc_refines[of tid s c] by auto
qed simp

lemma fold_active:
  "fold (\<lambda>c s. terminal_putc c (active_terminal s) s) cs s =
   fold (\<lambda>c. terminal_putc c (active_terminal s)) cs s"
  by (induction cs arbitrary: s) simp_all

text \<open>The reference for \<open>printf\<close>: which characters it prints, and on which terminal.\<close>

datatype sink = To_active | To_displayed

fun put_on :: "sink \<times> u8 \<Rightarrow> kernel \<Rightarrow> kernel" where
  "put_on (To_active, c) s = terminal_putc c (active_terminal s) s"
| "put_on (To_displayed, c) s = terminal_putc c (displayed_terminal s) s"

definition int_text :: "int \<Rightarrow> u8 list" where
  "int_text v = (if v < 0 then of_char CHR ''-'' # itoa_text 10 (nat (- v)) else itoa_text 10 (nat v))"

definition hex_text :: "bool \<Rightarrow> nat \<Rightarrow> u8 list" where
  "hex_text alternate v =
     (if alternate then replicate (8 - length (itoa_text 16 v)) (of_char CHR ''0'') else [])
     @ itoa_text 16 v"

fun conv_text ::
    "bool \<Rightarrow> u8 list \<Rightarrow> printf_arg list \<Rightarrow> ((sink \<times> u8) list \<times> u8 list \<times> printf_arg list) option" where
  "conv_text alternate [] args = None"
| "conv_text alternate (c # cs) args =
     (if c = of_char CHR ''%'' then Some ([(To_displayed, of_char CHR ''%'')], cs, args)
      else if c = of_char CHR ''#'' then conv_text True cs args
      else if c \<in> of_char ` {CHR ''x'', CHR ''u'', CHR ''d'', CHR ''c''} then
        (case args of
           Num w # args' \<Rightarrow>
             Some (if c = of_char CHR ''x'' then map (Pair To_active) (hex_text alternate (unat w))
                   else if c = of_char CHR ''u'' then map (Pair To_active) (itoa_text 10 (unat w))
                   else if c = of_char CHR ''d'' then map (Pair To_active) (int_text (sint w))
                   else [(To_displayed, ucast w)], cs, args')
         | _ \<Rightarrow> None)
      else if c = of_char CHR ''s'' then
        (case args of
           Str str # args' \<Rightarrow>
             (if 0 \<in> set str then Some (map (Pair To_active) (cstr str), cs, args') else None)
         | _ \<Rightarrow> None)
      else Some ([], cs, args))"

lemma fold_put_active:
  "fold put_on (map (Pair To_active) cs) s = fold (\<lambda>c s. terminal_putc c (active_terminal s) s) cs s"
  by (induction cs arbitrary: s) simp_all

lemma itoa_conv:
  assumes "2 \<le> unat radix" "unat radix \<le> 36" "unat v < unat radix ^ n" "0 < n" "n < length buf"
  shows "\<exists>rest. itoa v buf radix = Some (itoa_text (unat radix) (unat v) @ 0 # rest)
    \<and> length (itoa_text (unat radix) (unat v)) \<le> n"
  using itoa_correct[OF assms(1,2), of v buf] itoa_text_length[OF assms(1,3,4)] assms(5) by auto

lemma puts_text:
  "0 \<notin> set cs \<Longrightarrow> puts (cs @ 0 # rest) s = Done (length cs, fold put_on (map (Pair To_active) cs) s)"
  by (simp add: puts_eq cstr_append_nul fold_put_active)

lemma print_unsigned_eq:
  "print_unsigned w s = Done (fold put_on (map (Pair To_active) (itoa_text 10 (unat w))) s)"
proof -
  have "unat w < unat (10 :: u32) ^ 10" using u32_bound[of w] by simp
  then obtain rest where "itoa w (load (stack_junk s) 0 36) 10 = Some (itoa_text 10 (unat w) @ 0 # rest)"
    using itoa_conv[of 10 w 10 "load (stack_junk s) 0 36"] by auto
  then show ?thesis
    by (simp add: print_unsigned_def puts_text itoa_text_nonzero)
qed

lemma print_signed_eq:
  "print_signed w s = Done (fold put_on (map (Pair To_active) (int_text (sint w))) s)"
proof (cases "sint w < 0")
  case True
  have "unat (- w) < unat (10 :: u32) ^ 10" using u32_bound[of "- w"] by simp
  then obtain rest where i: "itoa (- w) (drop 1 (load (stack_junk s) 0 36)) 10 =
      Some (itoa_text 10 (unat (- w)) @ 0 # rest)"
    using itoa_conv[of 10 "- w" 10 "drop 1 (load (stack_junk s) 0 36)"] by auto
  have "unat (- w) = nat (- sint w)" using nat_uminus_sint[OF True] by simp
  moreover have "puts (of_char CHR ''-'' # itoa_text 10 (unat (- w)) @ 0 # rest) s =
      Done (Suc (length (itoa_text 10 (unat (- w)))),
        fold put_on (map (Pair To_active) (of_char CHR ''-'' # itoa_text 10 (unat (- w)))) s)"
    using puts_text[of "of_char CHR ''-'' # itoa_text 10 (unat (- w))" rest s]
    by (simp add: itoa_text_nonzero)
  ultimately show ?thesis using True i
    by (simp add: print_signed_def int_text_def Let_def del: puts.simps)
next
  case False
  have "unat w < unat (10 :: u32) ^ 10" using u32_bound[of w] by simp
  then obtain rest where i: "itoa w (load (stack_junk s) 0 36) 10 = Some (itoa_text 10 (unat w) @ 0 # rest)"
    using itoa_conv[of 10 w 10 "load (stack_junk s) 0 36"] by auto
  have "unat w = nat (sint w)" using nat_sint[of w] False by simp
  then show ?thesis using False i
    by (simp add: print_signed_def int_text_def Let_def puts_text itoa_text_nonzero)
qed

lemma fold_fill:
  "n \<le> length (xs :: u8 list) \<Longrightarrow> i \<le> n \<Longrightarrow>
   fold (\<lambda>i xs. xs[i := c]) [i..<n] xs = take i xs @ replicate (n - i) c @ drop n xs"
proof (induction n)
  case (Suc n)
  show ?case
  proof (cases "i \<le> n")
    case True
    with Suc have "fold (\<lambda>i xs. xs[i := c]) [i..<Suc n] xs =
        (take i xs @ replicate (n - i) c @ drop n xs)[n := c]" by simp
    also have "drop n xs = xs ! n # drop (Suc n) xs" using Suc.prems by (simp add: Cons_nth_drop_Suc)
    finally show ?thesis using True Suc.prems
      by (simp add: list_update_append Suc_diff_le replicate_append_same)
  next
    case False
    then have "i = Suc n" using Suc.prems by simp
    then show ?thesis by simp
  qed
qed simp

lemma print_hex_eq:
  "print_hex alternate w s = Done (fold put_on (map (Pair To_active) (hex_text alternate (unat w))) s)"
proof (cases alternate)
  case False
  have "unat w < unat (16 :: u32) ^ 8" using u32_bound[of w] by simp
  then obtain rest where "itoa w (load (stack_junk s) 0 64) 16 = Some (itoa_text 16 (unat w) @ 0 # rest)"
    using itoa_conv[of 16 w 8 "load (stack_junk s) 0 64"] by auto
  then show ?thesis using False
    by (simp add: print_hex_def hex_text_def Let_def puts_text itoa_text_nonzero)
next
  case True
  let ?t = "itoa_text 16 (unat w)" and ?z = "of_char CHR ''0'' :: u8"
  have "unat w < unat (16 :: u32) ^ 8" using u32_bound[of w] by simp
  then obtain rest where i: "itoa w (drop 8 (load (stack_junk s) 0 64)) 16 = Some (?t @ 0 # rest)"
    and len: "length ?t \<le> 8"
    using itoa_conv[of 16 w 8 "drop 8 (load (stack_junk s) 0 64)"] by auto
  have nz: "0 \<notin> set ?t" by (simp add: itoa_text_nonzero)
  have "strlen (?t @ 0 # rest) = Some (length ?t)" using nz by (simp add: strlen_cstr cstr_append_nul)
  moreover have "drop (length ?t) (fold (\<lambda>i buf. buf[i := ?z]) [length ?t..<8]
      (take 8 (load (stack_junk s) 0 64) @ ?t @ 0 # rest)) =
      (replicate (8 - length ?t) ?z @ ?t) @ 0 # rest"
    using len by (subst fold_fill) simp_all
  moreover have "0 \<notin> set (replicate (8 - length ?t) ?z @ ?t)" using nz by auto
  ultimately show ?thesis using True i
    by (simp add: print_hex_def hex_text_def Let_def puts_text del: append_assoc)
qed

lemma printf_conv_correct:
  "conv_text alternate cs args = Some (out, cs', args') \<Longrightarrow>
   printf_conv alternate cs args s = Done (cs', args', fold put_on out s)"
proof (induction alternate cs args arbitrary: out rule: conv_text.induct)
  case (2 alternate c cs args)
  show ?case
  proof (cases args)
    case Nil
    then show ?thesis using 2 by (auto split: if_splits)
  next
    case (Cons a as)
    then show ?thesis using 2
      by (cases a) (auto simp: pop_arg_def print_hex_eq print_unsigned_eq print_signed_eq puts_eq
          fold_put_active split: if_splits)
  qed
qed simp

lemma conv_text_shorter: "conv_text alternate cs args = Some (out, cs', args') \<Longrightarrow> length cs' < length cs"
  by (induction alternate cs args arbitrary: out rule: conv_text.induct)
    (auto split: if_splits list.splits printf_arg.splits)

function printf_text :: "u8 list \<Rightarrow> printf_arg list \<Rightarrow> ((sink \<times> u8) list \<times> nat) option" where
  "printf_text [] args = None"
| "printf_text (c # cs) args =
     (if c = 0 then Some ([], 0)
      else if c = of_char CHR ''%'' then
        (case conv_text False cs args of
           None \<Rightarrow> None
         | Some (out, cs', args') \<Rightarrow>
             map_option (\<lambda>(out', n). (out @ out', n + Suc (length cs - length cs'))) (printf_text cs' args'))
      else map_option (\<lambda>(out, n). ((To_active, c) # out, Suc n)) (printf_text cs args))"
  by pat_completeness auto
termination
  by (relation "measure (\<lambda>(cs, args). length cs)") (auto dest: conv_text_shorter)

theorem printf_correct:
  "printf_text format args = Some (out, n) \<Longrightarrow> printf format args s = Done (n, fold put_on out s)"
proof (induction format args arbitrary: out n s rule: printf_text.induct)
  case (2 c cs args)
  then show ?case
    by (auto simp: printf_conv_correct split: if_splits option.splits)
qed simp

section \<open>Clearing, and the hardware cursor\<close>

lemma clear_cells:
  "n \<le> 2000 \<Longrightarrow> page_chars b (fold (\<lambda>i. set_cell b i c a) [0..<n] m) =
    replicate n c @ drop n (page_chars b m)"
proof (induction n)
  case (Suc n)
  then have n: "n < 2000" by simp
  then have "page_chars b (fold (\<lambda>i. set_cell b i c a) [0..<Suc n] m) =
      (replicate n c @ drop n (page_chars b m))[n := c]"
    using Suc by (simp add: page_chars_set_cell)
  also have "drop n (page_chars b m) = page_chars b m ! n # drop (Suc n) (page_chars b m)"
    using n by (simp add: Cons_nth_drop_Suc)
  finally show ?case by (simp add: list_update_append replicate_append_same)
qed simp

text \<open>\<open>clear\<close> empties the displayed screen but keeps the scroll flag of the terminal.\<close>

lemma clear_correct:
  "screen_of (displayed_terminal s) (clear s) = \<lparr>cells = replicate 2000 0, cursor = 0\<rparr>"
  "shift_up_one_flag (displayed_term (clear s)) = shift_up_one_flag (displayed_term s)"
proof -
  have [simp]: "terminal (update_cursor x) = terminal x" "phys (update_cursor x) = phys x"
    "displayed_terminal (update_cursor x) = displayed_terminal x" for x
    by (simp_all add: update_cursor_def outb_def Let_def)
  show "screen_of (displayed_terminal s) (clear s) = \<lparr>cells = replicate 2000 0, cursor = 0\<rparr>"
    using clear_cells[of 2000 VIDEO 0 ATTRIB "phys s"]
    by (simp add: screen_of_def clear_def Let_def upd_term_def vid_base_def)
  show "shift_up_one_flag (displayed_term (clear s)) = shift_up_one_flag (displayed_term s)"
    by (simp add: clear_def Let_def upd_term_def)
qed

text \<open>The two data bytes are the halves of the position.\<close>

lemma low_byte: "unat (ucast ((x :: u16) AND 0xFF) :: u8) = unat x mod 256"
proof -
  have "(0xFF :: u16) = mask 8" by (simp add: mask_eq_exp_minus_1)
  then have "x AND 0xFF = take_bit 8 x" by (simp only: take_bit_eq_mask)
  then show ?thesis by (simp only: unsigned_ucast_eq unsigned_take_bit_eq) (simp add: take_bit_eq_mod)
qed

lemma cursor_bytes_value:
  assumes "pos < 2 ^ 16"
  shows "map fst (cursor_bytes pos) = [CURSOR_ADDR_REG, CURSOR_DATA_REG, CURSOR_ADDR_REG, CURSOR_DATA_REG]"
    and "unat (snd (cursor_bytes pos ! 1)) + 256 * unat (snd (cursor_bytes pos ! 3)) = pos"
proof -
  have u: "unat (of_nat pos :: u16) = pos" using assms by (simp add: unat_of_nat)
  have lo: "unat (ucast ((of_nat pos :: u16) AND 0xFF) :: u8) = pos mod 256"
    by (simp add: low_byte u)
  have hi: "unat (ucast (drop_bit 8 (of_nat pos :: u16) AND 0xFF) :: u8) = pos div 256"
    using assms by (simp only: low_byte unsigned_drop_bit_eq u)
      (simp add: drop_bit_eq_div take_bit_eq_mod less_mult_imp_div_less)
  show "unat (snd (cursor_bytes pos ! 1)) + 256 * unat (snd (cursor_bytes pos ! 3)) = pos"
    by (simp only: cursor_bytes_def nth_Cons_0 nth_Cons_Suc One_nat_def numeral_3_eq_3 snd_conv lo hi) simp
qed (simp add: cursor_bytes_def)

text \<open>Every print to the displayed terminal ends with the hardware cursor on its position.\<close>

definition cursor_shown :: "kernel \<Rightarrow> bool" where
  "cursor_shown s \<longleftrightarrow> (\<exists>pre. outs s = pre @ cursor_bytes (cursor (screen_of (displayed_terminal s) s)))"

lemma show_cursor_shown [intro]: "tid = displayed_terminal s \<Longrightarrow> cursor_shown (show_cursor tid s)"
  by (simp add: cursor_shown_def show_cursor_eq screen_of_def mult.commute)

lemma cursor_shown_parts:
  assumes "tid = displayed_terminal s"
  shows "cursor_shown (putc_newline tid s)" "cursor_shown (putc_backspace b tid s)"
    "cursor_shown (putc_char b c tid s)"
    "cursor_shown s \<Longrightarrow> cursor_shown (putc_finish tid s)"
proof -
  have p: "cursor_shown s \<Longrightarrow> cursor_shown (poke_cell b k c s)" for b k c s
    by (simp add: cursor_shown_def screen_of_def poke_cell_def)
  show "cursor_shown (putc_newline tid s)" "cursor_shown (putc_backspace b tid s)"
    "cursor_shown (putc_char b c tid s)"
    using assms by (auto simp: putc_newline_def putc_backspace_def putc_char_def Let_def console_proj
        intro!: p show_cursor_shown)
  show "cursor_shown s \<Longrightarrow> cursor_shown (putc_finish tid s)"
    using assms by (auto simp: putc_finish_def Let_def console_proj intro!: show_cursor_shown)
qed

lemma cursor_shown_putc: "cursor_shown (terminal_putc c (displayed_terminal s) s)"
proof -
  have d: "displayed_terminal (putc_newline t s) = displayed_terminal s"
    "displayed_terminal (putc_backspace b t s) = displayed_terminal s"
    "displayed_terminal (putc_char b c t s) = displayed_terminal s" for b t
    by (rule no_console_eqD(1)[of t], rule frame)+
  show ?thesis
    using cursor_shown_parts[of "displayed_terminal s" s]
      cursor_shown_parts(4)[of "displayed_terminal s" "putc_newline (displayed_terminal s) s"]
      cursor_shown_parts(4)[of "displayed_terminal s" "putc_backspace (vid_base (displayed_terminal s) s) (displayed_terminal s) s"]
      cursor_shown_parts(4)[of "displayed_terminal s" "putc_char (vid_base (displayed_terminal s) s) c (displayed_terminal s) s"]
    by (simp add: terminal_putc_def d Let_def)
qed

lemma print_filename_correct:
  "32 \<le> length name \<Longrightarrow> print_filename name s =
     Done (terminal_putc NEWLINE (active_terminal s)
            (fold (\<lambda>c. terminal_putc c (displayed_terminal s)) (take 32 name) s))"
proof -
  assume h: "32 \<le> length name"
  have f: "fold (\<lambda>i s. terminal_putc (name ! i) (displayed_terminal s) s) is s =
      fold (\<lambda>c. terminal_putc c (displayed_terminal s)) (map ((!) name) is) s" for "is" s
    by (induction "is" arbitrary: s) simp_all
  have m: "map ((!) name) [0..<32] = take 32 name"
    using h by (intro nth_equalityI) auto
  have a: "active_terminal (fold (\<lambda>c. terminal_putc c d) cs s) = active_terminal s" for cs d s
    by (induction cs arbitrary: s) simp_all
  show ?thesis using h by (simp add: print_filename_def f m Let_def a)
qed

end
