(* ===== verification/Terminal.thy ===== *)
theory Terminal
  imports Console Lib_Mem Task RTC
begin

text \<open>
  The terminal driver, student-distrib/terminal.c, and \<open>get_len\<close>, \<open>get_flag\<close> and
  \<open>clear_temp_buff\<close> of keyboard.c: reading a line, writing, and the copying of screens when the
  displayed terminal changes.  What \<open>init_terminals\<close> and \<open>open_terminal\<close> do after that, starting a
  shell, is in the theory Terminal_Switch.
\<close>

abbreviation (input) "MAX_BUF_SIZE \<equiv> (128::nat)"

section \<open>The line buffer\<close>

definition get_len :: "kernel \<Rightarrow> nat" where
  "get_len s = read_length (displayed_term s)"

definition get_flag :: "kernel \<Rightarrow> int" where
  "get_flag s = enter_flag (active_term s)"

definition clear_temp_buff :: "kernel \<Rightarrow> kernel" where
  "clear_temp_buff s =
     (fold (\<lambda>j. upd_term (displayed_terminal s) (\<lambda>t. t\<lparr>tempbuf := (tempbuf t)[j := 0]\<rparr>))
        [0..<MAX_BUF_SIZE] s)\<lparr>str_len := 0\<rparr>"

section \<open>Driver operations\<close>

definition donothing :: "kernel \<Rightarrow> (int \<times> kernel) outcome" where
  "donothing s = andthen (printf (c_lit ''terminal do nothing'') [] s) (\<lambda>(n, s). Done (-1, s))"

text \<open>The part of \<open>terminal_read\<close> behind the wait; \<open>nbytes\<close> is not looked at.\<close>

definition read_line :: "nat \<Rightarrow> kernel \<Rightarrow> (int \<times> kernel) outcome" where
  "read_line buf s =
     (let s = cli s;
          len = (if MAX_BUF_SIZE \<le> get_len s then MAX_BUF_SIZE else get_len s)
      in if length (tempbuf (active_term s)) < len then Fault OutOfBounds
         else andthen (copy_out buf (take len (tempbuf (active_term s))) s)
                (\<lambda>s. Done (int len, sti s)))"

definition terminal_read ::
    "(kernel \<Rightarrow> kernel) list \<Rightarrow> int \<Rightarrow> nat \<Rightarrow> int \<Rightarrow> kernel \<Rightarrow> (int \<times> kernel) outcome" where
  "terminal_read evs fd buf nbytes s =
     (let s = cli s in
      if buf = 0 then Done (-1, s)
      else let s = sti (upd_term (active_terminal s) (\<lambda>t. t\<lparr>enter_flag := 0\<rparr>) s)
           in andthen (wait_until (\<lambda>s. get_flag s \<noteq> 0) evs s) (read_line buf))"

definition terminal_write :: "int \<Rightarrow> nat \<Rightarrow> int \<Rightarrow> kernel \<Rightarrow> (int \<times> kernel) outcome" where
  "terminal_write fd buf nbytes s =
     (if buf = 0 \<or> nbytes \<le> 0 then Done (-1, s)
      else let tid = (if done_init_terminal s = 0 then int (active_terminal s)
                      else terminal_on (pcbs s (get_pcb_blk (pid (active_term s)))))
           in if tid < 0 \<or> tid > 2 then Fault OutOfBounds
              else andthen (copy_in buf (nat nbytes) s)
                (\<lambda>bs. let s = fold (\<lambda>c. terminal_putc c (nat tid)) bs s
                      in Done (0, upd_term (active_terminal s) (\<lambda>t. t\<lparr>line_length := 0\<rparr>) s)))"

definition terminal_open :: "kernel \<Rightarrow> int \<times> kernel" where
  "terminal_open s = (0, clear s)"

definition terminal_close :: "int \<Rightarrow> kernel \<Rightarrow> (int \<times> kernel) outcome" where
  "terminal_close fd s = Done (0, s)"

section \<open>The terminal structures and their screens\<close>

text \<open>The loop of \<open>init_terminals\<close>.\<close>

definition init_terminal :: "nat \<Rightarrow> terminal_t \<Rightarrow> terminal_t" where
  "init_terminal j t = t\<lparr>terminal_id := int j, pid := int j, cur_x := 0, cur_y := 0,
     videoMem := (VIDEO_INDEX + j + 1) * FOUR_KB, enter_flag := 0, rtc_counter := DEFAULT_COUNTER,
     rtc_target := DEFAULT_TARGET, rtc_flag := 0, shift_up_one_flag := 0, halt_flag := 1\<rparr>"

definition init_terminal_structs :: "kernel \<Rightarrow> kernel" where
  "init_terminal_structs s = fold (\<lambda>j. upd_term j (init_terminal j)) [0..<3] s"

definition save :: "nat \<Rightarrow> kernel \<Rightarrow> kernel" where
  "save tid s =
     (let s = upd_term tid (\<lambda>t. t\<lparr>cur_x := get_screen_x s\<rparr>) s;
          s = upd_term tid (\<lambda>t. t\<lparr>cur_y := get_screen_y s\<rparr>) s
      in s\<lparr>phys := memcpy (phys s) (videoMem (terminal s tid)) VIDEO FOUR_KB\<rparr>)"

definition restore :: "nat \<Rightarrow> kernel \<Rightarrow> kernel" where
  "restore tid s = s\<lparr>phys := memcpy (phys s) VIDEO (videoMem (displayed_term s)) FOUR_KB\<rparr>"

text \<open>The change of screens at the head of \<open>open_terminal\<close>.\<close>

definition switch_screens :: "nat \<Rightarrow> kernel \<Rightarrow> kernel" where
  "switch_screens tid s =
     (let s = save (displayed_terminal s) s;
          s = s\<lparr>displayed_terminal := tid\<rparr>
      in restore (displayed_terminal s) s)"

section \<open>Switching keeps every screen\<close>

definition video_linked :: "kernel \<Rightarrow> bool" where
  "video_linked s \<longleftrightarrow>
     (\<forall>t<3. videoMem (terminal s t) = VIDEO + FOUR_KB * (t + 1)) \<and> displayed_terminal s < 3"

lemma page_chars_copy:
  assumes "d + 4096 \<le> src \<or> src + 4096 \<le> d"
  shows "page_chars d (copy m d src 4096) = page_chars src m"
    and "d + 4096 \<le> b \<or> b + 4096 \<le> d \<Longrightarrow> page_chars b (copy m d src 4096) = page_chars b m"
  using assms by (auto simp: page_chars_def copy_def)

lemma switch_screens_state:
  assumes "video_linked s" "tid < 3"
  shows "terminal (switch_screens tid s) = terminal s"
    and "displayed_terminal (switch_screens tid s) = tid"
    and "phys (switch_screens tid s) =
      copy (copy (phys s) (VIDEO + 4096 * (displayed_terminal s + 1)) VIDEO 4096)
        VIDEO (VIDEO + 4096 * (tid + 1)) 4096"
proof -
  have v: "videoMem (terminal s t) = VIDEO + 4096 * (t + 1)" if "t < 3" for t
    using assms(1) that by (simp add: video_linked_def)
  have d: "displayed_terminal s < 3" using assms(1) by (simp add: video_linked_def)
  show "terminal (switch_screens tid s) = terminal s"
    by (simp add: switch_screens_def save_def restore_def get_screen_x_def get_screen_y_def
        upd_term_def Let_def)
  show "displayed_terminal (switch_screens tid s) = tid"
    by (simp add: switch_screens_def save_def restore_def Let_def)
  show "phys (switch_screens tid s) =
      copy (copy (phys s) (VIDEO + 4096 * (displayed_terminal s + 1)) VIDEO 4096)
        VIDEO (VIDEO + 4096 * (tid + 1)) 4096"
    using v[OF d] v[OF assms(2)]
    by (simp add: switch_screens_def save_def restore_def get_screen_x_def get_screen_y_def
        upd_term_def Let_def memcpy_correct forward_ok_def)
qed

lemma switch_screens_keeps:
  assumes "video_linked s" "tid < 3" "u < 3"
  shows "tid \<noteq> displayed_terminal s \<Longrightarrow> screen_of u (switch_screens tid s) = screen_of u s"
    and "video_linked (switch_screens tid s)"
proof -
  note st = switch_screens_state[OF assms(1,2)]
  let ?d = "displayed_terminal s"
  let ?m = "copy (phys s) (VIDEO + 4096 * (?d + 1)) VIDEO 4096"
  show "video_linked (switch_screens tid s)"
    using assms(1,2) by (simp add: video_linked_def st)
  assume ne: "tid \<noteq> ?d"
  have inner: "page_chars (VIDEO + 4096 * (?d + 1)) ?m = page_chars VIDEO (phys s)"
    "v \<noteq> ?d \<Longrightarrow> page_chars (VIDEO + 4096 * (v + 1)) ?m = page_chars (VIDEO + 4096 * (v + 1)) (phys s)" for v
    by (auto simp: page_chars_copy) (subst page_chars_copy(2), auto)
  have outer: "page_chars VIDEO (copy ?m VIDEO (VIDEO + 4096 * (tid + 1)) 4096) =
      page_chars (VIDEO + 4096 * (tid + 1)) ?m"
    "page_chars (VIDEO + 4096 * (v + 1)) (copy ?m VIDEO (VIDEO + 4096 * (tid + 1)) 4096) =
      page_chars (VIDEO + 4096 * (v + 1)) ?m" for v
    by (rule page_chars_copy; simp)+
  show "screen_of u (switch_screens tid s) = screen_of u s"
    using ne inner outer by (auto simp: screen_of_def vid_base_def st)
qed

end
