(* ===== verification/File_Calls.thy ===== *)
theory File_Calls
  imports File_System Terminal
begin

text \<open>
  The system calls on file descriptors and on the memory of the process, student-distrib/
  system_calls.c: \<open>read_call\<close>, \<open>write_call\<close>, \<open>open_call\<close>, \<open>close_call\<close>, \<open>getargs_call\<close>,
  \<open>vidmap_call\<close>, \<open>set_handler_call\<close>, \<open>sigreturn_call\<close>, with the operation tables of kernel.c
  as dispatch functions.  The process is the one of the active terminal, \<open>terminal[active].pid\<close>.
  A call through an operation the table leaves NULL is the fault \<open>NullCall\<close>.

  Two interfaces are stated as locales: \<open>driver\<close>, what the calls rely on in an operation they
  call through a table, and \<open>slot_table\<close>, the lowest-free-slot allocation that descriptors and
  process ids share.
\<close>

abbreviation (input) "ENGAGED \<equiv> (0::u32)"
abbreviation (input) "NOT_ENGAGED \<equiv> (1::u32)"
abbreviation (input) "NOINODE \<equiv> (0::u32)"
abbreviation (input) "START_OF_FILE \<equiv> (0::u32)"
abbreviation (input) "VIDMAP_TABLE_INDEX \<equiv> (0::nat)"
abbreviation (input) "VIDMAP_PAGE_INDEX \<equiv> (33::nat)"
abbreviation (input) "VIDMAP_ADDR \<equiv> (0x8400000::u32)"

section \<open>The current process\<close>

definition cur_pcb_addr :: "kernel \<Rightarrow> u32" where
  "cur_pcb_addr s = get_pcb_blk (pid (active_term s))"

definition cur_fd :: "int \<Rightarrow> kernel \<Rightarrow> file_desct" where
  "cur_fd fd s = file_desc_array (pcbs s (cur_pcb_addr s)) (nat fd)"

section \<open>The operation tables\<close>

fun read_call_entry :: "op_table \<Rightarrow> (kernel \<Rightarrow> kernel) list \<Rightarrow> int \<Rightarrow> nat \<Rightarrow> int \<Rightarrow> kernel \<Rightarrow> (int \<times> kernel) outcome" where
  "read_call_entry files_operations evs = read_from_file"
| "read_call_entry directories_operations evs = read_from_directory"
| "read_call_entry rtc_operations evs = rtc_read evs"
| "read_call_entry stdin_operations evs = terminal_read evs"
| "read_call_entry stdout_operations evs = (\<lambda>fd buf nbytes. donothing)"
| "read_call_entry terminal_operations evs = (\<lambda>fd buf nbytes s. Fault NullCall)"
| "read_call_entry nothing_operations evs = (\<lambda>fd buf nbytes s. Fault NullCall)"

fun write_call_entry :: "op_table \<Rightarrow> int \<Rightarrow> nat \<Rightarrow> int \<Rightarrow> kernel \<Rightarrow> (int \<times> kernel) outcome" where
  "write_call_entry files_operations = write_to_file"
| "write_call_entry directories_operations = write_to_directory"
| "write_call_entry rtc_operations = rtc_write"
| "write_call_entry stdin_operations = (\<lambda>fd buf nbytes. donothing)"
| "write_call_entry stdout_operations = terminal_write"
| "write_call_entry terminal_operations = (\<lambda>fd buf nbytes s. Fault NullCall)"
| "write_call_entry nothing_operations = (\<lambda>fd buf nbytes s. Fault NullCall)"

fun close_call_entry :: "op_table \<Rightarrow> int \<Rightarrow> kernel \<Rightarrow> (int \<times> kernel) outcome" where
  "close_call_entry files_operations = close_file"
| "close_call_entry directories_operations = close_directory"
| "close_call_entry rtc_operations = rtc_close"
| "close_call_entry stdin_operations = terminal_close"
| "close_call_entry stdout_operations = terminal_close"
| "close_call_entry terminal_operations = (\<lambda>fd s. Fault NullCall)"
| "close_call_entry nothing_operations = (\<lambda>fd s. Fault NullCall)"

section \<open>Reading and writing\<close>

definition read_call ::
    "(kernel \<Rightarrow> kernel) list \<Rightarrow> int \<Rightarrow> nat \<Rightarrow> int \<Rightarrow> kernel \<Rightarrow> (int \<times> kernel) outcome" where
  "read_call evs fd buf nbytes s =
     (if fd < 0 \<or> fd \<ge> 8 \<or> buf = 0 \<or> nbytes \<le> 0 then Done (-1, s)
      else if flags (cur_fd fd s) = NOT_ENGAGED then Done (-1, s)
      else let pcb = cur_pcb_addr s in
           andthen (read_call_entry (table_ptr (cur_fd fd s)) evs fd buf nbytes s)
             (\<lambda>(ret, s). Done (ret, upd_pcb pcb (upd_fd (nat fd)
                (\<lambda>d. d\<lparr>file_position := file_position d + word_of_int ret\<rparr>)) s)))"

definition write_call :: "int \<Rightarrow> nat \<Rightarrow> int \<Rightarrow> kernel \<Rightarrow> (int \<times> kernel) outcome" where
  "write_call fd buf nbytes s =
     (if fd < 0 \<or> fd \<ge> 8 \<or> buf = 0 \<or> nbytes \<le> 0 then Done (-1, s)
      else if flags (cur_fd fd s) = NOT_ENGAGED then Done (-1, s)
      else write_call_entry (table_ptr (cur_fd fd s)) fd buf nbytes s)"

section \<open>Opening and closing\<close>

definition free_fd :: "kernel \<Rightarrow> nat \<Rightarrow> bool" where
  "free_fd s idx \<longleftrightarrow> flags (cur_fd (int idx) s) = NOT_ENGAGED"

definition type_operations :: "u32 \<Rightarrow> op_table" where
  "type_operations ty =
     (if ty = 0 then rtc_operations else if ty = 1 then directories_operations
      else if ty = 2 then files_operations else nothing_operations)"

definition engage_fd :: "nat \<Rightarrow> dentry_t \<Rightarrow> kernel \<Rightarrow> kernel" where
  "engage_fd idx d s = upd_pcb (cur_pcb_addr s) (upd_fd idx (\<lambda>f. f\<lparr>file_position := START_OF_FILE,
     flags := ENGAGED, inode_num := dentry_inode d, table_ptr := type_operations (filetype d)\<rparr>)) s"

text \<open>The loop over 2..7 stops at the first free descriptor.\<close>

definition open_call :: "u8 list option \<Rightarrow> kernel \<Rightarrow> (int \<times> kernel) outcome" where
  "open_call fname s =
     (case fname of None \<Rightarrow> Done (-1, s)
      | Some name \<Rightarrow>
          andthen (read_dentry_by_name s name False)
            (\<lambda>(r, dentry). case dentry of None \<Rightarrow> Done (-1, s)
               | Some d \<Rightarrow>
                   (case find (free_fd s) [2..<8] of None \<Rightarrow> Done (-1, s)
                    | Some idx \<Rightarrow> Done (int idx, engage_fd idx d s))))"

definition release_fd :: "nat \<Rightarrow> kernel \<Rightarrow> kernel" where
  "release_fd idx s = upd_pcb (cur_pcb_addr s) (upd_fd idx (\<lambda>f. f\<lparr>inode_num := NOINODE,
     file_position := START_OF_FILE, flags := NOT_ENGAGED\<rparr>)) s"

definition close_call :: "int \<Rightarrow> kernel \<Rightarrow> (int \<times> kernel) outcome" where
  "close_call fd s =
     (if fd \<le> 1 then Done (-1, s) else if fd \<ge> 8 then Done (-1, s)
      else if flags (cur_fd fd s) = NOT_ENGAGED then Done (-1, s)
      else let s = release_fd (nat fd) s in close_call_entry (table_ptr (cur_fd fd s)) fd s)"

section \<open>Arguments, video memory, signals\<close>

text \<open>The copy loop of \<open>getargs_call\<close> over the bytes of \<open>terminal_cmd\<close>.\<close>

fun getargs_loop :: "u8 list \<Rightarrow> int \<Rightarrow> u8 list outcome" where
  "getargs_loop [] write_length = Fault OutOfBounds"
| "getargs_loop (c # cs) write_length =
     (if c \<noteq> 0 \<and> write_length \<noteq> 0
      then andthen (getargs_loop cs (write_length - 1)) (\<lambda>bs. Done (c # bs))
      else Done [])"

definition getargs_call :: "nat \<Rightarrow> int \<Rightarrow> kernel \<Rightarrow> (int \<times> kernel) outcome" where
  "getargs_call buf nbytes s =
     (if buf = 0 then Done (-1, s)
      else andthen (copy_out buf (replicate (nat nbytes) 0) s)
        (\<lambda>s. andthen (getargs_loop (terminal_cmd (pcbs s (cur_pcb_addr s))) nbytes)
          (\<lambda>bs. andthen (copy_out buf bs s)
            (\<lambda>s. Done (if bs = [] then -1 else 0, s)))))"

definition vidmap_call :: "nat \<Rightarrow> kernel \<Rightarrow> (int \<times> kernel) outcome" where
  "vidmap_call screen_start s =
     (if screen_start = 0 then Done (-1, s)
      else if screen_start < 0x8000000 \<or> screen_start \<ge> 0x8400000 then Done (-1, s)
      else
        let on = terminal_on (pcbs s (cur_pcb_addr s));
            s = (if int (active_terminal s) = on
                 then set_pte_video VIDMAP_TABLE_INDEX (of_nat (VIDEO_INDEX * FOUR_KB) OR PG_P OR R_W OR U_S) s
                 else set_pte_video VIDMAP_TABLE_INDEX
                        (word_of_int ((int VIDEO_INDEX + on + 1) * int FOUR_KB) OR PG_P OR R_W OR U_S) s);
            s = set_pde VIDMAP_PAGE_INDEX
                  ((page_table_video_addr s AND MASK_20_BITS) OR PG_P OR R_W OR U_S) s;
            s = flush_tlb s
        in andthen (copy_out screen_start (le32 VIDMAP_ADDR) s) (\<lambda>s. Done (0, s)))"

definition set_handler_call :: "kernel \<Rightarrow> (int \<times> kernel) outcome" where
  "set_handler_call s =
     andthen (printf (c_lit ''set_handler_call happening rn'') [] s) (\<lambda>(n, s). Done (0, s))"

definition sigreturn_call :: "kernel \<Rightarrow> (int \<times> kernel) outcome" where
  "sigreturn_call s =
     andthen (printf (c_lit ''sigreturn_call happening rn'') [] s) (\<lambda>(n, s). Done (0, s))"

definition ignoreThisEntry :: "kernel \<Rightarrow> (int \<times> kernel) outcome" where
  "ignoreThisEntry s =
     andthen (printf (c_lit ''ignoreThisEntry happening rn'') [] s) (\<lambda>(n, s). Done (0, s))"

section \<open>The driver interface\<close>

text \<open>
  The calls keep a pointer to the control block across the driver operation, so they rely on it
  to leave the control blocks alone, provided what runs during a wait does.
\<close>

definition quiet :: "(kernel \<Rightarrow> kernel) list \<Rightarrow> bool" where
  "quiet evs \<longleftrightarrow> (\<forall>e \<in> set evs. \<forall>s. pcbs (e s) = pcbs s)"

locale driver =
  fixes operation :: "(kernel \<Rightarrow> kernel) list \<Rightarrow> int \<Rightarrow> nat \<Rightarrow> int \<Rightarrow> kernel \<Rightarrow> (int \<times> kernel) outcome"
  assumes keeps_pcbs: "quiet evs \<Longrightarrow> operation evs fd buf n s = Done (r, s') \<Longrightarrow> pcbs s' = pcbs s"
begin

lemma advance:
  assumes "quiet evs"
    and "andthen (operation evs fd buf n s) (\<lambda>(ret, s). Done (ret, upd_pcb a (upd_fd i
           (\<lambda>d. d\<lparr>file_position := file_position d + word_of_int ret\<rparr>)) s)) = Done (r, s')"
  shows "file_desc_array (pcbs s' b) j =
    (if b = a \<and> j = i
     then (file_desc_array (pcbs s a) i)\<lparr>file_position :=
       file_position (file_desc_array (pcbs s a) i) + word_of_int r\<rparr>
     else file_desc_array (pcbs s b) j)"
proof -
  obtain s1 where s1: "operation evs fd buf n s = Done (r, s1)"
    and s': "s' = upd_pcb a (upd_fd i (\<lambda>d. d\<lparr>file_position := file_position d + word_of_int r\<rparr>)) s1"
    using assms(2) by (auto simp: andthen_Done_iff)
  show ?thesis using keeps_pcbs[OF assms(1) s1] by (auto simp: s' upd_pcb_def upd_fd_def)
qed

lemma same_files:
  assumes "quiet evs" "operation evs fd buf n s = Done (r, s')"
  shows "file_desc_array (pcbs s' a) = file_desc_array (pcbs s a)"
  using keeps_pcbs[OF assms] by simp

end

lemma pcbs_state [frame, simp]:
  "pcbs (cli s) = pcbs s" "pcbs (sti s) = pcbs s" "pcbs (upd_term t f s) = pcbs s"
  "pcbs (outb d p s) = pcbs s"
  by (simp_all add: cli_def sti_def upd_term_def outb_def)

lemma pcbs_putc [frame, simp]: "pcbs (terminal_putc c tid s) = pcbs s"
  by (rule no_console_eqD(3), rule terminal_putc_frame)

lemma pcbs_fold_putc [simp]: "pcbs (fold (\<lambda>c. terminal_putc c tid) cs s) = pcbs s"
  by (induction cs arbitrary: s) simp_all

lemma pcbs_put_on [simp]: "pcbs (fold put_on out s) = pcbs s"
proof (induction out arbitrary: s)
  case (Cons x out)
  then show ?case by (cases x; cases "fst x") auto
qed simp

lemma pcbs_copy_out: "copy_out va bs s = Done s' \<Longrightarrow> pcbs s' = pcbs s"
  by (auto simp: copy_out_def split: if_splits)

lemma pcbs_wait: "quiet evs \<Longrightarrow> wait_until c evs s = Done s' \<Longrightarrow> pcbs s' = pcbs s"
  using wait_until_keeps[of c evs s s' "\<lambda>x. pcbs x = pcbs s"] by (auto simp: quiet_def)

text \<open>A message of the kernel, without conversions, goes to the active terminal.\<close>

lemma printf_plain:
  "of_char CHR ''%'' \<notin> set cs \<Longrightarrow> 0 \<notin> set cs \<Longrightarrow>
   printf_text (cs @ 0 # rest) args = Some (map (Pair To_active) cs, length cs)"
  by (induction cs) auto

lemma message_eq:
  assumes "of_char CHR ''%'' \<notin> set (chars m)" "0 \<notin> set (chars m)"
  shows "printf (c_lit m) [] s = Done (length m, fold put_on (map (Pair To_active) (chars m)) s)"
proof -
  have "printf_text (c_lit m) [] = Some (map (Pair To_active) (chars m), length (chars m))"
    using printf_plain[OF assms, of "[]" "[]"] by (simp add: c_lit_def)
  from printf_correct[OF this] show ?thesis by (simp add: chars_def)
qed

lemma donothing_eq:
  "donothing s = Done (-1, fold put_on (map (Pair To_active) (chars ''terminal do nothing'')) s)"
  unfolding donothing_def by (subst message_eq) (simp_all add: chars_def)

lemma read_data_pcbs:
  "read_data inode offset b len s = Done (r, bs, s') \<Longrightarrow> pcbs s' = pcbs s"
  by (auto simp: read_data_def note_verylarge_def Let_def andthen_Done_iff split: if_splits)

lemma read_entry_keeps_pcbs:
  assumes "quiet evs" "read_call_entry t evs fd buf n s = Done (r, s')"
  shows "pcbs s' = pcbs s"
proof (cases t)
  case files_operations
  then show ?thesis using assms(2)
    by (auto simp: read_from_file_def Let_def andthen_Done_iff read_data_pcbs
        dest!: pcbs_copy_out split: if_splits)
next
  case directories_operations
  then show ?thesis using assms(2)
    by (auto simp: read_from_directory_def Let_def andthen_Done_iff
        dest!: pcbs_copy_out split: if_splits)
next
  case stdin_operations
  then show ?thesis using assms
    by (auto simp: terminal_read_def read_line_def Let_def andthen_Done_iff
        dest!: pcbs_copy_out pcbs_wait[OF assms(1)] split: if_splits)
next
  case stdout_operations
  then show ?thesis using assms(2) by (auto simp: donothing_eq)
next
  case rtc_operations
  then show ?thesis using assms
    by (auto simp: rtc_read_def andthen_Done_iff dest!: pcbs_wait[OF assms(1)])
qed (use assms in auto)

interpretation read_driver: driver "read_call_entry t" for t
  by unfold_locales (rule read_entry_keeps_pcbs)

interpretation write_driver: driver "\<lambda>evs. write_call_entry t" for t
proof unfold_locales
  fix evs fd buf n s r s'
  assume h: "write_call_entry t fd buf n s = Done (r, s')"
  show "pcbs s' = pcbs s"
    by (cases t; use h in \<open>auto simp: write_to_file_def write_to_directory_def donothing_eq
        terminal_write_def rtc_write_def change_freq_virt_def Let_def andthen_Done_iff split: if_splits\<close>)
qed

interpretation close_driver: driver "\<lambda>evs fd buf n. close_call_entry t fd" for t
proof unfold_locales
  fix evs :: "(kernel \<Rightarrow> kernel) list" and fd n :: int and buf s r s'
  assume h: "close_call_entry t fd s = Done (r, s')"
  show "pcbs s' = pcbs s"
    by (cases t; use h in \<open>auto simp: close_file_def close_directory_def rtc_close_def terminal_close_def\<close>)
qed

section \<open>Lowest-free-slot allocation\<close>

locale slot_table =
  fixes free :: "'s \<Rightarrow> nat \<Rightarrow> bool" and slots :: "nat list"
    and grab release :: "nat \<Rightarrow> 's \<Rightarrow> 's"
  assumes sorted_slots: "sorted slots" and distinct_slots: "distinct slots"
    and free_grab: "free (grab i s) j \<longleftrightarrow> j \<noteq> i \<and> free s j"
    and free_release: "free (release i s) j \<longleftrightarrow> j = i \<or> free s j"
begin

lemma find_lowest:
  "find (free s) slots = Some i \<longleftrightarrow> i \<in> set slots \<and> free s i \<and> (\<forall>j \<in> set slots. j < i \<longrightarrow> \<not> free s j)"
  using sorted_slots distinct_slots
  by (induction slots) (auto simp: less_le_not_le)

lemma find_full: "find (free s) slots = None \<longleftrightarrow> (\<forall>j \<in> set slots. \<not> free s j)"
  by (auto simp: find_None_iff)

lemma reuse:
  "find (free s) slots = Some i \<Longrightarrow> find (free (release i (grab i s))) slots = Some i"
  by (auto simp: find_lowest free_grab free_release)

lemma grab_count:
  assumes "find (free s) slots = Some i"
  shows "length (filter (free s) slots) = Suc (length (filter (free (grab i s)) slots))"
proof -
  have i: "i \<in> set slots" "free s i" using assms by (simp_all add: find_lowest)
  have eq: "filter (free (grab i s)) slots = remove1 i (filter (free s) slots)"
    using distinct_slots by (simp add: free_grab distinct_remove1_removeAll removeAll_filter_not_eq
        cong: filter_cong) (metis (full_types))
  have "0 < length (filter (free s) slots)" using i by (auto simp: filter_empty_conv)
  then show ?thesis unfolding eq using i by (simp add: length_remove1)
qed

end

lemma cur_fd_upd:
  "cur_fd (int j) (upd_pcb (cur_pcb_addr s) (upd_fd i f) s) =
    (if j = i then f (cur_fd (int i) s) else cur_fd (int j) s)"
  by (simp add: cur_fd_def cur_pcb_addr_def upd_pcb_def upd_fd_def)

interpretation fds: slot_table free_fd "[2..<8]" "\<lambda>i. engage_fd i d" release_fd for d
  by unfold_locales
    (auto simp: free_fd_def engage_fd_def release_fd_def cur_fd_upd)

lemma fds_lowest:
  "find (free_fd s) [2..<8] = Some i \<longleftrightarrow>
   2 \<le> i \<and> i < 8 \<and> free_fd s i \<and> (\<forall>j. 2 \<le> j \<and> j < i \<longrightarrow> \<not> free_fd s j)"
  unfolding fds.find_lowest set_upt by auto

lemma fds_full: "find (free_fd s) [2..<8] = None \<longleftrightarrow> (\<forall>j. 2 \<le> j \<and> j < 8 \<longrightarrow> \<not> free_fd s j)"
  unfolding fds.find_full set_upt by auto

section \<open>Descriptors\<close>

lemma open_call_eq:
  assumes "0 \<in> set name"
  shows "open_call (Some name) s =
    (if cstr name = [] \<or> length (cstr name) > 32 \<or> dentries_named (fs s) name = []
     then Done (-1, s)
     else case find (free_fd s) [2..<8] of None \<Rightarrow> Done (-1, s)
       | Some idx \<Rightarrow>
           Done (int idx, engage_fd idx (dentry_at (fs s) (last (dentries_named (fs s) name))) s))"
  by (simp add: open_call_def read_dentry_by_name_eq[OF assms])

definition has_file :: "kernel \<Rightarrow> u8 list \<Rightarrow> bool" where
  "has_file s name \<longleftrightarrow> 0 \<in> set name \<and> cstr name \<noteq> [] \<and> length (cstr name) \<le> 32
     \<and> dentries_named (fs s) name \<noteq> []"

definition file_dentry :: "kernel \<Rightarrow> u8 list \<Rightarrow> dentry_t" where
  "file_dentry s name = dentry_at (fs s) (last (dentries_named (fs s) name))"

lemma open_call_file:
  assumes "has_file s name"
  shows "open_call (Some name) s =
    (case find (free_fd s) [2..<8] of None \<Rightarrow> Done (-1, s)
     | Some idx \<Rightarrow> Done (int idx, engage_fd idx (file_dentry s name) s))"
  using assms open_call_eq[of name s] by (auto simp: has_file_def file_dentry_def)

lemma open_call_lowest:
  assumes "has_file s name" "open_call (Some name) s = Done (fd, s')" "fd \<noteq> -1"
  shows "2 \<le> fd \<and> fd < 8 \<and> free_fd s (nat fd) \<and> (\<forall>j. 2 \<le> j \<and> j < nat fd \<longrightarrow> \<not> free_fd s j)
    \<and> s' = engage_fd (nat fd) (file_dentry s name) s"
  using assms(2,3)
  by (auto simp: open_call_file[OF assms(1)] fds_lowest simp del: upt_rec_numeral split: option.splits)

lemma open_call_fails:
  assumes "has_file s name"
  shows "open_call (Some name) s = Done (-1, s) \<longleftrightarrow> (\<forall>j. 2 \<le> j \<and> j < 8 \<longrightarrow> \<not> free_fd s j)"
  unfolding open_call_file[OF assms] fds_full[symmetric]
  by (auto simp del: upt_rec_numeral split: option.splits)

text \<open>What a fresh descriptor holds.\<close>

lemma engaged_fd:
  "cur_fd (int i) (engage_fd i d s) = \<lparr>table_ptr = type_operations (filetype d),
     inode_num = dentry_inode d, file_position = 0, flags = ENGAGED\<rparr>"
  "j \<noteq> i \<Longrightarrow> cur_fd (int j) (engage_fd i d s) = cur_fd (int j) s"
  by (simp_all add: engage_fd_def cur_fd_upd)

lemma close_call_eq:
  assumes "2 \<le> fd" "fd < 8" "flags (cur_fd fd s) \<noteq> NOT_ENGAGED"
  shows "close_call fd s = close_call_entry (table_ptr (cur_fd fd s)) fd (release_fd (nat fd) s)"
  using assms cur_fd_upd[of "nat fd" s "nat fd"]
  by (simp add: close_call_def Let_def release_fd_def)

lemma close_entry_total:
  "t \<noteq> nothing_operations \<Longrightarrow> t \<noteq> terminal_operations \<Longrightarrow> \<exists>s'. close_call_entry t fd s = Done (0, s')"
  by (cases t) (simp_all add: close_file_def close_directory_def rtc_close_def terminal_close_def)

section \<open>Arguments\<close>

lemma getargs_loop_eq:
  assumes "0 \<in> set cmd" "0 \<le> n"
  shows "getargs_loop cmd n = Done (take (nat n) (cstr cmd))"
  using assms
proof (induction cmd n rule: getargs_loop.induct)
  case (2 c cs n)
  show ?case
  proof (cases "c \<noteq> 0 \<and> n \<noteq> 0")
    case True
    then have "nat n = Suc (nat (n - 1))" using 2(3) by linarith
    then show ?thesis using True 2 by simp
  next
    case False
    then show ?thesis using 2(3) by auto
  qed
qed simp

lemma load_two_stores:
  assumes "length bs \<le> n"
  shows "load (store (store m a (replicate n 0)) a bs) a n = bs @ replicate (n - length bs) 0"
  using assms by (intro nth_equalityI) (auto simp: store_apply nth_append)

lemma getargs_correct:
  assumes "buf \<noteq> 0" "0 < n" "in_user s buf (nat n)"
    and "0 \<in> set (terminal_cmd (pcbs s (cur_pcb_addr s)))"
  defines "args \<equiv> cstr (terminal_cmd (pcbs s (cur_pcb_addr s)))"
  shows "\<exists>s'. getargs_call buf n s = Done (if args = [] then -1 else 0, s')
    \<and> copy_in buf (nat n) s' = Done (take (nat n) args @ replicate (nat n - length args) 0)"
proof -
  let ?p = "user_phys s buf"
  define s1 where "s1 = s\<lparr>phys := store (phys s) ?p (replicate (nat n) 0)\<rparr>"
  define s2 where "s2 = s\<lparr>phys := store (phys s1) ?p (take (nat n) args)\<rparr>"
  have c1: "copy_out buf (replicate (nat n) 0) s = Done s1"
    using assms(2,3) by (simp add: copy_out_def s1_def)
  have u: "in_user s1 = in_user s" "user_phys s1 = user_phys s" "in_user s2 = in_user s"
    "user_phys s2 = user_phys s"
    by (simp_all add: fun_eq_iff in_user_def user_phys_def s1_def s2_def)
  have len: "length (take (nat n) args) \<le> nat n" by simp
  then have "in_user s buf (length (take (nat n) args))"
    using assms(3) unfolding in_user_def by linarith
  moreover have s2: "s1\<lparr>phys := store (phys s1) ?p (take (nat n) args)\<rparr> = s2"
    by (simp add: s1_def s2_def)
  ultimately have c2: "copy_out buf (take (nat n) args) s1 = Done s2"
    by (cases "take (nat n) args = []") (simp_all add: copy_out_def u)
  have g: "getargs_loop (terminal_cmd (pcbs s1 (cur_pcb_addr s1))) n = Done (take (nat n) args)"
    using getargs_loop_eq[OF assms(4), of n] assms(2)
    by (simp add: s1_def cur_pcb_addr_def args_def)
  have "take (nat n) args = [] \<longleftrightarrow> args = []" using assms(2) by simp
  then have "getargs_call buf n s = Done (if args = [] then -1 else 0, s2)"
    using assms(1) by (simp add: getargs_call_def c1 g c2)
  moreover have "copy_in buf (nat n) s2 = Done (take (nat n) args @ replicate (nat n - length args) 0)"
  proof -
    have "phys s2 = store (store (phys s) ?p (replicate (nat n) 0)) ?p (take (nat n) args)"
      by (simp add: s2_def s1_def)
    moreover have "nat n - length (take (nat n) args) = nat n - length args" by simp
    ultimately show ?thesis
      using load_two_stores[OF len, of "phys s" ?p] assms(2,3) by (simp only: copy_in_def u) simp
  qed
  ultimately show ?thesis by blast
qed

section \<open>The video mapping\<close>

lemma le32_ne: "le32 w \<noteq> []"
  by (simp add: le32_def)

text \<open>The call maps by the terminal of the process, and does not look at which one is displayed.\<close>

lemma vidmap_correct:
  assumes "linked s" "terminal_on (pcbs s (cur_pcb_addr s)) = int (active_terminal s)"
    and "in_user s ptr 4" "off < 4096"
  shows "\<exists>s'. vidmap_call ptr s = Done (0, s') \<and> copy_in ptr 4 s' = Done (le32 0x8400000)
    \<and> mmu s' True (0x8400000 + off) = Some (VIDEO + off)
    \<and> s' = s\<lparr>page_table_video := (page_table_video s)(0 := page_table_video s' 0),
          page_directory := (page_directory s)(33 := page_directory s' 33), tlb_fresh := True,
          phys := store (phys s) (user_phys s ptr) (le32 0x8400000)\<rparr>"
proof -
  define s1 where "s1 = s\<lparr>page_table_video := (page_table_video s)(0 := video_pte 0),
    page_directory := (page_directory s)(33 := page_table_video_addr s OR U_S OR R_W OR PG_P),
    tlb_fresh := True\<rparr>"
  have a: "page_table_video_addr s AND MASK_20_BITS = page_table_video_addr s"
    using assms(1) by (simp add: linked_def)
  have v: "of_nat (VIDEO_INDEX * FOUR_KB) OR PG_P OR R_W OR U_S = video_pte 0"
    by (simp add: video_pte_def)
  have ptr: "ptr \<noteq> 0" "\<not> ptr < 0x8000000" "\<not> ptr \<ge> 0x8400000"
    using assms(3) by (auto simp: in_user_def)
  have call: "vidmap_call ptr s = andthen (copy_out ptr (le32 VIDMAP_ADDR) s1) (\<lambda>s. Done (0, s))"
    using ptr assms(2) v a
    by (simp add: vidmap_call_def Let_def page_write_defs s1_def or.assoc del: of_nat_mult)
  have u: "in_user s1 ptr 4" using assms(3) by (simp add: in_user_def s1_def)
  then obtain s2 where c: "copy_out ptr (le32 VIDMAP_ADDR) s1 = Done s2"
    using le32_ne by (simp add: copy_out_def)
  have "phys s1 = phys s" "user_phys s1 ptr = user_phys s ptr" by (simp_all add: s1_def user_phys_def)
  then have s2: "s2 = s1\<lparr>phys := store (phys s) (user_phys s ptr) (le32 VIDMAP_ADDR)\<rparr>"
    using c u le32_ne by (simp add: copy_out_def)
  have "linked s2" "page_directory s2 33 = page_table_video_addr s2 OR U_S OR R_W OR PG_P"
    "page_table_video s2 0 = video_pte 0"
    using assms(1) by (simp_all add: s2 s1_def linked_def)
  then have "mmu s2 True (0x8400000 + off) = Some (VIDEO + off)"
    using mmu_video_page[of s2 0 off True] assms(4) by simp
  moreover have "s2 = s\<lparr>page_table_video := (page_table_video s)(0 := page_table_video s2 0),
      page_directory := (page_directory s)(33 := page_directory s2 33), tlb_fresh := True,
      phys := store (phys s) (user_phys s ptr) (le32 0x8400000)\<rparr>"
    by (simp add: s2 s1_def)
  ultimately show ?thesis using copy_in_out[OF c] by (intro exI[of _ s2]) (simp add: call c)
qed

section \<open>Reading an opened file\<close>

lemma engage_fd_frame [frame, simp]:
  "fs (engage_fd i d s) = fs s" "inodesCount (engage_fd i d s) = inodesCount s"
  "data_count_blk (engage_fd i d s) = data_count_blk s" "curr_pid (engage_fd i d s) = curr_pid s"
  "phys (engage_fd i d s) = phys s" "page_directory (engage_fd i d s) = page_directory s"
  "cur_pcb_addr (engage_fd i d s) = cur_pcb_addr s"
  by (simp_all add: engage_fd_def upd_pcb_def cur_pcb_addr_def)

lemma verylarge_inode_cong:
  assumes "fs s' = fs s" "stack_junk s' = stack_junk s"
  shows "verylarge_inode s' = verylarge_inode s"
proof -
  have "read_dentry_by_name s' = read_dentry_by_name s"
    by (intro ext) (simp only: read_dentry_by_name_def assms(1))
  then show ?thesis by (simp only: verylarge_inode_def assms(2))
qed

lemma verylarge_inode_engage [simp]: "verylarge_inode (engage_fd i d s) = verylarge_inode s"
  by (rule verylarge_inode_cong) (simp_all add: engage_fd_def upd_pcb_def)

lemma file_facts_engage [simp]:
  "block_ok (engage_fd i d s) = block_ok s" "file_byte (engage_fd i d s) = file_byte s"
  by (simp_all add: fun_eq_iff block_ok_def file_byte_def)

lemma copy_in_cong:
  "phys s' = phys s \<Longrightarrow> page_directory s' = page_directory s \<Longrightarrow> copy_in va n s' = copy_in va n s"
  by (simp add: copy_in_def in_user_def user_phys_def)

lemma copy_in_prefix:
  assumes "copy_in va (length bs) s = Done bs" "k \<le> length bs"
  shows "copy_in va k s = Done (take k bs)"
proof (cases "k = 0")
  case False
  then have "in_user s va (length bs)" "load (phys s) (user_phys s va) (length bs) = bs"
    using assms by (auto simp: copy_in_def split: if_splits)
  moreover from this have "in_user s va k" using assms(2) by (auto simp: in_user_def)
  moreover have "load m a k = take k (load m a (length bs))" for m a
    using assms(2) by (simp add: load_def take_map)
  ultimately show ?thesis using False by (simp add: copy_in_def)
qed (simp add: copy_in_def)

lemma open_then_read:
  assumes known: "has_file s name" and slot: "find (free_fd s) [2..<8] = Some fd"
    and ty: "filetype (file_dentry s name) = 2"
    and node: "dentry_inode (file_dentry s name) = inode" "inode \<le> inodesCount s" "inode \<noteq> verylarge_inode s"
    and cur: "curr_pid s = pid (active_term s)"
    and len: "0 < n" "n < 2 ^ 31" "unat (inode_length (fs s) inode) < 2 ^ 31" "inode_length (fs s) inode \<noteq> 0"
    and rd: "readable s inode 0 (nat n)" and buf: "buf \<noteq> 0" "in_user s buf (nat n)"
  shows "\<exists>s1 s2. open_call (Some name) s = Done (int fd, s1)
    \<and> read_call [] (int fd) buf n s1 = Done (int (min (nat n) (length (file_content s inode))), s2)
    \<and> copy_in buf (min (nat n) (length (file_content s inode))) s2 = Done (take (nat n) (file_content s inode))
    \<and> file_position (cur_fd (int fd) s2) = of_nat (min (nat n) (length (file_content s inode)))"
proof -
  let ?d = "file_dentry s name" and ?N = "nat n" and ?L = "length (file_content s inode)"
  define s1 where "s1 = engage_fd fd ?d s"
  define s1' where "s1' = note_verylarge inode s1"
  have fd: "2 \<le> fd" "fd < 8" using slot by (simp_all add: fds_lowest del: upt_rec_numeral)
  have o: "open_call (Some name) s = Done (int fd, s1)"
    using slot by (simp add: open_call_file[OF known] s1_def del: upt_rec_numeral)
  have f: "cur_fd (int fd) s1 = \<lparr>table_ptr = files_operations, inode_num = inode,
      file_position = 0, flags = ENGAGED\<rparr>"
    using ty node(1) by (simp add: s1_def engaged_fd type_operations_def)
  have w: "unat (word_of_int n :: u32) = ?N" using len(1,2) by (intro unat_of_int_u32) simp_all
  then have wz: "(word_of_int n :: u32) \<noteq> 0" using len(1) by (metis unat_0 zero_less_nat_eq less_numeral_extra(3))
  have L: "?L = unat (inode_length (fs s) inode)" by (simp add: file_content_def)
  let ?bs = "map (file_byte s inode) [0..<?N]"
  have bs: "take (min ?N ?L) ?bs = take ?N (file_content s inode)"
    using chunk_content[of 0 ?L s inode ?N] L by simp
  have "read_data inode 0 False (word_of_int n) s1 =
      Done (int (min ?N ?L), ?bs, s1')"
    using read_data_readable[of inode s1 "word_of_int n" 0] read_result_ordinary[of inode s1 "inode_length (fs s) inode" "word_of_int n"]
      node(2,3) wz len(3,4) rd w L
    by (simp add: s1_def s1'_def readable_def word_neq_0_conv)
  moreover have "cur_pcb_addr s1 = get_pcb_blk (curr_pid s1)"
    using cur by (simp add: s1_def) (simp add: cur_pcb_addr_def)
  moreover have b: "in_user s1' buf ?N"
    using buf(2) by (simp add: in_user_def s1'_def s1_def note_verylarge_def)
  moreover have bsn: "?bs \<noteq> []" using len(1) by simp
  ultimately obtain s2 where c: "copy_out buf ?bs s1' = Done s2"
    and r: "read_from_file (int fd) buf n s1 = Done (int (min ?N ?L), s2)"
    using buf(1) fd len(1) f
    by (simp add: read_from_file_def Let_def cur_fd_def copy_out_def)
  let ?s3 = "upd_pcb (cur_pcb_addr s1) (upd_fd fd (\<lambda>d. d\<lparr>file_position := file_position d +
      word_of_int (int (min ?N ?L))\<rparr>)) s2"
  have call: "read_call [] (int fd) buf n s1 = Done (int (min ?N ?L), ?s3)"
    using fd buf(1) len(1) f r by (simp add: read_call_def Let_def)
  have "copy_in buf (length ?bs) s2 = Done ?bs" by (rule copy_in_out[OF c])
  from copy_in_prefix[OF this, of "min ?N ?L"]
  have "copy_in buf (min ?N ?L) s2 = Done (take ?N (file_content s inode))" by (simp only: bs) simp
  then have "copy_in buf (min ?N ?L) ?s3 = Done (take ?N (file_content s inode))"
    by (subst copy_in_cong[of _ s2]) (simp_all add: upd_pcb_def)
  moreover have "file_position (cur_fd (int fd) ?s3) = of_nat (min ?N ?L)"
  proof -
    obtain m where s2: "s2 = s1'\<lparr>phys := m\<rparr>" using copy_out_frame[OF c] by blast
    have "cur_pcb_addr s2 = cur_pcb_addr s1" "cur_fd (int fd) s2 = cur_fd (int fd) s1"
      by (simp_all add: s2 s1'_def note_verylarge_def cur_fd_def cur_pcb_addr_def)
    then show ?thesis using cur_fd_upd[of fd s2 fd] f by simp
  qed
  ultimately show ?thesis using o call by blast
qed

lemma open_close_open:
  assumes known: "has_file s name" and op: "open_call (Some name) s = Done (fd, s1)" "fd \<noteq> -1"
    and ty: "filetype (file_dentry s name) \<le> 2"
  shows "\<exists>s2 s3. close_call fd s1 = Done (0, s2) \<and> open_call (Some name) s2 = Done (fd, s3)"
proof -
  let ?d = "file_dentry s name"
  obtain i where found: "find (free_fd s) [2..<8] = Some i" and fd: "fd = int i" and s1: "s1 = engage_fd i ?d s"
    using op open_call_file[OF known]
    by (cases "find (free_fd s) [2..<8]") (simp_all del: upt_rec_numeral)
  have i: "2 \<le> i" "i < 8" using found by (simp_all only: fds_lowest)
  have cur: "cur_fd fd s1 = \<lparr>table_ptr = type_operations (filetype ?d), inode_num = dentry_inode ?d,
      file_position = 0, flags = ENGAGED\<rparr>"
    unfolding s1 fd by (rule engaged_fd(1))
  have "filetype ?d = 0 \<or> filetype ?d = 1 \<or> filetype ?d = 2" using ty by unat_arith
  then have t: "type_operations (filetype ?d) \<in> {rtc_operations, directories_operations, files_operations}"
    by (auto simp: type_operations_def)
  have "close_call fd s1 = close_call_entry (type_operations (filetype ?d)) fd (release_fd i s1)"
    using close_call_eq[of fd s1] i cur by (simp add: fd)
  then obtain s2 where c: "close_call fd s1 = Done (0, s2)"
    and s2: "s2 = release_fd i s1 \<or> s2 = (release_fd i s1)\<lparr>internalCounter := 0\<rparr>"
    using t by (auto simp: close_file_def close_directory_def rtc_close_def)
  have "free_fd s2 = free_fd (release_fd i s1)" "fs s2 = fs s"
    using s2 by (auto simp: free_fd_def cur_fd_def cur_pcb_addr_def fun_eq_iff s1 release_fd_def engage_fd_def
        upd_pcb_def)
  moreover have "find (free_fd (release_fd i s1)) [2..<8] = Some i"
    unfolding s1 by (rule fds.reuse[OF found])
  ultimately show ?thesis
    using c open_call_file[of s2 name] known fd by (simp add: has_file_def del: upt_rec_numeral)
qed

end
