(* ===== verification/Process.thy ===== *)
theory Process
  imports File_Calls
begin

text \<open>
  Starting and ending programs: \<open>execute_call\<close> and \<open>halt_call\<close> of student-distrib/system_calls.c.

  Neither returns the ordinary way when it succeeds.  The result says where the processor goes:
  \<open>Return v\<close> to the caller, \<open>Enter_user eip esp\<close> by the \<open>iret\<close> of \<open>execute_call\<close>, or
  \<open>Resume eax esp ebp\<close> by the jump of \<open>halt_call\<close> into the frame of the \<open>execute_call\<close> that
  started the program; \<open>Switch esp ebp\<close> is the
  scheduler's, \<open>Idle\<close> the \<open>hlt\<close> loop at the end of booting.  The registers \<open>esp\<close> and \<open>ebp\<close> that \<open>execute_call\<close> saves are arguments.
\<close>

abbreviation (input) "MAXBUFSIZE \<equiv> (1024::nat)"
abbreviation (input) "PROGRAM_ADDR \<equiv> (0x08048000::nat)"
abbreviation (input) "ENTRY_POINT_FILE_POS \<equiv> (24::u32)"
abbreviation (input) "KERNEL_DS \<equiv> (0x18::u32)"
abbreviation (input) "USER_STACK \<equiv> (0x083FFFFC::u32)"

datatype control = Return int | Enter_user u32 u32 | Resume u32 u32 u32 | Switch u32 u32 | Idle

section \<open>The command line\<close>

text \<open>
  \<open>command\<close> is the list of bytes from the pointer on; \<open>strlen\<close> has found a NUL in it before
  these scans run.  The first word and the rest are copied to zeroed buffers of 1024 bytes.
\<close>

definition skip_spaces :: "u8 list \<Rightarrow> u8 list" where
  "skip_spaces cs = dropWhile (\<lambda>c. c = SPACE) cs"

definition first_word :: "u8 list \<Rightarrow> u8 list" where
  "first_word cs = takeWhile (\<lambda>c. c \<noteq> SPACE \<and> c \<noteq> 0 \<and> c \<noteq> NEWLINE) cs"

definition arg_text :: "u8 list \<Rightarrow> u8 list" where
  "arg_text cs = takeWhile (\<lambda>c. c \<noteq> 0 \<and> c \<noteq> NEWLINE)
     (skip_spaces (dropWhile (\<lambda>c. c \<noteq> SPACE \<and> c \<noteq> 0 \<and> c \<noteq> NEWLINE) cs))"

definition zero_buffer :: "u8 list \<Rightarrow> u8 list" where
  "zero_buffer cs = cs @ replicate (MAXBUFSIZE - length cs) 0"

section \<open>Process ids\<close>

definition free_pid :: "kernel \<Rightarrow> nat \<Rightarrow> bool" where
  "free_pid s i \<longleftrightarrow> pid_array s i = 0"

definition take_pid :: "nat \<Rightarrow> kernel \<Rightarrow> kernel" where
  "take_pid i s = s\<lparr>pid_array := (pid_array s)(i := 1)\<rparr>"

definition release_pid :: "nat \<Rightarrow> kernel \<Rightarrow> kernel" where
  "release_pid i s = s\<lparr>pid_array := (pid_array s)(i := 0)\<rparr>"

text \<open>\<open>None\<close>: all ids are taken.  The base shell of a terminal keeps the id it has.\<close>

definition choose_pid :: "kernel \<Rightarrow> kernel option" where
  "choose_pid s =
     (if init_flag (active_term s) = 0
      then Some (upd_term (active_terminal s) (\<lambda>t. t\<lparr>parentpid := -1, init_flag := 1\<rparr>)
                   (s\<lparr>curr_pid := pid (active_term s)\<rparr>))
      else (case find (free_pid s) [3..<6] of None \<Rightarrow> None
            | Some i \<Rightarrow> Some ((take_pid i s)\<lparr>curr_pid := int i\<rparr>)))"

section \<open>The control block of a new process\<close>

definition fresh_files :: "nat \<Rightarrow> file_desct \<Rightarrow> file_desct" where
  "fresh_files i f =
     (if i < 8
      then f\<lparr>table_ptr := (if i = 0 then stdin_operations else if i = 1 then stdout_operations
                         else nothing_operations),
             inode_num := NOINODE, file_position := START_OF_FILE,
             flags := (if i < 2 then ENGAGED else NOT_ENGAGED)\<rparr>
      else f)"

definition set_parent :: "int \<Rightarrow> kernel \<Rightarrow> kernel" where
  "set_parent old_curr_pid s =
     (let a = active_terminal s; pcb = get_pcb_addr (word_of_int (curr_pid s)) in
      if curr_pid s < 3
      then upd_pcb pcb (\<lambda>p. p\<lparr>parent_process_id := -1\<rparr>)
             (upd_term a (\<lambda>t. t\<lparr>parentpid := -1\<rparr>) (s\<lparr>save_parent_pid := int a\<rparr>))
      else upd_pcb pcb (\<lambda>p. p\<lparr>parent_process_id := word_of_int old_curr_pid\<rparr>)
             (upd_term a (\<lambda>t. t\<lparr>parentpid := old_curr_pid\<rparr>) (s\<lparr>save_parent_pid := old_curr_pid\<rparr>)))"

text \<open>
  The argument is copied without a bound into \<open>terminal_cmd[128]\<close>.  From 128 bytes on the copy runs into
  what follows the control block: the model is partial there and marks the call by \<open>OutOfBounds\<close>.
\<close>

definition setup_pcb :: "u8 list \<Rightarrow> kernel \<Rightarrow> kernel outcome" where
  "setup_pcb arg s =
     (if length arg \<ge> 128 then Fault OutOfBounds
      else Done (upd_pcb (get_pcb_addr (word_of_int (curr_pid s)))
        (\<lambda>p. p\<lparr>process_id := word_of_int (curr_pid s), pcb_active := 1,
               terminal_on := int (active_terminal s),
               file_desc_array := (\<lambda>i. fresh_files i (file_desc_array p i)),
               terminal_cmd := arg @ 0 # drop (Suc (length arg)) (terminal_cmd p)\<rparr>) s))"

section \<open>Loading a program\<close>

text \<open>
  The file is found and its first four bytes are read into a stack buffer; \<open>inode\<close> is an
  \<open>int8_t\<close>, so the number is cut to eight bits and sign-extended again.  The result is the inode,
  or \<open>None\<close> for a command that is no program.
\<close>

definition find_program :: "u8 list \<Rightarrow> kernel \<Rightarrow> (u32 option \<times> kernel) outcome" where
  "find_program command s =
     andthen (read_dentry_by_name s (zero_buffer (first_word command)) False)
       (\<lambda>(valid, dentry). case dentry of None \<Rightarrow> Done (None, s)
          | Some d \<Rightarrow>
              (let inode = (scast (ucast (dentry_inode d) :: u8) :: u32) in
               andthen (read_data inode 0 False 4 s)
                 (\<lambda>(valid, bs, s).
                    let buf = bs @ drop (length bs) (load (stack_junk s) 0 4) in
                    if valid = -1 \<or> take 4 buf \<noteq> [0x7F, 0x45, 0x4C, 0x46] then Done (None, s)
                    else Done (Some inode, s))))"

definition load_program :: "u32 \<Rightarrow> kernel \<Rightarrow> (int \<times> kernel) outcome" where
  "load_program inode s =
     andthen (read_data inode 0 False (inode_length (fs s) inode) s)
       (\<lambda>(valid, bs, s). andthen (copy_out PROGRAM_ADDR bs s) (\<lambda>s. Done (valid, s)))"

definition entry_point :: "u32 \<Rightarrow> kernel \<Rightarrow> (u32 \<times> kernel) outcome" where
  "entry_point inode s =
     andthen (read_data inode ENTRY_POINT_FILE_POS False 4 s)
       (\<lambda>(r, bs, s). let buf = bs @ drop (length bs) (load (stack_junk s) 0 4)
                     in Done (rd32 (\<lambda>i. buf ! i) 0, s))"

section \<open>execute\<close>

definition set_tss :: "int \<Rightarrow> kernel \<Rightarrow> kernel" where
  "set_tss p s = s\<lparr>tss_ss0 := KERNEL_DS, tss_esp0 := get_kernel_stack_addr (word_of_int p)\<rparr>"

definition start_program :: "u32 \<Rightarrow> u8 list \<Rightarrow> int \<Rightarrow> u32 \<Rightarrow> u32 \<Rightarrow> kernel \<Rightarrow> (control \<times> kernel) outcome" where
  "start_program inode arg old_curr_pid esp ebp s =
     (let s = upd_term (active_terminal s)
                (\<lambda>t. if init_flag t = 1 then t\<lparr>pid := curr_pid s\<rparr> else t) s;
          s = virt_to_phys_user (word_of_int (curr_pid s)) s
      in andthen (load_program inode s) (\<lambda>(valid, s).
        if valid = -1 then Done (Return (-1), s)
        else andthen (setup_pcb arg (set_parent old_curr_pid s)) (\<lambda>s.
          andthen (entry_point inode s) (\<lambda>(entry, s).
            let s = set_tss (curr_pid s) s;
                s = upd_pcb (get_pcb_addr (word_of_int (curr_pid s)))
                      (\<lambda>p. p\<lparr>task_esp := esp, task_ebp := ebp\<rparr>) s
            in Done (Enter_user entry USER_STACK, s)))))"

text \<open>The state in which \<open>execute_call\<close> looks for the program.\<close>

definition exec_begin :: "kernel \<Rightarrow> kernel" where
  "exec_begin s =
     (let s = cli s;
          s = (if displayed_terminal s = active_terminal s then clear_temp_buff s else s)
      in s\<lparr>curr_pid := pid (active_term s)\<rparr>)"

definition execute_call :: "u8 list \<Rightarrow> u32 \<Rightarrow> u32 \<Rightarrow> kernel \<Rightarrow> (control \<times> kernel) outcome" where
  "execute_call command esp ebp s =
     (let s = exec_begin s
      in andthen (of_opt OutOfBounds (strlen command)) (\<lambda>n.
           if n > 1023 then Done (Return (-1), s)
           else andthen (find_program (skip_spaces command) s) (\<lambda>(found, s).
             case found of None \<Rightarrow> Done (Return (-1), s)
             | Some inode \<Rightarrow>
                 (case choose_pid s of None \<Rightarrow> Done (Return (-1), s)
                  | Some s' \<Rightarrow>
                      start_program inode (arg_text (skip_spaces command)) (curr_pid s) esp ebp s'))))"

section \<open>halt\<close>

definition shell_command :: "u8 list" where
  "shell_command = c_lit ''shell'' @ replicate 4 0"

definition halt_shell :: "u32 \<Rightarrow> u32 \<Rightarrow> kernel \<Rightarrow> (control \<times> kernel) outcome" where
  "halt_shell esp ebp s =
     (let s = s\<lparr>curr_pid := int (active_terminal s), save_parent_pid := -1\<rparr>;
          s = upd_term (active_terminal s)
                (\<lambda>t. t\<lparr>pid := curr_pid s, parentpid := save_parent_pid s, init_flag := 0\<rparr>) s
      in andthen (execute_call shell_command esp ebp s) (\<lambda>(c, s).
           case c of Return r \<Rightarrow> Done (Return 0, s) | _ \<Rightarrow> Done (c, s)))"

definition halt_process :: "u8 \<Rightarrow> kernel \<Rightarrow> (control \<times> kernel) outcome" where
  "halt_process status s =
     (let a = active_terminal s;
          s = (if displayed_terminal s = a then clear_temp_buff s else s);
          curr_pcb = get_pcb_addr (word_of_int (curr_pid s));
          parent_pcb = get_pcb_addr (word_of_int (parentpid (terminal s a)));
          s = upd_pcb curr_pcb (\<lambda>p. p\<lparr>pcb_active := NOT_ENGAGED, terminal_on := -1,
                file_desc_array := (\<lambda>i. if i < 8 then (file_desc_array p i)\<lparr>flags := NOT_ENGAGED\<rparr>
                                        else file_desc_array p i)\<rparr>) s;
          s = s\<lparr>curr_pid := parentpid (terminal s a)\<rparr>;
          s = upd_term a (\<lambda>t. t\<lparr>pid := curr_pid s\<rparr>) s;
          s = s\<lparr>save_parent_pid := sint (parent_process_id (pcbs s parent_pcb))\<rparr>;
          s = upd_term a (\<lambda>t. t\<lparr>parentpid := save_parent_pid s\<rparr>) s
      in if process_id (pcbs s curr_pcb) \<ge> 6 then Fault OutOfBounds
         else let s = release_pid (unat (process_id (pcbs s curr_pcb))) s;
                  s = virt_to_phys_user (word_of_int (curr_pid s)) s;
                  s = set_tss (curr_pid s) s
              in Done (Resume (ucast status) (task_esp (pcbs s curr_pcb)) (task_ebp (pcbs s curr_pcb)), s))"

definition halt_call :: "u8 \<Rightarrow> u32 \<Rightarrow> u32 \<Rightarrow> kernel \<Rightarrow> (control \<times> kernel) outcome" where
  "halt_call status esp ebp s =
     (let s = s\<lparr>curr_pid := pid (active_term s)\<rparr>;
          s = upd_term (active_terminal s)
                (\<lambda>t. t\<lparr>rtc_counter := DEFAULT_COUNTER, rtc_target := DEFAULT_TARGET\<rparr>) s
      in if curr_pid s < 3 then halt_shell esp ebp s else halt_process status s)"

section \<open>What the parts leave alone\<close>

text \<open>Everything the process structures are made of.\<close>

definition same_procs :: "kernel \<Rightarrow> kernel \<Rightarrow> bool" where
  "same_procs s s' \<longleftrightarrow>
     pcbs s' = pcbs s \<and> pid_array s' = pid_array s \<and> active_terminal s' = active_terminal s \<and>
     displayed_terminal s' = displayed_terminal s \<and> page_directory s' = page_directory s \<and>
     tss_esp0 s' = tss_esp0 s \<and>
     (\<forall>t. pid (terminal s' t) = pid (terminal s t) \<and> parentpid (terminal s' t) = parentpid (terminal s t)
       \<and> init_flag (terminal s' t) = init_flag (terminal s t))"

lemma same_procs_refl [simp, frame]: "same_procs s s"
  by (simp add: same_procs_def)

lemma same_procs_trans: "same_procs s s1 \<Longrightarrow> same_procs s1 s2 \<Longrightarrow> same_procs s s2"
  by (simp add: same_procs_def)

lemma same_procs_upd [frame]:
  "same_procs s (cli s)" "same_procs s (s\<lparr>curr_pid := p\<rparr>)" "same_procs s (s\<lparr>str_len := n\<rparr>)"
  "same_procs s (s\<lparr>phys := m\<rparr>)" "same_procs s (note_verylarge inode s)"
  "same_procs s (upd_term t (\<lambda>t. t\<lparr>tempbuf := f t\<rparr>) s)"
  "same_procs s (upd_term t (\<lambda>t. t\<lparr>rtc_counter := c, rtc_target := d\<rparr>) s)"
  by (simp_all add: same_procs_def cli_def note_verylarge_def upd_term_def)

lemma clear_temp_buff_procs [frame]: "same_procs s (clear_temp_buff s)"
proof -
  have "same_procs s (fold (\<lambda>j. upd_term d (\<lambda>t. t\<lparr>tempbuf := (tempbuf t)[j := 0]\<rparr>)) js s)" for d js s
  proof (induction js arbitrary: s)
    case (Cons j js)
    show ?case unfolding fold_simps
      by (rule same_procs_trans[OF _ Cons.IH]) (simp add: same_procs_def upd_term_def)
  qed simp
  then show ?thesis
    unfolding clear_temp_buff_def by (rule same_procs_trans) (rule same_procs_upd(3))
qed

lemma read_data_procs:
  "read_data inode offset b len s = Done (r, bs, s') \<Longrightarrow> same_procs s s' \<and> curr_pid s' = curr_pid s"
  by (auto simp: read_data_def Let_def andthen_Done_iff same_procs_def note_verylarge_def
      split: if_splits prod.splits)

lemma find_program_procs:
  "find_program c s = Done (r, s') \<Longrightarrow> same_procs s s' \<and> curr_pid s' = curr_pid s"
  by (auto simp: find_program_def Let_def andthen_Done_iff split: option.splits if_splits
      dest: read_data_procs)

lemma entry_point_procs:
  "entry_point inode s = Done (r, s') \<Longrightarrow> same_procs s s' \<and> curr_pid s' = curr_pid s"
  by (auto simp: entry_point_def Let_def andthen_Done_iff dest: read_data_procs)

lemma load_program_procs:
  assumes "load_program inode s = Done (r, s')"
  shows "same_procs s s' \<and> curr_pid s' = curr_pid s"
proof -
  obtain bs s1 where "read_data inode 0 False (inode_length (fs s) inode) s = Done (r, bs, s1)"
    and c: "copy_out PROGRAM_ADDR bs s1 = Done s'"
    using assms by (auto simp: load_program_def andthen_Done_iff)
  moreover obtain m where "s' = s1\<lparr>phys := m\<rparr>" using copy_out_frame[OF c] by blast
  ultimately show ?thesis
    using same_procs_trans same_procs_upd(4) by (auto dest!: read_data_procs)
qed

interpretation pids: slot_table free_pid "[3..<6]" take_pid release_pid
  by unfold_locales (auto simp: free_pid_def take_pid_def release_pid_def)

lemma pids_lowest:
  "find (free_pid s) [3..<6] = Some i \<longleftrightarrow>
   3 \<le> i \<and> i < 6 \<and> free_pid s i \<and> (\<forall>j. 3 \<le> j \<and> j < i \<longrightarrow> \<not> free_pid s j)"
  unfolding pids.find_lowest set_upt by auto

lemma pids_full: "find (free_pid s) [3..<6] = None \<longleftrightarrow> (\<forall>j. 3 \<le> j \<and> j < 6 \<longrightarrow> \<not> free_pid s j)"
  unfolding pids.find_full set_upt by auto

section \<open>The effect of a successful execute\<close>

definition parent_of :: "int \<Rightarrow> int \<Rightarrow> int" where
  "parent_of p old = (if p < 3 then -1 else old)"

definition started_pcb :: "u8 list \<Rightarrow> int \<Rightarrow> int \<Rightarrow> nat \<Rightarrow> u32 \<Rightarrow> u32 \<Rightarrow> pcb_t \<Rightarrow> pcb_t" where
  "started_pcb arg p parent a esp ebp q =
     q\<lparr>file_desc_array := (\<lambda>i. fresh_files i (file_desc_array q i)), pcb_active := 1,
       process_id := word_of_int p, parent_process_id := word_of_int parent,
       task_esp := esp, task_ebp := ebp,
       terminal_cmd := arg @ 0 # drop (Suc (length arg)) (terminal_cmd q), terminal_on := int a\<rparr>"

definition pcb_of :: "int \<Rightarrow> u32" where
  "pcb_of p = get_pcb_addr (word_of_int p)"

text \<open>\<open>entered s p parent s'\<close>: from \<open>s\<close>, the active terminal now runs \<open>p\<close> below \<open>parent\<close>.\<close>

definition entered :: "kernel \<Rightarrow> int \<Rightarrow> int \<Rightarrow> u8 list \<Rightarrow> u32 \<Rightarrow> u32 \<Rightarrow> kernel \<Rightarrow> bool" where
  "entered s p parent arg esp ebp s' \<longleftrightarrow>
     active_terminal s' = active_terminal s \<and> displayed_terminal s' = displayed_terminal s \<and>
     curr_pid s' = p \<and>
     pcbs s' = (pcbs s)(pcb_of p := started_pcb arg p parent (active_terminal s) esp ebp (pcbs s (pcb_of p))) \<and>
     page_directory s' = (page_directory s)(32 := user_pde (word_of_int p)) \<and>
     tss_esp0 s' = get_kernel_stack_addr (word_of_int p) \<and>
     (\<forall>t. pid (terminal s' t) = (if t = active_terminal s then p else pid (terminal s t)) \<and>
          parentpid (terminal s' t) = (if t = active_terminal s then parent else parentpid (terminal s t)) \<and>
          init_flag (terminal s' t) = init_flag (terminal s t))"

lemma start_program_enters:
  assumes "start_program inode arg old esp ebp s = Done (Enter_user e u, s')"
    and "init_flag (active_term s) = 1"
  shows "entered s (curr_pid s) (parent_of (curr_pid s) old) arg esp ebp s'
    \<and> pid_array s' = pid_array s \<and> u = USER_STACK \<and> length arg < 128"
proof -
  let ?p = "curr_pid s" and ?a = "active_terminal s"
  define s1 where "s1 = virt_to_phys_user (word_of_int ?p)
    (upd_term ?a (\<lambda>t. if init_flag t = 1 then t\<lparr>pid := ?p\<rparr> else t) s)"
  obtain v s2 s3 s4 where l: "load_program inode s1 = Done (v, s2)"
    and c: "setup_pcb arg (set_parent old s2) = Done s3"
    and en: "entry_point inode s3 = Done (e, s4)"
    and s': "s' = upd_pcb (get_pcb_addr (word_of_int (curr_pid s4)))
        (\<lambda>p. p\<lparr>task_esp := esp, task_ebp := ebp\<rparr>) (set_tss (curr_pid s4) s4)"
    and u: "u = USER_STACK"
    using assms(1) s1_def
    by (auto simp: start_program_def Let_def andthen_Done_iff set_tss_def upd_term_def virt_to_phys_user_eq
        split: if_splits)
  have l1: "same_procs s1 s2" "curr_pid s2 = ?p"
    using load_program_procs[OF l] by (simp_all add: s1_def virt_to_phys_user_eq upd_term_def)
  have len: "length arg < 128" using c by (auto simp: setup_pcb_def split: if_splits)
  define s3' where "s3' = upd_pcb (pcb_of ?p)
        (\<lambda>p. p\<lparr>process_id := word_of_int ?p, pcb_active := 1, terminal_on := int ?a,
               file_desc_array := (\<lambda>i. fresh_files i (file_desc_array p i)),
               terminal_cmd := arg @ 0 # drop (Suc (length arg)) (terminal_cmd p)\<rparr>)
        (upd_pcb (pcb_of ?p) (\<lambda>p. p\<lparr>parent_process_id := word_of_int (parent_of ?p old)\<rparr>)
          (upd_term ?a (\<lambda>t. t\<lparr>parentpid := parent_of ?p old\<rparr>)
            (s2\<lparr>save_parent_pid := (if ?p < 3 then int ?a else old)\<rparr>)))"
  have a2: "active_terminal s2 = ?a" using l1 by (simp add: same_procs_def s1_def virt_to_phys_user_eq upd_term_def)
  have s3: "s3 = s3'"
    using c len l1(2) a2
    by (simp add: setup_pcb_def set_parent_def Let_def s3'_def parent_of_def pcb_of_def upd_pcb_def
        upd_term_def split: if_splits)
  have l3: "same_procs s3' s4" "curr_pid s4 = ?p"
    using entry_point_procs[OF en] l1(2) by (simp_all add: s3 s3'_def upd_pcb_def upd_term_def)
  have pcb: "pcbs s' = (pcbs s)(pcb_of ?p := started_pcb arg ?p (parent_of ?p old) ?a esp ebp (pcbs s (pcb_of ?p)))"
  proof -
    have "pcbs s2 = pcbs s" using l1(1) by (simp add: same_procs_def s1_def virt_to_phys_user_eq upd_term_def)
    moreover have "pcbs s4 = pcbs s3'" using l3(1) by (simp add: same_procs_def)
    ultimately show ?thesis
      by (simp add: s' s3'_def l3(2) upd_pcb_def set_tss_def upd_term_def pcb_of_def[symmetric]
          started_pcb_def fun_eq_iff)
  qed
  have pd: "page_directory s' = (page_directory s)(32 := user_pde (word_of_int ?p))"
    using l1(1) l3(1)
    by (simp add: s' s3'_def same_procs_def s1_def virt_to_phys_user_eq user_pde_def upd_pcb_def
        upd_term_def set_tss_def)
  show ?thesis
    unfolding entered_def
    using l1 l3 assms(2) pcb pd u len
    by (auto simp: s' s3'_def same_procs_def s1_def virt_to_phys_user_eq upd_pcb_def
        upd_term_def set_tss_def)
qed

lemma entered_from:
  "same_procs s0 s \<Longrightarrow> entered s p parent arg esp ebp s' \<Longrightarrow> entered s0 p parent arg esp ebp s'"
  by (simp add: entered_def same_procs_def)

lemma exec_begin_procs: "same_procs s (exec_begin s)"
proof -
  define s1 where "s1 = cli s"
  have 1: "same_procs s s1" by (simp add: s1_def frame)
  have 2: "same_procs s1 (if displayed_terminal s1 = active_terminal s1 then clear_temp_buff s1 else s1)"
    by (simp add: frame)
  show ?thesis
    unfolding exec_begin_def Let_def s1_def[symmetric]
    by (rule same_procs_trans[OF 1 same_procs_trans[OF 2 same_procs_upd(2)]])
qed

lemma exec_begin_pid: "curr_pid (exec_begin s) = pid (active_term s)"
proof -
  have "curr_pid (exec_begin s) = pid (active_term (exec_begin s))"
    by (simp add: exec_begin_def Let_def)
  then show ?thesis using exec_begin_procs[of s] by (simp add: same_procs_def)
qed

lemma execute_call_unfold:
  "execute_call command esp ebp s =
     andthen (of_opt OutOfBounds (strlen command)) (\<lambda>n.
       if n > 1023 then Done (Return (-1), exec_begin s)
       else andthen (find_program (skip_spaces command) (exec_begin s)) (\<lambda>(found, s).
         case found of None \<Rightarrow> Done (Return (-1), s)
         | Some inode \<Rightarrow>
             (case choose_pid s of None \<Rightarrow> Done (Return (-1), s)
              | Some s' \<Rightarrow>
                  start_program inode (arg_text (skip_spaces command)) (curr_pid s) esp ebp s')))"
  by (simp add: execute_call_def Let_def)

text \<open>A command that is no program, or finds no free id, changes no process.\<close>

lemma execute_call_refused:
  assumes "execute_call command esp ebp s = Done (c, s')"
    and "\<And>inode s1. find_program (skip_spaces command) (exec_begin s) = Done (Some inode, s1) \<Longrightarrow>
      choose_pid s1 = None"
  shows "c = Return (-1) \<and> same_procs s s'"
proof -
  obtain n where n: "strlen command = Some n"
    using assms(1) by (auto simp: execute_call_unfold andthen_Done_iff)
  show ?thesis
  proof (cases "n > 1023")
    case True
    then show ?thesis using assms(1) n exec_begin_procs by (auto simp: execute_call_unfold)
  next
    case False
    then obtain found s1 where f: "find_program (skip_spaces command) (exec_begin s) = Done (found, s1)"
      using assms(1) n by (auto simp: execute_call_unfold andthen_Done_iff)
    have "same_procs s s1"
      using find_program_procs[OF f] exec_begin_procs same_procs_trans by blast
    moreover have "c = Return (-1) \<and> s' = s1"
      using assms(1) n False f assms(2)[of _ s1]
      by (cases found) (auto simp: execute_call_unfold)
    ultimately show ?thesis by simp
  qed
qed

definition runs_shell :: "kernel \<Rightarrow> bool" where
  "runs_shell s \<longleftrightarrow> init_flag (active_term s) = 0"

lemma execute_call_enters:
  assumes "execute_call command esp ebp s = Done (Enter_user e u, s')"
  defines "arg \<equiv> arg_text (skip_spaces command)"
  shows "u = USER_STACK \<and> length arg < 128 \<and>
    (if runs_shell s
     then pid_array s' = pid_array s \<and>
       entered (upd_term (active_terminal s) (\<lambda>t. t\<lparr>init_flag := 1\<rparr>) s) (pid (active_term s))
         (parent_of (pid (active_term s)) (pid (active_term s))) arg esp ebp s'
     else init_flag (active_term s) = 1 \<longrightarrow>
       (\<exists>i. find (free_pid s) [3..<6] = Some i \<and> pid_array s' = (pid_array s)(i := 1) \<and>
         entered s (int i) (pid (active_term s)) arg esp ebp s'))"
proof -
  obtain inode s1 s2 where f: "find_program (skip_spaces command) (exec_begin s) = Done (Some inode, s1)"
    and ch: "choose_pid s1 = Some s2"
    and st: "start_program inode arg (curr_pid s1) esp ebp s2 = Done (Enter_user e u, s')"
    using assms(1) by (auto simp: execute_call_unfold arg_def andthen_Done_iff split: if_splits option.splits)
  have s1: "same_procs s s1" "curr_pid s1 = pid (active_term s)"
    using find_program_procs[OF f] exec_begin_procs[of s] exec_begin_pid[of s]
    by (auto intro: same_procs_trans)
  have act: "active_terminal s1 = active_terminal s" "init_flag (active_term s1) = init_flag (active_term s)"
    "pid (active_term s1) = pid (active_term s)" "pid_array s1 = pid_array s"
    using s1(1) by (simp_all add: same_procs_def)
  show ?thesis
  proof (cases "runs_shell s")
    case True
    let ?si = "\<lambda>s. upd_term (active_terminal s) (\<lambda>t. t\<lparr>init_flag := 1\<rparr>) s"
    have s2: "s2 = upd_term (active_terminal s1) (\<lambda>t. t\<lparr>parentpid := -1, init_flag := 1\<rparr>)
        (s1\<lparr>curr_pid := pid (active_term s1)\<rparr>)"
      using ch True act by (simp add: choose_pid_def runs_shell_def)
    have "init_flag (active_term s2) = 1" by (simp add: s2 upd_term_def)
    from start_program_enters[OF st this]
    have en: "entered s2 (pid (active_term s)) (parent_of (pid (active_term s)) (pid (active_term s))) arg esp ebp s'"
      "pid_array s' = pid_array s2" "u = USER_STACK" "length arg < 128"
      using act s1(2) by (simp_all add: s2 upd_term_def)
    have "entered (?si s) (pid (active_term s)) (parent_of (pid (active_term s)) (pid (active_term s))) arg esp ebp s'"
      using en(1) s1(1) unfolding entered_def s2 same_procs_def by (auto simp: upd_term_def)
    moreover have "pid_array s' = pid_array s" using en(2) act by (simp add: s2 upd_term_def)
    ultimately show ?thesis using True en by simp
  next
    case False
    show ?thesis
    proof (cases "init_flag (active_term s) = 1")
      case one: True
      have fp: "free_pid s1 = free_pid s" using act by (simp add: fun_eq_iff free_pid_def)
      obtain i where i: "find (free_pid s) [3..<6] = Some i" and s2: "s2 = (take_pid i s1)\<lparr>curr_pid := int i\<rparr>"
        using ch False act by (auto simp: choose_pid_def runs_shell_def fp simp del: upt_rec_numeral split: option.splits)
      have i3: "3 \<le> i" using i by (simp add: pids_lowest del: upt_rec_numeral)
      have "init_flag (active_term s2) = 1" using one act by (simp add: s2 take_pid_def)
      from start_program_enters[OF st this] i3
      have en: "entered s2 (int i) (pid (active_term s)) arg esp ebp s'"
        "pid_array s' = pid_array s2" "u = USER_STACK" "length arg < 128"
        using s1(2) by (simp_all add: s2 take_pid_def parent_of_def)
      have "entered s (int i) (pid (active_term s)) arg esp ebp s'"
        using en(1) s1(1) unfolding entered_def s2 same_procs_def by (auto simp: take_pid_def)
      moreover have "pid_array s' = (pid_array s)(i := 1)" using en(2) act by (simp add: s2 take_pid_def)
      ultimately show ?thesis using False en i by auto
    next
      case False2: False
      have "u = USER_STACK \<and> length arg < 128"
        using st by (auto simp: start_program_def Let_def andthen_Done_iff setup_pcb_def split: if_splits)
      then show ?thesis using False False2 by simp
    qed
  qed
qed

section \<open>The process stacks\<close>

text \<open>
  The abstract view: every terminal has a stack of frames, the running process on top and the
  base shell at the bottom; a frame holds the process id and the registers with which halting
  resumes the parent.  \<open>proc_rel s st\<close>: the control blocks, the id array and the terminal
  structures of \<open>s\<close> represent the stacks \<open>st\<close>.
\<close>

type_synonym frame = "nat \<times> u32 \<times> u32"

definition pids_of :: "(nat \<Rightarrow> frame list) \<Rightarrow> nat \<Rightarrow> nat set" where
  "pids_of st t = fst ` set (st t)"

fun parent_pid :: "frame list \<Rightarrow> int" where
  "parent_pid [] = -1"
| "parent_pid (f # fr) = int (fst f)"

definition frame_ok :: "kernel \<Rightarrow> nat \<Rightarrow> frame list \<Rightarrow> frame \<Rightarrow> bool" where
  "frame_ok s t below f \<longleftrightarrow>
     (case f of (p, esp, ebp) \<Rightarrow>
        let q = pcbs s (pcb_of (int p)) in
        process_id q = of_nat p \<and> task_esp q = esp \<and> task_ebp q = ebp \<and> terminal_on q = int t \<and>
        parent_process_id q = word_of_int (parent_pid below) \<and>
        p < 6 \<and> (if below = [] then p = t else 3 \<le> p))"

fun frames_ok :: "kernel \<Rightarrow> nat \<Rightarrow> frame list \<Rightarrow> bool" where
  "frames_ok s t [] \<longleftrightarrow> True"
| "frames_ok s t (f # fr) \<longleftrightarrow> frame_ok s t fr f \<and> fst f \<notin> fst ` set fr \<and> frames_ok s t fr"

definition term_ok :: "terminal_t \<Rightarrow> nat \<Rightarrow> frame list \<Rightarrow> bool" where
  "term_ok tm t fr \<longleftrightarrow>
     (case fr of [] \<Rightarrow> init_flag tm = 0 \<and> pid tm = int t
      | f # below \<Rightarrow> init_flag tm = 1 \<and> pid tm = int (fst f) \<and> parentpid tm = parent_pid below)"

definition proc_rel :: "kernel \<Rightarrow> (nat \<Rightarrow> frame list) \<Rightarrow> bool" where
  "proc_rel s st \<longleftrightarrow>
     (\<forall>t<3. frames_ok s t (st t) \<and> term_ok (terminal s t) t (st t)) \<and>
     (\<forall>t<3. \<forall>u<3. t \<noteq> u \<longrightarrow> pids_of st t \<inter> pids_of st u = {}) \<and>
     (\<forall>i. 3 \<le> i \<and> i < 6 \<longrightarrow> (pid_array s i \<noteq> 0 \<longleftrightarrow> (\<exists>t<3. i \<in> pids_of st t)))"

lemma pcb_of_inj: "p < 6 \<Longrightarrow> q < 6 \<Longrightarrow> pcb_of (int p) = pcb_of (int q) \<longleftrightarrow> p = q"
  using get_pcb_blk_inj[of "int p" "int q"] by (simp add: pcb_of_def get_pcb_blk_addr)

lemma frames_ok_bounds: "frames_ok s t fr \<Longrightarrow> p \<in> fst ` set fr \<Longrightarrow> p < 6 \<and> (p = t \<or> 3 \<le> p)"
  by (induction fr) (auto simp: frame_ok_def Let_def split: if_splits)

lemma frames_ok_cong:
  "(\<And>p. p \<in> fst ` set fr \<Longrightarrow> pcbs s' (pcb_of (int p)) = pcbs s (pcb_of (int p))) \<Longrightarrow>
   frames_ok s' t fr = frames_ok s t fr"
  by (induction fr) (auto simp: frame_ok_def)

lemma frames_ok_upd:
  assumes "frames_ok s t fr" "q < 6" "q \<notin> fst ` set fr"
    and "\<And>a. a \<noteq> pcb_of (int q) \<Longrightarrow> pcbs s' a = pcbs s a"
  shows "frames_ok s' t fr"
proof -
  have "frames_ok s' t fr = frames_ok s t fr"
  proof (rule frames_ok_cong)
    fix p assume p: "p \<in> fst ` set fr"
    then have "p < 6" "p \<noteq> q" using frames_ok_bounds[OF assms(1)] assms(3) by auto
    then show "pcbs s' (pcb_of (int p)) = pcbs s (pcb_of (int p))"
      using assms(2) pcb_of_inj by (intro assms(4)) simp
  qed
  then show ?thesis using assms(1) by simp
qed

lemma proc_rel_same: "same_procs s s' \<Longrightarrow> proc_rel s st \<Longrightarrow> proc_rel s' st"
proof -
  assume h: "same_procs s s'" "proc_rel s st"
  then have "frames_ok s' t fr = frames_ok s t fr" for t fr
    by (intro frames_ok_cong) (simp add: same_procs_def)
  moreover have "term_ok (terminal s' t) t fr = term_ok (terminal s t) t fr" for t fr
    using h(1) by (simp add: same_procs_def term_ok_def split: list.splits)
  ultimately show ?thesis using h by (simp add: proc_rel_def same_procs_def)
qed

lemma proc_relD:
  assumes "proc_rel s st" "t < 3"
  shows "frames_ok s t (st t)" "term_ok (terminal s t) t (st t)"
  using assms by (simp_all add: proc_rel_def)

lemma free_pid_unused:
  assumes "proc_rel s st" "free_pid s i" "3 \<le> i" "i < 6" "t < 3"
  shows "i \<notin> pids_of st t"
  using assms by (auto simp: proc_rel_def free_pid_def)

text \<open>A successful \<open>execute\<close> pushes a frame with the lowest free id.\<close>

theorem execute_pushes:
  assumes rel: "proc_rel s st" and a: "active_terminal s < 3" and up: "st (active_terminal s) \<noteq> []"
    and ex: "execute_call command esp ebp s = Done (Enter_user e u, s')"
  shows "\<exists>i. find (free_pid s) [3..<6] = Some i
    \<and> proc_rel s' (st(active_terminal s := (i, esp, ebp) # st (active_terminal s)))
    \<and> curr_pid s' = int i \<and> page_directory s' 32 = user_pde (of_nat i)
    \<and> tss_esp0 s' = get_kernel_stack_addr (of_nat i)"
proof -
  let ?a = "active_terminal s"
  obtain p r1 r2 below where fr: "st ?a = (p, r1, r2) # below"
    using up by (cases "st ?a") (auto simp: prod_cases3)
  have tm: "init_flag (active_term s) = 1" "pid (active_term s) = int p"
    using proc_relD(2)[OF rel a] fr by (simp_all add: term_ok_def)
  obtain i where i: "find (free_pid s) [3..<6] = Some i"
    and pa: "pid_array s' = (pid_array s)(i := 1)"
    and en: "entered s (int i) (int p) (arg_text (skip_spaces command)) esp ebp s'"
    using execute_call_enters[OF ex] tm by (auto simp: runs_shell_def)
  have i36: "3 \<le> i" "i < 6" "free_pid s i" using i by (simp_all add: pids_lowest del: upt_rec_numeral)
  have fresh: "i \<notin> pids_of st t" if "t < 3" for t
    using free_pid_unused[OF rel i36(3,1,2) that] .
  have pcb: "pcbs s' = (pcbs s)(pcb_of (int i) := started_pcb (arg_text (skip_spaces command)) (int i)
      (int p) ?a esp ebp (pcbs s (pcb_of (int i))))"
    using en by (simp add: entered_def)
  have old: "frames_ok s' t (st t)" if "t < 3" for t
    by (rule frames_ok_upd[OF proc_relD(1)[OF rel that] i36(2)])
      (use fresh[OF that] pcb in \<open>auto simp: pids_of_def\<close>)
  have "frame_ok s' ?a (st ?a) (i, esp, ebp)"
    using i36 fr by (simp add: frame_ok_def Let_def pcb started_pcb_def)
  then have new: "frames_ok s' ?a ((i, esp, ebp) # st ?a)"
    using old[OF a] fresh[OF a] by (simp add: pids_of_def)
  have terms: "term_ok (terminal s' t) t ((st(?a := (i, esp, ebp) # st ?a)) t)" if "t < 3" for t
    using proc_relD(2)[OF rel that] en tm fr
    by (auto simp: term_ok_def entered_def split: list.splits)
  have pids: "pids_of (st(?a := (i, esp, ebp) # st ?a)) t =
      (if t = ?a then insert i (pids_of st t) else pids_of st t)" for t
    by (simp add: pids_of_def)
  have "proc_rel s' (st(?a := (i, esp, ebp) # st ?a))"
    unfolding proc_rel_def
  proof (intro conjI allI impI)
    fix t assume t: "t < (3::nat)"
    show "frames_ok s' t ((st(?a := (i, esp, ebp) # st ?a)) t)"
      using old[OF t] new by (cases "t = ?a") simp_all
    show "term_ok (terminal s' t) t ((st(?a := (i, esp, ebp) # st ?a)) t)" by (rule terms[OF t])
  next
    fix t u assume tu: "t < (3::nat)" "u < (3::nat)" "t \<noteq> u"
    have "pids_of st t \<inter> pids_of st u = {}" using rel tu by (simp add: proc_rel_def)
    then show "pids_of (st(?a := (i, esp, ebp) # st ?a)) t \<inter>
        pids_of (st(?a := (i, esp, ebp) # st ?a)) u = {}"
      using fresh tu by (auto simp: pids)
  next
    fix j :: nat assume j: "3 \<le> j \<and> j < 6"
    then have "pid_array s j \<noteq> 0 \<longleftrightarrow> (\<exists>t<3. j \<in> pids_of st t)" using rel by (simp add: proc_rel_def)
    moreover have "k \<in> pids_of (st(?a := (i, esp, ebp) # st ?a)) t \<longleftrightarrow> t = ?a \<and> k = i \<or> k \<in> pids_of st t"
      for k t by (simp add: pids)
    ultimately show "pid_array s' j \<noteq> 0 \<longleftrightarrow> (\<exists>t<3. j \<in> pids_of (st(?a := (i, esp, ebp) # st ?a)) t)"
      using a by (simp only: pa fun_upd_apply) auto
  qed
  then show ?thesis using i en by (auto simp: entered_def)
qed

definition closed_pcb :: "pcb_t \<Rightarrow> pcb_t" where
  "closed_pcb p = p\<lparr>pcb_active := NOT_ENGAGED, terminal_on := -1,
     file_desc_array := (\<lambda>i. if i < 8 then (file_desc_array p i)\<lparr>flags := NOT_ENGAGED\<rparr>
                             else file_desc_array p i)\<rparr>"

lemma closed_pcb_simps [simp]:
  "parent_process_id (closed_pcb q) = parent_process_id q" "process_id (closed_pcb q) = process_id q"
  "task_esp (closed_pcb q) = task_esp q" "task_ebp (closed_pcb q) = task_ebp q"
  by (simp_all add: closed_pcb_def)

lemma halt_process_eq:
  assumes "process_id (pcbs s (pcb_of (curr_pid s))) = of_nat p" "p < 6"
  defines "P \<equiv> pcb_of (curr_pid s)" and "par \<equiv> parentpid (active_term s)"
  shows "\<exists>s'. halt_process status s = Done (Resume (ucast status) (task_esp (pcbs s P)) (task_ebp (pcbs s P)), s')
    \<and> pcbs s' = (pcbs s)(P := closed_pcb (pcbs s P)) \<and> pid_array s' = (pid_array s)(p := 0)
    \<and> page_directory s' = (page_directory s)(32 := user_pde (word_of_int par))
    \<and> tss_esp0 s' = get_kernel_stack_addr (word_of_int par) \<and> curr_pid s' = par
    \<and> active_terminal s' = active_terminal s \<and> displayed_terminal s' = displayed_terminal s
    \<and> (\<forall>t. pid (terminal s' t) = (if t = active_terminal s then par else pid (terminal s t)) \<and>
        parentpid (terminal s' t) = (if t = active_terminal s
          then sint (parent_process_id (pcbs s (pcb_of par))) else parentpid (terminal s t)) \<and>
        init_flag (terminal s' t) = init_flag (terminal s t))"
proof -
  define s0 where "s0 = (if displayed_terminal s = active_terminal s then clear_temp_buff s else s)"
  have s0: "same_procs s s0" by (simp add: s0_def clear_temp_buff_procs)
  have c0: "curr_pid s0 = curr_pid s"
  proof -
    have "curr_pid (fold (\<lambda>j. upd_term d (\<lambda>t. t\<lparr>tempbuf := (tempbuf t)[j := 0]\<rparr>)) js s) = curr_pid s"
      for d js s by (induction js arbitrary: s) (simp_all add: upd_term_def)
    then show ?thesis by (simp add: s0_def clear_temp_buff_def)
  qed
  have same: "pcbs s0 = pcbs s" "pid_array s0 = pid_array s" "active_terminal s0 = active_terminal s"
    "page_directory s0 = page_directory s" "displayed_terminal s0 = displayed_terminal s"
    "pid (terminal s0 t) = pid (terminal s t)" "parentpid (terminal s0 t) = parentpid (terminal s t)"
    "init_flag (terminal s0 t) = init_flag (terminal s t)" for t
    using s0 by (simp_all add: same_procs_def)
  have cl: "upd_pcb P closed_pcb s0 = upd_pcb P (\<lambda>p. p\<lparr>pcb_active := NOT_ENGAGED, terminal_on := -1,
                file_desc_array := (\<lambda>i. if i < 8 then (file_desc_array p i)\<lparr>flags := NOT_ENGAGED\<rparr>
                                        else file_desc_array p i)\<rparr>) s0"
    by (simp add: upd_pcb_def closed_pcb_def)
  have p: "unat (of_nat p :: u32) = p" "\<not> (of_nat p :: u32) \<ge> 6"
    using assms(2) by (simp_all add: unat_of_nat word_le_nat_alt)
  show ?thesis
    unfolding halt_process_def Let_def s0_def[symmetric] c0 pcb_of_def[symmetric] P_def[symmetric]
      cl[symmetric]
    using p assms(1)
    by (auto simp: upd_pcb_def upd_term_def release_pid_def set_tss_def virt_to_phys_user_eq user_pde_def
        same P_def[symmetric] par_def pcb_of_def[symmetric])
qed

lemma sint_of_parent:
  assumes "-1 \<le> v" "v < 6"
  shows "sint (word_of_int v :: u32) = v"
proof -
  have "v = -1 \<or> v = 0 \<or> v = 1 \<or> v = 2 \<or> v = 3 \<or> v = 4 \<or> v = 5" using assms by linarith
  then show ?thesis by auto
qed

lemma parent_pid_bounds: "frames_ok s t fr \<Longrightarrow> -1 \<le> parent_pid fr \<and> parent_pid fr < 6"
  by (cases fr) (auto simp: frame_ok_def Let_def split: if_splits prod.splits)

text \<open>Halting pops the top frame, and the parent goes on where its \<open>execute\<close> was called.\<close>

theorem halt_pops:
  assumes rel: "proc_rel s st" and a: "active_terminal s < 3"
    and top: "st (active_terminal s) = (p, esp, ebp) # (p', r) # below"
  shows "\<exists>s'. halt_call status esp' ebp' s = Done (Resume (ucast status) esp ebp, s')
    \<and> proc_rel s' (st(active_terminal s := (p', r) # below))
    \<and> curr_pid s' = int p' \<and> page_directory s' 32 = user_pde (of_nat p')
    \<and> tss_esp0 s' = get_kernel_stack_addr (of_nat p') \<and> active_terminal s' = active_terminal s"
proof -
  let ?a = "active_terminal s" and ?st' = "st(active_terminal s := (p', r) # below)"
  have fr: "frames_ok s ?a (st ?a)" and tm: "term_ok (active_term s) ?a (st ?a)"
    using proc_relD[OF rel a] by simp_all
  have top_ok: "process_id (pcbs s (pcb_of (int p))) = of_nat p" "task_esp (pcbs s (pcb_of (int p))) = esp"
    "task_ebp (pcbs s (pcb_of (int p))) = ebp" "3 \<le> p" "p < 6" "p \<notin> fst ` set ((p', r) # below)"
    and rest: "frames_ok s ?a ((p', r) # below)"
    using fr top by (simp_all add: frame_ok_def Let_def)
  have par: "parent_process_id (pcbs s (pcb_of (int p'))) = word_of_int (parent_pid below)" "p' < 6"
    and below: "frames_ok s ?a below"
    using rest by (auto simp: frame_ok_def Let_def split: prod.splits if_splits)
  have t: "pid (active_term s) = int p" "parentpid (active_term s) = int p'" "init_flag (active_term s) = 1"
    using tm top by (simp_all add: term_ok_def)
  define s1 where "s1 = upd_term ?a (\<lambda>t. t\<lparr>rtc_counter := DEFAULT_COUNTER, rtc_target := DEFAULT_TARGET\<rparr>)
    (s\<lparr>curr_pid := pid (active_term s)\<rparr>)"
  have s1: "same_procs s s1" "curr_pid s1 = int p"
    using t by (simp_all add: s1_def same_procs_def upd_term_def)
  have call: "halt_call status esp' ebp' s = halt_process status s1"
    using top_ok(4) t(1) by (simp add: halt_call_def Let_def s1_def upd_term_def)
  have e: "pcbs s1 = pcbs s" "active_terminal s1 = ?a" "pid_array s1 = pid_array s"
    "pid (terminal s1 u) = pid (terminal s u)" "parentpid (terminal s1 u) = parentpid (terminal s u)"
    "init_flag (terminal s1 u) = init_flag (terminal s u)" for u
    using s1(1) by (simp_all add: same_procs_def)
  have "process_id (pcbs s1 (pcb_of (curr_pid s1))) = of_nat p" using top_ok(1) by (simp add: e s1(2))
  from halt_process_eq[OF this top_ok(5), of status]
  obtain s' where h: "halt_process status s1 = Done (Resume (ucast status) esp ebp, s')"
    and pc: "pcbs s' = (pcbs s)(pcb_of (int p) := closed_pcb (pcbs s (pcb_of (int p))))"
    and pa: "pid_array s' = (pid_array s)(p := 0)"
    and out: "page_directory s' 32 = user_pde (of_nat p')" "tss_esp0 s' = get_kernel_stack_addr (of_nat p')"
      "curr_pid s' = int p'" "active_terminal s' = ?a"
    and tv: "\<And>u. pid (terminal s' u) = (if u = ?a then int p' else pid (terminal s u)) \<and>
        parentpid (terminal s' u) = (if u = ?a then sint (parent_process_id (pcbs s (pcb_of (int p'))))
          else parentpid (terminal s u)) \<and> init_flag (terminal s' u) = init_flag (terminal s u)"
    using top_ok(2,3) by (auto simp: e s1(2) t(2))
  have keep: "frames_ok s' u (?st' u)" if "u < 3" for u
  proof (cases "u = ?a")
    case True
    then show ?thesis
      using frames_ok_upd[OF rest top_ok(5,6), of s'] pc by simp
  next
    case False
    have "pids_of st ?a \<inter> pids_of st u = {}" using rel that a False by (simp add: proc_rel_def)
    moreover have "p \<in> pids_of st ?a" using top by (simp add: pids_of_def)
    ultimately have "p \<notin> fst ` set (st u)" by (auto simp: pids_of_def)
    from frames_ok_upd[OF proc_relD(1)[OF rel that] top_ok(5) this, of s'] False pc
    show ?thesis by simp
  qed
  have terms: "term_ok (terminal s' u) u (?st' u)" if "u < 3" for u
  proof (cases "u = ?a")
    case True
    have "sint (word_of_int (parent_pid below) :: u32) = parent_pid below"
      using parent_pid_bounds[OF below] by (intro sint_of_parent) simp_all
    then show ?thesis using True tv[of u] t par by (simp add: term_ok_def)
  next
    case False
    then show ?thesis using proc_relD(2)[OF rel that] tv[of u] by (simp add: term_ok_def split: list.splits)
  qed
  have pids: "k \<in> pids_of ?st' u \<longleftrightarrow> k \<in> pids_of st u \<and> \<not> (u = ?a \<and> k = p)" for k u
    using top top_ok(6) by (auto simp: pids_of_def)
  have mem: "p \<in> pids_of st ?a" using top by (simp add: pids_of_def)
  have "proc_rel s' ?st'"
    unfolding proc_rel_def
  proof (intro conjI allI impI)
    fix u v assume "u < (3::nat)" "v < (3::nat)" "u \<noteq> v"
    then have "pids_of st u \<inter> pids_of st v = {}" using rel by (simp add: proc_rel_def)
    then show "pids_of ?st' u \<inter> pids_of ?st' v = {}" using pids by blast
  next
    fix j :: nat assume "3 \<le> j \<and> j < 6"
    then have "pid_array s j \<noteq> 0 \<longleftrightarrow> (\<exists>t<3. j \<in> pids_of st t)" using rel by (simp add: proc_rel_def)
    moreover have "j = p \<Longrightarrow> u < 3 \<Longrightarrow> j \<in> pids_of st u \<Longrightarrow> u = ?a" for u
      using rel a mem by (auto simp: proc_rel_def)
    ultimately show "pid_array s' j \<noteq> 0 \<longleftrightarrow> (\<exists>t<3. j \<in> pids_of ?st' t)"
      unfolding pids by (simp only: pa fun_upd_apply) auto
  qed (rule keep terms; assumption)+
  then show ?thesis using h call out by auto
qed

text \<open>Halting right after the program has run: the process structures are those before \<open>execute\<close>.\<close>

corollary execute_halt_resumes:
  assumes "proc_rel s st" "active_terminal s < 3" "st (active_terminal s) = (p, r) # below"
    and "execute_call command esp ebp s = Done (Enter_user e u, s1)" "same_procs s1 s2"
  shows "\<exists>s3. halt_call status esp' ebp' s2 = Done (Resume (ucast status) esp ebp, s3) \<and> proc_rel s3 st"
proof -
  have up: "st (active_terminal s) \<noteq> []" using assms(3) by simp
  obtain i where rel1: "proc_rel s1 (st(active_terminal s := (i, esp, ebp) # st (active_terminal s)))"
    using execute_pushes[OF assms(1,2) up assms(4)] by blast
  have act: "active_terminal s1 = active_terminal s"
  proof -
    have "init_flag (active_term s) = 1"
      using proc_relD(2)[OF assms(1,2)] assms(3) by (simp add: term_ok_def)
    then show ?thesis using execute_call_enters[OF assms(4)] by (auto simp: runs_shell_def entered_def)
  qed
  have rel2: "proc_rel s2 (st(active_terminal s := (i, esp, ebp) # st (active_terminal s)))"
    by (rule proc_rel_same[OF assms(5) rel1])
  have act2: "active_terminal s2 = active_terminal s" using assms(5) act by (simp add: same_procs_def)
  have "(st(active_terminal s := (i, esp, ebp) # st (active_terminal s))) (active_terminal s2) =
      (i, esp, ebp) # (p, r) # below" using assms(3) act2 by simp
  moreover have "(st(active_terminal s := (i, esp, ebp) # st (active_terminal s)))
      (active_terminal s2 := (p, r) # below) = st" using assms(3) act2 by auto
  moreover have "active_terminal s2 < 3" using act2 assms(2) by simp
  ultimately show ?thesis
    using halt_pops[OF rel2, of i esp ebp p r below status esp' ebp'] by (simp only:) blast
qed

end
