(* ===== verification/Terminal_Switch.thy ===== *)
theory Terminal_Switch
  imports Process
begin

text \<open>
  \<open>init_terminals\<close> and \<open>open_terminal\<close> of student-distrib/terminal.c: what starts the first shell,
  and what the function keys do.  Both call \<open>execute_call\<close>, so their results are those of the
  theory Process; the \<open>void\<close> routine returns 0.
\<close>

definition init_terminals :: "u32 \<Rightarrow> u32 \<Rightarrow> kernel \<Rightarrow> (control \<times> kernel) outcome" where
  "init_terminals esp ebp s =
     (let s = init_terminal_structs s;
          s = remap_video_mem_user 0 s
      in andthen (execute_call shell_command esp ebp s)
           (\<lambda>(c, s). case c of Return r \<Rightarrow> Done (Return 0, s) | _ \<Rightarrow> Done (c, s)))"

text \<open>A negative id passes the check and indexes the array of terminals.\<close>

definition open_terminal :: "int \<Rightarrow> u32 \<Rightarrow> u32 \<Rightarrow> kernel \<Rightarrow> (control \<times> kernel) outcome" where
  "open_terminal tid esp ebp s =
     (let s = cli s in
      if tid > 2 then Done (Return (-1), s)
      else if tid = int (displayed_terminal s) then Done (Return 0, s)
      else if tid < 0 then Fault OutOfBounds
      else (let s = switch_screens (nat tid) s;
                s = remap_video_mem_user (displayed_terminal s) s
            in if init_flag (displayed_term s) = 0
               then andthen (execute_call shell_command esp ebp (sti s))
                      (\<lambda>(c, s). case c of Return r \<Rightarrow> Done (Return 0, s) | _ \<Rightarrow> Done (c, s))
               else Done (Return 0, sti (update_screen_xy (cur_x (displayed_term s))
                                      (cur_y (displayed_term s)) s))))"

section \<open>What they leave\<close>

lemma init_terminal_structs_eq:
  "init_terminal_structs s =
     s\<lparr>terminal := (\<lambda>t. if t < 3 then init_terminal t (terminal s t) else terminal s t)\<rparr>"
  by (auto simp: init_terminal_structs_def upd_term_def fun_eq_iff eval_nat_numeral less_Suc_eq
      intro!: kernel.equality)

lemma init_terminals_ready:
  "displayed_terminal s < 3 \<Longrightarrow> video_linked (init_terminal_structs s)"
  "displayed_terminal s < 3 \<Longrightarrow> t < 3 \<Longrightarrow> shift_up_one_flag (terminal (init_terminal_structs s) t) = 0"
  "t < 3 \<Longrightarrow> cursor_ok t (init_terminal_structs s) \<and> console_ok t (init_terminal_structs s)"
  by (auto simp: init_terminal_structs_eq init_terminal_def video_linked_def cursor_ok_def
      console_ok_def add_mult_distrib)

lemma remap_video_frame [frame]:
  "terminal (remap_video_mem_user tid s) = terminal s"
  "displayed_terminal (remap_video_mem_user tid s) = displayed_terminal s"
  "active_terminal (remap_video_mem_user tid s) = active_terminal s"
  "phys (remap_video_mem_user tid s) = phys s" "pcbs (remap_video_mem_user tid s) = pcbs s"
  "pid_array (remap_video_mem_user tid s) = pid_array s"
  "page_directory (remap_video_mem_user tid s) 32 = page_directory s 32"
  "tss_esp0 (remap_video_mem_user tid s) = tss_esp0 s"
  by (simp_all add: remap_video_mem_user_eq)

lemma switch_screens_frame [frame]:
  "active_terminal (switch_screens tid s) = active_terminal s"
  "pcbs (switch_screens tid s) = pcbs s" "pid_array (switch_screens tid s) = pid_array s"
  "page_directory (switch_screens tid s) = page_directory s"
  "tss_esp0 (switch_screens tid s) = tss_esp0 s"
  by (simp_all add: switch_screens_def save_def restore_def Let_def upd_term_def)

lemma update_screen_frame [frame]:
  "sti (update_screen_xy x y s) = s\<lparr>if_flag := True, outs := outs (update_screen_xy x y s),
     terminal := terminal (update_screen_xy x y s)\<rparr>"
  by (simp add: update_screen_xy_def update_cursor_def sti_def outb_def upd_term_def Let_def)

lemma update_screen_same:
  "terminal (update_screen_xy (cur_x (displayed_term s)) (cur_y (displayed_term s)) s) = terminal s"
  by (simp add: update_screen_xy_def update_cursor_def outb_def upd_term_def Let_def fun_eq_iff)

text \<open>
  Showing another terminal that has a shell: every screen is kept, only the window moves, and the
  user's video page is redirected.
\<close>

lemma open_terminal_switches:
  assumes "video_linked s" "tid < 3" "tid \<noteq> displayed_terminal s" "init_flag (terminal s tid) \<noteq> 0"
  shows "\<exists>s'. open_terminal (int tid) esp ebp s = Done (Return 0, s') \<and>
    displayed_terminal s' = tid \<and> video_linked s' \<and> terminal s' = terminal s \<and> if_flag s' \<and>
    active_terminal s' = active_terminal s \<and> pcbs s' = pcbs s \<and> pid_array s' = pid_array s \<and>
    page_directory s' 32 = page_directory s 32 \<and> tss_esp0 s' = tss_esp0 s \<and>
    page_table_video s' 0 = video_pte 0 \<and>
    (\<forall>u<3. screen_of u s' = screen_of u s)"
proof -
  define c where "c = cli s"
  have c: "video_linked c" "screen_of u c = screen_of u s" "terminal c = terminal s"
    "displayed_terminal c = displayed_terminal s" "active_terminal c = active_terminal s" "pcbs c = pcbs s"
    "pid_array c = pid_array s" "page_directory c = page_directory s" "tss_esp0 c = tss_esp0 s" for u
    using assms(1) by (simp_all add: c_def cli_def video_linked_def screen_of_def vid_base_def)
  define s1 where "s1 = remap_video_mem_user tid (switch_screens tid c)"
  have sw: "displayed_terminal (switch_screens tid c) = tid" "terminal (switch_screens tid c) = terminal s"
    using switch_screens_state[OF c(1) assms(2)] c by simp_all
  have s1: "displayed_terminal s1 = tid" "terminal s1 = terminal s"
    using sw by (simp_all add: s1_def frame)
  let ?s' = "sti (update_screen_xy (cur_x (displayed_term s1)) (cur_y (displayed_term s1)) s1)"
  have eq: "open_terminal (int tid) esp ebp s = Done (Return 0, ?s')"
    using assms(2-4) sw s1 by (simp add: open_terminal_def Let_def c_def[symmetric] c s1_def[symmetric])
  have "?s' = s1\<lparr>if_flag := True, outs := outs ?s'\<rparr>"
    by (subst update_screen_frame) (simp add: update_screen_same sti_def)
  then obtain log where s': "?s' = s1\<lparr>if_flag := True, outs := log\<rparr>" by blast
  have scr: "screen_of u ?s' = screen_of u s" if "u < 3" for u
  proof -
    have "screen_of u ?s' = screen_of u s1"
      by (simp add: s' screen_of_def vid_base_def)
    also have "\<dots> = screen_of u (switch_screens tid c)"
      by (simp add: s1_def screen_of_def vid_base_def frame)
    also have "\<dots> = screen_of u s"
      using switch_screens_keeps(1)[OF c(1) assms(2) that] assms(3) c by simp
    finally show ?thesis .
  qed
  have pt: "page_table_video s1 0 = video_pte 0"
    by (simp add: s1_def remap_video_mem_user_eq sw video_pte_def)
  have rest: "displayed_terminal ?s' = tid \<and> video_linked ?s' \<and> terminal ?s' = terminal s \<and> if_flag ?s' \<and>
      active_terminal ?s' = active_terminal s \<and> pcbs ?s' = pcbs s \<and> pid_array ?s' = pid_array s \<and>
      page_directory ?s' 32 = page_directory s 32 \<and> tss_esp0 ?s' = tss_esp0 s \<and>
      page_table_video ?s' 0 = video_pte 0"
  proof -
    have "video_linked s1" using assms(1,2) s1 by (simp add: video_linked_def)
    then show ?thesis
      unfolding s' using s1 pt by (simp add: frame c video_linked_def) (simp add: s1_def frame c)
  qed
  show ?thesis using eq scr rest by blast
qed

end
