(* ===== verification/Keyboard.thy ===== *)
theory Keyboard
  imports Terminal_Switch
begin

text \<open>
  The keyboard driver, student-distrib/keyboard.c: the scan code table, the modifier keys, and the
  interrupt handler \<open>print_keycode\<close> that edits the line of the displayed terminal.  The bytes read
  from the two ports are arguments.

  A key release of a modifier goes on to look its code, 0x9D and more, up in the table of 62 rows;
  what lies behind the table is the argument \<open>beyond\<close>.

  The abstract line discipline is \<open>edit\<close>; \<open>line_rel\<close> relates the terminal structure to the line.
\<close>

abbreviation (input) "keyboard_irq \<equiv> (1::u32)"
abbreviation (input) "READMASK \<equiv> (1::u8)"
abbreviation (input) "BKSP \<equiv> (8::u8)"
abbreviation (input) "ENT \<equiv> (0x0A::u8)"
abbreviation (input) "TOTAL_SCANCODES \<equiv> (62::u8)"
abbreviation (input) "CAPSLOCK \<equiv> (0x3A::u8)"
abbreviation (input) "leftSHIFT \<equiv> (0x2A::u8)"
abbreviation (input) "rightSHIFT \<equiv> (0x36::u8)"
abbreviation (input) "leftCRTL \<equiv> (0x1D::u8)"
abbreviation (input) "ALT \<equiv> (0x38::u8)"
abbreviation (input) "L \<equiv> (0x26::u8)"
abbreviation (input) "released \<equiv> (0x80::u8)"
abbreviation (input) "F1 \<equiv> (0x3B::u8)"
abbreviation (input) "F2 \<equiv> (0x3C::u8)"
abbreviation (input) "F3 \<equiv> (0x3D::u8)"

section \<open>Operations\<close>

definition keyboard_init :: "kernel \<Rightarrow> kernel" where
  "keyboard_init s =
     (enable_irq keyboard_irq s)\<lparr>caps := 0, shift_key := 0, control_key := 0, str_len := 0,
        alt_key := 0\<rparr>"

text \<open>
  The rows of the table, as four strings of 62 characters: nothing held, shift, caps lock, both.
  NUL (code 0) is a key without a character; 8 is backspace, 10 enter, 39, 34, 96 and 92 are the
  quotes, the back quote and the backslash.
\<close>

definition row :: "nat list \<Rightarrow> nat list \<Rightarrow> nat list \<Rightarrow> nat list \<Rightarrow> u8 list" where
  "row numbers upper home lower =
     map of_nat ([0, 0] @ numbers @ [8, 32] @ upper @ [10, 0] @ home @ [0] @ lower
       @ [0, 0, 0, 32, 0, 0, 0, 0])"

definition codes :: "string \<Rightarrow> nat list" where
  "codes s = map of_char s"

definition plain_row :: "u8 list" where
  "plain_row = row (codes ''1234567890-='') (codes ''qwertyuiop[]'')
     (codes ''asdfghjkl;'' @ [39, 96]) (92 # codes ''zxcvbnm,./'')"

definition shift_row :: "u8 list" where
  "shift_row = row (codes ''!@#$%^&*()_+'') (codes ''QWERTYUIOP{}'')
     (codes ''ASDFGHJKL:'' @ [34, 126]) (124 # codes ''ZXCVBNM<>?'')"

definition caps_row :: "u8 list" where
  "caps_row = row (codes ''1234567890-='') (codes ''QWERTYUIOP[]'')
     (codes ''ASDFGHJKL;'' @ [39, 96]) (92 # codes ''ZXCVBNM,./'')"

definition caps_shift_row :: "u8 list" where
  "caps_shift_row = row (codes ''!@#$%^&*()_+'') (codes ''qwertyuiop{}'')
     (codes ''asdfghjkl:'' @ [34, 126]) (124 # codes ''zxcvbnm<>?'')"

definition keyboard_char :: "(nat \<Rightarrow> u8) \<Rightarrow> u8 \<Rightarrow> nat \<Rightarrow> u8" where
  "keyboard_char beyond command index =
     (if command < TOTAL_SCANCODES
      then [plain_row, shift_row, caps_row, caps_shift_row] ! index ! unat command
      else beyond (4 * unat command + index - 248))"

definition key_index :: "kernel \<Rightarrow> nat" where
  "key_index s =
     (if shift_key s = 0 \<and> caps s = 0 then 0
      else if shift_key s \<noteq> 0 \<and> caps s = 0 then 1
      else if shift_key s = 0 \<and> caps s \<noteq> 0 then 2
      else 3)"

text \<open>The first chain of tests; \<open>None\<close> is the code that is ignored.\<close>

definition modifiers :: "u8 \<Rightarrow> kernel \<Rightarrow> kernel option" where
  "modifiers command s =
     (if command = leftSHIFT + released \<or> command = rightSHIFT + released
      then Some (s\<lparr>shift_key := 0\<rparr>)
      else if command = ALT + released then Some (s\<lparr>alt_key := 0\<rparr>)
      else if command = leftCRTL + released then Some (s\<lparr>control_key := 0\<rparr>)
      else if command = leftCRTL then Some (s\<lparr>control_key := 1\<rparr>)
      else if command \<ge> TOTAL_SCANCODES \<or> command < 1 then None
      else if command = CAPSLOCK then Some (s\<lparr>caps := caps s XOR 1\<rparr>)
      else if command = leftSHIFT \<or> command = rightSHIFT then Some (s\<lparr>shift_key := 1\<rparr>)
      else if command = ALT then Some (s\<lparr>alt_key := 1\<rparr>)
      else Some s)"

definition set_temp :: "nat \<Rightarrow> u8 \<Rightarrow> kernel \<Rightarrow> kernel outcome" where
  "set_temp j c s =
     (if j < length (tempbuf (displayed_term s))
      then Done (upd_term (displayed_terminal s) (\<lambda>t. t\<lparr>tempbuf := (tempbuf t)[j := c]\<rparr>) s)
      else Fault OutOfBounds)"

definition eoi_sti :: "kernel \<Rightarrow> kernel" where
  "eoi_sti s = sti (send_eoi keyboard_irq s)"

definition type_key :: "u8 \<Rightarrow> kernel \<Rightarrow> kernel outcome" where
  "type_key cmd s =
     (let d = displayed_terminal s in
      if cmd \<noteq> 0 \<and> cmd \<noteq> ENT \<and> str_len s < MAX_BUF_SIZE - 1 \<and> cmd \<noteq> BKSP
      then andthen (set_temp (str_len s) cmd s) (\<lambda>s.
             let s = s\<lparr>str_len := str_len s + 1\<rparr>;
                 s = upd_term d (\<lambda>t. t\<lparr>line_length := str_len s\<rparr>) s;
                 s = terminal_putc cmd d s
             in Done (eoi_sti s))
      else if cmd = ENT
      then andthen (set_temp (str_len s) ENT s) (\<lambda>s.
             let s = s\<lparr>str_len := str_len s + 1\<rparr>;
                 s = upd_term d (\<lambda>t. t\<lparr>line_length := 0, read_length := str_len s, enter_flag := 1\<rparr>) s;
                 s = terminal_putc cmd d s
             in Done (eoi_sti s))
      else if cmd = BKSP
      then (if str_len s > 0
            then (let s = s\<lparr>str_len := str_len s - 1\<rparr>
                  in andthen (set_temp (str_len s) 0 s) (\<lambda>s.
                       let s = upd_term d (\<lambda>t. t\<lparr>line_length := str_len s\<rparr>) s;
                           s = terminal_putc cmd d s
                       in Done (eoi_sti s)))
            else Done (eoi_sti s))
      else Done (eoi_sti s))"

definition shortcut :: "u8 \<Rightarrow> u32 \<Rightarrow> u32 \<Rightarrow> kernel \<Rightarrow> (control \<times> kernel) outcome" where
  "shortcut command esp ebp s =
     andthen (open_terminal (int (unat (command - F1))) esp ebp (send_eoi keyboard_irq s))
       (\<lambda>(c, s). case c of Return r \<Rightarrow> Done (Return 0, sti s) | _ \<Rightarrow> Done (c, s))"

definition print_keycode ::
    "u8 \<Rightarrow> u8 \<Rightarrow> (nat \<Rightarrow> u8) \<Rightarrow> u32 \<Rightarrow> u32 \<Rightarrow> kernel \<Rightarrow> (control \<times> kernel) outcome" where
  "print_keycode status command beyond esp ebp s =
     (let s = cli s;
          s = s\<lparr>str_len := line_length (displayed_term s)\<rparr>
      in if status AND READMASK = 0 then Done (Return 0, s)
         else (case modifiers command s of None \<Rightarrow> Done (Return 0, eoi_sti s)
          | Some s \<Rightarrow>
              if control_key s \<noteq> 0 \<and> command = L then Done (Return 0, eoi_sti (clear s))
              else if alt_key s \<noteq> 0 \<and> (command = F1 \<or> command = F2 \<or> command = F3)
              then shortcut command esp ebp s
              else andthen (type_key (keyboard_char beyond command (key_index s)) s)
                     (\<lambda>s. Done (Return 0, s))))"

section \<open>The table\<close>

lemma rows_62: "length plain_row = 62" "length shift_row = 62" "length caps_row = 62"
    "length caps_shift_row = 62"
  by (simp_all add: plain_row_def shift_row_def caps_row_def caps_shift_row_def row_def codes_def)

lemmas table_defs = plain_row_def shift_row_def caps_row_def caps_shift_row_def row_def codes_def

definition letter :: "u8 \<Rightarrow> bool" where
  "letter c \<longleftrightarrow> c \<in> set (chars ''qwertyuiopasdfghjklzxcvbnm'')"

text \<open>Caps lock swaps the case of letters and leaves the other keys; shift swaps every pair.\<close>

lemma caps_rows_zip:
  "list_all (\<lambda>(p, s, c, cs). c = (if letter p then s else p) \<and> cs = (if letter p then p else s) \<and>
     (letter p \<longrightarrow> s = p XOR 32)) (zip plain_row (zip shift_row (zip caps_row caps_shift_row)))"
  by (simp add: table_defs letter_def chars_def)

lemma caps_rows:
  assumes "k < 62"
  shows "caps_row ! k = (if letter (plain_row ! k) then shift_row ! k else plain_row ! k)"
    and "caps_shift_row ! k = (if letter (plain_row ! k) then plain_row ! k else shift_row ! k)"
    and "letter (plain_row ! k) \<Longrightarrow> shift_row ! k = plain_row ! k XOR 32"
  using caps_rows_zip assms by (auto simp: list_all_length rows_62 dest!: spec[of _ k])

section \<open>The line discipline\<close>

definition edit :: "u8 \<Rightarrow> u8 list \<Rightarrow> u8 list" where
  "edit c l =
     (if c = ENT then [] else if c = BKSP then butlast l
      else if c \<noteq> 0 \<and> length l < 127 then l @ [c] else l)"

definition echoes :: "u8 \<Rightarrow> u8 list \<Rightarrow> bool" where
  "echoes c l \<longleftrightarrow> c = ENT \<or> (if c = BKSP then l \<noteq> [] else c \<noteq> 0 \<and> length l < 127)"

definition line_rel :: "kernel \<Rightarrow> u8 list \<Rightarrow> bool" where
  "line_rel s l \<longleftrightarrow>
     (let t = displayed_term s in
      line_length t = length l \<and> length l \<le> 127 \<and> take (length l) (tempbuf t) = l \<and>
      length (tempbuf t) = 128)"

lemma edit_bound: "length l \<le> 127 \<Longrightarrow> length (edit c l) \<le> 127"
  by (auto simp: edit_def)

text \<open>The state before the echo.\<close>

definition typed :: "u8 \<Rightarrow> u8 list \<Rightarrow> terminal_t \<Rightarrow> terminal_t" where
  "typed c l t =
     (if c = ENT
      then t\<lparr>tempbuf := (tempbuf t)[length l := ENT], line_length := 0,
             read_length := length l + 1, enter_flag := 1\<rparr>
      else if c = BKSP
      then t\<lparr>tempbuf := (tempbuf t)[length l - 1 := 0], line_length := length l - 1\<rparr>
      else t\<lparr>tempbuf := (tempbuf t)[length l := c], line_length := length l + 1\<rparr>)"

lemma type_key_eq:
  assumes "line_rel s l" "str_len s = length l"
  defines "d \<equiv> displayed_terminal s"
  shows "type_key c s = Done (eoi_sti (if echoes c l
    then terminal_putc c d (upd_term d (typed c l) (s\<lparr>str_len := (if c = BKSP then length l - 1 else length l + 1)\<rparr>))
    else s))"
  using assms
  by (auto simp: type_key_def Let_def line_rel_def set_temp_def echoes_def typed_def d_def upd_term_def
      split: if_splits)

lemma typed_line:
  fixes n :: nat
  assumes "line_rel s l" "echoes c l"
  defines "s1 \<equiv> upd_term (displayed_terminal s) (typed c l) (s\<lparr>str_len := n\<rparr>)"
  shows "line_rel s1 (edit c l)"
    and "c = ENT \<Longrightarrow> take (length l + 1) (tempbuf (displayed_term s1)) = l @ [ENT]"
proof -
  let ?b = "tempbuf (displayed_term s)"
  have l: "length l \<le> 127" "take (length l) ?b = l" "length ?b = 128"
    using assms(1) by (simp_all add: line_rel_def Let_def)
  have snoc: "take (length l + 1) (?b[length l := c]) = l @ [c]" for c
    using l by (simp add: take_Suc_conv_app_nth)
  have "take (length l - 1) ?b = butlast l"
    using l(2) by (metis butlast_conv_take min.absorb1 diff_le_self take_take)
  then have but: "take (length l - 1) (?b[length l - 1 := 0]) = butlast l" by simp
  show "line_rel s1 (edit c l)"
    using assms(2) l but snoc
    by (auto simp: line_rel_def s1_def upd_term_def typed_def edit_def echoes_def Let_def split: if_splits)
  show "c = ENT \<Longrightarrow> take (length l + 1) (tempbuf (displayed_term s1)) = l @ [ENT]"
    using snoc by (simp add: s1_def upd_term_def typed_def)
qed

text \<open>What the handler keeps, beside the line.\<close>

definition same_keys :: "kernel \<Rightarrow> kernel \<Rightarrow> bool" where
  "same_keys s s' \<longleftrightarrow>
     caps s' = caps s \<and> shift_key s' = shift_key s \<and> control_key s' = control_key s \<and>
     alt_key s' = alt_key s \<and> displayed_terminal s' = displayed_terminal s \<and>
     active_terminal s' = active_terminal s \<and> page_directory s' = page_directory s"

lemma same_keys_trans: "same_keys s s1 \<Longrightarrow> same_keys s1 s2 \<Longrightarrow> same_keys s s2"
  by (simp add: same_keys_def)

lemma putc_keys [frame]: "same_keys s (terminal_putc c tid s)"
proof -
  have "f (no_console tid s) = f s \<Longrightarrow> f (no_console tid (terminal_putc c tid s)) = f (terminal_putc c tid s)
      \<Longrightarrow> f (terminal_putc c tid s) = f s" for f :: "kernel \<Rightarrow> 'a"
    by (simp add: terminal_putc_frame)
  from this[of caps] this[of shift_key] this[of control_key] this[of alt_key]
    this[of displayed_terminal] this[of active_terminal] this[of page_directory]
  show ?thesis by (simp add: same_keys_def no_console_def)
qed

definition line_entered :: "u8 \<Rightarrow> u8 list \<Rightarrow> kernel \<Rightarrow> kernel \<Rightarrow> bool" where
  "line_entered c l s s' \<longleftrightarrow>
     (let t = displayed_term s' in
      if c = ENT then enter_flag t = 1 \<and> read_length t = length l + 1 \<and>
        take (length l + 1) (tempbuf t) = l @ [ENT]
      else enter_flag t = enter_flag (displayed_term s) \<and> read_length t = read_length (displayed_term s))"

lemma eoi_sti_eq: "eoi_sti s = s\<lparr>if_flag := True, outs := outs s @ [(0x20, 0x61)]\<rparr>"
  by (simp add: eoi_sti_def send_eoi_def sti_def outb_def word_le_nat_alt)

lemma eoi_sti_frame [frame]:
  "same_keys s (eoi_sti s)" "displayed_term (eoi_sti s) = displayed_term s" "if_flag (eoi_sti s)"
  "line_rel (eoi_sti s) l = line_rel s l" "line_entered c l s0 (eoi_sti s) = line_entered c l s0 s"
  "screen_of tid (eoi_sti s) = screen_of tid s" "console_ok tid (eoi_sti s) = console_ok tid s"
  by (simp_all add: eoi_sti_eq same_keys_def line_rel_def line_entered_def screen_of_def vid_base_def
      console_ok_def)

lemma putc_line_frame:
  "line_rel (terminal_putc c tid s) l = line_rel s l"
  "line_entered x l s0 (terminal_putc c tid s) = line_entered x l s0 s"
  using no_console_eqD[OF terminal_putc_frame[of tid c s]]
  by (simp_all add: line_rel_def line_entered_def Let_def)

theorem type_key_line:
  assumes "line_rel s l" "str_len s = length l"
  defines "d \<equiv> displayed_terminal s"
  shows "\<exists>s'. type_key c s = Done s' \<and> line_rel s' (edit c l) \<and> line_entered c l s s' \<and> same_keys s s' \<and>
    if_flag s' \<and> (console_ok d s \<longrightarrow>
      screen_of d s' = (if echoes c l then scr_putc c (screen_of d s) else screen_of d s))"
proof (cases "echoes c l")
  case True
  define s1 where "s1 = upd_term d (typed c l) (s\<lparr>str_len := if c = BKSP then length l - 1 else length l + 1\<rparr>)"
  have eq: "type_key c s = Done (eoi_sti (terminal_putc c d s1))"
    using type_key_eq[OF assms(1,2), of c] True by (simp add: s1_def d_def)
  have keys: "same_keys s s1" "displayed_terminal s1 = d"
    by (simp_all add: s1_def same_keys_def upd_term_def d_def)
  have line: "line_rel s1 (edit c l)" "c = ENT \<Longrightarrow> take (length l + 1) (tempbuf (displayed_term s1)) = l @ [ENT]"
    unfolding s1_def d_def by (rule typed_line[OF assms(1) True]; assumption)+
  have ent: "line_entered c l s s1"
    using line(2) by (simp add: line_entered_def Let_def s1_def d_def upd_term_def typed_def)
  have scr: "screen_of d s1 = screen_of d s" "console_ok d s1 = console_ok d s"
  proof -
    have "cur_x (terminal s1 d) = cur_x (terminal s d)" "cur_y (terminal s1 d) = cur_y (terminal s d)"
      "shift_up_one_flag (terminal s1 d) = shift_up_one_flag (terminal s d)"
      "phys s1 = phys s" "displayed_terminal s1 = displayed_terminal s"
      by (simp_all add: s1_def upd_term_def typed_def)
    then show "screen_of d s1 = screen_of d s" "console_ok d s1 = console_ok d s"
      by (simp_all only: screen_of_def console_ok_def vid_base_def)
  qed
  have "same_keys s (eoi_sti (terminal_putc c d s1))"
    using same_keys_trans[OF keys(1) same_keys_trans[OF putc_keys eoi_sti_frame(1)]] .
  then show ?thesis
    using eq line(1) ent True terminal_putc_refines[of d s1 c] scr
    by (intro exI[of _ "eoi_sti (terminal_putc c d s1)"]) (simp add: frame putc_line_frame)
next
  case False
  have "type_key c s = Done (eoi_sti s)" using type_key_eq[OF assms(1,2), of c] False by simp
  moreover have "edit c l = l" "c \<noteq> ENT" using False by (auto simp: edit_def echoes_def split: if_splits)
  ultimately show ?thesis
    using assms(1) False
    by (intro exI[of _ "eoi_sti s"]) (auto simp: frame, auto simp: line_entered_def Let_def)
qed

section \<open>Typing\<close>

text \<open>A key that is pressed, is in the table, and is no modifier.\<close>

definition plain :: "u8 \<Rightarrow> bool" where
  "plain k \<longleftrightarrow> 1 \<le> k \<and> k < TOTAL_SCANCODES \<and>
     k \<notin> {leftCRTL, CAPSLOCK, leftSHIFT, rightSHIFT, ALT}"

text \<open>
  The character of a key, from the two characters on its cap: the upper one if shift is held, and
  the other way round for a letter under caps lock.
\<close>

definition key_char :: "kernel \<Rightarrow> u8 \<Rightarrow> u8" where
  "key_char s k =
     (let c = plain_row ! unat k in
      if (shift_key s \<noteq> 0) = (caps s \<noteq> 0 \<and> letter c) then c else shift_row ! unat k)"

lemma keyboard_char_key:
  assumes "plain k"
  shows "keyboard_char beyond k (key_index s) = key_char s k"
proof -
  have "unat k < 62" using assms by (simp add: plain_def word_less_nat_alt)
  note rows = caps_rows[OF this]
  consider "key_index s = 0" "shift_key s = 0" "caps s = 0" | "key_index s = 1" "shift_key s \<noteq> 0" "caps s = 0"
    | "key_index s = 2" "shift_key s = 0" "caps s \<noteq> 0" | "key_index s = 3" "shift_key s \<noteq> 0" "caps s \<noteq> 0"
    by (cases "shift_key s = 0"; cases "caps s = 0") (simp_all add: key_index_def)
  then show ?thesis
    using assms rows by cases (auto simp: keyboard_char_def key_char_def Let_def plain_def)
qed

definition no_command :: "kernel \<Rightarrow> bool" where
  "no_command s \<longleftrightarrow> control_key s = 0 \<and> alt_key s = 0"

text \<open>The interrupt of a key press as an event of a wait.\<close>

definition press :: "(nat \<Rightarrow> u8) \<Rightarrow> u8 \<Rightarrow> kernel \<Rightarrow> kernel" where
  "press beyond k s =
     (case print_keycode 1 k beyond 0 0 s of Done (c, s') \<Rightarrow> s' | _ \<Rightarrow> s)"

lemma print_keycode_plain:
  assumes "plain k" "no_command s"
  shows "print_keycode 1 k beyond esp ebp s =
    andthen (type_key (key_char s k) (s\<lparr>if_flag := False, str_len := line_length (displayed_term s)\<rparr>))
      (\<lambda>s. Done (Return 0, s))"
proof -
  have k: "k \<noteq> leftSHIFT + released" "k \<noteq> rightSHIFT + released" "k \<noteq> ALT + released"
    "k \<noteq> leftCRTL + released"
    using assms(1) by (auto simp: plain_def)
  have "modifiers k x = Some x" for x
    using assms(1) k by (auto simp: modifiers_def plain_def not_le not_less)
  moreover have "key_char (s\<lparr>if_flag := False, str_len := n\<rparr>) k = key_char s k" for n
    by (simp add: key_char_def)
  ultimately show ?thesis
    using assms by (simp add: print_keycode_def Let_def no_command_def cli_def keyboard_char_key[OF assms(1)])
qed

lemma press_plain:
  assumes "plain k" "no_command s" "line_rel s l"
  defines "d \<equiv> displayed_terminal s"
  shows "\<exists>s'. print_keycode 1 k beyond esp ebp s = Done (Return 0, s') \<and>
    line_rel s' (edit (key_char s k) l) \<and>
    line_entered (key_char s k) l s s' \<and> same_keys s s' \<and> if_flag s' \<and>
    (console_ok d s \<longrightarrow> screen_of d s' =
       (if echoes (key_char s k) l then scr_putc (key_char s k) (screen_of d s) else screen_of d s))"
proof -
  define s0 where "s0 = s\<lparr>if_flag := False, str_len := line_length (displayed_term s)\<rparr>"
  have s0: "line_rel s0 l" "str_len s0 = length l" "displayed_terminal s0 = d" "same_keys s s0"
    "screen_of d s0 = screen_of d s" "console_ok d s0 = console_ok d s"
    "line_entered (key_char s k) l s0 x = line_entered (key_char s k) l s x" for x
    using assms(3) by (simp_all add: s0_def line_rel_def Let_def d_def same_keys_def screen_of_def
        vid_base_def console_ok_def line_entered_def)
  have eq: "print_keycode 1 k beyond esp ebp s = andthen (type_key (key_char s k) s0) (\<lambda>s. Done (Return 0, s))"
    using print_keycode_plain[OF assms(1,2), of beyond esp ebp] by (simp only: s0_def)
  from type_key_line[OF s0(1,2), of "key_char s k"] obtain s' where
    "type_key (key_char s k) s0 = Done s'" "line_rel s' (edit (key_char s k) l)"
    "line_entered (key_char s k) l s0 s'" "same_keys s0 s'" "if_flag s'"
    "console_ok d s0 \<longrightarrow> screen_of d s' =
       (if echoes (key_char s k) l then scr_putc (key_char s k) (screen_of d s0) else screen_of d s0)"
    unfolding s0(3) by blast
  then show ?thesis
    using eq s0 same_keys_trans by (intro exI[of _ s']) simp
qed

section \<open>Reading what is typed\<close>

text \<open>A state in which the displayed terminal is also the one that runs, with the line \<open>l\<close> typed.\<close>

definition typing :: "kernel \<Rightarrow> u8 list \<Rightarrow> bool" where
  "typing s l \<longleftrightarrow> no_command s \<and> line_rel s l \<and> displayed_terminal s = active_terminal s"

lemma no_command_keys: "same_keys s s' \<Longrightarrow> no_command s' = no_command s"
  by (simp add: no_command_def same_keys_def)

lemma key_char_keys: "same_keys s s' \<Longrightarrow> key_char s' k = key_char s k"
  by (simp add: same_keys_def key_char_def)

lemma press_step:
  assumes "typing s l" "plain k"
  shows "typing (press beyond k s) (edit (key_char s k) l)"
    and "line_entered (key_char s k) l s (press beyond k s)"
    and "same_keys s (press beyond k s)"
proof -
  obtain s' where "print_keycode 1 k beyond 0 0 s = Done (Return 0, s')"
    and s': "line_rel s' (edit (key_char s k) l)" "line_entered (key_char s k) l s s'" "same_keys s s'"
    using press_plain[OF assms(2), of s l beyond 0 0] assms(1) by (auto simp: typing_def)
  then have p: "press beyond k s = s'" by (simp add: press_def)
  show "line_entered (key_char s k) l s (press beyond k s)" "same_keys s (press beyond k s)"
    using s' p by simp_all
  show "typing (press beyond k s) (edit (key_char s k) l)"
    using assms(1) s' p no_command_keys[OF s'(3)] by (simp add: typing_def same_keys_def)
qed

lemma fold_press:
  fixes beyond :: "nat \<Rightarrow> u8"
  shows "typing s l \<Longrightarrow> list_all plain ks \<Longrightarrow> ENT \<notin> key_char s ` set ks \<Longrightarrow> get_flag s = 0 \<Longrightarrow>
    typing (fold (press beyond) ks s) (fold edit (map (key_char s) ks) l) \<and>
    same_keys s (fold (press beyond) ks s) \<and> get_flag (fold (press beyond) ks s) = 0 \<and>
    (\<forall>es. wait_until (\<lambda>s. get_flag s \<noteq> 0) (map (press beyond) ks @ es) s =
       wait_until (\<lambda>s. get_flag s \<noteq> 0) es (fold (press beyond) ks s))"
proof (induction ks arbitrary: s l)
  case Nil
  then show ?case by (simp add: same_keys_def)
next
  case (Cons k ks)
  let ?c = "key_char s k" and ?s1 = "press beyond k s"
  have k: "plain k" "?c \<noteq> ENT" using Cons.prems(2,3) by auto
  note st = press_step[OF Cons.prems(1) k(1), of beyond]
  have flag: "get_flag ?s1 = 0"
    using st k(2) Cons.prems(1,4) by (simp add: line_entered_def Let_def get_flag_def typing_def)
  have kc: "key_char ?s1 = key_char s" using key_char_keys[OF st(3)] by (simp add: fun_eq_iff)
  have "typing (fold (press beyond) ks ?s1) (fold edit (map (key_char ?s1) ks) (edit ?c l)) \<and>
    same_keys ?s1 (fold (press beyond) ks ?s1) \<and> get_flag (fold (press beyond) ks ?s1) = 0 \<and>
    (\<forall>es. wait_until (\<lambda>s. get_flag s \<noteq> 0) (map (press beyond) ks @ es) ?s1 =
       wait_until (\<lambda>s. get_flag s \<noteq> 0) es (fold (press beyond) ks ?s1))"
    using Cons.IH[OF st(1) _ _ flag] Cons.prems(2,3) by (simp add: kc)
  then show ?case
    using Cons.prems(4) kc same_keys_trans[OF st(3)] by simp
qed

lemma in_user_le: "in_user s a n \<Longrightarrow> m \<le> n \<Longrightarrow> in_user s a m"
  by (auto simp: in_user_def)

lemma in_user_keys: "same_keys s s' \<Longrightarrow> in_user s' a n = in_user s a n"
  by (simp add: in_user_def same_keys_def)

lemma sti_frame: "copy_in a n (sti s) = copy_in a n s"
  by (simp add: copy_in_def sti_def in_user_def user_phys_def)

lemma read_line_delivers:
  assumes "line_entered ENT l s0 s" "displayed_terminal s = active_terminal s" "length l \<le> 127"
    and "in_user s buf 128"
  shows "\<exists>s'. read_line buf s = Done (int (length l + 1), s') \<and>
    copy_in buf (length l + 1) s' = Done (l @ [ENT])"
proof -
  define t where "t = displayed_term (cli s)"
  have t: "read_length t = length l + 1" "take (length l + 1) (tempbuf t) = l @ [ENT]"
    using assms(1) by (simp_all add: line_entered_def Let_def t_def cli_def)
  have len: "length l + 1 \<le> length (tempbuf t)"
    using arg_cong[OF t(2), of length] by simp
  have "in_user (cli s) buf (length l + 1)"
    by (rule in_user_le[of _ _ 128]) (use assms(3,4) in \<open>simp_all add: cli_def in_user_def\<close>)
  then obtain s1 where c: "copy_out buf (l @ [ENT]) (cli s) = Done s1"
    by (simp add: copy_out_def)
  have "active_terminal (cli s) = displayed_terminal (cli s)" using assms(2) by (simp add: cli_def)
  then have "read_line buf s = Done (int (length l + 1), sti s1)"
    using t len c assms(3)
    by (cases "length l = 127") (simp_all add: read_line_def Let_def get_len_def t_def[symmetric] eval_nat_numeral)
  moreover have "copy_in buf (length l + 1) (sti s1) = Done (l @ [ENT])"
    using copy_in_out[OF c] by (simp add: sti_frame)
  ultimately show ?thesis by blast
qed

text \<open>
  A read from the terminal that is shown, while plain keys and then Enter are pressed: it returns
  the edited line with its newline.
\<close>

theorem read_typed_line:
  assumes "typing s l" "list_all plain ks" "ENT \<notin> key_char s ` set ks" "plain e" "key_char s e = ENT"
    and "buf \<noteq> 0" "in_user s buf 128"
  defines "text \<equiv> fold edit (map (key_char s) ks) l"
  shows "\<exists>s'. terminal_read (map (press beyond) (ks @ [e])) fd buf n s = Done (int (length text + 1), s') \<and>
    copy_in buf (length text + 1) s' = Done (text @ [ENT])"
proof -
  define s1 where "s1 = sti (upd_term (active_terminal (cli s)) (\<lambda>t. t\<lparr>enter_flag := 0\<rparr>) (cli s))"
  have s1: "same_keys s s1" "typing s1 l" "get_flag s1 = 0" "key_char s1 = key_char s"
    using assms(1) by (auto simp: s1_def same_keys_def sti_def cli_def upd_term_def typing_def
        no_command_def line_rel_def Let_def get_flag_def key_char_def fun_eq_iff)
  define s2 where "s2 = fold (press beyond) ks s1"
  have f: "typing s2 text" "same_keys s1 s2" "get_flag s2 = 0"
    "wait_until (\<lambda>s. get_flag s \<noteq> 0) (map (press beyond) ks @ es) s1 =
       wait_until (\<lambda>s. get_flag s \<noteq> 0) es s2" for es
    using fold_press[OF s1(2) assms(2) _ s1(3), of beyond] assms(3) by (simp_all add: s1(4) s2_def text_def)
  have kc: "key_char s2 e = ENT" using key_char_keys[OF f(2)] assms(5) by (simp add: s1(4))
  define s3 where "s3 = press beyond e s2"
  have s3: "line_entered ENT text s2 s3" "same_keys s2 s3" "typing s3 (edit ENT text)"
    using press_step[OF f(1) assms(4), of beyond] by (simp_all add: s3_def kc)
  have len: "length text \<le> 127" using f(1) by (simp add: typing_def line_rel_def Let_def)
  have d: "displayed_terminal s3 = active_terminal s3" using s3(3) by (simp add: typing_def)
  have keys: "same_keys s s3"
    by (rule same_keys_trans[OF s1(1) same_keys_trans[OF f(2) s3(2)]])
  have flag: "get_flag s3 \<noteq> 0" using s3(1) d by (simp add: line_entered_def Let_def get_flag_def)
  have "wait_until (\<lambda>s. get_flag s \<noteq> 0) (map (press beyond) (ks @ [e])) s1 = Done s3"
    using f(3) f(4)[of "[press beyond e]"] flag by (simp add: s3_def)
  then have "terminal_read (map (press beyond) (ks @ [e])) fd buf n s = read_line buf s3"
    using assms(6) by (simp add: terminal_read_def Let_def s1_def[symmetric])
  then show ?thesis
    using read_line_delivers[OF s3(1) d len] assms(7) in_user_keys[OF keys] by simp
qed

end
