(* ===== verification/Scheduler.thy ===== *)
theory Scheduler
  imports Keyboard
begin

text \<open>
  The scheduler, student-distrib/pit.c: the programmable interval timer and the handler that goes
  round the three terminals.  Its first ticks start the shells of terminals 1 and 2; from then on a
  tick saves the stack registers of the terminal that runs and resumes the next one
  (\<open>Switch esp ebp\<close>).  The registers of the handler (\<open>esp\<close>, \<open>ebp\<close>) and those of the \<open>execute_call\<close>
  it makes (\<open>xesp\<close>, \<open>xebp\<close>) are arguments.

  The abstract view is the table \<open>saved\<close> of one context per terminal, which the ticks rotate.
\<close>

abbreviation (input) "PIT_IRQ \<equiv> (0::u32)"
abbreviation (input) "DEFAULT_PIT_FREQ \<equiv> (1193180::u32)"
abbreviation (input) "SCHEDULING_FREQ \<equiv> (100::u32)"
abbreviation (input) "CMD_PORT \<equiv> (0x43::nat)"
abbreviation (input) "DATA_PORT_CH_0 \<equiv> (0x40::nat)"
abbreviation (input) "PIT_CMD \<equiv> (0x36::u8)"

section \<open>Operations\<close>

definition pit_change_freq :: "u32 \<Rightarrow> kernel \<Rightarrow> kernel" where
  "pit_change_freq freq s =
     (let divisor = DEFAULT_PIT_FREQ div freq;
          s = outb PIT_CMD CMD_PORT s;
          s = outb (ucast (divisor AND 0xFF)) DATA_PORT_CH_0 s
      in outb (ucast (drop_bit 8 divisor)) DATA_PORT_CH_0 s)"

definition init_pit :: "kernel \<Rightarrow> kernel" where
  "init_pit s = sti (pit_change_freq SCHEDULING_FREQ (enable_irq PIT_IRQ (cli s)))"

definition save_context :: "u32 \<Rightarrow> u32 \<Rightarrow> kernel \<Rightarrow> kernel" where
  "save_context esp ebp s =
     upd_pcb (get_pcb_blk (pid (active_term s))) (\<lambda>p. p\<lparr>active_esp := esp, active_ebp := ebp\<rparr>) s"

definition next_terminal :: "kernel \<Rightarrow> kernel" where
  "next_terminal s = s\<lparr>active_terminal := (active_terminal s + 1) mod 3\<rparr>"

definition start_next_shell ::
    "int \<Rightarrow> u32 \<Rightarrow> u32 \<Rightarrow> u32 \<Rightarrow> u32 \<Rightarrow> kernel \<Rightarrow> (control \<times> kernel) outcome" where
  "start_next_shell n esp ebp xesp xebp s =
     (let s = s\<lparr>init_count := n\<rparr>;
          s = next_terminal (save_context esp ebp s);
          s = remap_video_mem_user (active_terminal s) s
      in andthen (execute_call shell_command xesp xebp s)
           (\<lambda>(c, s). case c of Return r \<Rightarrow> Done (Return 0, s) | _ \<Rightarrow> Done (c, s)))"

definition schedule :: "u32 \<Rightarrow> u32 \<Rightarrow> kernel \<Rightarrow> control \<times> kernel" where
  "schedule esp ebp s =
     (let s = s\<lparr>done_init_terminal := 1\<rparr>;
          s = next_terminal (save_context esp ebp s);
          s = remap_video_mem_user (active_terminal s) s;
          s = virt_to_phys_user (word_of_int (pid (active_term s))) s;
          next_pcb = pcbs s (get_pcb_blk (pid (active_term s)));
          s = set_tss (pid (active_term s)) s
      in (Switch (active_esp next_pcb) (active_ebp next_pcb), s))"

definition pit_intr ::
    "u32 \<Rightarrow> u32 \<Rightarrow> u32 \<Rightarrow> u32 \<Rightarrow> kernel \<Rightarrow> (control \<times> kernel) outcome" where
  "pit_intr esp ebp xesp xebp s =
     (let s = send_eoi PIT_IRQ s;
          shells = (init_flag (terminal s 0), init_flag (terminal s 1), init_flag (terminal s 2))
      in if init_flag (terminal s 0) = 0 then Done (Return 0, s)
         else if shells = (1, 0, 0) \<and> init_count s = 0 then start_next_shell 1 esp ebp xesp xebp s
         else if shells = (1, 1, 0) \<and> init_count s = 1 then start_next_shell 2 esp ebp xesp xebp s
         else Done (schedule esp ebp s))"

section \<open>The divisor\<close>

text \<open>
  The two bytes written to the counter are the 16-bit divisor, when it fits; the timer then runs
  at the frequency asked for up to rounding.
\<close>

lemma pit_divisor:
  fixes f :: u32
  assumes "18 < unat f"
  defines "d \<equiv> 1193180 div unat f"
  shows "outs (pit_change_freq f s) =
      outs s @ [(CMD_PORT, PIT_CMD), (DATA_PORT_CH_0, of_nat (d mod 256)), (DATA_PORT_CH_0, of_nat (d div 256))]"
    and "d < 65536"
proof -
  let ?d = "DEFAULT_PIT_FREQ div f"
  have "unat ?d = d" by (simp add: d_def unat_div)
  then have d: "?d = of_nat d" by (metis of_nat_unat ucast_id)
  have le: "d \<le> 1193180 div 19" unfolding d_def using assms(1) by (intro div_le_mono2) auto
  then show "d < 65536" by simp
  then have b: "unat ?d < 65536" using \<open>unat ?d = d\<close> by simp
  have "(0xFF :: u32) = mask 8" by (simp add: mask_eq_exp_minus_1)
  then have "?d AND 0xFF = take_bit 8 ?d" by (simp only: take_bit_eq_mask)
  then have "unat (ucast (?d AND 0xFF) :: u8) = d mod 256"
    by (simp only: unsigned_ucast_eq unsigned_take_bit_eq \<open>unat ?d = d\<close>) (simp add: take_bit_eq_mod)
  then have "ucast (?d AND 0xFF) = (of_nat (d mod 256) :: u8)"
    by (simp add: word_unat_eq_iff unat_of_nat)
  moreover have "unat (ucast (drop_bit 8 ?d) :: u8) = d div 256"
    using b by (simp only: unsigned_ucast_eq unsigned_drop_bit_eq \<open>unat ?d = d\<close>)
      (simp add: drop_bit_eq_div take_bit_eq_mod less_mult_imp_div_less)
  then have "ucast (drop_bit 8 ?d) = (of_nat (d div 256) :: u8)"
    using b \<open>unat ?d = d\<close> by (simp add: word_unat_eq_iff unat_of_nat)
  ultimately show "outs (pit_change_freq f s) =
      outs s @ [(CMD_PORT, PIT_CMD), (DATA_PORT_CH_0, of_nat (d mod 256)), (DATA_PORT_CH_0, of_nat (d div 256))]"
    by (simp add: pit_change_freq_def Let_def outb_def)
qed

section \<open>Rotating the contexts\<close>

definition saved :: "kernel \<Rightarrow> nat \<Rightarrow> u32 \<times> u32" where
  "saved s t = (let q = pcbs s (get_pcb_blk (pid (terminal s t))) in (active_esp q, active_ebp q))"

text \<open>All three shells are up, and the terminals run different processes.\<close>

definition all_started :: "kernel \<Rightarrow> bool" where
  "all_started s \<longleftrightarrow> active_terminal s < 3 \<and>
     (\<forall>t<3. init_flag (terminal s t) \<noteq> 0 \<and> 0 \<le> pid (terminal s t) \<and> pid (terminal s t) < 6) \<and>
     (\<forall>t<3. \<forall>u<3. t \<noteq> u \<longrightarrow> pid (terminal s t) \<noteq> pid (terminal s u))"

text \<open>The running process is the one whose pages and kernel stack the processor uses.\<close>

definition running :: "kernel \<Rightarrow> bool" where
  "running s \<longleftrightarrow>
     page_directory s 32 = user_pde (word_of_int (pid (active_term s))) \<and>
     tss_esp0 s = get_kernel_stack_addr (word_of_int (pid (active_term s)))"

lemma pit_intr_all_started:
  "all_started s \<Longrightarrow> pit_intr esp ebp xesp xebp s = Done (schedule esp ebp (send_eoi PIT_IRQ s))"
  by (auto simp: pit_intr_def Let_def all_started_def send_eoi_def outb_def)

lemma schedule_state:
  assumes "schedule esp ebp s = (c, s')"
  defines "P \<equiv> get_pcb_blk (pid (active_term s))" and "n \<equiv> (active_terminal s + 1) mod 3"
  shows "active_terminal s' = n" "terminal s' = terminal s" "displayed_terminal s' = displayed_terminal s"
    and "pid_array s' = pid_array s" "curr_pid s' = curr_pid s" "phys s' = phys s"
    and "pcbs s' = (pcbs s)(P := (pcbs s P)\<lparr>active_esp := esp, active_ebp := ebp\<rparr>)"
    and "running s'"
    and "c = Switch (active_esp (pcbs s' (get_pcb_blk (pid (terminal s n)))))
               (active_ebp (pcbs s' (get_pcb_blk (pid (terminal s n)))))"
  using assms(1)
  by (auto simp: schedule_def Let_def next_terminal_def save_context_def upd_pcb_def set_tss_def
      remap_video_mem_user_eq virt_to_phys_user_eq P_def n_def running_def user_pde_def)

lemma pid_blk_inj:
  assumes "all_started s" "t < 3" "u < 3" "t \<noteq> u"
  shows "get_pcb_blk (pid (terminal s t)) \<noteq> get_pcb_blk (pid (terminal s u))"
  using assms get_pcb_blk_inj[of "pid (terminal s t)" "pid (terminal s u)"] by (simp add: all_started_def)

theorem pit_intr_rotates:
  assumes "all_started s"
  defines "a \<equiv> active_terminal s" and "n \<equiv> (active_terminal s + 1) mod 3"
  shows "\<exists>s'. pit_intr esp ebp xesp xebp s = Done (Switch (fst (saved s n)) (snd (saved s n)), s') \<and>
    active_terminal s' = n \<and> saved s' a = (esp, ebp) \<and> (\<forall>t<3. t \<noteq> a \<longrightarrow> saved s' t = saved s t) \<and>
    running s' \<and> all_started s' \<and> terminal s' = terminal s \<and> pid_array s' = pid_array s"
proof -
  define s0 where "s0 = send_eoi PIT_IRQ s"
  have s0: "active_terminal s0 = a" "terminal s0 = terminal s" "pcbs s0 = pcbs s" "pid_array s0 = pid_array s"
    by (simp_all add: s0_def send_eoi_def outb_def a_def)
  obtain c s' where sch: "schedule esp ebp s0 = (c, s')" by (cases "schedule esp ebp s0")
  note st = schedule_state[OF sch]
  have a: "a < 3" "n < 3" "n \<noteq> a" using assms(1) by (auto simp: all_started_def a_def n_def mod_if)
  have n: "n = (a + 1) mod 3" "n = Suc a mod 3" by (simp_all add: n_def a_def)
  have sav: "saved s' t = (if t = a then (esp, ebp) else saved s t)" if "t < 3" for t
    using pid_blk_inj[OF assms(1) that a(1)] st(2,7) s0 by (auto simp: saved_def Let_def)
  have c: "c = Switch (fst (saved s n)) (snd (saved s n))"
    using st(9) sav[OF a(2)] a(3) by (simp add: saved_def Let_def st(2) s0 n(1)[symmetric] n(2)[symmetric])
  have "all_started s'" using assms(1) a st(1,2) by (simp add: all_started_def s0 n(1)[symmetric] n(2)[symmetric])
  then show ?thesis
    using pit_intr_all_started[OF assms(1), of esp ebp xesp xebp] sch c sav a(1) st
    by (simp add: s0_def[symmetric] s0 n(1)[symmetric] n(2)[symmetric])
qed

text \<open>
  A series of ticks, each with the registers of the terminal that runs; the contexts that are
  resumed are collected.
\<close>

fun ticks :: "(u32 \<times> u32) list \<Rightarrow> kernel \<Rightarrow> ((u32 \<times> u32) list \<times> kernel) outcome" where
  "ticks [] s = Done ([], s)"
| "ticks ((esp, ebp) # rs) s =
     andthen (pit_intr esp ebp 0 0 s) (\<lambda>(c, s).
       case c of Switch e b \<Rightarrow> andthen (ticks rs s) (\<lambda>(xs, s). Done ((e, b) # xs, s))
       | _ \<Rightarrow> Fault NoReturn)"

text \<open>
  Round robin: the \<open>i\<close>th tick resumes the terminal \<open>i + 1\<close> places on, with the registers saved for
  it: those of two ticks ago, or those of the start.
\<close>

theorem round_robin:
  assumes "all_started s"
  shows "\<exists>xs s'. ticks rs s = Done (xs, s') \<and> length xs = length rs \<and> all_started s' \<and>
    active_terminal s' = (active_terminal s + length rs) mod 3 \<and>
    (\<forall>i<length rs. xs ! i =
       (if i < 2 then saved s ((active_terminal s + 1 + i) mod 3) else rs ! (i - 2)))"
  using assms
proof (induction rs arbitrary: s)
  case Nil
  then show ?case by (auto simp: all_started_def)
next
  case (Cons r rs)
  obtain esp ebp where r: "r = (esp, ebp)" by (cases r)
  define a where "a = active_terminal s"
  have a: "a < 3" using Cons.prems by (simp add: all_started_def a_def)
  obtain s1 where p: "pit_intr esp ebp 0 0 s = Done (Switch (fst (saved s ((a + 1) mod 3))) (snd (saved s ((a + 1) mod 3))), s1)"
    and s1: "active_terminal s1 = (a + 1) mod 3" "saved s1 a = (esp, ebp)"
      "\<And>t. t < 3 \<Longrightarrow> t \<noteq> a \<Longrightarrow> saved s1 t = saved s t" "all_started s1"
    using pit_intr_rotates[OF Cons.prems, of esp ebp 0 0] by (auto simp: a_def)
  obtain xs s' where rest: "ticks rs s1 = Done (xs, s')" "length xs = length rs" "all_started s'"
      "active_terminal s' = (active_terminal s1 + length rs) mod 3"
    and nth: "\<And>i. i < length rs \<Longrightarrow> xs ! i =
       (if i < 2 then saved s1 ((active_terminal s1 + 1 + i) mod 3) else rs ! (i - 2))"
    using Cons.IH[OF s1(4)] by blast
  have step: "((saved s ((a + 1) mod 3)) # xs) ! i =
      (if i < 2 then saved s ((a + 1 + i) mod 3) else (r # rs) ! (i - 2))" if "i < Suc (length rs)" for i
  proof -
    consider "i = 0" | "i = 1" | "i = 2" | j where "i = Suc (Suc (Suc j))"
      by (metis One_nat_def Suc_1 not0_implies_Suc)
    then show ?thesis
    proof cases
      case 2
      have "(a + 2) mod 3 \<noteq> a" using a by (auto simp: mod_if)
      then show ?thesis using 2 that nth[of 0] s1(1) s1(3)[of "(a + 2) mod 3"] a
        by (simp add: mod_simps)
    next
      case 3
      have "(Suc (Suc (a + 1) mod 3) mod 3) = a" using a by (auto simp: mod_if)
      moreover have "(active_terminal s1 + 1 + 1) mod 3 = a" using a s1(1) by (auto simp: mod_if)
      ultimately show ?thesis using 3 that nth[of 1] s1(2) r by simp
    next
      case (4 j)
      then show ?thesis using that nth[of "Suc (Suc j)"] by simp
    qed simp
  qed
  have act: "active_terminal s' = (a + Suc (length rs)) mod 3"
    using rest(4) s1(1) by (simp add: mod_simps)
  show ?case
    using p rest(1,2,3) act step r
    by (intro exI[of _ "saved s ((a + 1) mod 3) # xs"] exI[of _ s']) (simp add: a_def)
qed

end
