(* ===== verification/IDT.thy ===== *)
theory IDT
  imports Prelude
begin

text \<open>
  The interrupt descriptor table: \<open>init_idt\<close> of student-distrib/idt.c with the descriptor and the
  macro \<open>SET_IDT_ENTRY\<close> of x86_desc.h.  The addresses of the handlers are the linker's and so an
  argument.  \<open>gate_offset\<close> and \<open>gate_type\<close> read a descriptor the way the processor does.
\<close>

section \<open>Descriptors\<close>

record idt_desc_t =
  offset_15_00 :: u16
  seg_selector :: u16
  reserved4 :: u8
  reserved3 :: "1 word"
  reserved2 :: "1 word"
  reserved1 :: "1 word"
  gate_size :: "1 word"
  reserved0 :: "1 word"
  dpl :: "2 word"
  present :: "1 word"
  offset_31_16 :: u16

datatype handler =
    DivideError | DebugException | nmiInterrupt | Breakpoint | Overflow | BoundRangeExceeded
  | InvalidOpcode | DeviceNotAvailable | DoubleFault | CoprocessorSegmentOverun
  | InvalidTssException | SegmentNotPresent | StackFaultExecption | GeneralProtectionException
  | Pagefault | Mathfault | AlignmentCheck | MachineCheck | SimdFltPtException
  | syscall_handler_pseudo | keyboard_wrapper | rtc_wrapper | pit_wrapper

abbreviation (input) "VECTORS_IN_IDT \<equiv> (256::nat)"
abbreviation (input) "VECTOR_SYSTEM \<equiv> (0x80::nat)"
abbreviation (input) "VECTOR_RTC \<equiv> (0x28::nat)"
abbreviation (input) "VECTOR_PIT \<equiv> (0x20::nat)"
abbreviation (input) "VECTOR_KEYBOARD \<equiv> (0x21::nat)"
abbreviation (input) "FIRST_INTERRUPT \<equiv> (0x20::nat)"
abbreviation (input) "LAST_INTERRUPT \<equiv> (0x2F::nat)"
abbreviation (input) "KERNEL_CS \<equiv> (0x10::u16)"

definition SET_IDT_ENTRY :: "u32 \<Rightarrow> idt_desc_t \<Rightarrow> idt_desc_t" where
  "SET_IDT_ENTRY h str =
     str\<lparr>offset_31_16 := ucast (drop_bit 16 (h AND 0xFFFF0000)), offset_15_00 := ucast (h AND 0xFFFF),
       present := 1\<rparr>"

section \<open>Filling the table\<close>

text \<open>The body of the loop.\<close>

definition init_entry :: "nat \<Rightarrow> idt_desc_t \<Rightarrow> idt_desc_t" where
  "init_entry i d = d\<lparr>present := 0,
     reserved3 := (if FIRST_INTERRUPT \<le> i \<and> i \<le> LAST_INTERRUPT then 1 else 0),
     dpl := (if i = VECTOR_SYSTEM then 3 else 0),
     reserved0 := 0, reserved1 := 1, seg_selector := KERNEL_CS, reserved4 := 0, gate_size := 1,
     reserved2 := 1\<rparr>"

definition installed :: "(nat \<times> handler) list" where
  "installed =
     [(0x00, DivideError), (0x01, DebugException), (0x02, nmiInterrupt), (0x03, Breakpoint),
      (0x04, Overflow), (0x05, BoundRangeExceeded), (0x06, InvalidOpcode), (0x07, DeviceNotAvailable),
      (0x08, DoubleFault), (0x09, CoprocessorSegmentOverun), (0x0A, InvalidTssException),
      (0x0B, SegmentNotPresent), (0x0C, StackFaultExecption), (0x0D, GeneralProtectionException),
      (0x0E, Pagefault), (0x10, Mathfault), (0x11, AlignmentCheck), (0x12, MachineCheck),
      (0x13, SimdFltPtException), (VECTOR_SYSTEM, syscall_handler_pseudo),
      (VECTOR_KEYBOARD, keyboard_wrapper), (VECTOR_RTC, rtc_wrapper), (VECTOR_PIT, pit_wrapper)]"

definition init_idt :: "(handler \<Rightarrow> u32) \<Rightarrow> (nat \<Rightarrow> idt_desc_t) \<Rightarrow> nat \<Rightarrow> idt_desc_t" where
  "init_idt addr idt =
     (let idt = fold (\<lambda>i t. t(i := init_entry i (t i))) [0..<VECTORS_IN_IDT] idt;
          idt = fold (\<lambda>(v, h) t. t(v := SET_IDT_ENTRY (addr h) (t v))) installed idt
      in idt(VECTOR_SYSTEM := (idt VECTOR_SYSTEM)\<lparr>dpl := 3, present := 1\<rparr>))"

section \<open>What the processor reads\<close>

definition gate_offset :: "idt_desc_t \<Rightarrow> u32" where
  "gate_offset d = push_bit 16 (ucast (offset_31_16 d)) OR ucast (offset_15_00 d)"

definition gate_type :: "idt_desc_t \<Rightarrow> nat" where
  "gate_type d = unat (reserved3 d) + 2 * unat (reserved2 d) + 4 * unat (reserved1 d)
     + 8 * unat (gate_size d) + 16 * unat (reserved0 d)"

text \<open>Type 14 is an interrupt gate, which turns interrupts off; type 15 is a trap gate.\<close>

abbreviation (input) "INTERRUPT_GATE \<equiv> (14::nat)"
abbreviation (input) "TRAP_GATE \<equiv> (15::nat)"

lemma mask_halves: "(0xFFFF :: u32) = mask 16" "(0xFFFF0000 :: u32) = push_bit 16 (mask 16)"
  by (simp_all add: mask_eq_exp_minus_1)

lemma set_entry_offset: "gate_offset (SET_IDT_ENTRY h d) = h"
  unfolding gate_offset_def SET_IDT_ENTRY_def mask_halves
  by (rule bit_word_eqI, rename_tac n, case_tac "n < 16") (auto simp: bit_simps)

lemma fold_entries_nth:
  "distinct is \<Longrightarrow> fold (\<lambda>i t. t(i := f i (t i))) is t v = (if v \<in> set is then f v (t v) else t v)"
  by (induction "is" arbitrary: t) auto

lemma fold_installed:
  "distinct (map fst hs) \<Longrightarrow>
   fold (\<lambda>(v, h) t. t(v := g h (t v))) hs t v = (case map_of hs v of None \<Rightarrow> t v | Some h \<Rightarrow> g h (t v))"
proof (induction hs arbitrary: t)
  case (Cons x hs)
  obtain w h where x: "x = (w, h)" by (cases x)
  then have "w \<notin> fst ` set hs" using Cons.prems by simp
  then have "map_of hs w = None" by (simp add: map_of_eq_None_iff)
  then show ?case using Cons x by (auto split: option.split)
qed simp

lemma installed_distinct: "distinct (map fst installed)"
  by (simp add: installed_def)

lemma init_idt_nth:
  assumes "v < 256"
  shows "init_idt addr idt v =
    (case map_of installed v of None \<Rightarrow> init_entry v (idt v)
     | Some h \<Rightarrow> SET_IDT_ENTRY (addr h) (init_entry v (idt v)))"
proof -
  have "map_of installed 128 = Some syscall_handler_pseudo" by (simp add: installed_def)
  moreover have "dpl (SET_IDT_ENTRY a (init_entry 128 d)) = 3" "present (SET_IDT_ENTRY a d) = 1" for a d
    by (simp_all add: SET_IDT_ENTRY_def init_entry_def)
  ultimately show ?thesis
    using assms
    by (auto simp: init_idt_def Let_def fold_installed[OF installed_distinct, of "\<lambda>h. SET_IDT_ENTRY (addr h)"]
        fold_entries_nth intro!: idt_desc_t.equality split: option.split)
qed

lemma entry_fields:
  "present (SET_IDT_ENTRY a d) = 1" "gate_type (SET_IDT_ENTRY a d) = gate_type d"
  "dpl (SET_IDT_ENTRY a d) = dpl d" "seg_selector (SET_IDT_ENTRY a d) = seg_selector d"
  "present (init_entry v d) = 0" "dpl (init_entry v d) = (if v = 0x80 then 3 else 0)"
  "seg_selector (init_entry v d) = KERNEL_CS"
  "gate_type (init_entry v d) = (if 0x20 \<le> v \<and> v \<le> 0x2F then TRAP_GATE else INTERRUPT_GATE)"
  by (simp_all add: SET_IDT_ENTRY_def init_entry_def gate_type_def)

text \<open>
  The table: a vector is present when a handler is installed for it, and leads to that handler in
  the kernel's segment; only the system call is open to user code; the device vectors are trap
  gates, so a device handler is entered with the interrupt flag as it was.
\<close>

theorem init_idt_correct:
  fixes addr :: "handler \<Rightarrow> u32" and idt :: "nat \<Rightarrow> idt_desc_t"
  assumes "v < 256"
  defines "g \<equiv> init_idt addr idt v"
  shows "(present g = 1 \<longleftrightarrow> v \<in> fst ` set installed)"
    and "(v, h) \<in> set installed \<Longrightarrow> gate_offset g = addr h"
    and "seg_selector g = KERNEL_CS"
    and "dpl g = (if v = VECTOR_SYSTEM then 3 else 0)"
    and "gate_type g = (if FIRST_INTERRUPT \<le> v \<and> v \<le> LAST_INTERRUPT then TRAP_GATE else INTERRUPT_GATE)"
proof -
  have g: "g = (case map_of installed v of None \<Rightarrow> init_entry v (idt v)
     | Some h \<Rightarrow> SET_IDT_ENTRY (addr h) (init_entry v (idt v)))"
    unfolding g_def by (rule init_idt_nth[OF assms(1)])
  have dom: "v \<in> fst ` set installed \<longleftrightarrow> map_of installed v \<noteq> None" by (simp add: map_of_eq_None_iff)
  show "(present g = 1 \<longleftrightarrow> v \<in> fst ` set installed)" "seg_selector g = KERNEL_CS"
    "dpl g = (if v = VECTOR_SYSTEM then 3 else 0)"
    "gate_type g = (if FIRST_INTERRUPT \<le> v \<and> v \<le> LAST_INTERRUPT then TRAP_GATE else INTERRUPT_GATE)"
    unfolding dom g by (simp_all only: entry_fields split: option.split) simp_all
  show "(v, h) \<in> set installed \<Longrightarrow> gate_offset g = addr h"
    using map_of_is_SomeI[OF installed_distinct] by (simp add: g set_entry_offset)
qed

end
