(* ===== verification/Exceptions.thy ===== *)
theory Exceptions
  imports Scheduler IDT
begin

text \<open>
  The processor exceptions, student-distrib/print_exceptions.c: every handler prints its message
  on the active terminal and halts the program.  The status they pass, 256, is cut to eight bits.
\<close>

abbreviation (input) "Error_code \<equiv> (256::u32)"

definition report :: "u8 list \<Rightarrow> u32 \<Rightarrow> u32 \<Rightarrow> kernel \<Rightarrow> (control \<times> kernel) outcome" where
  "report message esp ebp s =
     andthen (printf (message @ [0]) [] s) (\<lambda>(n, s). halt_call (ucast Error_code) esp ebp s)"

section \<open>The handlers\<close>

definition handle_DivideError :: "u32 \<Rightarrow> u32 \<Rightarrow> kernel \<Rightarrow> (control \<times> kernel) outcome" where
  "handle_DivideError = report (chars ''Divide error handler happening '' @ [10])"

definition handle_DebugException :: "u32 \<Rightarrow> u32 \<Rightarrow> kernel \<Rightarrow> (control \<times> kernel) outcome" where
  "handle_DebugException = report (chars ''Debug exception handler happening '' @ [10])"

definition handle_nmiInterrupt :: "u32 \<Rightarrow> u32 \<Rightarrow> kernel \<Rightarrow> (control \<times> kernel) outcome" where
  "handle_nmiInterrupt = report (chars ''nmi Interrupt handler happening '' @ [10])"

definition handle_Breakpoint :: "u32 \<Rightarrow> u32 \<Rightarrow> kernel \<Rightarrow> (control \<times> kernel) outcome" where
  "handle_Breakpoint = report (chars ''breakpoint  handler happening '' @ [10])"

definition handle_Overflow :: "u32 \<Rightarrow> u32 \<Rightarrow> kernel \<Rightarrow> (control \<times> kernel) outcome" where
  "handle_Overflow = report (chars ''overflow handler happening '' @ [10])"

definition handle_BoundRangeExceeded :: "u32 \<Rightarrow> u32 \<Rightarrow> kernel \<Rightarrow> (control \<times> kernel) outcome" where
  "handle_BoundRangeExceeded = report (chars ''bound range exceeded handler happening '' @ [10])"

definition handle_InvalidOpcode :: "u32 \<Rightarrow> u32 \<Rightarrow> kernel \<Rightarrow> (control \<times> kernel) outcome" where
  "handle_InvalidOpcode = report (chars ''invalid opcode handler happening '' @ [10])"

definition handle_DeviceNotAvailable :: "u32 \<Rightarrow> u32 \<Rightarrow> kernel \<Rightarrow> (control \<times> kernel) outcome" where
  "handle_DeviceNotAvailable = report (chars '' Device Not Available handler happening '' @ [10])"

definition handle_DoubleFault :: "u32 \<Rightarrow> u32 \<Rightarrow> kernel \<Rightarrow> (control \<times> kernel) outcome" where
  "handle_DoubleFault = report (chars '' Double Fault handler happening '' @ [10])"

definition handle_CoprocessorSegmentOverun :: "u32 \<Rightarrow> u32 \<Rightarrow> kernel \<Rightarrow> (control \<times> kernel) outcome" where
  "handle_CoprocessorSegmentOverun = report (chars '' Coprocessor Segment Overun handler happening '' @ [10])"

definition handle_InvalidTssException :: "u32 \<Rightarrow> u32 \<Rightarrow> kernel \<Rightarrow> (control \<times> kernel) outcome" where
  "handle_InvalidTssException = report (chars '' Invalid Tss Exception handler happening '' @ [10])"

definition handle_SegmentNotPresent :: "u32 \<Rightarrow> u32 \<Rightarrow> kernel \<Rightarrow> (control \<times> kernel) outcome" where
  "handle_SegmentNotPresent = report (chars '' Segment Not Present handler happening '' @ [10])"

definition handle_StackFaultExecption :: "u32 \<Rightarrow> u32 \<Rightarrow> kernel \<Rightarrow> (control \<times> kernel) outcome" where
  "handle_StackFaultExecption = report (chars '' Stack Fault Execption handler happening '' @ [10])"

definition handle_GeneralProtectionException :: "u32 \<Rightarrow> u32 \<Rightarrow> kernel \<Rightarrow> (control \<times> kernel) outcome" where
  "handle_GeneralProtectionException = report (chars ''  General Protection Exception handler happening '' @ [10])"

definition handle_Pagefault :: "u32 \<Rightarrow> u32 \<Rightarrow> kernel \<Rightarrow> (control \<times> kernel) outcome" where
  "handle_Pagefault = report (chars '' Page fault handler happening '' @ [10])"

definition handle_Mathfault :: "u32 \<Rightarrow> u32 \<Rightarrow> kernel \<Rightarrow> (control \<times> kernel) outcome" where
  "handle_Mathfault = report (chars '' Math fault handler happening '' @ [10])"

definition handle_AlignmentCheck :: "u32 \<Rightarrow> u32 \<Rightarrow> kernel \<Rightarrow> (control \<times> kernel) outcome" where
  "handle_AlignmentCheck = report (chars '' Alignment Check handler happening '' @ [10])"

definition handle_MachineCheck :: "u32 \<Rightarrow> u32 \<Rightarrow> kernel \<Rightarrow> (control \<times> kernel) outcome" where
  "handle_MachineCheck = report (chars '' Machine Check handler happening '' @ [10])"

definition handle_SimdFltPtException :: "u32 \<Rightarrow> u32 \<Rightarrow> kernel \<Rightarrow> (control \<times> kernel) outcome" where
  "handle_SimdFltPtException = report (chars '' Simd Flt Pt Exception handler happening '' @ [10])"

definition handle_syscall_handler_pseudo :: "u32 \<Rightarrow> u32 \<Rightarrow> kernel \<Rightarrow> (control \<times> kernel) outcome" where
  "handle_syscall_handler_pseudo = report (chars ''system call happening '' @ [10, 32])"
section \<open>The assembly stubs\<close>

text \<open>exceptions.S and Device_handlers.S: the C function each entry of the table calls.\<close>

fun exception_handler :: "handler \<Rightarrow> (u32 \<Rightarrow> u32 \<Rightarrow> kernel \<Rightarrow> (control \<times> kernel) outcome) option" where
  "exception_handler DivideError = Some handle_DivideError"
| "exception_handler DebugException = Some handle_DebugException"
| "exception_handler nmiInterrupt = Some handle_nmiInterrupt"
| "exception_handler Breakpoint = Some handle_Breakpoint"
| "exception_handler Overflow = Some handle_Overflow"
| "exception_handler BoundRangeExceeded = Some handle_BoundRangeExceeded"
| "exception_handler InvalidOpcode = Some handle_InvalidOpcode"
| "exception_handler DeviceNotAvailable = Some handle_DeviceNotAvailable"
| "exception_handler DoubleFault = Some handle_DoubleFault"
| "exception_handler CoprocessorSegmentOverun = Some handle_CoprocessorSegmentOverun"
| "exception_handler InvalidTssException = Some handle_InvalidTssException"
| "exception_handler SegmentNotPresent = Some handle_SegmentNotPresent"
| "exception_handler StackFaultExecption = Some handle_StackFaultExecption"
| "exception_handler GeneralProtectionException = Some handle_GeneralProtectionException"
| "exception_handler Pagefault = Some handle_Pagefault"
| "exception_handler Mathfault = Some handle_Mathfault"
| "exception_handler AlignmentCheck = Some handle_AlignmentCheck"
| "exception_handler MachineCheck = Some handle_MachineCheck"
| "exception_handler SimdFltPtException = Some handle_SimdFltPtException"
| "exception_handler _ = None"

lemmas exception_handler_defs =
  handle_DivideError_def handle_DebugException_def handle_nmiInterrupt_def handle_Breakpoint_def
  handle_Overflow_def handle_BoundRangeExceeded_def handle_InvalidOpcode_def
  handle_DeviceNotAvailable_def handle_DoubleFault_def handle_CoprocessorSegmentOverun_def
  handle_InvalidTssException_def handle_SegmentNotPresent_def handle_StackFaultExecption_def
  handle_GeneralProtectionException_def handle_Pagefault_def handle_Mathfault_def
  handle_AlignmentCheck_def handle_MachineCheck_def handle_SimdFltPtException_def

section \<open>An exception ends the program\<close>

text \<open>A message prints; the process structures stay.\<close>

definition prints :: "u8 list \<Rightarrow> bool" where
  "prints m \<longleftrightarrow> of_char CHR ''%'' \<notin> set m \<and> 0 \<notin> set m"

lemma putc_keeps:
  assumes "\<And>x. f (no_console tid x) = f x"
  shows "f (terminal_putc c tid s) = f s"
  using assms[of s] assms[of "terminal_putc c tid s"] terminal_putc_frame[of tid c s] by simp

lemma putc_procs [frame]: "same_procs s (terminal_putc c tid s)"
proof -
  have tf: "pid (terminal (terminal_putc c tid s) t) = pid (terminal s t)"
    "parentpid (terminal (terminal_putc c tid s) t) = parentpid (terminal s t)"
    "init_flag (terminal (terminal_putc c tid s) t) = init_flag (terminal s t)" for t
    by (rule putc_keeps[where f = "\<lambda>s. pid (terminal s t)"], simp add: no_console_def)
      (rule putc_keeps[where f = "\<lambda>s. parentpid (terminal s t)"], simp add: no_console_def,
       rule putc_keeps[where f = "\<lambda>s. init_flag (terminal s t)"], simp add: no_console_def)
  have "page_directory (terminal_putc c tid s) = page_directory s"
    "tss_esp0 (terminal_putc c tid s) = tss_esp0 s"
    by (rule putc_keeps, simp add: no_console_def)+
  then show ?thesis
    using no_console_eqD[OF terminal_putc_frame[of tid c s]] tf by (simp add: same_procs_def)
qed

lemma fold_putc_procs: "same_procs s (fold (\<lambda>c. terminal_putc c tid) cs s)"
proof (induction cs arbitrary: s)
  case (Cons c cs)
  show ?case unfolding fold_simps by (rule same_procs_trans[OF putc_procs Cons.IH])
qed simp

lemma fold_putc_active:
  "fold put_on (map (Pair To_active) cs) s = fold (\<lambda>c. terminal_putc c (active_terminal s)) cs s"
proof (induction cs arbitrary: s)
  case (Cons c cs)
  show ?case by (simp add: Cons.IH[of "terminal_putc c (active_terminal s) s"])
qed simp

lemma error_code: "(ucast Error_code :: u8) = 0"
  by code_simp

lemma report_prints:
  assumes "prints m"
  shows "\<exists>s1. report m esp ebp s = halt_call 0 esp ebp s1 \<and> same_procs s s1 \<and>
    s1 = fold (\<lambda>c. terminal_putc c (active_terminal s)) m s"
proof -
  have "printf_text (m @ [0]) [] = Some (map (Pair To_active) m, length m)"
    using printf_plain[of m "[]" "[]"] assms by (simp add: prints_def)
  from printf_correct[OF this] have "printf (m @ [0]) [] s = Done (length m, fold put_on (map (Pair To_active) m) s)" .
  then show ?thesis
    using fold_putc_procs[of s "active_terminal s" m] unfolding report_def error_code
    by (simp add: fold_putc_active)
qed

text \<open>What the user reads, by vector.\<close>

fun exception_text :: "handler \<Rightarrow> u8 list" where
  "exception_text DivideError = chars ''Divide error handler happening '' @ [10]"
| "exception_text DebugException = chars ''Debug exception handler happening '' @ [10]"
| "exception_text nmiInterrupt = chars ''nmi Interrupt handler happening '' @ [10]"
| "exception_text Breakpoint = chars ''breakpoint  handler happening '' @ [10]"
| "exception_text Overflow = chars ''overflow handler happening '' @ [10]"
| "exception_text BoundRangeExceeded = chars ''bound range exceeded handler happening '' @ [10]"
| "exception_text InvalidOpcode = chars ''invalid opcode handler happening '' @ [10]"
| "exception_text DeviceNotAvailable = chars '' Device Not Available handler happening '' @ [10]"
| "exception_text DoubleFault = chars '' Double Fault handler happening '' @ [10]"
| "exception_text CoprocessorSegmentOverun = chars '' Coprocessor Segment Overun handler happening '' @ [10]"
| "exception_text InvalidTssException = chars '' Invalid Tss Exception handler happening '' @ [10]"
| "exception_text SegmentNotPresent = chars '' Segment Not Present handler happening '' @ [10]"
| "exception_text StackFaultExecption = chars '' Stack Fault Execption handler happening '' @ [10]"
| "exception_text GeneralProtectionException = chars ''  General Protection Exception handler happening '' @ [10]"
| "exception_text Pagefault = chars '' Page fault handler happening '' @ [10]"
| "exception_text Mathfault = chars '' Math fault handler happening '' @ [10]"
| "exception_text AlignmentCheck = chars '' Alignment Check handler happening '' @ [10]"
| "exception_text MachineCheck = chars '' Machine Check handler happening '' @ [10]"
| "exception_text SimdFltPtException = chars '' Simd Flt Pt Exception handler happening '' @ [10]"
| "exception_text _ = []"

lemma handler_reports:
  "exception_handler h = Some f \<Longrightarrow> f = report (exception_text h)"
  by (cases h; simp only: exception_handler.simps option.inject option.distinct exception_handler_defs exception_text.simps)

lemma exception_text_prints: "prints (exception_text h)"
  by (cases h; simp add: prints_def chars_def)

text \<open>
  An exception in a program that was started by another resumes the parent with status 0, not the
  256 that the comments promise.
\<close>

theorem exception_pops:
  assumes "exception_handler h = Some f" "proc_rel s st" "active_terminal s < 3"
    and "st (active_terminal s) = (p, esp, ebp) # (p', r) # below"
  shows "\<exists>s'. f esp' ebp' s = Done (Resume 0 esp ebp, s') \<and>
    proc_rel s' (st(active_terminal s := (p', r) # below)) \<and> active_terminal s' = active_terminal s"
proof -
  note m = exception_text_prints[of h] handler_reports[OF assms(1)]
  obtain s1 where s1: "report (exception_text h) esp' ebp' s = halt_call 0 esp' ebp' s1" "same_procs s s1"
    using report_prints[OF m(1), of esp' ebp' s] by blast
  have act: "active_terminal s1 = active_terminal s" using s1(2) by (simp add: same_procs_def)
  show ?thesis
    using halt_pops[OF proc_rel_same[OF s1(2) assms(2)], of p esp ebp p' r below 0 esp' ebp'] assms(3,4)
    by (auto simp: act m(2) s1(1))
qed

end
