(* ===== verification/Syscalls.thy ===== *)
theory Syscalls
  imports Exceptions
begin

text \<open>
  The system call entry of exceptions.S (\<open>syscall_handler_pseudo\<close> and its table
  \<open>do_syscall_in_C\<close>), and what every call leaves alone: the process stacks, the page structures
  and the choice of terminal (\<open>same_kernel\<close>), with the exceptions \<open>execute\<close>, \<open>halt\<close> and \<open>vidmap\<close>.
\<close>

section \<open>The entry\<close>

text \<open>A string argument is what lies between the pointer and the end of the user page.\<close>

definition user_string :: "nat \<Rightarrow> kernel \<Rightarrow> u8 list outcome" where
  "user_string va s =
     (if 0x8000000 \<le> va \<and> va < 0x8400000 then copy_in va (0x8400000 - va) s else Fault WildPointer)"

definition returns :: "(int \<times> kernel) outcome \<Rightarrow> (control \<times> kernel) outcome" where
  "returns m = andthen m (\<lambda>(r, s). Done (Return r, s))"

definition do_syscall_in_C ::
    "(kernel \<Rightarrow> kernel) list \<Rightarrow> int \<Rightarrow> u32 \<Rightarrow> u32 \<Rightarrow> u32 \<Rightarrow> u32 \<Rightarrow> u32 \<Rightarrow> kernel \<Rightarrow> (control \<times> kernel) outcome" where
  "do_syscall_in_C evs n ebx ecx edx esp ebp s =
     (if n = 0 then returns (ignoreThisEntry s)
      else if n = 1 then halt_call (ucast ebx) esp ebp s
      else if n = 2 then andthen (user_string (unat ebx) s) (\<lambda>command. execute_call command esp ebp s)
      else if n = 3 then returns (read_call evs (sint ebx) (unat ecx) (sint edx) s)
      else if n = 4 then returns (write_call (sint ebx) (unat ecx) (sint edx) s)
      else if n = 5 then (if ebx = 0 then returns (open_call None s)
                          else andthen (user_string (unat ebx) s) (\<lambda>name. returns (open_call (Some name) s)))
      else if n = 6 then returns (close_call (sint ebx) s)
      else if n = 7 then returns (getargs_call (unat ebx) (sint ecx) s)
      else if n = 8 then returns (vidmap_call (unat ebx) s)
      else if n = 9 then returns (set_handler_call s)
      else if n = 10 then returns (sigreturn_call s)
      else Fault WildPointer)"

text \<open>The comparisons with 1 and 11 are signed.\<close>

definition syscall_entry ::
    "(kernel \<Rightarrow> kernel) list \<Rightarrow> u32 \<Rightarrow> u32 \<Rightarrow> u32 \<Rightarrow> u32 \<Rightarrow> u32 \<Rightarrow> u32 \<Rightarrow> kernel \<Rightarrow> (control \<times> kernel) outcome" where
  "syscall_entry evs eax ebx ecx edx esp ebp s =
     (let s = cli s in
      if sint eax < 1 \<or> sint eax \<ge> 11 then Done (Return (-1), sti s)
      else andthen (do_syscall_in_C evs (sint eax) ebx ecx edx esp ebp (sti s))
             (\<lambda>(c, s). case c of Return r \<Rightarrow> Done (Return r, sti (cli s)) | _ \<Rightarrow> Done (c, s)))"

lemma syscall_bad_number:
  "sint eax < 1 \<or> 11 \<le> sint eax \<Longrightarrow>
   syscall_entry evs eax ebx ecx edx esp ebp s = Done (Return (-1), s\<lparr>if_flag := True\<rparr>)"
  by (auto simp: syscall_entry_def cli_def sti_def)

text \<open>No call reaches the end of the table or its entry 0.\<close>

lemma syscall_in_table:
  assumes "\<not> (sint eax < 1 \<or> 11 \<le> sint eax)"
  obtains n where "n \<in> {1..10}" "syscall_entry evs eax ebx ecx edx esp ebp s =
    andthen (do_syscall_in_C evs n ebx ecx edx esp ebp (s\<lparr>if_flag := True\<rparr>))
      (\<lambda>(c, s). case c of Return r \<Rightarrow> Done (Return r, sti (cli s)) | _ \<Rightarrow> Done (c, s))"
  using assms by (intro that[of "sint eax"]) (auto simp: syscall_entry_def cli_def sti_def)

section \<open>What the calls leave alone\<close>

text \<open>The fields of a control block that the process stacks rest on.\<close>

definition pcb_core :: "pcb_t \<Rightarrow> u32 \<times> u32 \<times> u32 \<times> u32 \<times> int" where
  "pcb_core q = (process_id q, parent_process_id q, task_esp q, task_ebp q, terminal_on q)"

definition term_core :: "terminal_t \<Rightarrow> int \<times> int \<times> int" where
  "term_core t = (pid t, parentpid t, init_flag t)"

definition same_frames :: "kernel \<Rightarrow> kernel \<Rightarrow> bool" where
  "same_frames s s' \<longleftrightarrow>
     (\<forall>a. pcb_core (pcbs s' a) = pcb_core (pcbs s a)) \<and>
     (\<forall>t. term_core (terminal s' t) = term_core (terminal s t)) \<and>
     pid_array s' = pid_array s \<and> active_terminal s' = active_terminal s \<and>
     page_directory s' 32 = page_directory s 32 \<and> tss_esp0 s' = tss_esp0 s"

text \<open>The page tables, and the count of the shells started by the timer.\<close>

definition tables :: "kernel \<Rightarrow> (nat \<Rightarrow> u32) \<times> (nat \<Rightarrow> u32) \<times> u32 \<times> u32 \<times> int" where
  "tables s = (page_table s, page_table_video s, page_table_addr s, page_table_video_addr s, init_count s)"

definition same_kernel :: "kernel \<Rightarrow> kernel \<Rightarrow> bool" where
  "same_kernel s s' \<longleftrightarrow> same_frames s s' \<and> page_directory s' = page_directory s \<and>
     tables s' = tables s \<and> displayed_terminal s' = displayed_terminal s"

lemmas same_kernel_defs = same_kernel_def same_frames_def tables_def

lemma same_kernel_refl [simp]: "same_kernel s s"
  by (simp add: same_kernel_defs)

lemma same_kernel_trans: "same_kernel s s1 \<Longrightarrow> same_kernel s1 s2 \<Longrightarrow> same_kernel s s2"
  by (simp add: same_kernel_defs)

lemma same_kernel_upd [frame]:
  "same_kernel s (s\<lparr>if_flag := b\<rparr>)" "same_kernel s (s\<lparr>phys := m\<rparr>)" "same_kernel s (s\<lparr>internalCounter := i\<rparr>)"
  "same_kernel s (s\<lparr>outs := log\<rparr>)" "same_kernel s (s\<lparr>str_len := n\<rparr>)"
  "(\<And>t. term_core (f t) = term_core t) \<Longrightarrow> same_kernel s (upd_term t f s)"
  "(\<And>q. pcb_core (g q) = pcb_core q) \<Longrightarrow> same_kernel s (upd_pcb a g s)"
  by (simp_all add: same_kernel_defs upd_term_def upd_pcb_def)

lemma same_kernel_cli [frame]: "same_kernel s (cli s)" "same_kernel s (sti s)" "same_kernel s (outb d p s)"
  by (simp_all add: cli_def sti_def outb_def frame)

lemma pcb_core_upd [simp]:
  "pcb_core (upd_fd i f q) = pcb_core q" "term_core (t\<lparr>tempbuf := b\<rparr>) = term_core t"
  "term_core (t\<lparr>line_length := n\<rparr>) = term_core t" "term_core (t\<lparr>enter_flag := v\<rparr>) = term_core t"
  "term_core (t\<lparr>rtc_flag := v\<rparr>) = term_core t" "term_core (t\<lparr>rtc_counter := w, rtc_target := x\<rparr>) = term_core t"
  by (simp_all add: pcb_core_def upd_fd_def term_core_def)

text \<open>The frame of a part, lifted over a following part.\<close>

lemma same_kernel_then:
  "(\<And>a x. m = Done (a, x) \<Longrightarrow> same_kernel s x) \<Longrightarrow>
   (\<And>a x r s'. f (a, x) = Done (r, s') \<Longrightarrow> same_kernel x s') \<Longrightarrow>
   andthen m f = Done (r, s') \<Longrightarrow> same_kernel s s'"
  unfolding andthen_Done_iff using same_kernel_trans by (metis surj_pair)

lemma putc_kernel [frame]: "same_kernel s (terminal_putc c tid s)"
proof -
  have "term_core (terminal (terminal_putc c tid s) t) = term_core (terminal s t)" for t
    by (rule putc_keeps[where f = "\<lambda>s. term_core (terminal s t)"]) (simp add: no_console_def term_core_def)
  moreover have "tables (terminal_putc c tid s) = tables s"
    by (rule putc_keeps) (simp add: no_console_def tables_def)
  ultimately show ?thesis
    using putc_procs[of s c tid] by (simp add: same_kernel_def same_frames_def same_procs_def)
qed

lemma fold_putc_kernel [frame]: "same_kernel s (fold (\<lambda>c. terminal_putc c tid) cs s)"
proof (induction cs arbitrary: s)
  case (Cons c cs)
  show ?case unfolding fold_simps by (rule same_kernel_trans[OF putc_kernel Cons.IH])
qed simp

lemma copy_out_kernel: "copy_out va bs s = Done s' \<Longrightarrow> same_kernel s s'"
  by (drule copy_out_frame) (erule ssubst, rule same_kernel_upd)

lemma message_kernel:
  assumes "of_char CHR ''%'' \<notin> set (chars m)" "0 \<notin> set (chars m)" "printf (c_lit m) [] s = Done (n, s')"
  shows "same_kernel s s'"
  using assms(3) unfolding message_eq[OF assms(1,2)] fold_putc_active by (auto simp: frame)

lemma read_data_kernel: "read_data inode offset b len s = Done (r, bs, s') \<Longrightarrow> same_kernel s s'"
  by (auto simp: read_data_def Let_def andthen_Done_iff same_kernel_defs note_verylarge_def
      split: if_splits prod.splits)

text \<open>Waiting keeps what the events keep.\<close>

definition calm :: "(kernel \<Rightarrow> kernel) list \<Rightarrow> bool" where
  "calm evs \<longleftrightarrow> (\<forall>e \<in> set evs. \<forall>s. same_kernel s (e s))"

lemma wait_kernel: "calm evs \<Longrightarrow> wait_until c evs s = Done s' \<Longrightarrow> same_kernel s s'"
  using wait_until_keeps[of c evs s s' "same_kernel s"] same_kernel_trans by (auto simp: calm_def)

section \<open>The drivers\<close>

lemma donothing_kernel: "donothing s = Done (r, s') \<Longrightarrow> same_kernel s s'"
  unfolding donothing_eq fold_putc_active by (auto simp: frame)

lemma read_line_kernel:
  assumes "read_line buf s = Done (r, s')"
  shows "same_kernel s s'"
proof -
  obtain x bs where c: "copy_out buf bs (cli s) = Done x" and "s' = sti x"
    using assms by (auto simp: read_line_def Let_def andthen_Done_iff split: if_splits)
  then show ?thesis
    using same_kernel_trans[OF same_kernel_cli(1) same_kernel_trans[OF copy_out_kernel[OF c] same_kernel_cli(2)]]
    by simp
qed

lemma terminal_read_kernel:
  assumes "calm evs" "terminal_read evs fd buf n s = Done (r, s')"
  shows "same_kernel s s'"
proof (cases "buf = 0")
  case True
  then show ?thesis using assms(2) by (auto simp: terminal_read_def frame)
next
  case False
  define s1 where "s1 = sti (upd_term (active_terminal s) (\<lambda>t. t\<lparr>enter_flag := 0\<rparr>) (cli s))"
  have "same_kernel (cli s) (upd_term (active_terminal s) (\<lambda>t. t\<lparr>enter_flag := 0\<rparr>) (cli s))"
    by (rule same_kernel_upd) simp
  then have "same_kernel s s1"
    unfolding s1_def by (rule same_kernel_trans[OF same_kernel_cli(1) same_kernel_trans[OF _ same_kernel_cli(2)]])
  moreover obtain x where "wait_until (\<lambda>s. get_flag s \<noteq> 0) evs s1 = Done x" "read_line buf x = Done (r, s')"
    using assms(2) False by (auto simp: terminal_read_def Let_def s1_def cli_def andthen_Done_iff)
  ultimately show ?thesis
    using same_kernel_trans[OF _ same_kernel_trans[OF wait_kernel[OF assms(1)] read_line_kernel]] by simp
qed

lemma rtc_read_kernel:
  assumes "calm evs" "rtc_read evs fd buf n s = Done (r, s')"
  shows "same_kernel s s'"
proof -
  have "same_kernel s (upd_term (active_terminal s) (\<lambda>t. t\<lparr>rtc_flag := 1\<rparr>) s)"
    by (rule same_kernel_upd) simp
  then show ?thesis
    using assms wait_kernel[OF assms(1)] same_kernel_trans by (auto simp: rtc_read_def andthen_Done_iff)
qed

text \<open>Data is read, and then copied out.\<close>

lemma read_copy_kernel:
  "read_data inode offset b len s = Done (v, bs, x) \<Longrightarrow> copy_out va bs x = Done s' \<Longrightarrow> same_kernel s s'"
  by (rule same_kernel_trans[OF read_data_kernel copy_out_kernel])

lemma read_from_file_kernel: "read_from_file fd buf n s = Done (r, s') \<Longrightarrow> same_kernel s s'"
  by (auto simp: read_from_file_def Let_def andthen_Done_iff intro: read_copy_kernel split: if_splits)

lemma read_from_directory_kernel: "read_from_directory fd buf n s = Done (r, s') \<Longrightarrow> same_kernel s s'"
  by (auto simp: read_from_directory_def Let_def andthen_Done_iff
      intro: same_kernel_upd same_kernel_trans[OF copy_out_kernel] split: if_splits)

lemma read_entry_kernel:
  assumes "calm evs" "read_call_entry t evs fd buf n s = Done (r, s')"
  shows "same_kernel s s'"
  using assms terminal_read_kernel[OF assms(1)] rtc_read_kernel[OF assms(1)] read_from_file_kernel
    read_from_directory_kernel donothing_kernel
  by (cases t) auto

lemma change_freq_kernel [frame]: "same_kernel s (change_freq_virt f s)"
  unfolding change_freq_virt_def by (auto intro!: same_kernel_upd)

lemma terminal_write_kernel:
  assumes "terminal_write fd buf n s = Done (r, s')"
  shows "same_kernel s s'"
proof -
  have "\<exists>tid bs a. s' = s \<or> s' = upd_term a (\<lambda>t. t\<lparr>line_length := 0\<rparr>) (fold (\<lambda>c. terminal_putc c tid) bs s)"
    using assms by (auto simp: terminal_write_def Let_def andthen_Done_iff split: if_splits)
  then obtain tid bs a where
    "s' = s \<or> s' = upd_term a (\<lambda>t. t\<lparr>line_length := 0\<rparr>) (fold (\<lambda>c. terminal_putc c tid) bs s)" by blast
  moreover have "same_kernel s (upd_term a (\<lambda>t. t\<lparr>line_length := 0\<rparr>) (fold (\<lambda>c. terminal_putc c tid) bs s))"
    by (rule same_kernel_trans[OF fold_putc_kernel]) (rule same_kernel_upd, simp)
  ultimately show ?thesis by auto
qed

lemma write_entry_kernel:
  "write_call_entry t fd buf n s = Done (r, s') \<Longrightarrow> same_kernel s s'"
  by (cases t) (auto simp: write_to_file_def write_to_directory_def rtc_write_def Let_def andthen_Done_iff
      frame dest: terminal_write_kernel donothing_kernel split: if_splits)

lemma close_entry_kernel: "close_call_entry t fd s = Done (r, s') \<Longrightarrow> same_kernel s s'"
  by (cases t) (auto simp: close_file_def close_directory_def rtc_close_def terminal_close_def frame)

section \<open>The calls\<close>

theorem file_calls_kernel:
  "calm evs \<Longrightarrow> read_call evs fd buf n s = Done (r, s') \<Longrightarrow> same_kernel s s'"
  "write_call fd buf n s = Done (r, s') \<Longrightarrow> same_kernel s s'"
  "open_call name s = Done (r, s') \<Longrightarrow> same_kernel s s'"
  "close_call fd s = Done (r, s') \<Longrightarrow> same_kernel s s'"
  "getargs_call buf n s = Done (r, s') \<Longrightarrow> same_kernel s s'"
proof -
  assume calm: "calm evs" and r: "read_call evs fd buf n s = Done (r, s')"
  have u: "same_kernel s x \<Longrightarrow> same_kernel s (upd_pcb a (upd_fd i f) x)" for x a i f
    by (rule same_kernel_trans, assumption, rule same_kernel_upd) simp
  show "same_kernel s s'"
    using r read_entry_kernel[OF calm]
    by (auto simp: read_call_def Let_def andthen_Done_iff intro!: u split: if_splits)
next
  show "write_call fd buf n s = Done (r, s') \<Longrightarrow> same_kernel s s'"
    using write_entry_kernel by (auto simp: write_call_def split: if_splits)
next
  have "same_kernel s (engage_fd i d s)" for i d
    unfolding engage_fd_def by (rule same_kernel_upd) simp
  then show "open_call name s = Done (r, s') \<Longrightarrow> same_kernel s s'"
    by (cases name; cases "find (free_fd s) [2..<8]")
       (auto simp: open_call_def andthen_Done_iff simp del: upt_rec_numeral split: option.split_asm)
next
  have rel: "same_kernel s (release_fd i s)" for i
    unfolding release_fd_def by (rule same_kernel_upd) simp
  show "close_call fd s = Done (r, s') \<Longrightarrow> same_kernel s s'"
    using same_kernel_trans[OF rel close_entry_kernel] by (auto simp: close_call_def Let_def split: if_splits)
next
  show "getargs_call buf n s = Done (r, s') \<Longrightarrow> same_kernel s s'"
    by (auto simp: getargs_call_def andthen_Done_iff intro: same_kernel_trans[OF copy_out_kernel copy_out_kernel]
        split: if_splits)
qed

lemma signal_calls_kernel:
  "set_handler_call s = Done (r, s') \<Longrightarrow> same_kernel s s'"
  "sigreturn_call s = Done (r, s') \<Longrightarrow> same_kernel s s'"
  by (auto simp: set_handler_call_def sigreturn_call_def andthen_Done_iff chars_def
      dest!: message_kernel[rotated 2])

lemma vidmap_frames:
  assumes "vidmap_call ptr s = Done (r, s')"
  shows "same_frames s s'"
proof (cases "s' = s")
  case False
  then obtain x where c: "copy_out ptr (le32 VIDMAP_ADDR) x = Done s'" and x: "same_frames s x"
    using assms
    by (auto simp: vidmap_call_def Let_def andthen_Done_iff page_write_defs same_frames_def split: if_splits)
  have "same_frames x s'" using copy_out_kernel[OF c] by (simp add: same_kernel_def)
  then show ?thesis using x by (simp add: same_frames_def)
qed (simp add: same_frames_def)

end
