(* ===== verification/System.thy ===== *)
theory System
  imports Syscalls
begin

text \<open>
  The kernel as a transition system: one step is a system call, an exception, a key, a clock tick
  or a timer tick.  The invariant says that every terminal has a non-empty process stack, that the
  processor runs on the pages and the kernel stack of the active terminal's process, and that the
  page structures give user code nothing else; it holds in every reachable state.
\<close>

section \<open>The process structures by their core\<close>

lemma frames_ok_core:
  "(\<And>a. pcb_core (pcbs s' a) = pcb_core (pcbs s a)) \<Longrightarrow> frames_ok s' t fr = frames_ok s t fr"
  by (induction fr) (auto simp: frame_ok_def Let_def pcb_core_def)

lemma proc_rel_core:
  assumes "\<And>a. pcb_core (pcbs s' a) = pcb_core (pcbs s a)"
    and "\<And>t. term_core (terminal s' t) = term_core (terminal s t)" and "pid_array s' = pid_array s"
  shows "proc_rel s' st = proc_rel s st"
proof -
  have "term_ok (terminal s' t) t fr = term_ok (terminal s t) t fr" for t fr
    using assms(2)[of t] by (auto simp: term_core_def term_ok_def split: list.split)
  then show ?thesis
    unfolding proc_rel_def frames_ok_core[OF assms(1)] assms(3) by simp
qed

lemma same_frames_rel: "same_frames s s' \<Longrightarrow> proc_rel s' st = proc_rel s st"
  by (rule proc_rel_core) (simp_all add: same_frames_def)

lemma same_frames_running: "same_frames s s' \<Longrightarrow> running s' = running s"
  unfolding running_def same_frames_def term_core_def by simp

lemma same_kernel_paging: "same_kernel s s' \<Longrightarrow> paging_inv s' = paging_inv s"
  by (simp add: same_kernel_def tables_def paging_inv_def linked_def)

text \<open>A \<open>void\<close> caller of \<open>execute_call\<close>.\<close>

lemma void_call:
  assumes "andthen m (\<lambda>(c, s). case c of Return r \<Rightarrow> Done (Return 0, s) | _ \<Rightarrow> Done (c, s)) = Done (c, s')"
  shows "(\<exists>r. c = Return 0 \<and> m = Done (Return r, s')) \<or> m = Done (c, s') \<and> (\<forall>r. c \<noteq> Return r)"
  using assms by (cases m) (auto split: control.splits)

section \<open>Base shells\<close>

text \<open>Executing on a terminal without a process gives it its base shell, under the terminal's own id.\<close>

theorem shell_starts:
  assumes rel: "proc_rel s st" and a: "active_terminal s < 3" and none: "st (active_terminal s) = []"
    and ex: "execute_call command esp ebp s = Done (Enter_user e u, s')"
  shows "proc_rel s' (st(active_terminal s := [(active_terminal s, esp, ebp)])) \<and> running s' \<and>
    active_terminal s' = active_terminal s \<and> displayed_terminal s' = displayed_terminal s \<and>
    page_directory s' = (page_directory s)(32 := user_pde (of_nat (active_terminal s)))"
proof -
  let ?a = "active_terminal s" and ?s1 = "upd_term (active_terminal s) (\<lambda>t. t\<lparr>init_flag := 1\<rparr>) s"
  have tm: "init_flag (active_term s) = 0" "pid (active_term s) = int ?a"
    using proc_relD(2)[OF rel a] none by (simp_all add: term_ok_def)
  have en: "entered ?s1 (int ?a) (-1) (arg_text (skip_spaces command)) esp ebp s'" "pid_array s' = pid_array s"
    using execute_call_enters[OF ex] tm a by (simp_all add: runs_shell_def parent_of_def)
  have pcb: "pcbs s' = (pcbs s)(pcb_of (int ?a) := started_pcb (arg_text (skip_spaces command)) (int ?a)
      (-1) ?a esp ebp (pcbs s (pcb_of (int ?a))))"
    using en(1) by (simp add: entered_def upd_term_def)
  have tv: "pid (terminal s' t) = (if t = ?a then int ?a else pid (terminal s t)) \<and>
      parentpid (terminal s' t) = (if t = ?a then -1 else parentpid (terminal s t)) \<and>
      init_flag (terminal s' t) = (if t = ?a then 1 else init_flag (terminal s t))" for t
    using en(1) by (auto simp: entered_def upd_term_def)
  have old: "frames_ok s' t (st t)" if "t < 3" "t \<noteq> ?a" for t
  proof (rule frames_ok_upd[OF proc_relD(1)[OF rel that(1)], of ?a])
    show "?a \<notin> fst ` set (st t)"
      using frames_ok_bounds[OF proc_relD(1)[OF rel that(1)], of ?a] that(2) a by auto
  qed (use a pcb in simp_all)
  have new: "frame_ok s' ?a [] (?a, esp, ebp)"
    using a by (simp add: frame_ok_def Let_def pcb started_pcb_def)
  have "proc_rel s' (st(?a := [(?a, esp, ebp)]))"
    unfolding proc_rel_def
  proof (intro conjI allI impI)
    fix t :: nat assume t: "t < 3"
    show "frames_ok s' t ((st(?a := [(?a, esp, ebp)])) t)" using old[OF t] new by (cases "t = ?a") simp_all
    show "term_ok (terminal s' t) t ((st(?a := [(?a, esp, ebp)])) t)"
      using proc_relD(2)[OF rel t] tv[of t]
      by (cases "t = ?a"; cases "st t") (simp_all add: term_ok_def)
  next
    fix t v :: nat assume tv: "t < 3" "v < 3" "t \<noteq> v"
    have "?a \<notin> pids_of st w" if "w < 3" "w \<noteq> ?a" for w
      using frames_ok_bounds[OF proc_relD(1)[OF rel that(1)], of ?a] that(2) a by (auto simp: pids_of_def)
    moreover have "pids_of st t \<inter> pids_of st v = {}" using rel tv by (simp add: proc_rel_def)
    ultimately show "pids_of (st(?a := [(?a, esp, ebp)])) t \<inter> pids_of (st(?a := [(?a, esp, ebp)])) v = {}"
      using tv by (auto simp: pids_of_def)
  next
    fix j :: nat assume j: "3 \<le> j \<and> j < 6"
    then have "pid_array s j \<noteq> 0 \<longleftrightarrow> (\<exists>t<3. j \<in> pids_of st t)" using rel by (simp add: proc_rel_def)
    moreover have "j \<in> pids_of (st(?a := [(?a, esp, ebp)])) t \<longleftrightarrow> j \<in> pids_of st t" for t
      using j a none by (auto simp: pids_of_def)
    ultimately show "pid_array s' j \<noteq> 0 \<longleftrightarrow> (\<exists>t<3. j \<in> pids_of (st(?a := [(?a, esp, ebp)])) t)"
      by (simp add: en(2))
  qed
  moreover have "running s'" "active_terminal s' = ?a"
    using en(1) by (simp_all add: running_def entered_def upd_term_def)
  ultimately show ?thesis using en(1) by (simp add: entered_def upd_term_def)
qed

text \<open>A base shell that halts is started again.\<close>

theorem halt_restarts_shell:
  assumes rel: "proc_rel s st" and a: "active_terminal s < 3" and base: "st (active_terminal s) = [f]"
    and h: "halt_call status esp ebp s = Done (Enter_user e u, s')"
  shows "proc_rel s' (st(active_terminal s := [(active_terminal s, esp, ebp)])) \<and> running s' \<and>
    active_terminal s' = active_terminal s \<and> displayed_terminal s' = displayed_terminal s \<and>
    page_directory s' = (page_directory s)(32 := user_pde (of_nat (active_terminal s)))"
proof -
  let ?a = "active_terminal s"
  have "pid (active_term s) = int (fst f)" "fst f = ?a"
    using proc_relD[OF rel a] base by (auto simp: term_ok_def frame_ok_def Let_def split: prod.splits)
  then have pid: "pid (active_term s) = int ?a" by simp
  define s0 where "s0 = upd_term ?a (\<lambda>t. t\<lparr>rtc_counter := DEFAULT_COUNTER, rtc_target := DEFAULT_TARGET\<rparr>)
    (s\<lparr>curr_pid := int ?a\<rparr>)"
  define s1 where "s1 = upd_term ?a (\<lambda>t. t\<lparr>pid := int ?a, parentpid := -1, init_flag := 0\<rparr>)
    (s0\<lparr>curr_pid := int ?a, save_parent_pid := -1\<rparr>)"
  have "halt_call status esp ebp s = halt_shell esp ebp s0"
    using a by (simp add: halt_call_def Let_def pid s0_def upd_term_def)
  moreover have "active_terminal s0 = ?a" by (simp add: s0_def upd_term_def)
  then have "halt_shell esp ebp s0 = andthen (execute_call shell_command esp ebp s1)
      (\<lambda>(c, s). case c of Return r \<Rightarrow> Done (Return 0, s) | _ \<Rightarrow> Done (c, s))"
    by (simp add: halt_shell_def Let_def s1_def)
  ultimately have "andthen (execute_call shell_command esp ebp s1)
      (\<lambda>(c, s). case c of Return r \<Rightarrow> Done (Return 0, s) | _ \<Rightarrow> Done (c, s)) = Done (Enter_user e u, s')"
    using h by simp
  from void_call[OF this] have ex: "execute_call shell_command esp ebp s1 = Done (Enter_user e u, s')"
    by auto
  note s1_def = s1_def s0_def upd_term_def
  have s1: "active_terminal s1 = ?a" "displayed_terminal s1 = displayed_terminal s"
    "page_directory s1 = page_directory s" by (simp_all add: s1_def)
  have "proc_rel s1 (st(?a := []))"
    unfolding proc_rel_def
  proof (intro conjI allI impI)
    fix t :: nat assume t: "t < 3"
    have "frames_ok s1 t fr = frames_ok s t fr" for fr by (rule frames_ok_core) (simp add: s1_def)
    then show "frames_ok s1 t ((st(?a := [])) t)" using proc_relD(1)[OF rel t] by simp
    show "term_ok (terminal s1 t) t ((st(?a := [])) t)"
      using proc_relD(2)[OF rel t] by (simp add: s1_def term_ok_def split: list.splits)
  next
    fix t v :: nat assume "t < 3" "v < 3" "t \<noteq> v"
    then show "pids_of (st(?a := [])) t \<inter> pids_of (st(?a := [])) v = {}"
      using rel by (simp add: proc_rel_def pids_of_def)
  next
    fix j :: nat assume j: "3 \<le> j \<and> j < 6"
    then have "j \<in> pids_of (st(?a := [])) t \<longleftrightarrow> j \<in> pids_of st t" for t
      using a base \<open>fst f = ?a\<close> by (auto simp: pids_of_def)
    then show "pid_array s1 j \<noteq> 0 \<longleftrightarrow> (\<exists>t<3. j \<in> pids_of (st(?a := [])) t)"
      using rel j by (simp add: proc_rel_def s1_def)
  qed
  from shell_starts[OF this _ _ ex] a show ?thesis by (simp add: s1)
qed

section \<open>The page tables under execute and halt\<close>

lemma clear_temp_buff_kernel [frame]: "same_kernel s (clear_temp_buff s)"
proof -
  have f: "same_kernel s (fold (\<lambda>j. upd_term d (\<lambda>t. t\<lparr>tempbuf := (tempbuf t)[j := 0]\<rparr>)) js s)" for d js s
  proof (induction js arbitrary: s)
    case (Cons j js)
    show ?case unfolding fold_simps
      by (rule same_kernel_trans[OF _ Cons.IH]) (rule same_kernel_upd, simp add: term_core_def)
  qed simp
  show ?thesis unfolding clear_temp_buff_def by (rule same_kernel_trans[OF f same_kernel_upd(5)])
qed

lemma tables_kernel: "same_kernel s s' \<Longrightarrow> tables s' = tables s"
  by (simp add: same_kernel_def)

lemma tables_clear [simp]: "tables (clear_temp_buff s) = tables s"
  by (rule tables_kernel[OF clear_temp_buff_kernel])

lemma tables_upd [simp]:
  "tables (cli s) = tables s" "tables (s\<lparr>curr_pid := p\<rparr>) = tables s" "tables (upd_term t f s) = tables s"
  "tables (upd_pcb a g s) = tables s" "tables (take_pid i s) = tables s" "tables (release_pid i s) = tables s"
  "tables (virt_to_phys_user q s) = tables s" "tables (set_tss p s) = tables s"
  "tables (s\<lparr>save_parent_pid := p\<rparr>) = tables s"
  by (simp_all add: tables_def cli_def upd_term_def upd_pcb_def take_pid_def release_pid_def
      virt_to_phys_user_eq set_tss_def)

lemma find_program_tables: "find_program c s = Done (r, s') \<Longrightarrow> tables s' = tables s"
  by (auto simp: find_program_def Let_def andthen_Done_iff dest: tables_kernel[OF read_data_kernel]
      split: option.splits if_splits)

lemma load_program_tables: "load_program inode s = Done (r, s') \<Longrightarrow> tables s' = tables s"
  by (auto simp: load_program_def andthen_Done_iff dest!: tables_kernel[OF read_data_kernel]
      tables_kernel[OF copy_out_kernel])

lemma entry_point_tables: "entry_point inode s = Done (r, s') \<Longrightarrow> tables s' = tables s"
  by (auto simp: entry_point_def Let_def andthen_Done_iff dest: tables_kernel[OF read_data_kernel])

lemma setup_tables: "setup_pcb arg (set_parent old s) = Done s' \<Longrightarrow> tables s' = tables s"
  by (auto simp: setup_pcb_def set_parent_def Let_def split: if_splits)

lemma start_program_tables: "start_program inode arg old esp ebp s = Done (c, s') \<Longrightarrow> tables s' = tables s"
  by (auto simp: start_program_def Let_def andthen_Done_iff dest!: load_program_tables setup_tables
      entry_point_tables split: if_splits)

lemma choose_pid_tables: "choose_pid s = Some s' \<Longrightarrow> tables s' = tables s"
  by (auto simp: choose_pid_def simp del: upt_rec_numeral split: if_splits option.splits)

lemma exec_begin_tables [simp]: "tables (exec_begin s) = tables s"
  by (simp add: exec_begin_def Let_def)

lemma execute_tables:
  assumes "execute_call command esp ebp s = Done (c, s')"
  shows "tables s' = tables s"
proof -
  obtain n where n: "strlen command = Some n" using assms by (auto simp: execute_call_unfold andthen_Done_iff)
  show ?thesis
  proof (cases "n > 1023")
    case False
    then obtain found x where f: "find_program (skip_spaces command) (exec_begin s) = Done (found, x)"
      using assms n by (auto simp: execute_call_unfold andthen_Done_iff)
    then have x: "tables x = tables s" by (auto dest: find_program_tables)
    show ?thesis
    proof (cases found)
      case (Some inode)
      then show ?thesis
        using assms n False f x
        by (cases "choose_pid x") (auto simp: execute_call_unfold dest!: start_program_tables choose_pid_tables)
    qed (use assms n False f x in \<open>auto simp: execute_call_unfold\<close>)
  qed (use assms n in \<open>auto simp: execute_call_unfold\<close>)
qed

lemma halt_tables: "halt_call status esp ebp s = Done (c, s') \<Longrightarrow> tables s' = tables s"
proof -
  have shell: "halt_shell esp ebp x = Done (c, y) \<Longrightarrow> tables y = tables x" for x y
    by (auto simp: halt_shell_def Let_def dest!: void_call execute_tables)
  have process: "halt_process status x = Done (c, y) \<Longrightarrow> tables y = tables x" for x y
    by (auto simp: halt_process_def Let_def split: if_splits)
  show "halt_call status esp ebp s = Done (c, s') \<Longrightarrow> tables s' = tables s"
    using shell process by (fastforce simp: halt_call_def Let_def split: if_splits)
qed

lemma paging_inv_enter:
  assumes "paging_inv s" "tables s' = tables s" "p < 6"
    and "page_directory s' = (page_directory s)(32 := user_pde (of_nat p))"
  shows "paging_inv s'"
proof -
  have "(of_nat p :: u32) < 6" using assms(3) by (simp add: word_less_nat_alt unat_of_nat)
  then show ?thesis using assms by (auto simp: paging_inv_def linked_def tables_def)
qed

section \<open>The invariant\<close>

definition sys_inv :: "kernel \<Rightarrow> (nat \<Rightarrow> frame list) \<Rightarrow> bool" where
  "sys_inv s st \<longleftrightarrow> proc_rel s st \<and> (\<forall>t<3. st t \<noteq> []) \<and> active_terminal s < 3 \<and>
     displayed_terminal s < 3 \<and> running s \<and> paging_inv s"

lemma sys_inv_kernel: "same_kernel s s' \<Longrightarrow> sys_inv s st \<Longrightarrow> sys_inv s' st"
  using same_frames_rel[of s s' st] same_frames_running[of s s'] same_kernel_paging[of s s']
  by (simp add: sys_inv_def same_kernel_def same_frames_def)

lemma sys_inv_up: "sys_inv s st \<Longrightarrow> t < 3 \<Longrightarrow> init_flag (terminal s t) = 1"
  using proc_relD(2)[of s st t] by (auto simp: sys_inv_def term_ok_def split: list.splits)

lemma sys_inv_pid:
  assumes "sys_inv s st" "t < 3"
  shows "\<exists>p<6. pid (terminal s t) = int p \<and> p \<in> pids_of st t"
proof -
  obtain f fr where st: "st t = f # fr" using assms by (cases "st t") (auto simp: sys_inv_def)
  have "frames_ok s t (st t)" "term_ok (terminal s t) t (st t)"
    using assms by (simp_all add: sys_inv_def proc_relD)
  then show ?thesis
    using st by (intro exI[of _ "fst f"])
      (auto simp: term_ok_def frame_ok_def Let_def pids_of_def split: prod.splits)
qed

lemma sys_inv_started: "sys_inv s st \<Longrightarrow> all_started s"
proof -
  assume h: "sys_inv s st"
  have "pid (terminal s t) \<noteq> pid (terminal s u)" if "t < 3" "u < 3" "t \<noteq> u" for t u
  proof -
    have "pids_of st t \<inter> pids_of st u = {}" using h that by (simp add: sys_inv_def proc_rel_def)
    then show ?thesis using sys_inv_pid[OF h that(1)] sys_inv_pid[OF h that(2)] by auto
  qed
  moreover have "0 \<le> pid (terminal s t) \<and> pid (terminal s t) < 6" if "t < 3" for t
    using sys_inv_pid[OF h that] by auto
  ultimately show ?thesis
    using h sys_inv_up[OF h] by (simp add: all_started_def sys_inv_def)
qed

section \<open>Clocks and keys\<close>

lemma rtc_intr_kernel: "same_kernel s (rtc_intr s)"
  by (subst rtc_intr_eq) (simp add: same_kernel_defs term_core_def rtc_tick_def Let_def)

text \<open>Seen from the pages, a switch is a remapping of the video page and of the program page.\<close>

definition switched_pages :: "nat \<Rightarrow> kernel \<Rightarrow> kernel" where
  "switched_pages n s = virt_to_phys_user (word_of_int (pid (terminal s n))) (remap_video_mem_user n s)"

lemma schedule_pages:
  assumes "schedule esp ebp s = (c, s')"
  defines "n \<equiv> (active_terminal s + 1) mod 3"
  shows "page_directory s' = page_directory (switched_pages n s)" "tables s' = tables (switched_pages n s)"
  using assms(1)
  by (auto simp: schedule_def Let_def next_terminal_def save_context_def upd_pcb_def set_tss_def tables_def
      remap_video_mem_user_eq virt_to_phys_user_eq n_def switched_pages_def)

lemma paging_inv_cong:
  "page_directory s' = page_directory s \<Longrightarrow> tables s' = tables s \<Longrightarrow> paging_inv s' = paging_inv s"
  by (simp add: tables_def paging_inv_def linked_def)

theorem tick_inv:
  assumes "sys_inv s st" "pit_intr esp ebp xesp xebp s = Done (c, s')"
  shows "sys_inv s' st"
proof -
  let ?n = "(active_terminal s + 1) mod 3"
  define s0 where "s0 = send_eoi PIT_IRQ s"
  have k: "same_kernel s s0"
    by (simp add: s0_def send_eoi_def outb_def same_kernel_defs)
  note inv0 = sys_inv_kernel[OF k assms(1)]
  have e: "active_terminal s0 = active_terminal s" "displayed_terminal s0 = displayed_terminal s"
    by (simp_all add: s0_def send_eoi_def outb_def)
  have sch: "schedule esp ebp s0 = (c, s')"
    using assms(2) pit_intr_all_started[OF sys_inv_started[OF assms(1)]] by (simp add: s0_def)
  note st = schedule_state[OF sch] and pg = schedule_pages[OF sch]
  have "proc_rel s' st = proc_rel s0 st"
    by (rule proc_rel_core) (simp_all add: st pcb_core_def)
  moreover have n: "?n < 3" by simp
  obtain p where p: "p < 6" "pid (terminal s0 ?n) = int p" using sys_inv_pid[OF inv0 n] by blast
  have pde: "(of_nat p :: u32) < 6" using p(1) by (simp add: word_less_nat_alt unat_of_nat)
  have "paging_inv s0" using inv0 by (simp add: sys_inv_def)
  then have "paging_inv (switched_pages ?n s0)"
    unfolding switched_pages_def p(2) by (intro virt_to_phys_inv remap_video_inv n) (simp_all add: pde)
  then have "paging_inv s'" using paging_inv_cong[OF pg] by (simp add: e)
  ultimately show ?thesis
    using inv0 st n by (simp add: sys_inv_def e)
qed

lemma eoi_sti_kernel [frame]: "same_kernel s (eoi_sti s)"
  by (simp add: eoi_sti_eq same_kernel_defs)

lemma clear_kernel [frame]: "same_kernel s (clear s)"
  by (auto simp: clear_def update_cursor_def outb_def Let_def upd_term_def same_kernel_defs term_core_def)

lemma set_temp_kernel: "set_temp j c s = Done s' \<Longrightarrow> same_kernel s s'"
  by (auto simp: set_temp_def intro!: same_kernel_upd split: if_splits)

lemma type_key_kernel:
  assumes "type_key c s = Done s'"
  shows "same_kernel s s'"
proof -
  have e: "same_kernel x (eoi_sti (terminal_putc c d (upd_term d f (x\<lparr>str_len := n\<rparr>))))"
    if "\<And>t. term_core (f t) = term_core t" for d f x n
    by (rule same_kernel_trans[OF same_kernel_upd(5)], rule same_kernel_trans[OF same_kernel_upd(6)[OF that]],
        rule same_kernel_trans[OF putc_kernel eoi_sti_kernel])
  have e0: "same_kernel x (eoi_sti (terminal_putc c d (upd_term d f x)))"
    if "\<And>t. term_core (f t) = term_core t" for d f x
    by (rule same_kernel_trans[OF same_kernel_upd(6)[OF that]],
        rule same_kernel_trans[OF putc_kernel eoi_sti_kernel])
  have t: "term_core (t\<lparr>line_length := n, read_length := m, enter_flag := v\<rparr>) = term_core t" for t n m v
    by (simp add: term_core_def)
  note retreat = same_kernel_trans[OF same_kernel_upd(5) same_kernel_trans[OF set_temp_kernel e0]]
  note go = same_kernel_trans[OF set_temp_kernel e]
  consider (char) "c \<noteq> 0 \<and> c \<noteq> ENT \<and> str_len s < MAX_BUF_SIZE - 1 \<and> c \<noteq> BKSP" | (enter) "c = ENT"
    | (erase) "c = BKSP" "str_len s > 0" 
    | (nothing) "\<not> (c \<noteq> 0 \<and> c \<noteq> ENT \<and> str_len s < MAX_BUF_SIZE - 1 \<and> c \<noteq> BKSP)" "c \<noteq> ENT"
        "\<not> (c = BKSP \<and> str_len s > 0)"
    by meson
  then show ?thesis
  proof cases
    case char
    then obtain x where x: "set_temp (str_len s) c s = Done x" and s': "s' = eoi_sti (terminal_putc c
        (displayed_terminal s) (upd_term (displayed_terminal s) (\<lambda>t. t\<lparr>line_length := str_len x + 1\<rparr>)
          (x\<lparr>str_len := str_len x + 1\<rparr>)))"
      using assms by (auto simp: type_key_def Let_def andthen_Done_iff)
    show ?thesis unfolding s' by (rule go[OF x]) simp
  next
    case enter
    then obtain x where x: "set_temp (str_len s) c s = Done x" and s': "s' = eoi_sti (terminal_putc c
        (displayed_terminal s) (upd_term (displayed_terminal s) (\<lambda>t. t\<lparr>line_length := 0,
            read_length := str_len x + 1, enter_flag := 1\<rparr>) (x\<lparr>str_len := str_len x + 1\<rparr>)))"
      using assms by (auto simp: type_key_def Let_def andthen_Done_iff)
    show ?thesis unfolding s' by (rule go[OF x]) (rule t)
  next
    case erase
    then obtain x where x: "set_temp (str_len s - 1) 0 (s\<lparr>str_len := str_len s - 1\<rparr>) = Done x"
      and s': "s' = eoi_sti (terminal_putc c (displayed_terminal s)
        (upd_term (displayed_terminal s) (\<lambda>t. t\<lparr>line_length := str_len x\<rparr>) x))"
      using assms by (auto simp: type_key_def Let_def andthen_Done_iff)
    show ?thesis unfolding s' by (rule retreat[OF x]) simp
  next
    case nothing
    then have "s' = eoi_sti s" using assms by (auto simp: type_key_def Let_def split: if_splits)
    then show ?thesis by (simp add: frame)
  qed
qed

lemma modifiers_kernel: "modifiers k s = Some s' \<Longrightarrow> same_kernel s s'"
  by (auto simp: modifiers_def same_kernel_defs split: if_splits)

text \<open>Switching the display among terminals that have shells.\<close>

lemma open_terminal_inv:
  assumes "sys_inv s st" "0 \<le> tid" "open_terminal tid esp ebp s = Done (c, s')"
  shows "sys_inv s' st"
proof -
  define x where "x = cli s"
  have inv: "sys_inv x st" unfolding x_def by (rule sys_inv_kernel[OF same_kernel_cli(1) assms(1)])
  show ?thesis
  proof (cases "tid > 2 \<or> tid = int (displayed_terminal x)")
    case True
    then show ?thesis using assms(3) inv by (auto simp: open_terminal_def Let_def x_def split: if_splits)
  next
    case False
    obtain n where n: "tid = int n" "n < 3" using False assms(2) by (metis nat_0_le nat_less_iff not_less of_nat_numeral zle_int linorder_not_less less_Suc_eq_le numeral_3_eq_3 numeral_2_eq_2)
    define y where "y = remap_video_mem_user n (switch_screens n x)"
    have d: "displayed_terminal (switch_screens n x) = n"
      by (simp add: switch_screens_def save_def restore_def Let_def)
    have t: "term_core (terminal (switch_screens n x) u) = term_core (terminal x u)" for u
      by (simp add: switch_screens_def save_def restore_def Let_def upd_term_def term_core_def)
    have tb: "tables (switch_screens n x) = tables x"
      by (simp add: switch_screens_def save_def restore_def Let_def upd_term_def tables_def)
    have fr: "same_frames x y" by (simp add: same_frames_def y_def frame t)
    have "paging_inv (switch_screens n x)"
      using inv tb by (simp add: sys_inv_def paging_inv_def linked_def tables_def frame)
    then have pg: "paging_inv y" unfolding y_def by (rule remap_video_inv[OF _ n(2)])
    have y: "sys_inv y st"
      using inv same_frames_rel[OF fr] same_frames_running[OF fr] pg n(2) fr
      by (simp add: sys_inv_def y_def frame d same_frames_def)
    then have up: "init_flag (displayed_term y) \<noteq> 0"
      using sys_inv_up[OF y] by (simp add: sys_inv_def)
    have "s' = sti (update_screen_xy (cur_x (displayed_term y)) (cur_y (displayed_term y)) y)"
      using assms(3) False up n(1) by (auto simp: open_terminal_def Let_def x_def[symmetric] d y_def[symmetric])
    moreover have "same_kernel y (sti (update_screen_xy a b y))" for a b
      by (simp add: update_screen_xy_def update_cursor_def outb_def sti_def upd_term_def Let_def
          same_kernel_defs term_core_def)
    ultimately show ?thesis using sys_inv_kernel[OF _ y] by simp
  qed
qed

theorem key_inv:
  assumes "sys_inv s st" "print_keycode status k beyond esp ebp s = Done (c, s')"
  shows "sys_inv s' st"
proof -
  define x where "x = (cli s)\<lparr>str_len := line_length (displayed_term (cli s))\<rparr>"
  have "same_kernel s x" unfolding x_def by (rule same_kernel_trans[OF same_kernel_cli(1) same_kernel_upd(5)])
  note x = sys_inv_kernel[OF this assms(1)]
  note keep = sys_inv_kernel[OF _ x]
  show ?thesis
  proof (cases "status AND READMASK = 0")
    case True
    then show ?thesis using assms(2) x by (auto simp: print_keycode_def Let_def x_def)
  next
    case status: False
    show ?thesis
    proof (cases "modifiers k x")
      case None
      then have "s' = eoi_sti x" using assms(2) status by (auto simp: print_keycode_def Let_def x_def)
      then show ?thesis using keep by (simp add: frame)
    next
      case (Some y)
      note y = sys_inv_kernel[OF modifiers_kernel[OF Some] x]
      have step: "(if control_key y \<noteq> 0 \<and> k = L then Done (Return 0, eoi_sti (clear y))
              else if alt_key y \<noteq> 0 \<and> (k = F1 \<or> k = F2 \<or> k = F3) then shortcut k esp ebp y
              else andthen (type_key (keyboard_char beyond k (key_index y)) y) (\<lambda>s. Done (Return 0, s))) = Done (c, s')"
        using assms(2) status Some by (simp add: print_keycode_def Let_def x_def)
      show ?thesis
      proof (cases "control_key y \<noteq> 0 \<and> k = L")
        case True
        then have "s' = eoi_sti (clear y)" using step by simp
        then show ?thesis
          using sys_inv_kernel[OF same_kernel_trans[OF clear_kernel eoi_sti_kernel] y] by simp
      next
        case False
        show ?thesis
        proof (cases "alt_key y \<noteq> 0 \<and> (k = F1 \<or> k = F2 \<or> k = F3)")
          case True
          define z where "z = send_eoi keyboard_irq y"
          have z: "sys_inv z st"
            by (rule sys_inv_kernel[OF _ y]) (simp add: z_def send_eoi_def outb_def same_kernel_defs)
          obtain c' z' where o: "open_terminal (int (unat (k - F1))) esp ebp z = Done (c', z')"
            and s': "s' = z' \<or> s' = sti z'"
          proof -
            have "andthen (open_terminal (int (unat (k - F1))) esp ebp z) (\<lambda>(c, s).
                case c of Return r \<Rightarrow> Done (Return 0, sti s) | _ \<Rightarrow> Done (c, s)) = Done (c, s')"
              using step False True by (simp only: shortcut_def z_def if_False if_True simp_thms)
            then show thesis
              by (cases "open_terminal (int (unat (k - F1))) esp ebp z")
                (auto split: control.splits intro: that)
          qed
          have "sys_inv z' st" by (rule open_terminal_inv[OF z _ o]) simp
          then show ?thesis using s' sys_inv_kernel[OF same_kernel_cli(2)] by blast
        next
          case no_alt: False
          then obtain w where "type_key (keyboard_char beyond k (key_index y)) y = Done s'"
            using step False by (auto simp: andthen_Done_iff)
          then show ?thesis by (rule sys_inv_kernel[OF type_key_kernel y])
        qed
      qed
    qed
  qed
qed

section \<open>Execute, halt, exceptions\<close>

lemma execute_result:
  assumes "execute_call command esp ebp s = Done (c, s')"
  shows "(\<exists>r. c = Return r) \<or> (\<exists>e u. c = Enter_user e u)"
proof -
  obtain n where n: "strlen command = Some n" using assms by (auto simp: execute_call_unfold andthen_Done_iff)
  have sp: "start_program inode arg old esp ebp x = Done (c, s') \<Longrightarrow> ?thesis" for inode arg old x
    by (auto simp: start_program_def Let_def andthen_Done_iff split: if_splits)
  show ?thesis
  proof (cases "n > 1023")
    case False
    then obtain found x where f: "find_program (skip_spaces command) (exec_begin s) = Done (found, x)"
      using assms n by (auto simp: execute_call_unfold andthen_Done_iff)
    show ?thesis
    proof (cases found)
      case (Some inode)
      then show ?thesis
        using assms n False f sp by (cases "choose_pid x") (auto simp: execute_call_unfold)
    qed (use assms n False f in \<open>auto simp: execute_call_unfold\<close>)
  qed (use assms n in \<open>auto simp: execute_call_unfold\<close>)
qed

lemma halt_process_pages:
  assumes "halt_process status s = Done (c, s')"
  shows "(\<exists>r e b. c = Resume r e b) \<and> (\<exists>v. page_directory s' = (page_directory s)(32 := v)) \<and>
    displayed_terminal s' = displayed_terminal s"
proof -
  have "page_directory (clear_temp_buff s) = page_directory s"
    "displayed_terminal (clear_temp_buff s) = displayed_terminal s"
    using clear_temp_buff_kernel[of s] by (simp_all add: same_kernel_def)
  then show ?thesis
    using assms by (auto simp: halt_process_def Let_def upd_pcb_def upd_term_def release_pid_def set_tss_def
        virt_to_phys_user_eq split: if_splits)
qed

theorem execute_inv:
  assumes inv: "sys_inv s st" and ex: "execute_call command esp ebp s = Done (Enter_user e u, s')"
  shows "\<exists>i. sys_inv s' (st(active_terminal s := (i, esp, ebp) # st (active_terminal s)))"
proof -
  have rel: "proc_rel s st" "active_terminal s < 3" "st (active_terminal s) \<noteq> []"
    using inv by (simp_all add: sys_inv_def)
  have up: "\<not> runs_shell s" "init_flag (active_term s) = 1"
    using sys_inv_up[OF inv rel(2)] by (simp_all add: runs_shell_def)
  obtain i where i: "find (free_pid s) [3..<6] = Some i"
    "proc_rel s' (st(active_terminal s := (i, esp, ebp) # st (active_terminal s)))"
    using execute_pushes[OF rel ex] by blast
  have en: "entered s (int i) (pid (active_term s)) (arg_text (skip_spaces command)) esp ebp s'"
    using execute_call_enters[OF ex] up i(1) by (auto simp del: upt_rec_numeral)
  have "i < 6" using i(1) by (simp add: pids_lowest del: upt_rec_numeral)
  then have "paging_inv s'"
    using paging_inv_enter[OF _ execute_tables[OF ex]] inv en by (simp add: sys_inv_def entered_def)
  moreover have "running s'" using en by (simp add: entered_def running_def)
  moreover have "active_terminal s' = active_terminal s" "displayed_terminal s' = displayed_terminal s"
    using en by (simp_all add: entered_def)
  ultimately show ?thesis using inv i(2) by (auto simp: sys_inv_def)
qed

lemma halt_pops_inv:
  assumes inv: "sys_inv s st" and st: "st (active_terminal s) = (p, e, b) # (p', r') # bs"
  shows "\<exists>s'. halt_call status esp ebp s = Done (Resume (ucast status) e b, s') \<and>
    sys_inv s' (st(active_terminal s := (p', r') # bs)) \<and> active_terminal s' = active_terminal s"
proof -
  have rel: "proc_rel s st" and a: "active_terminal s < 3" and d: "displayed_terminal s < 3" and pg: "paging_inv s"
    and more: "\<forall>t<3. st t \<noteq> []"
    using inv by (simp_all add: sys_inv_def)
  have pid: "pid (active_term s) = int p" "3 \<le> p"
    using proc_relD[OF rel a] st by (auto simp: term_ok_def frame_ok_def Let_def split: prod.splits if_splits)
  obtain s' where s': "halt_call status esp ebp s = Done (Resume (ucast status) e b, s')"
    "proc_rel s' (st(active_terminal s := (p', r') # bs))" "page_directory s' 32 = user_pde (of_nat p')"
    "tss_esp0 s' = get_kernel_stack_addr (of_nat p')" "active_terminal s' = active_terminal s"
    using halt_pops[OF rel a st, of status esp ebp] by auto
  define s0 where "s0 = upd_term (active_terminal s)
    (\<lambda>t. t\<lparr>rtc_counter := DEFAULT_COUNTER, rtc_target := DEFAULT_TARGET\<rparr>) (s\<lparr>curr_pid := pid (active_term s)\<rparr>)"
  have "halt_process status s0 = Done (Resume (ucast status) e b, s')"
    using s'(1) pid a by (simp add: halt_call_def Let_def s0_def upd_term_def)
  note pages = halt_process_pages[OF this]
  have pd: "page_directory s' = (page_directory s)(32 := user_pde (of_nat p'))"
    using pages s'(3) by (auto simp: s0_def upd_term_def)
  have disp: "displayed_terminal s' = displayed_terminal s" using pages by (simp add: s0_def upd_term_def)
  have tm: "pid (active_term s') = int p'" and p': "p' < 6"
    using proc_relD[OF s'(2), of "active_terminal s"] a
    by (auto simp: s'(5) term_ok_def frame_ok_def Let_def split: prod.splits)
  have "paging_inv s'" by (rule paging_inv_enter[OF pg halt_tables[OF s'(1)] p' pd])
  moreover have "running s'" using tm s'(3,4) by (simp add: running_def)
  ultimately show ?thesis
    using s' a d disp more by (simp add: sys_inv_def)
qed

theorem halt_inv:
  assumes inv: "sys_inv s st" and h: "halt_call status esp ebp s = Done (c, s')" "\<And>r. c \<noteq> Return r"
  shows "\<exists>st'. sys_inv s' st'"
proof -
  have rel: "proc_rel s st" and a: "active_terminal s < 3" and d: "displayed_terminal s < 3" and pg: "paging_inv s"
    using inv by (simp_all add: sys_inv_def)
  have more: "t < 3 \<Longrightarrow> st t \<noteq> []" for t using inv by (simp add: sys_inv_def)
  obtain p r below where st: "st (active_terminal s) = (p, r) # below"
    using more[OF a] by (cases "st (active_terminal s)") auto
  have pid: "pid (active_term s) = int p" "below = [] \<Longrightarrow> p = active_terminal s"
    using proc_relD[OF rel a] st by (auto simp: term_ok_def frame_ok_def Let_def split: prod.splits if_splits)
  show ?thesis
  proof (cases below)
    case Nil
    define s0 where "s0 = upd_term (active_terminal s)
      (\<lambda>t. t\<lparr>rtc_counter := DEFAULT_COUNTER, rtc_target := DEFAULT_TARGET\<rparr>) (s\<lparr>curr_pid := pid (active_term s)\<rparr>)"
    have "halt_shell esp ebp s0 = Done (c, s')"
      using h(1) pid Nil a by (simp add: halt_call_def Let_def s0_def upd_term_def)
    from void_call[OF this[unfolded halt_shell_def Let_def]] h(2)
    obtain x y where "execute_call shell_command esp ebp x = Done (c, y)" by blast
    then obtain e u where c: "c = Enter_user e u" using execute_result h(2) by blast
    have r: "proc_rel s' (st(active_terminal s := [(active_terminal s, esp, ebp)])) \<and> running s' \<and>
        active_terminal s' = active_terminal s \<and> displayed_terminal s' = displayed_terminal s \<and>
        page_directory s' = (page_directory s)(32 := user_pde (of_nat (active_terminal s)))"
      by (rule halt_restarts_shell[OF rel a]) (use st Nil h(1) c in auto)
    have "paging_inv s'"
      by (rule paging_inv_enter[OF pg halt_tables[OF h(1)], of "active_terminal s"]) (use a r in simp_all)
    then show ?thesis
      using r a d more by (intro exI[of _ "st(active_terminal s := [(active_terminal s, esp, ebp)])"])
        (simp add: sys_inv_def)
  next
    case (Cons f bs)
    obtain p' r' e b where "f = (p', r')" "r = (e, b)" by (cases f, cases r)
    then have "st (active_terminal s) = (p, e, b) # (p', r') # bs" using st Cons by simp
    from halt_pops_inv[OF inv this, of status esp ebp] show ?thesis using h(1) by auto
  qed
qed

theorem exception_inv:
  assumes "sys_inv s st" "exception_handler h = Some f" "f esp ebp s = Done (c, s')" "\<And>r. c \<noteq> Return r"
  shows "\<exists>st'. sys_inv s' st'"
proof -
  note m = exception_text_prints[of h] handler_reports[OF assms(2)]
  obtain s1 where s1: "report (exception_text h) esp ebp s = halt_call 0 esp ebp s1"
    "s1 = fold (\<lambda>c. terminal_putc c (active_terminal s)) (exception_text h) s"
    using report_prints[OF m(1), of esp ebp s] by blast
  have "sys_inv s1 st" unfolding s1(2) by (rule sys_inv_kernel[OF fold_putc_kernel assms(1)])
  then show ?thesis by (rule halt_inv) (use assms(3,4) m(2) s1(1) in auto)
qed

text \<open>
  The stacks are well formed: no process twice, six at most, each terminal's base process at the
  bottom, and the process of the terminal on the top.
\<close>

lemma frames_ok_distinct: "frames_ok s t fr \<Longrightarrow> distinct (map fst fr)"
  by (induction fr) auto

lemma frames_ok_base: "frames_ok s t fr \<Longrightarrow> fr \<noteq> [] \<Longrightarrow> fst (last fr) = t"
  by (induction fr) (auto simp: frame_ok_def Let_def split: if_splits)

theorem sys_inv_stacks:
  assumes "sys_inv s st"
  shows "distinct (map fst (st 0 @ st 1 @ st 2))" "length (st 0 @ st 1 @ st 2) \<le> 6"
    and "t < 3 \<Longrightarrow> fst (last (st t)) = t \<and> pid (terminal s t) = int (fst (hd (st t)))"
proof -
  have rel: "proc_rel s st" and ne: "\<And>t. t < 3 \<Longrightarrow> st t \<noteq> []" using assms by (simp_all add: sys_inv_def)
  have fr: "frames_ok s t (st t)" "term_ok (terminal s t) t (st t)" if "t < 3" for t
    using rel that by (simp_all add: proc_rel_def)
  have dj: "pids_of st t \<inter> pids_of st u = {}" if "t < 3" "u < 3" "t \<noteq> u" for t u
    using rel that by (simp add: proc_rel_def)
  show d: "distinct (map fst (st 0 @ st 1 @ st 2))"
    using fr(1)[THEN frames_ok_distinct] dj[of 0 1] dj[of 0 2] dj[of 1 2]
    by (simp add: pids_of_def Int_Un_distrib)
  have "p < 6" if "p \<in> fst ` set (st t)" "t < 3" for p t
    using frames_ok_bounds[OF fr(1)[OF that(2)] that(1)] by simp
  then have "set (map fst (st 0 @ st 1 @ st 2)) \<subseteq> {..<6}" by fastforce
  from card_mono[OF _ this] show "length (st 0 @ st 1 @ st 2) \<le> 6"
    using distinct_card[OF d] by simp
  assume t: "t < 3"
  then show "fst (last (st t)) = t \<and> pid (terminal s t) = int (fst (hd (st t)))"
    using frames_ok_base[OF fr(1)[OF t] ne[OF t]] fr(2)[OF t] ne[OF t]
    by (cases "st t") (auto simp: term_ok_def)
qed

section \<open>Steps and reachable states\<close>

text \<open>
  A \<open>read\<close> of the terminal or the clock that has to wait is two steps, its two halves, with any other
  steps between them: the timer goes on to the other terminals while it waits.  That a second half
  belongs to a first one is not required, which allows more than the code does.
\<close>

definition reads_from :: "op_table \<Rightarrow> int \<Rightarrow> kernel \<Rightarrow> bool" where
  "reads_from ops fd s \<longleftrightarrow> 0 \<le> fd \<and> fd < 8 \<and> flags (cur_fd fd s) \<noteq> NOT_ENGAGED \<and> table_ptr (cur_fd fd s) = ops"

definition await_line :: "kernel \<Rightarrow> kernel" where
  "await_line s = sti (upd_term (active_terminal s) (\<lambda>t. t\<lparr>enter_flag := 0\<rparr>) (cli s))"

definition await_tick :: "kernel \<Rightarrow> kernel" where
  "await_tick s = upd_term (active_terminal s) (\<lambda>t. t\<lparr>rtc_flag := 1\<rparr>) s"

definition end_read :: "int \<Rightarrow> u32 \<Rightarrow> int \<times> kernel \<Rightarrow> (int \<times> kernel) outcome" where
  "end_read fd pcb x = (case x of (ret, s) \<Rightarrow>
     Done (ret, upd_pcb pcb (upd_fd (nat fd) (\<lambda>d. d\<lparr>file_position := file_position d + word_of_int ret\<rparr>)) s))"

lemma waiting_reads:
  assumes "buf \<noteq> 0" "0 < n"
  shows "reads_from stdin_operations fd s \<Longrightarrow> read_call evs fd buf n s =
      andthen (wait_until (\<lambda>s. get_flag s \<noteq> 0) evs (await_line s))
        (\<lambda>x. andthen (read_line buf x) (end_read fd (cur_pcb_addr s)))"
    and "reads_from rtc_operations fd s \<Longrightarrow> read_call evs fd buf n s =
      andthen (wait_until (\<lambda>s. rtc_flag (active_term s) \<noteq> 1) evs (await_tick s))
        (\<lambda>x. end_read fd (cur_pcb_addr s) (0, x))"
  using assms
  by (simp_all add: reads_from_def read_call_def terminal_read_def rtc_read_def await_line_def await_tick_def
      end_read_def[abs_def] cli_def Let_def andthen_assoc)

text \<open>
  The steps that leave the process stacks as they are.  \<open>execute\<close> is refused when the command names no
  program or every process id is taken.
\<close>

inductive plain_step :: "kernel \<Rightarrow> kernel \<Rightarrow> bool" where
  refused: "execute_call command esp ebp s = Done (c, s') \<Longrightarrow>
    (\<And>inode x. find_program (skip_spaces command) (exec_begin s) = Done (Some inode, x) \<Longrightarrow>
      choose_pid x = None) \<Longrightarrow> plain_step s s'"
| read_fd: "calm evs \<Longrightarrow> read_call evs fd buf n s = Done (r, s') \<Longrightarrow> plain_step s s'"
| line_awaited: "reads_from stdin_operations fd s \<Longrightarrow> plain_step s (await_line s)"
| line_taken: "reads_from stdin_operations fd s \<Longrightarrow> get_flag s \<noteq> 0 \<Longrightarrow>
    andthen (read_line buf s) (end_read fd (cur_pcb_addr s)) = Done (r, s') \<Longrightarrow> plain_step s s'"
| tick_awaited: "reads_from rtc_operations fd s \<Longrightarrow> plain_step s (await_tick s)"
| tick_seen: "reads_from rtc_operations fd s \<Longrightarrow> rtc_flag (active_term s) \<noteq> 1 \<Longrightarrow>
    end_read fd (cur_pcb_addr s) (0, s) = Done (r, s') \<Longrightarrow> plain_step s s'"
| write_fd: "write_call fd buf n s = Done (r, s') \<Longrightarrow> plain_step s s'"
| open_fd: "open_call name s = Done (r, s') \<Longrightarrow> plain_step s s'"
| close_fd: "close_call fd s = Done (r, s') \<Longrightarrow> plain_step s s'"
| getargs: "getargs_call buf n s = Done (r, s') \<Longrightarrow> plain_step s s'"
| vidmap: "vidmap_call ptr s = Done (r, s') \<Longrightarrow> plain_step s s'"
| set_handler: "set_handler_call s = Done (r, s') \<Longrightarrow> plain_step s s'"
| sigreturn: "sigreturn_call s = Done (r, s') \<Longrightarrow> plain_step s s'"
| key: "print_keycode status k beyond esp ebp s = Done (c, s') \<Longrightarrow> plain_step s s'"
| clock: "plain_step s (rtc_intr s)"
| tick: "pit_intr esp ebp xesp xebp s = Done (c, s') \<Longrightarrow> plain_step s s'"

text \<open>
  \<open>kstep astray s s'\<close>: a step of the system, with a mark on those in which the kernel goes astray.  It
  does so when a call faults: a pointer of the program leads it outside the program page, which no
  call checks, or its data overrun a buffer.  The code then reads and writes what lies there, and what becomes of
  the kernel depends on where its variables are, so any state may follow.  It also does when a program was found
  but cannot be loaded, and when a base shell ends and there is no shell to start: the code gives
  up half way, with a process id taken or the terminal without a process.
\<close>

inductive kstep :: "bool \<Rightarrow> kernel \<Rightarrow> kernel \<Rightarrow> bool" where
  plain: "plain_step s s' \<Longrightarrow> kstep False s s'"
| execute: "execute_call command esp ebp s = Done (Enter_user e u, s') \<Longrightarrow> kstep False s s'"
| halt: "halt_call status esp ebp s = Done (c, s') \<Longrightarrow> (\<And>r. c \<noteq> Return r) \<Longrightarrow> kstep False s s'"
| exception: "exception_handler h = Some f \<Longrightarrow> f esp ebp s = Done (c, s') \<Longrightarrow> (\<And>r. c \<noteq> Return r) \<Longrightarrow>
    kstep False s s'"
| fault: "syscall_entry evs eax ebx ecx edx esp ebp s = Fault f \<Longrightarrow> kstep True s s'"
| line_fault: "reads_from stdin_operations fd s \<Longrightarrow> get_flag s \<noteq> 0 \<Longrightarrow> read_line buf s = Fault f \<Longrightarrow> kstep True s s'"
| half_started: "find_program (skip_spaces command) (exec_begin s) = Done (Some inode, x) \<Longrightarrow> choose_pid x = Some y \<Longrightarrow>
    execute_call command esp ebp s = Done (Return r, s') \<Longrightarrow> kstep True s s'"
| no_shell: "halt_call status esp ebp s = Done (Return r, s') \<Longrightarrow> kstep True s s'"
| no_shell_after: "exception_handler h = Some f \<Longrightarrow> f esp ebp s = Done (Return r, s') \<Longrightarrow> kstep True s s'"

lemma vidmap_paging:
  assumes "sys_inv s st" "vidmap_call ptr s = Done (r, s')"
  shows "paging_inv s'"
proof (cases "s' = s")
  case False
  let ?on = "terminal_on (pcbs s (cur_pcb_addr s))"
  have a: "active_terminal s < 3" and rel: "proc_rel s st" using assms(1) by (simp_all add: sys_inv_def)
  obtain f fr where st: "st (active_terminal s) = f # fr"
    using assms(1) a by (cases "st (active_terminal s)") (auto simp: sys_inv_def)
  have on: "?on = int (active_terminal s)"
    using proc_relD[OF rel a] st
    by (auto simp: term_ok_def frame_ok_def Let_def cur_pcb_addr_def pcb_of_def get_pcb_blk_addr split: prod.splits)
  have ad: "page_table_video_addr s AND MASK_20_BITS = page_table_video_addr s"
    using assms(1) by (simp add: sys_inv_def paging_inv_def linked_def)
  have v: "of_nat (VIDEO_INDEX * FOUR_KB) OR PG_P OR R_W OR U_S = video_pte 0"
    by (simp add: video_pte_def)
  obtain x where c: "copy_out ptr (le32 VIDMAP_ADDR) x = Done s'"
    and x: "x = s\<lparr>page_table_video := (page_table_video s)(0 := video_pte 0),
      page_directory := (page_directory s)(33 := page_table_video_addr s OR U_S OR R_W OR PG_P), tlb_fresh := True\<rparr>"
    using assms(2) False on v ad
    by (auto simp: vidmap_call_def Let_def andthen_Done_iff page_write_defs or.assoc simp del: of_nat_mult split: if_splits)
  have "paging_inv x"
    using assms(1) unfolding x sys_inv_def paging_inv_def linked_def by auto
  then show ?thesis using same_kernel_paging[OF copy_out_kernel[OF c]] by simp
qed (use assms(1) in \<open>simp add: sys_inv_def\<close>)

lemma vidmap_inv:
  assumes "sys_inv s st" "vidmap_call ptr s = Done (r, s')"
  shows "sys_inv s' st"
proof -
  note fr = vidmap_frames[OF assms(2)]
  have "displayed_terminal s' = displayed_terminal s"
    using assms(2) by (auto simp: vidmap_call_def Let_def andthen_Done_iff page_write_defs copy_out_def split: if_splits)
  then show ?thesis
    using assms(1) vidmap_paging[OF assms] same_frames_rel[OF fr] same_frames_running[OF fr] fr
    by (simp add: sys_inv_def same_frames_def)
qed

text \<open>Everything that can come in through the system call gate.\<close>

lemma returns_Done: "returns m = Done (c, s') \<longleftrightarrow> (\<exists>r. c = Return r \<and> m = Done (r, s'))"
  by (auto simp: returns_def andthen_Done_iff)

lemma dispatch_kernel:
  assumes "do_syscall_in_C evs n ebx ecx edx esp ebp s = Done (c, s')" "n \<in> {3..10}" "n \<noteq> 8" "calm evs"
  shows "same_kernel s s'"
proof -
  have "n \<in> {3, 4, 5, 6, 7, 9, 10}" using assms(2,3) by auto
  then show ?thesis
    using assms(1) file_calls_kernel(1)[OF assms(4)] file_calls_kernel(2,4,5) signal_calls_kernel
    by (auto simp: do_syscall_in_C_def returns_Done andthen_Done_iff dest: file_calls_kernel(3) split: if_splits)
qed

theorem syscall_inv:
  assumes inv: "sys_inv s st" and calm: "calm evs"
    and call: "syscall_entry evs eax ebx ecx edx esp ebp s = Done (c, s')"
    and final: "sint eax \<in> {1, 2} \<Longrightarrow> \<forall>r. c \<noteq> Return r"
  shows "\<exists>st'. sys_inv s' st' \<and> (sint eax \<notin> {1, 2} \<longrightarrow> st' = st)"
proof (cases "sint eax < 1 \<or> 11 \<le> sint eax")
  case True
  then have "s' = s\<lparr>if_flag := True\<rparr>" using syscall_bad_number call by auto
  then show ?thesis using sys_inv_kernel[OF same_kernel_upd(1) inv] by blast
next
  case False
  define n where "n = sint eax"
  define s0 where "s0 = s\<lparr>if_flag := True\<rparr>"
  have n: "n = 1 \<or> n = 2 \<or> n = 8 \<or> n \<in> {3..10} \<and> n \<noteq> 8" using False by (auto simp: n_def)
  have inv0: "sys_inv s0 st" unfolding s0_def by (rule sys_inv_kernel[OF same_kernel_upd(1) inv])
  have "syscall_entry evs eax ebx ecx edx esp ebp s = andthen (do_syscall_in_C evs n ebx ecx edx esp ebp s0)
      (\<lambda>(c, s). case c of Return r \<Rightarrow> Done (Return r, sti (cli s)) | _ \<Rightarrow> Done (c, s))"
    using False by (simp add: syscall_entry_def cli_def sti_def s0_def n_def)
  from trans[OF this[symmetric] call] obtain dx where dx: "do_syscall_in_C evs n ebx ecx edx esp ebp s0 = Done dx"
    "(case dx of (c, s) \<Rightarrow> case c of Return r \<Rightarrow> Done (Return r, sti (cli s)) | _ \<Rightarrow> Done (c, s)) = Done (c, s')"
    unfolding andthen_Done_iff by blast
  obtain d x where "dx = (d, x)" by (cases dx)
  with dx have d: "do_syscall_in_C evs n ebx ecx edx esp ebp s0 = Done (d, x)"
    and fin: "(case d of Return r \<Rightarrow> Done (Return r, sti (cli x)) | _ \<Rightarrow> Done (d, x)) = Done (c, s')"
    by simp_all
  have ret: "c = Return r \<and> s' = x\<lparr>if_flag := True\<rparr>" if "d = Return r" for r
    using fin that by (simp add: cli_def sti_def)
  have noret: "c = d \<and> s' = x" if "\<And>r. d \<noteq> Return r"
    using fin that by (cases d) auto
  have keep: "sys_inv x st \<Longrightarrow> sys_inv s' st"
    by (cases d) (use ret noret sys_inv_kernel[OF same_kernel_upd(1)] in auto)
  from n show ?thesis
  proof (elim disjE)
    assume n: "n = 1"
    then have dn: "\<And>r. d \<noteq> Return r" using final ret by (auto simp: n_def)
    have "halt_call (ucast ebx) esp ebp s0 = Done (d, x)" using d n by (simp add: do_syscall_in_C_def)
    from halt_inv[OF inv0 this dn] show ?thesis using noret[OF dn] n by (auto simp: n_def)
  next
    assume n: "n = 2"
    then have dn: "\<And>r. d \<noteq> Return r" using final ret by (auto simp: n_def)
    obtain command where ex: "execute_call command esp ebp s0 = Done (d, x)"
      using d n by (auto simp: do_syscall_in_C_def andthen_Done_iff)
    then obtain e u where du: "d = Enter_user e u" using execute_result dn by blast
    obtain st' where "sys_inv x st'" using execute_inv[OF inv0 ex[unfolded du]] by blast
    then show ?thesis using noret[OF dn] n by (auto simp: n_def)
  next
    assume n: "n = 8"
    obtain r where "vidmap_call (unat ebx) s0 = Done (r, x)"
      using d n by (auto simp: do_syscall_in_C_def returns_Done)
    from keep[OF vidmap_inv[OF inv0 this]] show ?thesis by blast
  next
    assume "n \<in> {3..10} \<and> n \<noteq> 8"
    then have "same_kernel s0 x" using dispatch_kernel[OF d] calm by blast
    from keep[OF sys_inv_kernel[OF this inv0]] show ?thesis by blast
  qed
qed

lemma sys_inv_lift: "same_kernel s s' \<Longrightarrow> \<exists>st. sys_inv s st \<Longrightarrow> \<exists>st. sys_inv s' st"
  using sys_inv_kernel by blast

lemma waiting_kernel:
  "same_kernel s (await_line s)" "same_kernel s (await_tick s)"
  "end_read fd a (r, s) = Done (r', s') \<Longrightarrow> same_kernel s s'"
proof -
  have "same_kernel (cli s) (upd_term (active_terminal s) (\<lambda>t. t\<lparr>enter_flag := 0\<rparr>) (cli s))"
    by (rule same_kernel_upd) simp
  then show "same_kernel s (await_line s)"
    unfolding await_line_def by (rule same_kernel_trans[OF same_kernel_cli(1) same_kernel_trans[OF _ same_kernel_cli(2)]])
  show "same_kernel s (await_tick s)" unfolding await_tick_def by (rule same_kernel_upd) simp
  show "end_read fd a (r, s) = Done (r', s') \<Longrightarrow> same_kernel s s'"
    by (auto simp: end_read_def intro!: same_kernel_upd(7))
qed

lemma refused_inv:
  assumes "execute_call command esp ebp s = Done (c, s')" "sys_inv s st"
    and "\<And>inode x. find_program (skip_spaces command) (exec_begin s) = Done (Some inode, x) \<Longrightarrow> choose_pid x = None"
  shows "sys_inv s' st"
proof -
  have "same_procs s s'"
    by (rule execute_call_refused[OF assms(1), THEN conjunct2]) (rule assms(3))
  moreover have "tables s' = tables s" by (rule execute_tables[OF assms(1)])
  ultimately have "same_kernel s s'"
    by (simp add: same_kernel_def same_frames_def same_procs_def term_core_def)
  then show ?thesis using assms(2) sys_inv_kernel by blast
qed

theorem plain_inv:
  assumes "plain_step s s'" "sys_inv s st"
  shows "sys_inv s' st"
  using assms
proof (induction rule: plain_step.induct)
  case (refused command esp ebp s c s')
  then show ?case using refused_inv by blast
next
  case (line_taken fd s buf r s')
  then obtain k x where x: "read_line buf s = Done (k, x)" "end_read fd (cur_pcb_addr s) (k, x) = Done (r, s')"
    by (auto simp: andthen_Done_iff)
  show ?case by (rule sys_inv_kernel[OF same_kernel_trans[OF read_line_kernel[OF x(1)] waiting_kernel(3)[OF x(2)]] line_taken(4)])
next
  case (key status k beyond esp ebp s c s')
  then show ?case using key_inv by blast
next
  case (tick esp ebp xesp xebp s c s')
  then show ?case using tick_inv by blast
next
  case (vidmap ptr s r s')
  then show ?case using vidmap_inv by blast
next
  case (read_fd evs fd buf n s r s')
  then show ?case using sys_inv_kernel[OF file_calls_kernel(1)] by blast
qed (auto intro: sys_inv_kernel[OF file_calls_kernel(2)] sys_inv_kernel[OF file_calls_kernel(3)]
    sys_inv_kernel[OF file_calls_kernel(4)] sys_inv_kernel[OF file_calls_kernel(5)]
    sys_inv_kernel[OF signal_calls_kernel(1)] sys_inv_kernel[OF signal_calls_kernel(2)]
    sys_inv_kernel[OF rtc_intr_kernel] sys_inv_kernel[OF waiting_kernel(1)] sys_inv_kernel[OF waiting_kernel(2)]
    sys_inv_kernel[OF waiting_kernel(3)])

inductive_cases kstep_sound: "kstep False s s'"

theorem kstep_inv:
  assumes "kstep False s s'" "\<exists>st. sys_inv s st"
  shows "\<exists>st. sys_inv s' st"
proof -
  obtain st where inv: "sys_inv s st" using assms(2) by blast
  from assms(1) show ?thesis
  proof (elim kstep_sound)
    assume "plain_step s s'"
    then show ?thesis using plain_inv inv by blast
  next
    fix command esp ebp e u assume "execute_call command esp ebp s = Done (Enter_user e u, s')"
    then show ?thesis using execute_inv[OF inv] by blast
  qed (rule halt_inv[OF inv] exception_inv[OF inv]; assumption)+
qed

theorem reachable_inv:
  "(kstep False)\<^sup>*\<^sup>* s s' \<Longrightarrow> sys_inv s st \<Longrightarrow> \<exists>st'. sys_inv s' st'"
  by (induction rule: rtranclp_induct) (auto dest: kstep_inv)

section \<open>From execute to halt\<close>

text \<open>
  What may happen while a program runs: any plain steps, on any terminal, and whole runs of other
  programs, each from its \<open>execute\<close> to its \<open>halt\<close> or to an exception of it.
\<close>

inductive meanwhile :: "kernel \<Rightarrow> kernel \<Rightarrow> bool" where
  nothing: "meanwhile s s"
| plainly: "meanwhile s x \<Longrightarrow> plain_step x y \<Longrightarrow> meanwhile s y"
| program_halts: "meanwhile s x \<Longrightarrow> execute_call command esp ebp x = Done (Enter_user e u, y) \<Longrightarrow> meanwhile y z \<Longrightarrow>
    active_terminal z = active_terminal x \<Longrightarrow> halt_call status esp' ebp' z = Done (c, w) \<Longrightarrow> meanwhile s w"
| program_dies: "meanwhile s x \<Longrightarrow> execute_call command esp ebp x = Done (Enter_user e u, y) \<Longrightarrow> meanwhile y z \<Longrightarrow>
    active_terminal z = active_terminal x \<Longrightarrow> exception_handler h = Some f \<Longrightarrow> f esp' ebp' z = Done (c, w) \<Longrightarrow>
    meanwhile s w"

lemma executed_halts:
  assumes "sys_inv s st" "execute_call command esp ebp s = Done (Enter_user e u, s1)"
    and "\<And>st'. sys_inv s1 st' \<Longrightarrow> sys_inv s2 st'" "active_terminal s2 = active_terminal s"
  shows "\<exists>s3. halt_call status esp' ebp' s2 = Done (Resume (ucast status) esp ebp, s3) \<and> sys_inv s3 st \<and>
    active_terminal s3 = active_terminal s"
proof -
  let ?a = "active_terminal s"
  obtain i where i: "sys_inv s2 (st(?a := (i, esp, ebp) # st ?a))" using execute_inv[OF assms(1,2)] assms(3) by blast
  obtain p r bs where st: "st ?a = (p, r) # bs" using assms(1) by (cases "st ?a") (auto simp: sys_inv_def)
  have "(st(?a := (i, esp, ebp) # st ?a)) (active_terminal s2) = (i, esp, ebp) # (p, r) # bs"
    using st assms(4) by simp
  from halt_pops_inv[OF i this, of status esp' ebp'] show ?thesis
    using assms(4) by (simp only: st fun_upd_upd) (simp only: st[symmetric] fun_upd_triv)
qed

lemma meanwhile_inv: "meanwhile s s' \<Longrightarrow> sys_inv s st \<Longrightarrow> sys_inv s' st"
proof (induction arbitrary: st rule: meanwhile.induct)
  case (plainly s x y)
  then show ?case using plain_inv by blast
next
  case (program_halts s x command esp ebp e u y z status esp' ebp' c w)
  have "sys_inv x st" using program_halts.IH(1) program_halts.prems .
  from executed_halts[OF this program_halts.hyps(2) program_halts.IH(2) program_halts.hyps(4), of status esp' ebp']
  show ?case using program_halts.hyps(5) by auto
next
  case (program_dies s x command esp ebp e u y z h f esp' ebp' c w)
  note m = exception_text_prints[of h] handler_reports[OF program_dies.hyps(5)]
  obtain z1 where z1: "report (exception_text h) esp' ebp' z = halt_call 0 esp' ebp' z1"
    "z1 = fold (\<lambda>c. terminal_putc c (active_terminal z)) (exception_text h) z"
    using report_prints[OF m(1), of esp' ebp' z] by blast
  have k: "same_kernel z z1" unfolding z1(2) by (rule fold_putc_kernel)
  have keep: "sys_inv y st' \<Longrightarrow> sys_inv z1 st'" for st' using program_dies.IH(2) sys_inv_kernel[OF k] by blast
  have a: "active_terminal z1 = active_terminal x"
    using k program_dies.hyps(4) by (simp add: same_kernel_def same_frames_def)
  have "sys_inv x st" using program_dies.IH(1) program_dies.prems .
  from executed_halts[OF this program_dies.hyps(2) keep a, of 0 esp' ebp']
  show ?case using program_dies.hyps(6) z1(1) m(2) by auto
qed

text \<open>A program that is executed and halts gives its parent the process structures back as they were.\<close>

theorem execute_returns:
  assumes "sys_inv s st" "execute_call command esp ebp s = Done (Enter_user e u, s1)"
    and "meanwhile s1 s2" "active_terminal s2 = active_terminal s"
  shows "\<exists>s3. halt_call status esp' ebp' s2 = Done (Resume (ucast status) esp ebp, s3) \<and> sys_inv s3 st \<and>
    active_terminal s3 = active_terminal s"
  using executed_halts[OF assms(1,2) meanwhile_inv[OF assms(3)] assms(4)] .

section \<open>Isolation\<close>

text \<open>
  Memory isolation: in a reachable state, what user code can address is the frame of the process
  that runs on the active terminal, and the video page.
\<close>

theorem reachable_isolated:
  assumes "(kstep False)\<^sup>*\<^sup>* s0 s" "sys_inv s0 st0" "va < 2 ^ 32" "mmu s True va = Some pa"
  shows "\<exists>p. pid (active_term s) = int p \<and> p < 6 \<and>
    (0x800000 + 0x400000 * p \<le> pa \<and> pa < 0x800000 + 0x400000 * (p + 1) \<or> VIDEO \<le> pa \<and> pa < VIDEO + 4 * 4096)"
proof -
  obtain st where inv: "sys_inv s st" using reachable_inv[OF assms(1,2)] by blast
  obtain p where p: "p < 6" "pid (active_term s) = int p"
    using sys_inv_pid[OF inv, of "active_terminal s"] inv by (auto simp: sys_inv_def)
  have pde: "page_directory s 32 = user_pde (of_nat p)" using inv p(2) by (simp add: sys_inv_def running_def)
  have q: "unat (of_nat p :: u32) = p" "(of_nat p :: u32) < 6"
    using p(1) by (simp_all add: word_less_nat_alt unat_of_nat)
  have "paging_inv s" using inv by (simp add: sys_inv_def)
  from mmu_confined[OF this assms(3,4)] show ?thesis
  proof (elim disjE exE conjE)
    fix q' :: u32
    assume h: "q' < 6" "page_directory s 32 = user_pde q'" "0x8000000 \<le> va" "va < 0x8400000"
      "pa = 0x800000 + 0x400000 * unat q' + (va - 0x8000000)"
    have "unat (user_pde q' AND MASK_10_BITS) = unat (user_pde (of_nat p) AND MASK_10_BITS)"
      using h(2) pde by simp
    then have "unat q' = p" using user_pde_fields[OF h(1)] user_pde_fields[OF q(2)] q(1) by simp
    then show ?thesis using h p by auto
  next
    fix k :: nat
    assume "k \<le> 3" "0x8400000 \<le> va" "va < 0x8401000" "pa = VIDEO + k * FOUR_KB + (va - 0x8400000)"
    then show ?thesis using p by auto
  qed
qed

end
