(* ===== verification/Gate.thy ===== *)
theory Gate
  imports System
begin

text \<open>
  The system calls through the gate do not fault: for a process whose descriptors, line buffer and
  argument are as \<open>execute\<close> and \<open>open\<close> leave them, and pointers that lead into its page, every call
  but \<open>halt\<close> and \<open>execute\<close> returns, or waits in \<open>read\<close>.
\<close>

section \<open>Pointers into the page\<close>

text \<open>
  Where the kernel goes for each call.  \<open>read\<close> of a line or a name stores up to 128 bytes and \<open>write\<close>
  to the clock loads 4, whatever count they are given; \<open>getargs\<close> of a negative count stores the whole argument.
\<close>

definition args_in_page :: "int \<Rightarrow> u32 \<Rightarrow> u32 \<Rightarrow> u32 \<Rightarrow> kernel \<Rightarrow> bool" where
  "args_in_page n ebx ecx edx s \<longleftrightarrow>
     (n = 3 \<longrightarrow> ecx = 0 \<or> in_user s (unat ecx) (max 128 (nat (sint edx)))) \<and>
     (n = 4 \<longrightarrow> ecx = 0 \<or> in_user s (unat ecx) (max 4 (nat (sint edx)))) \<and>
     (n = 5 \<longrightarrow> ebx = 0 \<or> (\<exists>bs. user_string (unat ebx) s = Done bs \<and> 0 \<in> set bs)) \<and>
     (n = 7 \<longrightarrow> ebx = 0 \<or> in_user s (unat ebx) (max 128 (nat (sint ecx)))) \<and>
     (n = 8 \<longrightarrow> 0x8000000 \<le> unat ebx \<and> unat ebx < 0x8400000 \<longrightarrow> unat ebx + 4 \<le> 0x8400000)"

text \<open>What \<open>execute\<close>, \<open>open\<close> and the keyboard leave.\<close>

definition calls_ready :: "kernel \<Rightarrow> bool" where
  "calls_ready s \<longleftrightarrow>
     (\<forall>fd. 0 \<le> fd \<and> fd < 8 \<and> flags (cur_fd fd s) \<noteq> NOT_ENGAGED \<longrightarrow>
        table_ptr (cur_fd fd s) \<notin> {terminal_operations, nothing_operations}) \<and>
     (\<forall>t. length (tempbuf (terminal s t)) = MAX_BUF_SIZE) \<and>
     (let cmd = terminal_cmd (pcbs s (cur_pcb_addr s)) in 0 \<in> set cmd \<and> length cmd = 128)"

text \<open>What may happen while a call waits.\<close>

definition harmless :: "(kernel \<Rightarrow> kernel) list \<Rightarrow> bool" where
  "harmless evs \<longleftrightarrow> calm evs \<and>
     (\<forall>e \<in> set evs. \<forall>s t. length (tempbuf (terminal (e s) t)) = length (tempbuf (terminal s t)))"

lemma in_user_less: "in_user s va n \<Longrightarrow> m \<le> n \<Longrightarrow> in_user s va m"
  by (simp add: in_user_def)

lemma in_user_cong: "page_directory s' 32 = page_directory s 32 \<Longrightarrow> in_user s' va n = in_user s va n"
  by (simp add: in_user_def)

lemma copy_out_in: "in_user s va n \<Longrightarrow> length bs \<le> n \<Longrightarrow> \<exists>m. copy_out va bs s = Done (s\<lparr>phys := m\<rparr>)"
  using in_user_less[of s va n "length bs"] by (cases "bs = []") (auto simp: copy_out_def intro: exI[of _ "phys s"])

lemma copy_in_in: "in_user s va n \<Longrightarrow> m \<le> n \<Longrightarrow> \<exists>bs. copy_in va m s = Done bs \<and> length bs = m"
  using in_user_less[of s va n m] by (auto simp: copy_in_def)

section \<open>Reading\<close>

text \<open>\<open>returned m\<close>: the call comes back; \<open>served m\<close>: it comes back, or it waits.\<close>

definition returned :: "(int \<times> kernel) outcome \<Rightarrow> bool" where
  "returned m \<longleftrightarrow> (\<exists>x. m = Done x)"

definition served :: "(int \<times> kernel) outcome \<Rightarrow> bool" where
  "served m \<longleftrightarrow> m = Blocked \<or> (\<exists>x. m = Done x)"

lemma returned_simps [simp]: "returned (Done x)" "\<not> returned Blocked" "\<not> returned (Fault f)"
  by (simp_all add: returned_def)

lemma served_simps [simp]: "served (Done x)" "served Blocked" "\<not> served (Fault f)"
  by (simp_all add: served_def)

lemma read_line_served:
  assumes "length (tempbuf (active_term s)) = MAX_BUF_SIZE" "in_user s buf n" "MAX_BUF_SIZE \<le> n"
  shows "served (read_line buf s)"
proof -
  define len where "len = (if MAX_BUF_SIZE \<le> get_len (cli s) then MAX_BUF_SIZE else get_len (cli s))"
  have "in_user (cli s) buf n" "length (take len (tempbuf (active_term s))) \<le> n"
    using assms by (simp_all add: cli_def in_user_def)
  then obtain m where "copy_out buf (take len (tempbuf (active_term s))) (cli s) = Done ((cli s)\<lparr>phys := m\<rparr>)"
    using copy_out_in by blast
  moreover have "active_terminal (cli s) = active_terminal s" "terminal (cli s) = terminal s" by (simp_all add: cli_def)
  moreover have "len \<le> MAX_BUF_SIZE" by (simp add: len_def)
  ultimately have "read_line buf s = Done (int len, sti ((cli s)\<lparr>phys := m\<rparr>))"
    using assms(1) by (simp only: read_line_def Let_def len_def[symmetric]) simp
  then show ?thesis by simp
qed

lemma terminal_read_served:
  assumes ev: "harmless evs" and len: "\<forall>t. length (tempbuf (terminal s t)) = MAX_BUF_SIZE"
    and buf: "buf \<noteq> 0 \<longrightarrow> in_user s buf n \<and> MAX_BUF_SIZE \<le> n"
  shows "served (terminal_read evs fd buf k s)"
proof (cases "buf = 0")
  case True
  then show ?thesis by (simp add: terminal_read_def)
next
  case False
  let ?P = "\<lambda>x. same_kernel s x \<and> (\<forall>t. length (tempbuf (terminal x t)) = MAX_BUF_SIZE)"
  have start: "?P (await_line s)"
    using waiting_kernel(1)[of s] len by (auto simp: await_line_def sti_def cli_def upd_term_def)
  have step: "?P (e x)" if "e \<in> set evs" "?P x" for e x
    using ev that same_kernel_trans by (auto simp: harmless_def calm_def)
  have line: "served (read_line buf x)" if "?P x" for x
  proof (rule read_line_served)
    show "in_user x buf n" using that buf False in_user_cong[of x s] by (simp add: same_kernel_def)
  qed (use that buf False in simp_all)
  have "?P x" if "wait_until (\<lambda>s. get_flag s \<noteq> 0) evs (await_line s) = Done x" for x
    by (rule wait_until_keeps[where P = ?P, OF that start]) (rule step)
  moreover have "wait_until (\<lambda>s. get_flag s \<noteq> 0) evs (await_line s) \<noteq> Fault f" for f by (rule wait_until_no_fault)
  ultimately have "served (andthen (wait_until (\<lambda>s. get_flag s \<noteq> 0) evs (await_line s)) (read_line buf))"
    using line by (cases "wait_until (\<lambda>s. get_flag s \<noteq> 0) evs (await_line s)") auto
  then show ?thesis using False by (simp add: terminal_read_def await_line_def Let_def cli_def)
qed

lemma rtc_read_served: "served (rtc_read evs fd buf n s)"
proof -
  have "wait_until (\<lambda>s. rtc_flag (active_term s) \<noteq> 1) evs x \<noteq> Fault f" for x f by (rule wait_until_no_fault)
  then show ?thesis unfolding rtc_read_def
    by (cases "wait_until (\<lambda>s. rtc_flag (active_term s) \<noteq> 1) evs
      (upd_term (active_terminal s) (\<lambda>t. t\<lparr>rtc_flag := 1\<rparr>) s)") auto
qed

lemma read_data_short:
  assumes "len \<noteq> 0"
  shows "\<exists>r bs m c. read_data inode offset False len s =
    Done (r, bs, s\<lparr>large_text_blk_count := m, shared_btw_terminal_fs_drivers := c\<rparr>) \<and> length bs \<le> unat len"
proof (cases "inode \<le> inodesCount s")
  case True
  have n: "\<exists>m c. note_verylarge inode s = s\<lparr>large_text_blk_count := m, shared_btw_terminal_fs_drivers := c\<rparr>"
  proof (cases "verylarge_inode s = inode")
    case False
    then have "note_verylarge inode s = s\<lparr>large_text_blk_count := 0, shared_btw_terminal_fs_drivers := shared_btw_terminal_fs_drivers s\<rparr>"
      by (simp add: note_verylarge_def)
    then show ?thesis by blast
  qed (auto simp: note_verylarge_def)
  then obtain m c where m: "note_verylarge inode s = s\<lparr>large_text_blk_count := m, shared_btw_terminal_fs_drivers := c\<rparr>" by blast
  have "length (takeWhile P [unat offset..<unat offset + unat len]) \<le> unat len" for P
    using length_takeWhile_le[of P "[unat offset..<unat offset + unat len]"] by simp
  then show ?thesis
    unfolding read_data_eq[OF True assms] m Let_def
    by (cases "inode_length (fs s) inode \<le> offset") (simp; blast)+
next
  case False
  have "s = s\<lparr>large_text_blk_count := large_text_blk_count s, shared_btw_terminal_fs_drivers := shared_btw_terminal_fs_drivers s\<rparr>"
    by simp
  then have "\<exists>m c. s = s\<lparr>large_text_blk_count := m, shared_btw_terminal_fs_drivers := c\<rparr>" by blast
  moreover have "inodesCount s < inode" using False by simp
  ultimately show ?thesis by (simp add: read_data_def)
qed

lemma read_from_file_served:
  assumes "in_user s buf n" "0 < k" "nat k \<le> n" "k < 2 ^ 32"
  shows "served (read_from_file fd buf k s)"
proof -
  let ?d = "file_desc_array (pcbs s (get_pcb_blk (curr_pid s))) (nat fd)"
  have u: "unat (word_of_int k :: u32) = nat k"
    using assms(2,4) by (simp add: unat_eq_nat_uint uint_word_of_int)
  then have k: "(word_of_int k :: u32) \<noteq> 0" using assms(2) by (metis unat_0 zero_less_nat_eq less_irrefl)
  obtain r bs m c where rd: "read_data (inode_num ?d) (file_position ?d) False (word_of_int k) s =
      Done (r, bs, s\<lparr>large_text_blk_count := m, shared_btw_terminal_fs_drivers := c\<rparr>)" "length bs \<le> nat k"
    using read_data_short[OF k, of "inode_num ?d" "file_position ?d" s] u by auto
  have "in_user (s\<lparr>large_text_blk_count := m, shared_btw_terminal_fs_drivers := c\<rparr>) buf n"
    using assms(1) by (simp add: in_user_def)
  then obtain y where "copy_out buf bs (s\<lparr>large_text_blk_count := m, shared_btw_terminal_fs_drivers := c\<rparr>) = Done y"
    using copy_out_in[of "s\<lparr>large_text_blk_count := m, shared_btw_terminal_fs_drivers := c\<rparr>" buf n bs] rd(2) assms(3) by auto
  then show ?thesis by (simp add: read_from_file_def rd(1))
qed

lemma read_from_directory_served:
  assumes "in_user s buf n" "32 \<le> n"
  shows "served (read_from_directory fd buf k s)"
proof -
  define name where "name = (case read_dentry_by_index s (word_of_int (internalCounter s)) False of
    (_, Some d) \<Rightarrow> filename d | (_, None) \<Rightarrow> load (stack_junk s) 0 FILENAME_LEN)"
  have "length name \<le> n" using assms(2) by (auto simp: name_def read_dentry_by_index_def dentry_at_def)
  then obtain m where "copy_out buf name s = Done (s\<lparr>phys := m\<rparr>)" using copy_out_in[OF assms(1)] by blast
  then show ?thesis by (simp add: read_from_directory_def Let_def name_def[symmetric])
qed

lemma read_call_served:
  assumes "harmless evs" "calls_ready s" "buf = 0 \<or> in_user s buf (max 128 (nat n))" "n < 2 ^ 32"
  shows "served (read_call evs fd buf n s)"
proof (cases "fd < 0 \<or> fd \<ge> 8 \<or> buf = 0 \<or> n \<le> 0 \<or> flags (cur_fd fd s) = NOT_ENGAGED")
  case True
  then show ?thesis by (auto simp: read_call_def)
next
  case False
  then have b: "in_user s buf (max 128 (nat n))" and ops: "table_ptr (cur_fd fd s) \<notin> {terminal_operations, nothing_operations}"
    using assms(2,3) by (auto simp: calls_ready_def)
  have "served (read_call_entry (table_ptr (cur_fd fd s)) evs fd buf n s)"
  proof (cases "table_ptr (cur_fd fd s)")
    case files_operations
    then show ?thesis using read_from_file_served[OF b, of n fd] False assms(4) by simp
  next
    case stdin_operations
    then show ?thesis
      using terminal_read_served[OF assms(1), of s buf "max 128 (nat n)" fd n] assms(2) b by (simp add: calls_ready_def)
  qed (use ops read_from_directory_served[OF b] rtc_read_served in \<open>simp_all add: donothing_eq\<close>)
  then show ?thesis
    using False by (auto simp: read_call_def served_def Let_def)
qed

section \<open>The other calls\<close>

lemma write_call_returned:
  assumes inv: "sys_inv s st" and "calls_ready s" "buf = 0 \<or> in_user s buf (max 4 (nat n))"
  shows "returned (write_call fd buf n s)"
proof (cases "fd < 0 \<or> fd \<ge> 8 \<or> buf = 0 \<or> n \<le> 0 \<or> flags (cur_fd fd s) = NOT_ENGAGED")
  case True
  then show ?thesis by (auto simp: write_call_def)
next
  case False
  then have b: "in_user s buf (max 4 (nat n))" and ops: "table_ptr (cur_fd fd s) \<notin> {terminal_operations, nothing_operations}"
    using assms(2,3) by (auto simp: calls_ready_def)
  obtain bs where bs: "copy_in buf (nat n) s = Done bs" using copy_in_in[OF b, of "nat n"] by auto
  obtain ws where ws: "copy_in buf 4 s = Done ws" using copy_in_in[OF b, of 4] by auto
  have "returned (write_call_entry (table_ptr (cur_fd fd s)) fd buf n s)"
  proof (cases "table_ptr (cur_fd fd s)")
    case stdout_operations
    obtain f fr where "st (active_terminal s) = f # fr"
      using inv by (cases "st (active_terminal s)") (auto simp: sys_inv_def)
    then have "terminal_on (pcbs s (get_pcb_blk (pid (active_term s)))) = int (active_terminal s)"
      using proc_relD[of s st "active_terminal s"] inv
      by (auto simp: sys_inv_def term_ok_def frame_ok_def Let_def pcb_of_def get_pcb_blk_addr split: prod.splits)
    then show ?thesis using stdout_operations inv False bs by (simp add: terminal_write_def Let_def sys_inv_def)
  next
    case rtc_operations
    then show ?thesis using False ws by (simp add: rtc_write_def Let_def)
  qed (use ops in \<open>simp_all add: donothing_eq write_to_file_def write_to_directory_def\<close>)
  then show ?thesis using False by (simp add: write_call_def)
qed

lemma open_call_returned:
  assumes "0 \<in> set name"
  shows "returned (open_call (Some name) s)"
  by (simp add: open_call_def read_dentry_by_name_eq[OF assms] split: option.split del: upt_rec_numeral)

lemma close_call_returned:
  assumes "calls_ready s"
  shows "returned (close_call fd s)"
proof (cases "fd \<le> 1 \<or> fd \<ge> 8 \<or> flags (cur_fd fd s) = NOT_ENGAGED")
  case False
  then have ops: "table_ptr (cur_fd fd s) \<notin> {terminal_operations, nothing_operations}"
    using assms by (auto simp: calls_ready_def)
  have "table_ptr (cur_fd fd (release_fd (nat fd) s)) = table_ptr (cur_fd fd s)"
    by (simp add: release_fd_def cur_fd_def cur_pcb_addr_def upd_pcb_def upd_fd_def)
  then show ?thesis
    using False ops by (cases "table_ptr (cur_fd fd s)")
      (simp_all add: close_call_def Let_def close_file_def close_directory_def rtc_close_def terminal_close_def)
qed (auto simp: close_call_def)

lemma getargs_loop_done: "0 \<in> set cmd \<Longrightarrow> \<exists>bs. getargs_loop cmd n = Done bs \<and> length bs \<le> length cmd"
proof (induction cmd n rule: getargs_loop.induct)
  case (2 c cs n)
  then show ?case by (cases "c \<noteq> 0 \<and> n \<noteq> 0") auto
qed simp

lemma getargs_call_returned:
  assumes "calls_ready s" "buf = 0 \<or> in_user s buf (max 128 (nat n))"
  shows "returned (getargs_call buf n s)"
proof (cases "buf = 0")
  case False
  then have b: "in_user s buf (max 128 (nat n))" using assms(2) by simp
  obtain m where m: "copy_out buf (replicate (nat n) 0) s = Done (s\<lparr>phys := m\<rparr>)" using copy_out_in[OF b, of "replicate (nat n) 0"] by auto
  let ?s = "s\<lparr>phys := m\<rparr>"
  have c: "terminal_cmd (pcbs ?s (cur_pcb_addr ?s)) = terminal_cmd (pcbs s (cur_pcb_addr s))" by (simp add: cur_pcb_addr_def)
  obtain bs where bs: "getargs_loop (terminal_cmd (pcbs s (cur_pcb_addr s))) n = Done bs" "length bs \<le> 128"
    using getargs_loop_done[of "terminal_cmd (pcbs s (cur_pcb_addr s))" n] assms(1) by (auto simp: calls_ready_def Let_def)
  obtain y where "copy_out buf bs ?s = Done y"
    using copy_out_in[of ?s buf _ bs] in_user_cong[of ?s s] b bs(2) by fastforce
  then show ?thesis using False m c bs(1) by (simp add: getargs_call_def)
qed (simp add: getargs_call_def)

lemma vidmap_call_returned:
  assumes inv: "sys_inv s st" and p: "0x8000000 \<le> a \<and> a < 0x8400000 \<longrightarrow> a + 4 \<le> 0x8400000"
  shows "returned (vidmap_call a s)"
proof (cases "a = 0 \<or> a < 0x8000000 \<or> a \<ge> 0x8400000")
  case False
  have "page_directory s 32 = user_pde (word_of_int (pid (active_term s)))" using inv by (simp add: sys_inv_def running_def)
  then have "bit (page_directory s 32) 0" by (simp add: user_pde_def bit_or_iff)
  moreover have "a + 4 \<le> 0x8400000" "0x8000000 \<le> a" using p False by simp_all
  ultimately have u: "page_directory x 32 = page_directory s 32 \<Longrightarrow> in_user x a 4" for x by (simp add: in_user_def)
  have r: "returned (andthen (copy_out a (le32 VIDMAP_ADDR) x) (\<lambda>s. Done (0, s)))"
    if "page_directory x 32 = page_directory s 32" for x
    using copy_out_in[OF u[OF that], of "le32 VIDMAP_ADDR"] by auto
  show ?thesis
    using False by (auto simp: vidmap_call_def Let_def page_write_defs intro!: r)
qed (auto simp: vidmap_call_def)

section \<open>The gate\<close>

theorem gate_serves:
  assumes inv: "sys_inv s st" and ready: "calls_ready s" and ev: "harmless evs"
    and n: "sint eax \<notin> {1, 2}" and args: "args_in_page (sint eax) ebx ecx edx s"
  shows "sint eax = 3 \<and> syscall_entry evs eax ebx ecx edx esp ebp s = Blocked \<or>
    (\<exists>r s'. syscall_entry evs eax ebx ecx edx esp ebp s = Done (Return r, s') \<and> sys_inv s' st)"
proof (cases "sint eax < 1 \<or> 11 \<le> sint eax")
  case True
  then show ?thesis
    using syscall_bad_number[OF True] sys_inv_kernel[OF same_kernel_upd(1) inv] by auto
next
  case False
  define n where "n = sint eax"
  define s0 where "s0 = s\<lparr>if_flag := True\<rparr>"
  have n: "n \<in> {3, 4, 5, 6, 7, 8, 9, 10}" using False assms(4) by (simp add: n_def) presburger
  have inv0: "sys_inv s0 st" unfolding s0_def by (rule sys_inv_kernel[OF same_kernel_upd(1) inv])
  have u: "in_user s0 = in_user s" "user_string a s0 = user_string a s" "cur_pcb_addr s0 = cur_pcb_addr s"
    "cur_fd fd s0 = cur_fd fd s" "calls_ready s0 = calls_ready s" for a fd
    by (auto simp: s0_def in_user_def fun_eq_iff user_string_def copy_in_def user_phys_def cur_pcb_addr_def cur_fd_def calls_ready_def)
  have sb: "sint w < 2 ^ 32" for w :: u32 using sint_lt[of w] by simp
  have ready0: "calls_ready s0" using ready u(5) by simp
  have z: "unat w = 0 \<longleftrightarrow> w = 0" for w :: u32 by (simp add: unat_eq_zero)
  have m: "(\<exists>x. do_syscall_in_C evs n ebx ecx edx esp ebp s0 = returns x \<and> (returned x \<or> n = 3 \<and> served x))"
  proof -
    have a: "args_in_page n ebx ecx edx s" using args by (simp add: n_def)
    consider "n = 3" | "n = 4" | "n = 5" | "n = 6" | "n = 7" | "n = 8" | "n = 9" | "n = 10" using n by auto
    then show ?thesis
    proof cases
      case 1
      then show ?thesis
        using read_call_served[OF ev ready0, of "unat ecx" "sint edx" "sint ebx"] a sb u(1)
        by (auto simp: do_syscall_in_C_def args_in_page_def z)
    next
      case 2
      then show ?thesis
        using write_call_returned[OF inv0 ready0, of "unat ecx" "sint edx" "sint ebx"] a u(1)
        by (auto simp: do_syscall_in_C_def args_in_page_def z)
    next
      case 3
      show ?thesis
      proof (cases "ebx = 0")
        case True
        then show ?thesis using 3 by (auto simp: do_syscall_in_C_def open_call_def)
      next
        case False
        then obtain bs where "user_string (unat ebx) s0 = Done bs" "0 \<in> set bs"
          using a 3 u(2) by (auto simp: args_in_page_def)
        then show ?thesis using 3 False open_call_returned[of bs s0] by (auto simp: do_syscall_in_C_def simp del: upt_rec_numeral)
      qed
    next
      case 4
      then show ?thesis using close_call_returned[OF ready0] by (auto simp: do_syscall_in_C_def)
    next
      case 5
      then show ?thesis
        using getargs_call_returned[OF ready0, of "unat ebx" "sint ecx"] a u(1)
        by (auto simp: do_syscall_in_C_def args_in_page_def z)
    next
      case 6
      then show ?thesis
        using vidmap_call_returned[OF inv0, of "unat ebx"] a by (auto simp: do_syscall_in_C_def args_in_page_def)
    next
      case 7
      have "returned (set_handler_call s0)"
        unfolding set_handler_call_def by (subst message_eq) (simp_all add: chars_def)
      then show ?thesis using 7 by (auto simp: do_syscall_in_C_def)
    next
      case 8
      have "returned (sigreturn_call s0)"
        unfolding sigreturn_call_def by (subst message_eq) (simp_all add: chars_def)
      then show ?thesis using 8 by (auto simp: do_syscall_in_C_def)
    qed
  qed
  then obtain x where x: "do_syscall_in_C evs n ebx ecx edx esp ebp s0 = returns x" "returned x \<or> n = 3 \<and> served x" by blast
  have entry: "syscall_entry evs eax ebx ecx edx esp ebp s = andthen (returns x)
      (\<lambda>(c, s). case c of Return r \<Rightarrow> Done (Return r, sti (cli s)) | _ \<Rightarrow> Done (c, s))"
    using False x(1) by (simp add: syscall_entry_def cli_def sti_def s0_def n_def)
  show ?thesis
  proof (cases x)
    case (Done p)
    obtain r y where p: "p = (r, y)" by (cases p)
    have e: "syscall_entry evs eax ebx ecx edx esp ebp s = Done (Return r, sti (cli y))"
      using entry Done p by (simp add: returns_def)
    have "calm evs" using ev by (simp add: harmless_def)
    from syscall_inv[OF inv this e] assms(4) have "sys_inv (sti (cli y)) st" by auto
    then show ?thesis using e by blast
  next
    case Blocked
    then show ?thesis using entry x(2) by (auto simp: returns_def n_def)
  next
    case (Fault f)
    then show ?thesis using x(2) by simp
  qed
qed

end
