(* ===== verification/Boot.thy ===== *)
theory Boot
  imports System
begin

text \<open>
  Booting: \<open>entry\<close> of student-distrib/kernel.c with the segment descriptors of x86_desc.h, up to
  the start of the three shells.  \<open>ram\<close> is the memory the boot loader filled, in which the file
  system image is a module; the port reads of the clock and the registers of \<open>execute_call\<close> are
  arguments.  The descriptors that go to the GDT are part of the result.

  The operation tables that \<open>entry\<close> fills are the three functions \<open>read_call_entry\<close>,
  \<open>write_call_entry\<close>, \<open>close_call_entry\<close> of the theory File_Calls.
\<close>

abbreviation (input) "MULTIBOOT_BOOTLOADER_MAGIC \<equiv> (0x2BADB002::u32)"
abbreviation (input) "TSS_SIZE \<equiv> (104::u32)"

section \<open>Segment descriptors\<close>

record seg_desc_t =
  seg_lim_15_00 :: u16
  base_15_00 :: u16
  base_23_16 :: u8
  seg_type :: "4 word"
  sys :: "1 word"
  seg_dpl :: "2 word"
  seg_present :: "1 word"
  seg_lim_19_16 :: "4 word"
  avail :: "1 word"
  seg_reserved :: "1 word"
  opsize :: "1 word"
  granularity :: "1 word"
  base_31_24 :: u8

definition SET_LDT_PARAMS :: "u32 \<Rightarrow> u32 \<Rightarrow> seg_desc_t \<Rightarrow> seg_desc_t" where
  "SET_LDT_PARAMS addr lim str = str\<lparr>
     base_31_24 := ucast (drop_bit 24 (addr AND 0xFF000000)),
     base_23_16 := ucast (drop_bit 16 (addr AND 0x00FF0000)),
     base_15_00 := ucast (addr AND 0x0000FFFF),
     seg_lim_19_16 := ucast (drop_bit 16 (lim AND 0x000F0000)),
     seg_lim_15_00 := ucast (lim AND 0x0000FFFF)\<rparr>"

definition SET_TSS_PARAMS :: "u32 \<Rightarrow> u32 \<Rightarrow> seg_desc_t \<Rightarrow> seg_desc_t" where
  "SET_TSS_PARAMS addr lim str = str\<lparr>
     base_31_24 := ucast (drop_bit 24 (addr AND 0xFF000000)),
     base_23_16 := ucast (drop_bit 16 (addr AND 0x00FF0000)),
     base_15_00 := ucast (addr AND 0x0000FFFF),
     seg_lim_19_16 := ucast (drop_bit 16 (lim AND 0x000F0000)),
     seg_lim_15_00 := ucast (lim AND 0x0000FFFF)\<rparr>"

text \<open>\<open>junk\<close> is the uninitialised local; every field of it is set.\<close>

definition the_ldt_desc :: "seg_desc_t \<Rightarrow> u32 \<Rightarrow> u32 \<Rightarrow> seg_desc_t" where
  "the_ldt_desc junk ldt ldt_size =
     SET_LDT_PARAMS ldt ldt_size (junk\<lparr>granularity := 0, opsize := 1, seg_reserved := 0, avail := 0,
       seg_present := 1, seg_dpl := 0, sys := 0, seg_type := 2\<rparr>)"

definition the_tss_desc :: "seg_desc_t \<Rightarrow> u32 \<Rightarrow> u32 \<Rightarrow> seg_desc_t" where
  "the_tss_desc junk tss tss_size =
     SET_TSS_PARAMS tss tss_size (junk\<lparr>granularity := 0, opsize := 0, seg_reserved := 0, avail := 0,
       seg_lim_19_16 := ucast (TSS_SIZE AND 0x000F0000), seg_present := 1, seg_dpl := 0, sys := 0,
       seg_type := 9, seg_lim_15_00 := ucast (TSS_SIZE AND 0x0000FFFF)\<rparr>)"

text \<open>How the processor reads base and limit.\<close>

definition seg_base :: "seg_desc_t \<Rightarrow> u32" where
  "seg_base d = push_bit 24 (ucast (base_31_24 d)) OR push_bit 16 (ucast (base_23_16 d)) OR ucast (base_15_00 d)"

definition seg_limit :: "seg_desc_t \<Rightarrow> u32" where
  "seg_limit d = push_bit 16 (ucast (seg_lim_19_16 d)) OR ucast (seg_lim_15_00 d)"

lemma seg_masks:
  "(0xFF000000 :: u32) = push_bit 24 (mask 8)" "(0x00FF0000 :: u32) = push_bit 16 (mask 8)"
  "(0x000F0000 :: u32) = push_bit 16 (mask 4)" "(0x0000FFFF :: u32) = mask 16"
  by (simp_all add: mask_eq_exp_minus_1)

lemma set_params_fields:
  "seg_base (SET_LDT_PARAMS addr lim d) = addr" "seg_limit (SET_LDT_PARAMS addr lim d) = take_bit 20 lim"
  "SET_TSS_PARAMS = SET_LDT_PARAMS"
proof -
  show "seg_base (SET_LDT_PARAMS addr lim d) = addr"
    unfolding seg_base_def SET_LDT_PARAMS_def seg_masks
    by (rule bit_word_eqI, rename_tac n, case_tac "n < 16"; case_tac "n < 24") (auto simp: bit_simps)
  show "seg_limit (SET_LDT_PARAMS addr lim d) = take_bit 20 lim"
    unfolding seg_limit_def SET_LDT_PARAMS_def seg_masks
    by (rule bit_word_eqI, rename_tac n, case_tac "n < 16") (auto simp: bit_simps)
  show "SET_TSS_PARAMS = SET_LDT_PARAMS"
    by (intro ext) (simp add: SET_LDT_PARAMS_def SET_TSS_PARAMS_def)
qed

theorem boot_descriptors:
  "seg_base (the_ldt_desc junk ldt lsize) = ldt" "seg_limit (the_ldt_desc junk ldt lsize) = take_bit 20 lsize"
  "seg_base (the_tss_desc junk tss tsize) = tss" "seg_limit (the_tss_desc junk tss tsize) = take_bit 20 tsize"
  "seg_type (the_ldt_desc junk ldt lsize) = 2" "seg_type (the_tss_desc junk tss tsize) = 9"
  by (simp_all only: the_ldt_desc_def the_tss_desc_def set_params_fields)
     (simp_all add: SET_LDT_PARAMS_def)

section \<open>The report on the boot information\<close>

record module_t =
  mod_start :: u32
  mod_end :: u32
  mod_string :: u32
  mod_reserved :: u32

record memory_map_t =
  map_size :: u32
  base_addr_low :: u32
  base_addr_high :: u32
  length_low :: u32
  length_high :: u32
  map_type :: u32

text \<open>
  The structure the boot loader passes, with the tables it points to: the modules and the memory
  map, whose entries lie one behind the other.
\<close>

record multiboot_info_t =
  mbi_flags :: u32
  mem_lower :: u32
  mem_upper :: u32
  boot_device :: u32
  cmdline :: "u8 list"
  mods_count :: nat
  mods :: "nat \<Rightarrow> module_t"
  elf_num :: u32
  elf_size :: u32
  elf_addr :: u32
  elf_shndx :: u32
  mmap_addr :: u32
  mmap_length :: u32
  mmap_entries :: "memory_map_t list"

definition CHECK_FLAG :: "u32 \<Rightarrow> nat \<Rightarrow> bool" where
  "CHECK_FLAG fl b \<longleftrightarrow> fl AND push_bit b 1 \<noteq> 0"

definition say :: "u8 list \<Rightarrow> printf_arg list \<Rightarrow> kernel \<Rightarrow> kernel outcome" where
  "say fmt args s = andthen (printf fmt args s) (\<lambda>(n, s). Done s)"

definition line :: "string \<Rightarrow> u8 list" where
  "line s = chars s @ [10, 0]"

text \<open>The \<open>char\<close> behind the pointer is sign-extended for \<open>%x\<close>.\<close>

fun say_bytes :: "mem \<Rightarrow> u32 \<Rightarrow> nat list \<Rightarrow> kernel \<Rightarrow> kernel outcome" where
  "say_bytes ram start [] s = Done s"
| "say_bytes ram start (i # is) s =
     andthen (say (c_lit ''0x%x '') [Num (scast (ram (unat start + i)))] s) (say_bytes ram start is)"

fun say_modules :: "mem \<Rightarrow> (nat \<Rightarrow> module_t) \<Rightarrow> nat list \<Rightarrow> kernel \<Rightarrow> kernel outcome" where
  "say_modules ram ms [] s = Done s"
| "say_modules ram ms (k # ks) s =
     andthen (say (line ''Module %d loaded at address: 0x%#x'') [Num (of_nat k), Num (mod_start (ms k))] s) (\<lambda>s.
     andthen (say (line ''Module %d ends at address: 0x%#x'') [Num (of_nat k), Num (mod_end (ms k))] s) (\<lambda>s.
     andthen (say (line ''First few bytes of module:'') [] s) (\<lambda>s.
     andthen (say_bytes ram (mod_start (ms k)) [0..<16] s) (\<lambda>s.
     andthen (say [10, 0] [] s) (say_modules ram ms ks)))))"

fun say_map :: "memory_map_t list \<Rightarrow> kernel \<Rightarrow> kernel outcome" where
  "say_map [] s = Done s"
| "say_map (e # es) s =
     andthen (say (chars ''    size = 0x%x, base_addr = 0x%#x%#x'' @ [10]
                   @ line ''    type = 0x%x,  length    = 0x%#x%#x'')
                [Num (map_size e), Num (base_addr_high e), Num (base_addr_low e), Num (map_type e),
                 Num (length_high e), Num (length_low e)] s) (say_map es)"

definition optional :: "bool \<Rightarrow> (kernel \<Rightarrow> kernel outcome) \<Rightarrow> kernel \<Rightarrow> kernel outcome" where
  "optional b f s = (if b then f s else Done s)"

text \<open>\<open>False\<close>: booting ends with a message.\<close>

definition boot_report :: "multiboot_info_t \<Rightarrow> mem \<Rightarrow> kernel \<Rightarrow> (bool \<times> kernel) outcome" where
  "boot_report mbi ram s =
     (let has = CHECK_FLAG (mbi_flags mbi) in
      andthen (say (line ''flags = 0x%#x'') [Num (mbi_flags mbi)] s) (\<lambda>s.
      andthen (optional (has 0) (say (line ''mem_lower = %uKB, mem_upper = %uKB'')
                 [Num (mem_lower mbi), Num (mem_upper mbi)]) s) (\<lambda>s.
      andthen (optional (has 1) (say (line ''boot_device = 0x%#x'') [Num (boot_device mbi)]) s) (\<lambda>s.
      andthen (optional (has 2) (say (line ''cmdline = %s'') [Str (cmdline mbi)]) s) (\<lambda>s.
      andthen (optional (has 3) (\<lambda>s. say_modules ram (mods mbi) [0..<mods_count mbi]
                 (s\<lparr>fs := (\<lambda>a. ram (unat (mod_start (mods mbi 0)) + a))\<rparr>)) s) (\<lambda>s.
      if has 4 \<and> has 5
      then andthen (say (line ''Both bits 4 and 5 are set.'') [] s) (\<lambda>s. Done (False, s))
      else
      andthen (optional (has 5) (say (line ''elf_sec: num = %u, size = 0x%#x, addr = 0x%#x, shndx = 0x%#x'')
                 [Num (elf_num mbi), Num (elf_size mbi), Num (elf_addr mbi), Num (elf_shndx mbi)]) s) (\<lambda>s.
      andthen (optional (has 6) (\<lambda>s. andthen (say (line ''mmap_addr = 0x%#x, mmap_length = 0x%x'')
                 [Num (mmap_addr mbi), Num (mmap_length mbi)] s) (say_map (mmap_entries mbi))) s) (\<lambda>s.
      Done (True, s)))))))))"

section \<open>Devices and the first shell\<close>

definition boot_tss :: "kernel \<Rightarrow> kernel" where
  "boot_tss s = s\<lparr>tss_ss0 := KERNEL_DS, tss_esp0 := 0x800000\<rparr>"

definition boot_devices :: "u8 \<Rightarrow> u8 \<Rightarrow> kernel \<Rightarrow> kernel" where
  "boot_devices regb_data old_reg_A s =
     (let s = clear s;
          s = i8259_init s;
          s = init_paging s;
          s = init_rtc regb_data old_reg_A s;
          s = keyboard_init s;
          s = init_process_id_array s;
          s = init_pit s
      in parse_boot_block s)"

definition entry ::
    "u32 \<Rightarrow> multiboot_info_t \<Rightarrow> mem \<Rightarrow> (seg_desc_t \<times> seg_desc_t) \<Rightarrow> (u32 \<times> u32) \<Rightarrow> (u32 \<times> u32) \<Rightarrow>
     u8 \<Rightarrow> u8 \<Rightarrow> u32 \<Rightarrow> u32 \<Rightarrow> kernel \<Rightarrow> (control \<times> (seg_desc_t \<times> seg_desc_t) option \<times> kernel) outcome" where
  "entry magic mbi ram junk ldt tss regb_data old_reg_A esp ebp s =
     (let s = clear s in
      if magic \<noteq> MULTIBOOT_BOOTLOADER_MAGIC
      then andthen (say (line ''Invalid magic number: 0x%#x'') [Num magic] s) (\<lambda>s. Done (Return 0, None, s))
      else andthen (boot_report mbi ram s) (\<lambda>(ok, s).
        if \<not> ok then Done (Return 0, None, s)
        else let descs = (the_ldt_desc (fst junk) (fst ldt) (snd ldt), the_tss_desc (snd junk) (fst tss) (snd tss));
                 s = boot_devices regb_data old_reg_A (boot_tss s)
             in andthen (init_terminals esp ebp s) (\<lambda>(c, s).
                  case c of
                    Return r \<Rightarrow> andthen (say (line ''(TESTING FLAG CLEARED)'') [] (sti s))
                                  (\<lambda>s. Done (Idle, Some descs, s))
                  | _ \<Rightarrow> Done (c, Some descs, s))))"

section \<open>What the device set-up establishes\<close>

text \<open>What each step of the set-up leaves alone, and which line it turns on.\<close>

definition boot_view :: "kernel \<Rightarrow> _" where
  "boot_view s = (page_directory s, tables s, fs s, \<lambda>t. term_core (terminal s t))"

lemma irq_on_cong: "master_mask s' = master_mask s \<Longrightarrow> slave_mask s' = slave_mask s \<Longrightarrow> irq_on s' = irq_on s"
  by (simp add: irq_on_def fun_eq_iff)

lemma boot_view_enable: "boot_view (enable_irq n s) = boot_view s" "pid_array (enable_irq n s) = pid_array s"
  by (simp_all add: enable_irq_def boot_view_def tables_def outb_def Let_def)

lemma boot_view_step [simp]:
  "boot_view (cli s) = boot_view s" "boot_view (sti s) = boot_view s" "boot_view (outb d p s) = boot_view s"
  "pid_array (cli s) = pid_array s" "pid_array (sti s) = pid_array s" "pid_array (outb d p s) = pid_array s"
  "irq_on (cli s) = irq_on s" "irq_on (sti s) = irq_on s" "irq_on (outb d p s) = irq_on s"
  by (simp_all add: boot_view_def cli_def sti_def outb_def tables_def fun_eq_iff irq_on_def)

lemma boot_clear:
  "boot_view (clear s) = boot_view s" "irq_on (clear s) = irq_on s" "pid_array (clear s) = pid_array s"
  by (auto simp: clear_def update_cursor_def outb_def Let_def upd_term_def tables_def term_core_def
      boot_view_def fun_eq_iff irq_on_def)

lemma boot_i8259:
  "boot_view (i8259_init s) = boot_view s" "irq_on (i8259_init s) k \<longleftrightarrow> irq_on s k \<or> k = 2"
  "pid_array (i8259_init s) = pid_array s"
  by (simp_all add: i8259_init_def Let_def boot_view_enable pic.on_en)

lemma boot_rtc:
  "boot_view (init_rtc b a s) = boot_view s" "irq_on (init_rtc b a s) k \<longleftrightarrow> irq_on s k \<or> k = 8"
  "pid_array (init_rtc b a s) = pid_array s"
  by (simp_all add: init_rtc_def init_freq_hw_def Let_def boot_view_enable pic.on_en)

lemma boot_keyboard:
  "boot_view (keyboard_init s) = boot_view s" "irq_on (keyboard_init s) k \<longleftrightarrow> irq_on s k \<or> k = 1"
  "pid_array (keyboard_init s) = pid_array s"
proof -
  have v: "boot_view (keyboard_init s) = boot_view (enable_irq keyboard_irq s)"
    "irq_on (keyboard_init s) = irq_on (enable_irq keyboard_irq s)"
    "pid_array (keyboard_init s) = pid_array (enable_irq keyboard_irq s)"
    by (simp_all add: keyboard_init_def boot_view_def tables_def fun_eq_iff irq_on_def)
  show "boot_view (keyboard_init s) = boot_view s" "irq_on (keyboard_init s) k \<longleftrightarrow> irq_on s k \<or> k = 1"
    "pid_array (keyboard_init s) = pid_array s"
    by (simp_all add: v boot_view_enable pic.on_en)
qed

lemma boot_pit:
  "boot_view (init_pit s) = boot_view s" "irq_on (init_pit s) k \<longleftrightarrow> irq_on s k \<or> k = 0"
  "pid_array (init_pit s) = pid_array s"
  by (simp_all add: init_pit_def pit_change_freq_def Let_def boot_view_enable pic.on_en)

lemma boot_ids:
  "boot_view (init_process_id_array s) = boot_view s" "irq_on (init_process_id_array s) = irq_on s"
  "3 \<le> i \<Longrightarrow> i < 6 \<Longrightarrow> pid_array (init_process_id_array s) i = 0"
proof -
  show "boot_view (init_process_id_array s) = boot_view s"
    by (simp add: init_process_id_array_def boot_view_def tables_def)
  show "irq_on (init_process_id_array s) = irq_on s"
    by (rule irq_on_cong) (simp_all add: init_process_id_array_def)
  show "3 \<le> i \<Longrightarrow> i < 6 \<Longrightarrow> pid_array (init_process_id_array s) i = 0"
    unfolding init_process_id_array_def fold_upd_range by simp
qed

lemma boot_parse:
  "boot_view (parse_boot_block s) = boot_view s" "irq_on (parse_boot_block s) = irq_on s"
  "pid_array (parse_boot_block s) = pid_array s" "inodesCount (parse_boot_block s) = rd32 (fs s) 4"
  "data_count_blk (parse_boot_block s) = rd32 (fs s) 8"
  by (simp_all add: parse_boot_block_def boot_view_def tables_def irq_on_def fun_eq_iff)

lemma masked_off: "master_mask s = 0xFF \<Longrightarrow> slave_mask s = 0xFF \<Longrightarrow> \<not> irq_on s k"
proof -
  have ones: "(0xFF :: u8) = mask 8" by (simp add: mask_eq_exp_minus_1)
  have b: "bit (mask 8 :: u8) j \<longleftrightarrow> j < 8" for j :: nat
    by (simp only: bit_mask_iff) simp
  assume "master_mask s = 0xFF" "slave_mask s = 0xFF"
  then have "irq_on s k \<longleftrightarrow> (if k < 8 then \<not> k < 8 else k < 16 \<and> \<not> k - 8 < 8)"
    by (simp only: irq_on_def ones b)
  then show "\<not> irq_on s k" by (auto split: if_splits)
qed

text \<open>
  After the set-up exactly the timer, keyboard, cascade and clock lines are on, the kernel's
  mappings are in place, no process id above the base ones is taken, and the counts of the boot
  block are known.
\<close>

theorem boot_devices_ready:
  fixes regb rega :: u8
  assumes "linked s" "page_table_video s = (\<lambda>_. 0)" "master_mask s = 0xFF" "slave_mask s = 0xFF"
  defines "s' \<equiv> boot_devices regb rega s"
  shows "paging_inv s'" and "irq_on s' k \<longleftrightarrow> k \<in> {0, 1, 2, 8}"
    and "3 \<le> i \<Longrightarrow> i < 6 \<Longrightarrow> pid_array s' i = 0"
    and "inodesCount s' = rd32 (fs s) 4" "data_count_blk s' = rd32 (fs s) 8"
    and "term_core (terminal s' t) = term_core (terminal s t)"
proof -
  define s2 where "s2 = i8259_init (clear s)"
  define s3 where "s3 = init_paging s2"
  define s7 where "s7 = init_pit (init_process_id_array (keyboard_init (init_rtc regb rega s3)))"
  have s': "s' = parse_boot_block s7"
    by (simp add: s'_def boot_devices_def Let_def s2_def s3_def s7_def)
  have v2: "boot_view s2 = boot_view s" by (simp add: s2_def boot_i8259 boot_clear)
  have v3: "fs s3 = fs s2" "terminal s3 = terminal s2" "irq_on s3 = irq_on s2"
    by (simp_all add: s3_def init_paging_eq irq_on_def fun_eq_iff)
  have v7: "boot_view s' = boot_view s3"
    by (simp add: s' s7_def boot_parse boot_pit boot_ids boot_keyboard boot_rtc)
  have "linked s2" "page_table_video s2 = (\<lambda>_. 0)"
    using v2 assms(1,2) by (simp_all add: boot_view_def tables_def linked_def)
  then have "paging_inv s3" unfolding s3_def by (rule init_paging_inv)
  then show "paging_inv s'" using v7 paging_inv_cong[of s' s3] by (simp add: boot_view_def)
  show "irq_on s' k \<longleftrightarrow> k \<in> {0, 1, 2, 8}"
    using masked_off[OF assms(3,4)]
    by (auto simp: s' s7_def boot_parse boot_pit boot_ids boot_keyboard boot_rtc v3 s2_def boot_i8259 boot_clear)
  show "3 \<le> i \<Longrightarrow> i < 6 \<Longrightarrow> pid_array s' i = 0"
    by (simp add: s' s7_def boot_parse boot_pit boot_ids)
  have "boot_view s7 = boot_view s3" using v7 by (simp add: s' boot_parse)
  then have "fs s7 = fs s" using v2 v3 by (simp add: boot_view_def)
  then show "inodesCount s' = rd32 (fs s) 4" "data_count_blk s' = rd32 (fs s) 8"
    by (simp_all add: s' boot_parse)
  have "(\<lambda>t. term_core (terminal s' t)) = (\<lambda>t. term_core (terminal s t))"
    using v7 v2 v3 by (simp add: boot_view_def)
  then show "term_core (terminal s' t) = term_core (terminal s t)" by (rule fun_cong)
qed

section \<open>The three shells come up\<close>

text \<open>\<open>up s st n\<close>: the stacks are \<open>st\<close>, the processor runs the active terminal, \<open>n\<close> shells were
  started by the timer.\<close>

definition up :: "kernel \<Rightarrow> (nat \<Rightarrow> frame list) \<Rightarrow> int \<Rightarrow> bool" where
  "up s st n \<longleftrightarrow> proc_rel s st \<and> running s \<and> paging_inv s \<and> displayed_terminal s < 3 \<and> init_count s = n"

lemma up_kernel: "same_kernel s s' \<Longrightarrow> up s st n \<Longrightarrow> up s' st n"
  using same_frames_rel[of s s' st] same_frames_running[of s s'] same_kernel_paging[of s s']
  by (simp add: up_def same_kernel_def tables_def)

lemma execute_first:
  assumes "proc_rel s st" "active_terminal s < 3" "st (active_terminal s) = []" "paging_inv s"
    and "displayed_terminal s < 3" "execute_call command esp ebp s = Done (Enter_user e u, s')"
  shows "up s' (st(active_terminal s := [(active_terminal s, esp, ebp)])) (init_count s) \<and>
    active_terminal s' = active_terminal s"
proof -
  have r: "proc_rel s' (st(active_terminal s := [(active_terminal s, esp, ebp)])) \<and> running s' \<and>
    active_terminal s' = active_terminal s \<and> displayed_terminal s' = displayed_terminal s \<and>
    page_directory s' = (page_directory s)(32 := user_pde (of_nat (active_terminal s)))"
    by (rule shell_starts[OF assms(1-3,6)])
  have t: "tables s' = tables s" by (rule execute_tables[OF assms(6)])
  have "paging_inv s'" by (rule paging_inv_enter[OF assms(4) t]) (use assms(2) r in simp_all)
  then show ?thesis using r t assms(5) by (simp add: up_def tables_def)
qed

lemma init_terminals_first:
  assumes "\<And>t. init_flag (terminal s t) = 0" "\<And>i. 3 \<le> i \<Longrightarrow> i < 6 \<Longrightarrow> pid_array s i = 0"
    and "active_terminal s = 0" "displayed_terminal s < 3" "paging_inv s"
    and "init_terminals esp ebp s = Done (Enter_user e u, s')"
  shows "up s' ((\<lambda>t. [])(0 := [(0, esp, ebp)])) (init_count s) \<and> active_terminal s' = 0"
proof -
  define x where "x = remap_video_mem_user 0 (init_terminal_structs s)"
  have x: "terminal x = (\<lambda>t. if t < 3 then init_terminal t (terminal s t) else terminal s t)"
    "pid_array x = pid_array s" "active_terminal x = 0" "displayed_terminal x = displayed_terminal s"
    "init_count x = init_count s"
    using assms(3) by (simp_all add: x_def remap_video_mem_user_eq init_terminal_structs_eq)
  have "proc_rel x (\<lambda>t. [])"
    using assms(1,2) by (auto simp: proc_rel_def x term_ok_def init_terminal_def pids_of_def)
  moreover have "paging_inv x"
    unfolding x_def by (rule remap_video_inv) (use assms(5) in \<open>simp_all add: init_terminal_structs_eq paging_inv_def linked_def\<close>)
  moreover have "execute_call shell_command esp ebp x = Done (Enter_user e u, s')"
    using void_call[OF assms(6)[unfolded init_terminals_def Let_def x_def[symmetric]]] by blast
  ultimately show ?thesis
    using execute_first[of x "\<lambda>t. []" shell_command esp ebp e u s'] assms(4) by (simp add: x)
qed

lemma next_shell:
  assumes "up s st k" "active_terminal s < 3" "st ((active_terminal s + 1) mod 3) = []"
    and "start_next_shell n esp ebp xesp xebp s = Done (Enter_user e u, s')"
  defines "m \<equiv> (active_terminal s + 1) mod 3"
  shows "up s' (st(m := [(m, xesp, xebp)])) n \<and> active_terminal s' = m"
proof -
  define x0 where "x0 = next_terminal (save_context esp ebp (s\<lparr>init_count := n\<rparr>))"
  define x where "x = remap_video_mem_user m x0"
  have x0: "active_terminal x0 = m" "terminal x0 = terminal s" "displayed_terminal x0 = displayed_terminal s"
    "pid_array x0 = pid_array s" "init_count x0 = n"
    by (simp_all add: x0_def next_terminal_def save_context_def upd_pcb_def m_def)
  have m: "m < 3" by (simp add: m_def)
  have "proc_rel x st = proc_rel s st"
  proof (rule proc_rel_core)
    show "pcb_core (pcbs x a) = pcb_core (pcbs s a)" for a
      by (simp add: x_def x0_def next_terminal_def save_context_def upd_pcb_def pcb_core_def frame)
  qed (simp_all add: x_def frame x0)
  moreover have "paging_inv x0"
    using assms(1) by (simp add: up_def x0_def next_terminal_def save_context_def upd_pcb_def
        paging_inv_def linked_def)
  then have "paging_inv x" unfolding x_def by (rule remap_video_inv[OF _ m])
  moreover have "execute_call shell_command xesp xebp x = Done (Enter_user e u, s')"
  proof -
    have "start_next_shell n esp ebp xesp xebp s = andthen (execute_call shell_command xesp xebp x)
        (\<lambda>(c, s). case c of Return r \<Rightarrow> Done (Return 0, s) | _ \<Rightarrow> Done (c, s))"
      by (simp only: start_next_shell_def Let_def x_def x0_def[symmetric] x0(1))
    from void_call[OF assms(4)[unfolded this]] show ?thesis by blast
  qed
  moreover have "active_terminal x = m" "displayed_terminal x = displayed_terminal s" "init_count x = n"
    by (simp_all add: x_def remap_video_mem_user_eq x0)
  ultimately show ?thesis
    using execute_first[of x st shell_command xesp xebp e u s'] assms(1,3) m by (simp add: up_def m_def)
qed

end
