(* ===== verification/Loading.thy ===== *)
theory Loading
  imports System
begin

text \<open>
  The success of \<open>execute_call\<close>: for a command that names a well-formed executable, with a process
  id to spare, the program's bytes are in the page of the new process and the processor enters
  the address the executable gives.
\<close>

section \<open>What the loader relies on\<close>

text \<open>The part of the state the file system reads.\<close>

definition same_image :: "kernel \<Rightarrow> kernel \<Rightarrow> bool" where
  "same_image s s' \<longleftrightarrow> fs s' = fs s \<and> inodesCount s' = inodesCount s \<and>
     data_count_blk s' = data_count_blk s \<and> stack_junk s' = stack_junk s"

text \<open>
  A file the loader can handle: its inode number fits an \<open>int8_t\<close>, its blocks exist, it holds at
  least the entry address and fits the program page.
\<close>

definition loadable :: "kernel \<Rightarrow> u32 \<Rightarrow> bool" where
  "loadable s inode \<longleftrightarrow> unat inode < 128 \<and> inode \<le> inodesCount s \<and> inode \<noteq> verylarge_inode s \<and>
     28 \<le> unat (inode_length (fs s) inode) \<and> unat (inode_length (fs s) inode) \<le> 0x3B8000 \<and>
     readable s inode 0 (unat (inode_length (fs s) inode))"

definition elf_magic :: "u8 list" where
  "elf_magic = [0x7F, 0x45, 0x4C, 0x46]"

text \<open>The little-endian word at offset 24.\<close>

definition elf_entry :: "u8 list \<Rightarrow> u32" where
  "elf_entry bs = rd32 (\<lambda>i. bs ! i) 24"

lemma verylarge_image: "same_image s s' \<Longrightarrow> verylarge_inode s' = verylarge_inode s"
  by (rule verylarge_inode_cong) (simp_all add: same_image_def)

lemma image_facts:
  assumes "same_image s s'"
  shows "loadable s' inode = loadable s inode" "file_content s' inode = file_content s inode"
    "file_byte s' inode = file_byte s inode" "inode_length (fs s') inode = inode_length (fs s) inode"
    "readable s' inode = readable s inode" "has_file s' name = has_file s name"
    "file_dentry s' name = file_dentry s name"
  using assms verylarge_image[OF assms]
  by (simp_all add: same_image_def loadable_def file_content_def file_byte_def[abs_def] readable_def[abs_def]
      block_ok_def[abs_def] has_file_def file_dentry_def)

lemma same_image_trans: "same_image s s1 \<Longrightarrow> same_image s1 s2 \<Longrightarrow> same_image s s2"
  by (simp add: same_image_def)

lemma same_image_upd:
  "same_image s (upd_term t f s)" "same_image s (upd_pcb a g s)" "same_image s (cli s)"
  "same_image s (s\<lparr>curr_pid := p\<rparr>)" "same_image s (s\<lparr>save_parent_pid := p\<rparr>)" "same_image s (s\<lparr>phys := m\<rparr>)"
  "same_image s (s\<lparr>str_len := n\<rparr>)" "same_image s (take_pid i s)" "same_image s (virt_to_phys_user q s)"
  "same_image s (set_tss p s)" "same_image s (note_verylarge inode s)"
  by (simp_all add: same_image_def upd_term_def upd_pcb_def cli_def take_pid_def virt_to_phys_user_eq
      set_tss_def note_verylarge_def)

lemma same_image_clear: "same_image s (clear_temp_buff s)"
proof -
  have f: "same_image s (fold (\<lambda>j. upd_term d (\<lambda>t. t\<lparr>tempbuf := (tempbuf t)[j := 0]\<rparr>)) js s)" for d js s
  proof (induction js arbitrary: s)
    case (Cons j js)
    show ?case unfolding fold_simps by (rule same_image_trans[OF same_image_upd(1) Cons.IH])
  qed (simp add: same_image_def)
  show ?thesis unfolding clear_temp_buff_def by (rule same_image_trans[OF f same_image_upd(7)])
qed

lemma same_image_begin: "same_image s (exec_begin s)"
proof -
  define c where "c = (if displayed_terminal (cli s) = active_terminal (cli s)
    then clear_temp_buff (cli s) else cli s)"
  have "same_image s c"
    using same_image_trans[OF same_image_upd(3) same_image_clear] same_image_upd(3) by (simp add: c_def)
  moreover have "exec_begin s = c\<lparr>curr_pid := pid (active_term c)\<rparr>"
    by (simp add: exec_begin_def Let_def c_def)
  ultimately show ?thesis using same_image_trans[OF _ same_image_upd(4)] by simp
qed

section \<open>Reading the executable\<close>

lemma read_part:
  assumes "loadable s inode" "unat off + unat len \<le> unat (inode_length (fs s) inode)" "len \<noteq> 0"
  shows "read_data inode off False len s =
    Done (int (unat len), take (unat len) (drop (unat off) (file_content s inode)), note_verylarge inode s)"
proof -
  let ?L = "unat (inode_length (fs s) inode)"
  have l: "inode \<le> inodesCount s" "inode \<noteq> verylarge_inode s" "?L < 2 ^ 31" "readable s inode 0 ?L"
    using assms(1) by (simp_all add: loadable_def)
  have "0 < unat len" using assms(3) by (simp add: unat_gt_0)
  then have off: "off < inode_length (fs s) inode" using assms(2) by (simp add: word_less_nat_alt)
  have "readable s inode (unat off) (unat off + unat len)"
    using l(4) assms(2) by (auto simp: readable_def)
  note rd = read_data_readable[OF l(1) assms(3) off this]
  have "min (unat len) (?L - unat off) = unat len" using assms(2) by simp
  then have "map (file_byte s inode) [unat off..<unat off + unat len] =
      take (unat len) (drop (unat off) (file_content s inode))"
    using chunk_content[of "unat off" ?L s inode "unat len"] assms(2) by simp
  moreover have "min (unat len) ?L = unat len" using assms(2) by simp
  ultimately show ?thesis using rd read_result_ordinary[OF l(2,3), of len] by simp
qed

lemma length_content [simp]: "length (file_content s inode) = unat (inode_length (fs s) inode)"
  by (simp add: file_content_def)

lemma load_program_ok:
  assumes "loadable s inode" "page_directory s 32 = user_pde q"
  shows "\<exists>s'. load_program inode s = Done (int (unat (inode_length (fs s) inode)), s') \<and>
    copy_in PROGRAM_ADDR (unat (inode_length (fs s) inode)) s' = Done (file_content s inode) \<and>
    same_image s s' \<and> (\<exists>m. s' = (note_verylarge inode s)\<lparr>phys := m\<rparr>)"
proof -
  let ?len = "inode_length (fs s) inode" and ?x = "note_verylarge inode s"
  have n: "28 \<le> unat ?len" "unat ?len \<le> 0x3B8000" using assms(1) by (simp_all add: loadable_def)
  then have "?len \<noteq> 0" by auto
  then have rd: "read_data inode 0 False ?len s = Done (int (unat ?len), file_content s inode, ?x)"
    using read_part[OF assms(1), of 0 ?len] by simp
  have "bit (page_directory ?x 32) 0"
    using assms(2) by (simp add: note_verylarge_def user_pde_def bit_or_iff)
  then have "in_user ?x PROGRAM_ADDR (unat ?len)" using n(2) by (simp add: in_user_def)
  then obtain y where c: "copy_out PROGRAM_ADDR (file_content s inode) ?x = Done y"
    by (cases "file_content s inode = []") (simp_all add: copy_out_def)
  obtain m where y: "y = ?x\<lparr>phys := m\<rparr>" using copy_out_frame[OF c] by blast
  have "same_image s y" unfolding y by (rule same_image_trans[OF same_image_upd(11) same_image_upd(6)])
  moreover have "copy_in PROGRAM_ADDR (unat ?len) y = Done (file_content s inode)"
    using copy_in_out[OF c] by simp
  ultimately show ?thesis using y by (simp add: load_program_def rd c) blast
qed

lemma entry_point_ok:
  assumes "loadable s inode"
  shows "entry_point inode s = Done (elf_entry (file_content s inode), note_verylarge inode s)"
proof -
  let ?c = "file_content s inode"
  have n: "28 \<le> length ?c" using assms by (simp add: loadable_def)
  have "read_data inode ENTRY_POINT_FILE_POS False 4 s = Done (4, take 4 (drop 24 ?c), note_verylarge inode s)"
    using read_part[OF assms, of 24 4] n by simp
  moreover have "rd32 (\<lambda>i. (take 4 (drop 24 ?c) @ xs) ! i) 0 = elf_entry ?c" for xs
    using n by (simp add: elf_entry_def rd32_def nth_append add.commute)
  ultimately show ?thesis by (simp add: entry_point_def Let_def)
qed

lemma start_program_ok:
  assumes "loadable s inode" "length arg < 128"
  shows "\<exists>s'. start_program inode arg old esp ebp s =
      Done (Enter_user (elf_entry (file_content s inode)) USER_STACK, s') \<and>
    copy_in PROGRAM_ADDR (unat (inode_length (fs s) inode)) s' = Done (file_content s inode) \<and>
    same_image s s'"
proof -
  define x where "x = upd_term (active_terminal s) (\<lambda>t. if init_flag t = 1 then t\<lparr>pid := curr_pid s\<rparr> else t) s"
  define s1 where "s1 = virt_to_phys_user (word_of_int (curr_pid x)) x"
  have i1: "same_image s s1"
    unfolding s1_def x_def by (rule same_image_trans[OF same_image_upd(1) same_image_upd(9)])
  note f1 = image_facts[OF i1]
  have pde: "page_directory s1 32 = user_pde (word_of_int (curr_pid x))"
    by (simp add: s1_def virt_to_phys_user_eq user_pde_def)
  obtain s2 m where l: "load_program inode s1 = Done (int (unat (inode_length (fs s1) inode)), s2)"
    and cp: "copy_in PROGRAM_ADDR (unat (inode_length (fs s1) inode)) s2 = Done (file_content s1 inode)"
    and i2: "same_image s1 s2" and s2: "s2 = (note_verylarge inode s1)\<lparr>phys := m\<rparr>"
    using load_program_ok[of s1 inode, OF _ pde] assms(1) f1(1) by blast
  obtain s3 where c: "setup_pcb arg (set_parent old s2) = Done s3"
    using assms(2) by (simp add: setup_pcb_def)
  have s3: "same_image s2 s3" "phys s3 = phys s2" "page_directory s3 = page_directory s2"
    using c assms(2) by (auto simp: setup_pcb_def set_parent_def Let_def same_image_def upd_pcb_def upd_term_def)
  have i3: "same_image s s3" by (rule same_image_trans[OF i1 same_image_trans[OF i2 s3(1)]])
  note f3 = image_facts[OF i3]
  have en: "entry_point inode s3 = Done (elf_entry (file_content s inode), note_verylarge inode s3)"
    using entry_point_ok[of s3 inode] assms(1) f3 by simp
  define s4 where "s4 = set_tss (curr_pid (note_verylarge inode s3)) (note_verylarge inode s3)"
  define s' where "s' = upd_pcb (get_pcb_addr (word_of_int (curr_pid s4)))
    (\<lambda>p. p\<lparr>task_esp := esp, task_ebp := ebp\<rparr>) s4"
  have nn: "uint w \<noteq> - 1" for w :: u32 using unsigned_greater_eq[where w = w and ?'a = int] by linarith
  have "start_program inode arg old esp ebp s = Done (Enter_user (elf_entry (file_content s inode)) USER_STACK, s')"
    using l c en by (simp add: start_program_def Let_def x_def[symmetric] s1_def[symmetric])
      (simp add: s'_def s4_def nn)
  moreover have "phys s' = phys s2" "page_directory s' = page_directory s2"
    by (simp_all add: s'_def s4_def upd_pcb_def set_tss_def note_verylarge_def s3)
  then have "copy_in PROGRAM_ADDR (unat (inode_length (fs s) inode)) s' = Done (file_content s inode)"
    using cp f1 copy_in_cong[of s' s2] by simp
  moreover have "same_image s s'"
    unfolding s'_def s4_def
    by (rule same_image_trans[OF i3 same_image_trans[OF same_image_upd(11) same_image_trans[OF same_image_upd(10,2)]]])
  ultimately show ?thesis by blast
qed

section \<open>The command finds it\<close>

lemma int8_inode:
  assumes "unat (w :: u32) < 128"
  shows "scast (ucast w :: u8) = w"
proof -
  have "take_bit 7 w = w"
    using assms by (simp add: word_unat_eq_iff unsigned_take_bit_eq take_bit_nat_eq_self)
  then have hi: "\<not> bit w n" if "7 \<le> n" for n
    using that by (metis bit_take_bit_iff not_less)
  show ?thesis
    by (rule bit_word_eqI) (use hi in \<open>auto simp: bit_simps min_def\<close>)
qed

lemma first_word_buffer:
  assumes "strlen command = Some n" "n \<le> 1023"
  shows "0 \<in> set (zero_buffer (first_word (skip_spaces command)))"
    and "cstr (zero_buffer (first_word (skip_spaces command))) = first_word (skip_spaces command)"
proof -
  let ?w = "first_word (skip_spaces command)"
  have "0 \<notin> set ?w" by (auto simp: first_word_def dest: set_takeWhileD)
  moreover have "length ?w \<le> n"
  proof -
    have "?w = takeWhile (\<lambda>c. c \<noteq> SPACE \<and> c \<noteq> NEWLINE) (cstr (skip_spaces command))"
      by (simp add: first_word_def cstr_def takeWhile_takeWhile conj_ac)
    then have "length ?w \<le> length (cstr (skip_spaces command))" by (simp add: length_takeWhile_le)
    also have "\<dots> \<le> length (cstr command)"
      unfolding skip_spaces_def by (induction command) auto
    finally show ?thesis using assms(1) by (simp add: strlen_cstr split: if_splits)
  qed
  ultimately show "0 \<in> set (zero_buffer ?w)" "cstr (zero_buffer ?w) = ?w"
    using assms(2) cstr_append_nul[of ?w "replicate (1023 - length ?w) 0"]
    by (simp_all add: zero_buffer_def replicate_app_Cons_same Suc_diff_le[symmetric]
        replicate_Suc[symmetric] del: replicate_Suc)
qed

definition names_program :: "kernel \<Rightarrow> u8 list \<Rightarrow> u32 \<Rightarrow> bool" where
  "names_program s command inode \<longleftrightarrow>
     (let name = zero_buffer (first_word (skip_spaces command)) in
      (\<exists>n\<le>1023. strlen command = Some n) \<and> has_file s name \<and> dentry_inode (file_dentry s name) = inode \<and>
      loadable s inode \<and> take 4 (file_content s inode) = elf_magic \<and>
      length (arg_text (skip_spaces command)) < 128)"

lemma find_program_ok:
  assumes "names_program s command inode"
  shows "find_program (skip_spaces command) s = Done (Some inode, note_verylarge inode s)"
proof -
  let ?name = "zero_buffer (first_word (skip_spaces command))" and ?c = "file_content s inode"
  have h: "has_file s ?name" "dentry_inode (file_dentry s ?name) = inode" "loadable s inode"
    "take 4 ?c = elf_magic"
    using assms by (simp_all add: names_program_def Let_def)
  have rd: "read_dentry_by_name s ?name False = Done (0, Some (file_dentry s ?name))"
    using h(1) read_dentry_by_name_eq[of ?name s] by (auto simp: has_file_def file_dentry_def)
  have "28 \<le> unat (inode_length (fs s) inode)" "unat inode < 128" using h(3) by (simp_all add: loadable_def)
  then have "read_data inode 0 False 4 s = Done (4, elf_magic, note_verylarge inode s)"
    using read_part[OF h(3), of 0 4] h(4) by simp
  then show ?thesis
    using rd h(2) int8_inode[OF \<open>unat inode < 128\<close>]
    by (simp add: find_program_def Let_def elf_magic_def)
qed

text \<open>A process id for the command: the terminal's own when it has no shell yet, or a free one.\<close>

definition has_pid :: "kernel \<Rightarrow> bool" where
  "has_pid s \<longleftrightarrow> runs_shell s \<or> (\<exists>i. 3 \<le> i \<and> i < 6 \<and> free_pid s i)"

theorem execute_loads:
  assumes "names_program s command inode" "has_pid s"
  shows "\<exists>s'. execute_call command esp ebp s =
      Done (Enter_user (elf_entry (file_content s inode)) USER_STACK, s') \<and>
    copy_in PROGRAM_ADDR (unat (inode_length (fs s) inode)) s' = Done (file_content s inode) \<and>
    same_image s s'"
proof -
  define b where "b = exec_begin s"
  define x where "x = note_verylarge inode b"
  note fb = image_facts[OF same_image_begin[of s, folded b_def]]
  have np: "names_program b command inode" using assms(1) by (simp add: names_program_def fb Let_def)
  obtain n where n: "strlen command = Some n" "n \<le> 1023"
    using assms(1) by (auto simp: names_program_def Let_def)
  have sp: "same_procs s x"
    using exec_begin_procs[of s] by (simp add: x_def b_def note_verylarge_def same_procs_def)
  have "choose_pid x \<noteq> None"
  proof (cases "runs_shell s")
    case True
    then show ?thesis using sp by (simp add: choose_pid_def runs_shell_def same_procs_def)
  next
    case False
    then have "\<exists>i. 3 \<le> i \<and> i < 6 \<and> free_pid x i"
      using assms(2) sp by (simp add: has_pid_def free_pid_def same_procs_def)
    then have "find (free_pid x) [3..<6] \<noteq> None" unfolding pids_full by blast
    then show ?thesis by (auto simp: choose_pid_def simp del: upt_rec_numeral)
  qed
  then obtain y where y: "choose_pid x = Some y" by blast
  have "same_image x y"
    using y by (auto simp: choose_pid_def same_image_def upd_term_def take_pid_def simp del: upt_rec_numeral
        split: if_splits option.splits)
  then have i: "same_image s y"
    using same_image_trans[OF same_image_begin same_image_trans[OF same_image_upd(11)]] by (simp add: x_def b_def)
  note fy = image_facts[OF i]
  have "loadable y inode" "length (arg_text (skip_spaces command)) < 128"
    using assms(1) fy by (simp_all add: names_program_def Let_def)
  from start_program_ok[OF this, of "curr_pid x" esp ebp] obtain s' where
    "start_program inode (arg_text (skip_spaces command)) (curr_pid x) esp ebp y =
      Done (Enter_user (elf_entry (file_content s inode)) USER_STACK, s')"
    "copy_in PROGRAM_ADDR (unat (inode_length (fs s) inode)) s' = Done (file_content s inode)"
    "same_image s s'"
    using same_image_trans[OF i] by (auto simp: fy)
  moreover have "find_program (skip_spaces command) b = Done (Some inode, x)"
    using find_program_ok[OF np] by (simp add: x_def)
  ultimately show ?thesis
    using n y by (simp add: execute_call_unfold b_def[symmetric])
qed

end
