(* ===== verification/Starting.thy ===== *)
theory Starting
  imports Loading Boot
begin

text \<open>
  The base shells: with a well-formed executable \<open>shell\<close> in the image, each terminal gets its shell at
  boot or from the timer, and gets it again when it ends.
\<close>

section \<open>Executing the shell\<close>

text \<open>\<open>shell_image s inode\<close>: \<open>shell\<close> is the executable \<open>inode\<close> of the image.\<close>

definition shell_image :: "kernel \<Rightarrow> u32 \<Rightarrow> bool" where
  "shell_image s inode \<longleftrightarrow> names_program s shell_command inode"

definition shell_entry :: "kernel \<Rightarrow> u32 \<Rightarrow> u32" where
  "shell_entry s inode = elf_entry (file_content s inode)"

lemma shell_image_same: "same_image s s' \<Longrightarrow> shell_image s' inode = shell_image s inode"
  using image_facts by (simp add: shell_image_def names_program_def Let_def)

lemma shell_entry_same: "same_image s s' \<Longrightarrow> shell_entry s' inode = shell_entry s inode"
  using image_facts by (simp add: shell_entry_def)

lemma shell_is_loaded:
  assumes "shell_image s inode" "runs_shell s"
  shows "\<exists>s'. execute_call shell_command esp ebp s = Done (Enter_user (shell_entry s inode) USER_STACK, s') \<and>
    copy_in PROGRAM_ADDR (unat (inode_length (fs s) inode)) s' = Done (file_content s inode) \<and> same_image s s'"
  unfolding shell_entry_def
  by (rule execute_loads) (use assms in \<open>simp_all add: shell_image_def has_pid_def\<close>)

text \<open>A base shell that halts.\<close>

theorem base_shell_again:
  assumes rel: "proc_rel s st" and a: "active_terminal s < 3" and base: "st (active_terminal s) = [f]"
    and shell: "shell_image s inode"
  shows "\<exists>s'. halt_call status esp ebp s = Done (Enter_user (shell_entry s inode) USER_STACK, s') \<and>
    copy_in PROGRAM_ADDR (unat (inode_length (fs s) inode)) s' = Done (file_content s inode) \<and>
    proc_rel s' (st(active_terminal s := [(active_terminal s, esp, ebp)])) \<and> running s' \<and>
    active_terminal s' = active_terminal s"
proof -
  let ?a = "active_terminal s"
  have "pid (active_term s) = int (fst f)" "fst f = ?a"
    using proc_relD[OF rel a] base by (auto simp: term_ok_def frame_ok_def Let_def split: prod.splits)
  then have pid: "pid (active_term s) = int ?a" by simp
  define x where "x = upd_term ?a (\<lambda>t. t\<lparr>pid := int ?a, parentpid := -1, init_flag := 0\<rparr>)
    ((upd_term ?a (\<lambda>t. t\<lparr>rtc_counter := DEFAULT_COUNTER, rtc_target := DEFAULT_TARGET\<rparr>)
      (s\<lparr>curr_pid := int ?a\<rparr>))\<lparr>curr_pid := int ?a, save_parent_pid := -1\<rparr>)"
  have i: "same_image s x" by (simp add: x_def same_image_def upd_term_def)
  have "runs_shell x" by (simp add: x_def runs_shell_def upd_term_def)
  then obtain s' where s': "execute_call shell_command esp ebp x = Done (Enter_user (shell_entry s inode) USER_STACK, s')"
    "copy_in PROGRAM_ADDR (unat (inode_length (fs s) inode)) s' = Done (file_content s inode)"
    using shell_is_loaded[of x inode esp ebp] shell shell_image_same[OF i] shell_entry_same[OF i] image_facts[OF i] by auto
  have "halt_call status esp ebp s = andthen (execute_call shell_command esp ebp x)
      (\<lambda>(c, s). case c of Return r \<Rightarrow> Done (Return 0, s) | _ \<Rightarrow> Done (c, s))"
    using pid a by (simp add: halt_call_def halt_shell_def Let_def x_def upd_term_def)
  then have h: "halt_call status esp ebp s = Done (Enter_user (shell_entry s inode) USER_STACK, s')" using s'(1) by simp
  from halt_restarts_shell[OF rel a base h] show ?thesis using h s'(2) by blast
qed

section \<open>The timer starts a shell\<close>

lemma tick_starts_shell:
  assumes "up s st (n - 1)" "shell_image s inode" "active_terminal s < 2" "st (active_terminal s + 1) = []"
    and "(n = 1 \<and> st 0 \<noteq> [] \<and> st 1 = [] \<and> st 2 = []) \<or> (n = 2 \<and> st 0 \<noteq> [] \<and> st 1 \<noteq> [] \<and> st 2 = [])"
  shows "\<exists>s'. pit_intr esp ebp xesp xebp s = Done (Enter_user (shell_entry s inode) USER_STACK, s') \<and> same_image s s' \<and>
    up s' (st(active_terminal s + 1 := [(active_terminal s + 1, xesp, xebp)])) n \<and>
    active_terminal s' = active_terminal s + 1"
proof -
  let ?m = "active_terminal s + 1"
  have m: "(active_terminal s + 1) mod 3 = ?m" using assms(3) by simp
  define y where "y = send_eoi PIT_IRQ s"
  have y: "active_terminal y = active_terminal s" "same_image s y" "same_kernel s y"
    by (simp_all add: y_def send_eoi_def outb_def same_image_def same_kernel_defs)
  note upy = up_kernel[OF y(3) assms(1)]
  have tm: "term_ok (terminal y t) t (st t)" if "t < 3" for t using upy that by (simp add: up_def proc_relD)
  have flags: "init_flag (terminal y t) = (if st t = [] then 0 else 1)" if "t < 3" for t
    using tm[OF that] by (cases "st t") (simp_all add: term_ok_def)
  have pit: "pit_intr esp ebp xesp xebp s = start_next_shell n esp ebp xesp xebp y"
    using assms(5) flags[of 0] flags[of 1] flags[of 2] upy
    by (auto simp: pit_intr_def Let_def y_def[symmetric] up_def)
  define x where "x = remap_video_mem_user ?m (next_terminal (save_context esp ebp (y\<lparr>init_count := n\<rparr>)))"
  have a: "active_terminal (next_terminal (save_context esp ebp (y\<lparr>init_count := n\<rparr>))) = ?m"
    using m y(1) by (simp add: next_terminal_def save_context_def upd_pcb_def)
  have "same_image y x"
    by (simp add: x_def remap_video_mem_user_eq next_terminal_def save_context_def upd_pcb_def same_image_def)
  then have i: "same_image s x" using same_image_trans[OF y(2)] by simp
  moreover have "runs_shell x"
    using flags[of ?m] assms(3,4) m y(1)
    by (simp add: runs_shell_def x_def remap_video_mem_user_eq next_terminal_def save_context_def upd_pcb_def)
  ultimately obtain s' where s': "execute_call shell_command xesp xebp x = Done (Enter_user (shell_entry s inode) USER_STACK, s')"
    "same_image x s'"
    using shell_is_loaded[of x inode xesp xebp] assms(2) shell_image_same[OF i] shell_entry_same[OF i] by auto
  have st: "start_next_shell n esp ebp xesp xebp y = Done (Enter_user (shell_entry s inode) USER_STACK, s')"
    using s'(1) by (simp only: start_next_shell_def Let_def a x_def[symmetric]) simp
  have "up s' (st(?m := [(?m, xesp, xebp)])) n \<and> active_terminal s' = ?m"
    using next_shell[OF upy _ _ st] assms(3,4) m y(1) by simp
  then show ?thesis using st pit same_image_trans[OF i s'(2)] by simp
qed

section \<open>Booting\<close>

text \<open>The globals when \<open>entry\<close> begins, as far as the shells rest on them.\<close>

definition fresh_globals :: "kernel \<Rightarrow> bool" where
  "fresh_globals s \<longleftrightarrow> linked s \<and> page_table_video s = (\<lambda>_. 0) \<and> master_mask s = 0xFF \<and> slave_mask s = 0xFF \<and>
     (\<forall>t. init_flag (terminal s t) = 0) \<and> active_terminal s = 0 \<and> displayed_terminal s = 0 \<and> init_count s = 0"

lemma booted:
  fixes regb rega :: u8
  assumes "fresh_globals g"
  defines "s \<equiv> boot_devices regb rega g"
  shows "paging_inv s" "init_flag (terminal s t) = 0" "3 \<le> i \<Longrightarrow> i < 6 \<Longrightarrow> pid_array s i = 0"
    "active_terminal s = 0" "displayed_terminal s = 0" "init_count s = 0" "fs s = fs g" "stack_junk s = stack_junk g"
    "inodesCount s = rd32 (fs g) 4" "data_count_blk s = rd32 (fs g) 8"
proof -
  have g: "linked g" "page_table_video g = (\<lambda>_. 0)" "master_mask g = 0xFF" "slave_mask g = 0xFF"
    using assms(1) by (simp_all add: fresh_globals_def)
  note r = boot_devices_ready[OF g, where regb = regb and rega = rega, folded s_def]
  show "paging_inv s" "3 \<le> i \<Longrightarrow> i < 6 \<Longrightarrow> pid_array s i = 0"
    "inodesCount s = rd32 (fs g) 4" "data_count_blk s = rd32 (fs g) 8" by (fact r)+
  have "term_core (terminal s t) = term_core (terminal g t)" by (rule r)
  then show "init_flag (terminal s t) = 0" using assms(1) by (simp add: term_core_def fresh_globals_def)
  have "active_terminal s = active_terminal g" "displayed_terminal s = displayed_terminal g"
    "init_count s = init_count g" "fs s = fs g" "stack_junk s = stack_junk g"
    by (simp_all add: s_def boot_devices_def Let_def clear_def update_cursor_def i8259_init_def
        init_paging_eq init_rtc_def init_freq_hw_def keyboard_init_def init_process_id_array_def init_pit_def
        pit_change_freq_def parse_boot_block_def enable_irq_def state_simps del: upt_rec_numeral)
  then show "active_terminal s = 0" "displayed_terminal s = 0" "init_count s = 0" "fs s = fs g" "stack_junk s = stack_junk g"
    using assms(1) by (simp_all add: fresh_globals_def)
qed

lemma first_shell:
  assumes "fresh_globals g" "shell_image (boot_devices regb rega g) inode"
  defines "s \<equiv> boot_devices regb rega g"
  shows "\<exists>s'. init_terminals esp ebp s = Done (Enter_user (shell_entry s inode) USER_STACK, s') \<and> same_image s s' \<and>
    up s' ((\<lambda>t. [])(0 := [(0, esp, ebp)])) 0 \<and> active_terminal s' = 0"
proof -
  note b = booted[OF assms(1), where regb = regb and rega = rega, folded s_def]
  define x where "x = remap_video_mem_user 0 (init_terminal_structs s)"
  have i: "same_image s x" by (simp add: x_def remap_video_mem_user_eq init_terminal_structs_eq same_image_def)
  have "runs_shell x"
    using b(4) by (simp add: b(2) x_def remap_video_mem_user_eq init_terminal_structs_eq runs_shell_def init_terminal_def)
  then obtain s' where s': "execute_call shell_command esp ebp x = Done (Enter_user (shell_entry s inode) USER_STACK, s')"
    "same_image x s'"
    using shell_is_loaded[of x inode esp ebp] assms(2) shell_image_same[OF i] shell_entry_same[OF i] by (auto simp: s_def)
  then have e: "init_terminals esp ebp s = Done (Enter_user (shell_entry s inode) USER_STACK, s')"
    by (simp add: init_terminals_def Let_def x_def)
  then show ?thesis
    using init_terminals_first[OF b(2,3,4) _ b(1) e] b(5,6) same_image_trans[OF i s'(2)] by simp
qed

text \<open>
  Between the ticks anything may happen that leaves the process and page structures and the image alone.
\<close>

theorem shells_come_up:
  assumes g: "fresh_globals g" and shell: "shell_image (boot_devices regb rega g) inode"
    and between: "\<And>x. same_kernel x (f1 x) \<and> same_image x (f1 x)" "\<And>x. same_kernel x (f2 x) \<and> same_image x (f2 x)"
  shows "\<exists>s1 s2 s3 st. let s = boot_devices regb rega g; e = shell_entry s inode in
    init_terminals b0 c0 s = Done (Enter_user e USER_STACK, s1) \<and>
    pit_intr p1 q1 b1 c1 (f1 s1) = Done (Enter_user e USER_STACK, s2) \<and>
    pit_intr p2 q2 b2 c2 (f2 s2) = Done (Enter_user e USER_STACK, s3) \<and>
    sys_inv s3 st \<and> st 0 = [(0, b0, c0)] \<and> st 1 = [(1, b1, c1)] \<and> st 2 = [(2, b2, c2)]"
proof -
  define s where "s = boot_devices regb rega g"
  have sh: "shell_image s inode" using shell by (simp add: s_def)
  obtain s1 where s1: "init_terminals b0 c0 s = Done (Enter_user (shell_entry s inode) USER_STACK, s1)" "same_image s s1"
    "up s1 ((\<lambda>t. [])(0 := [(0, b0, c0)])) (1 - 1)" "active_terminal s1 = 0"
    using first_shell[OF g shell, of b0 c0] by (auto simp: s_def)
  define x1 where "x1 = f1 s1"
  have x1: "same_image s x1" "up x1 ((\<lambda>t. [])(0 := [(0, b0, c0)])) (1 - 1)" "active_terminal x1 = 0"
    using same_image_trans[OF s1(2)] up_kernel[OF _ s1(3)] s1(4) between(1)[of s1]
    by (auto simp: x1_def same_kernel_def same_frames_def)
  obtain s2 where s2: "pit_intr p1 q1 b1 c1 x1 = Done (Enter_user (shell_entry s inode) USER_STACK, s2)" "same_image x1 s2"
    "up s2 ((\<lambda>t. [])(0 := [(0, b0, c0)], 1 := [(1, b1, c1)])) (2 - 1)" "active_terminal s2 = 1"
    using tick_starts_shell[OF x1(2), of inode p1 q1 b1 c1] x1(3) sh shell_image_same[OF x1(1)] shell_entry_same[OF x1(1)]
    by auto
  define x2 where "x2 = f2 s2"
  have x2: "same_image s x2" "up x2 ((\<lambda>t. [])(0 := [(0, b0, c0)], 1 := [(1, b1, c1)])) (2 - 1)" "active_terminal x2 = 1"
    using same_image_trans[OF same_image_trans[OF x1(1) s2(2)]] up_kernel[OF _ s2(3)] s2(4) between(2)[of s2]
    by (auto simp: x2_def same_kernel_def same_frames_def)
  obtain s3 where s3: "pit_intr p2 q2 b2 c2 x2 = Done (Enter_user (shell_entry s inode) USER_STACK, s3)"
    "up s3 ((\<lambda>t. [])(0 := [(0, b0, c0)], 1 := [(1, b1, c1)], 2 := [(2, b2, c2)])) 2" "active_terminal s3 = 2"
    using tick_starts_shell[OF x2(2), of inode p2 q2 b2 c2] x2(3) sh shell_image_same[OF x2(1)] shell_entry_same[OF x2(1)]
    by (auto simp: numeral_2_eq_2)
  have "t = 0 \<or> t = 1 \<or> t = 2" if "t < 3" for t :: nat using that by auto
  then have "sys_inv s3 ((\<lambda>t. [])(0 := [(0, b0, c0)], 1 := [(1, b1, c1)], 2 := [(2, b2, c2)]))"
    using s3(2,3) by (auto simp: sys_inv_def up_def)
  then show ?thesis
    using s1(1) s2(1) s3(1) unfolding x1_def x2_def s_def
    by (intro exI[of _ s1] exI[of _ s2] exI[of _ s3] exI[of _ "(\<lambda>t. [])(0 := [(0, b0, c0)], 1 := [(1, b1, c1)], 2 := [(2, b2, c2)])"])
      (simp add: Let_def)
qed

end
