(* ===== verification/Samples.thy ===== *)
theory Samples
  imports Kernel_State
begin

text \<open>
  Concrete states: the globals as the C initialisers and the zeroed BSS leave them.  The linker's
  choices (addresses of the page tables), the boot image and the stack contents are arguments or
  zero.
\<close>

definition blank_term :: terminal_t where
  "blank_term = \<lparr>tempbuf = replicate 128 0, videoMem = 0, terminal_id = 0, line_length = 0,
     read_length = 0, cur_x = 0, cur_y = 0, pid = 0, parentpid = 0, halt_flag = 0,
     shift_up_one_flag = 0, init_flag = 0, enter_flag = 0, rtc_flag = 0, rtc_counter = 0,
     rtc_target = 0\<rparr>"

definition blank_fd :: file_desct where
  "blank_fd = \<lparr>table_ptr = nothing_operations, inode_num = 0, file_position = 0, flags = 0\<rparr>"

definition blank_pcb :: pcb_t where
  "blank_pcb = \<lparr>file_desc_array = (\<lambda>i. blank_fd), pcb_active = 0, process_id = 0,
     parent_process_id = 0, task_esp = 0, task_ebp = 0, active_esp = 0, active_ebp = 0,
     terminal_cmd = replicate 128 0, terminal_on = 0\<rparr>"

definition initial_globals :: "u32 \<Rightarrow> u32 \<Rightarrow> mem \<Rightarrow> kernel" where
  "initial_globals table_addr video_addr boot_img =
     \<lparr>if_flag = False, outs = [], master_mask = 0xFF, slave_mask = 0xFF, phys = (\<lambda>a. 0),
      terminal = (\<lambda>t. blank_term), active_terminal = 0, displayed_terminal = 0,
      done_init_terminal = 0, init_count = 0, caps = 0, shift_key = 0, control_key = 0, alt_key = 0,
      str_len = 0, page_directory = (\<lambda>i. 0), page_table = (\<lambda>i. 0), page_table_video = (\<lambda>i. 0),
      page_table_addr = table_addr, page_table_video_addr = video_addr, cr0 = 1, cr4 = 0,
      tlb_fresh = True, tss_ss0 = 0, tss_esp0 = 0, pid_array = (\<lambda>i. if i < 3 then 1 else 0),
      curr_pid = 0, save_parent_pid = 0, pcbs = (\<lambda>a. blank_pcb), fs = boot_img, inodesCount = 0,
      data_count_blk = 0, internalCounter = 0, large_text_blk_count = 0,
      shared_btw_terminal_fs_drivers = 0, stack_junk = (\<lambda>a. 0)\<rparr>"

lemmas blank_defs = initial_globals_def blank_term_def blank_pcb_def blank_fd_def

end
