(* ===== verification/Sample_Kernel.thy ===== *)
theory Sample_Kernel
  imports Starting Gate Samples
begin

text \<open>
  A concrete running kernel: three base shells, and a file system with one executable, \<open>shell\<close>,
  of 40 bytes.  It shows that the hypotheses of the general theorems can hold together.
\<close>

section \<open>The image\<close>

text \<open>
  Two inodes and one data block: the entry at 64, the inode 1 at 8192, its block at 12288, with
  the entry address 0x08048018 at offset 24.
\<close>

definition sample_image :: mem where
  "sample_image a =
     (if a = 4 then 2 else if a = 8 then 1
      else if a = 64 then 115 else if a = 65 then 104 else if a = 66 then 101
      else if a = 67 then 108 else if a = 68 then 108
      else if a = 96 then 2 else if a = 100 then 1
      else if a = 8192 then 40
      else if a = 12288 then 0x7F else if a = 12289 then 0x45 else if a = 12290 then 0x4C
      else if a = 12291 then 0x46
      else if a = 12312 then 0x18 else if a = 12313 then 0x80 else if a = 12314 then 0x04
      else if a = 12315 then 0x08
      else 0)"

definition shell_term :: "nat \<Rightarrow> terminal_t" where
  "shell_term t = (init_terminal t blank_term)\<lparr>parentpid := -1, init_flag := 1\<rparr>"

definition shell_pcb :: "nat \<Rightarrow> pcb_t" where
  "shell_pcb t = blank_pcb\<lparr>file_desc_array := (\<lambda>i. fresh_files i blank_fd), pcb_active := 1,
     process_id := of_nat t, parent_process_id := -1, terminal_on := int t\<rparr>"

definition sample_start :: kernel where
  "sample_start = (initial_globals 0x1000 0x2000 sample_image)\<lparr>inodesCount := 2, data_count_blk := 1,
     pid_array := (\<lambda>i. 0), terminal := shell_term,
     pcbs := (\<lambda>a. if a = pcb_of 0 then shell_pcb 0 else if a = pcb_of 1 then shell_pcb 1
                  else if a = pcb_of 2 then shell_pcb 2 else blank_pcb)\<rparr>"

definition sample_kernel :: kernel where
  "sample_kernel = set_tss 0 (virt_to_phys_user 0 (init_paging sample_start))"

definition sample_stacks :: "nat \<Rightarrow> frame list" where
  "sample_stacks t = [(t, 0, 0)]"

lemma sample_base [simp]: "sample_stacks 0 = [(0, 0, 0)]"
  by (simp add: sample_stacks_def)

lemma sample_state [simp]:
  "fs sample_kernel = sample_image" "inodesCount sample_kernel = 2" "data_count_blk sample_kernel = 1"
  "stack_junk sample_kernel = (\<lambda>a. 0)" "terminal sample_kernel = shell_term"
  "active_terminal sample_kernel = 0" "displayed_terminal sample_kernel = 0"
  "pid_array sample_kernel = (\<lambda>i. 0)" "pcbs sample_kernel = pcbs sample_start"
  "page_directory sample_kernel 32 = user_pde 0" "tss_esp0 sample_kernel = get_kernel_stack_addr 0"
  "control_key sample_kernel = 0" "alt_key sample_kernel = 0" "shift_key sample_kernel = 0"
  "caps sample_kernel = 0" "phys sample_kernel = (\<lambda>a. 0)" "curr_pid sample_kernel = 0"
  "internalCounter sample_kernel = 0" "page_table_video_addr sample_kernel = 0x2000"
  by (simp_all add: sample_kernel_def sample_start_def set_tss_def virt_to_phys_user_eq init_paging_eq
      initial_globals_def user_pde_def)

lemma shell_term_simps [simp]:
  "pid (shell_term t) = int t" "parentpid (shell_term t) = -1" "init_flag (shell_term t) = 1"
  "tempbuf (shell_term t) = replicate 128 0" "line_length (shell_term t) = 0"
  "videoMem (shell_term t) = (VIDEO_INDEX + t + 1) * FOUR_KB" "cur_x (shell_term t) = 0"
  "cur_y (shell_term t) = 0" "shift_up_one_flag (shell_term t) = 0" "rtc_counter (shell_term t) = 512"
  "rtc_target (shell_term t) = 512" "enter_flag (shell_term t) = 0"
  by (simp_all add: shell_term_def init_terminal_def blank_term_def)

lemma sample_pcbs: "t < 3 \<Longrightarrow> pcbs sample_start (pcb_of (int t)) = shell_pcb t"
  using pcb_of_inj[of 1 0] pcb_of_inj[of 2 0] pcb_of_inj[of 2 1]
  by (auto simp: sample_start_def less_Suc_eq eval_nat_numeral)

lemma sample_proc_rel: "proc_rel sample_kernel sample_stacks"
  by (auto simp: proc_rel_def sample_stacks_def frame_ok_def Let_def sample_pcbs shell_pcb_def term_ok_def
      pids_of_def blank_pcb_def)

lemma sample_linked: "linked sample_start"
  by (simp add: linked_def sample_start_def initial_globals_def)

lemma sample_paging: "paging_inv sample_kernel"
proof -
  have "paging_inv (virt_to_phys_user 0 (init_paging sample_start))"
    by (rule virt_to_phys_inv[OF init_paging_inv[OF sample_linked]])
      (simp_all add: sample_start_def initial_globals_def)
  then show ?thesis by (simp add: sample_kernel_def set_tss_def paging_inv_def linked_def)
qed

lemma sample_sys_inv: "sys_inv sample_kernel sample_stacks"
  using sample_proc_rel sample_paging
  by (simp add: sys_inv_def running_def) (simp add: sample_stacks_def)

section \<open>The program\<close>

lemma sample_first: "cstr (filename (dentry_at sample_image 0)) = chars ''shell''"
  by (simp add: dentry_at_def dentry_off_def load_def sample_image_def chars_def)

lemma sample_no_name: "1 \<le> i \<Longrightarrow> i < 64 \<Longrightarrow> cstr (filename (dentry_at sample_image i)) = []"
proof -
  assume "1 \<le> i" "i < 64"
  then have "sample_image (64 + 64 * i) = 0" by (simp add: sample_image_def)
  then show ?thesis by (simp add: dentry_at_def dentry_off_def load_def upt_conv_Cons)
qed

lemma sample_names: "filter (entry_named sample_image (zero_buffer (chars ''shell''))) [0..<64] = [0]"
proof -
  have c: "cstr (zero_buffer (chars ''shell'')) = chars ''shell''"
    using cstr_append_nul[of "chars ''shell''" "replicate 1018 0"]
    by (simp add: zero_buffer_def chars_def replicate_Suc[symmetric] del: replicate_Suc)
  have z: "entry_named sample_image (zero_buffer (chars ''shell'')) 0"
    unfolding entry_named_def c by (rule sample_first)
  have no: "\<not> entry_named sample_image (zero_buffer (chars ''shell'')) i" if "1 \<le> i" "i < 64" for i
    using sample_no_name[OF that] unfolding entry_named_def c by (simp add: chars_def)
  have "[0..<64] = 0 # [1..<64::nat]" by (simp add: upt_conv_Cons)
  then show ?thesis using z no by (simp add: filter_empty_conv del: upt_rec_numeral)
qed

lemma sample_words:
  "inode_length sample_image 1 = 40" "NumDataBlk sample_image 1 0 = 0"
  "dentry_inode (dentry_at sample_image 0) = 1" "filetype (dentry_at sample_image 0) = 2"
  by (simp_all add: inode_length_def NumDataBlk_def dentry_at_def rd32_def inode_off_def dentry_off_def
      sample_image_def)

lemma sample_command:
  "skip_spaces (c_lit ''shell'') = c_lit ''shell''" "first_word (c_lit ''shell'') = chars ''shell''"
  "arg_text (c_lit ''shell'') = []" "strlen (c_lit ''shell'') = Some 5"
  by (simp_all add: skip_spaces_def first_word_def arg_text_def c_lit_def chars_def)

lemma sample_block: "k < 40 \<Longrightarrow> block_ok sample_kernel 1 k"
  by (simp add: block_ok_def sample_words)

lemma sample_verylarge: "verylarge_inode sample_kernel = 0"
proof -
  have "\<not> entry_named sample_image (c_lit ''verylargetextwithverylongname.tx'') i" if "i < 64" for i
  proof (cases "i = 0")
    case True
    show ?thesis unfolding True entry_named_def sample_first by (simp add: c_lit_def chars_def)
  next
    case False
    then have "sample_image (64 + 64 * i) = 0" using that by (simp add: sample_image_def)
    then have "cstr (filename (dentry_at sample_image i)) = []"
      by (simp add: dentry_at_def dentry_off_def load_def upt_conv_Cons)
    then show ?thesis by (simp add: entry_named_def c_lit_def chars_def)
  qed
  then have "dentries_named sample_image (c_lit ''verylargetextwithverylongname.tx'') = []"
    by (simp add: dentries_named_def filter_empty_conv)
  then show ?thesis
    using read_dentry_by_name_eq[of "c_lit ''verylargetextwithverylongname.tx''" sample_kernel]
    by (simp add: verylarge_inode_def c_lit_def rd32_def)
qed

lemma sample_loadable: "loadable sample_kernel 1"
  using sample_block by (simp add: loadable_def sample_verylarge sample_words readable_def word_le_nat_alt)

lemma sample_dentry:
  "has_file sample_kernel (zero_buffer (chars ''shell''))"
  "file_dentry sample_kernel (zero_buffer (chars ''shell'')) = dentry_at sample_image 0"
proof -
  have c: "cstr (zero_buffer (chars ''shell'')) = chars ''shell''" "0 \<in> set (zero_buffer (chars ''shell''))"
    using cstr_append_nul[of "chars ''shell''" "replicate 1018 0"]
    by (simp_all add: zero_buffer_def chars_def replicate_Suc[symmetric] del: replicate_Suc)
  show "has_file sample_kernel (zero_buffer (chars ''shell''))"
    using sample_names c by (simp add: has_file_def dentries_named_def) (simp add: chars_def)
  show "file_dentry sample_kernel (zero_buffer (chars ''shell'')) = dentry_at sample_image 0"
    using sample_names by (simp add: file_dentry_def dentries_named_def)
qed

lemma sample_bytes:
  "k < 40 \<Longrightarrow> file_byte sample_kernel 1 k = sample_image (12288 + k)"
  by (simp add: file_byte_def sample_words data_off_def)

lemma sample_names_program: "names_program sample_kernel (c_lit ''shell'') 1"
proof -
  have "take 4 (file_content sample_kernel 1) = map (file_byte sample_kernel 1) [0..<4]"
    by (simp add: file_content_def sample_words take_map take_upt)
  also have "\<dots> = map (\<lambda>k. sample_image (12288 + k)) [0..<4]"
    using sample_bytes by (intro map_cong refl) simp
  also have "\<dots> = elf_magic" by (simp add: sample_image_def elf_magic_def upt_conv_Cons)
  finally show ?thesis
    using sample_loadable sample_dentry sample_command
    by (simp add: names_program_def Let_def sample_words)
qed

lemma sample_has_pid: "has_pid sample_kernel"
  by (auto simp: has_pid_def free_pid_def)

lemma sample_executes:
  "\<exists>s'. execute_call (c_lit ''shell'') esp ebp sample_kernel =
     Done (Enter_user (elf_entry (file_content sample_kernel 1)) USER_STACK, s')"
  using execute_loads[OF sample_names_program sample_has_pid] by blast

lemma sample_free: "find (free_pid sample_kernel) [3..<6] = Some 3"
  by (simp add: free_pid_def)

text \<open>A shell that has executed a program.\<close>

lemma sample_child:
  "\<exists>s e u. execute_call (c_lit ''shell'') 7 8 sample_kernel = Done (Enter_user e u, s) \<and>
    proc_rel s (sample_stacks(0 := [(3, 7, 8), (0, 0, 0)])) \<and> active_terminal s = 0"
proof -
  obtain e u s where ex: "execute_call (c_lit ''shell'') 7 8 sample_kernel = Done (Enter_user e u, s)"
    using sample_executes by blast
  from execute_pushes[OF sample_proc_rel _ _ this]
  have "proc_rel s (sample_stacks(0 := [(3, 7, 8), (0, 0, 0)]))"
    by (auto simp add: sample_free simp del: upt_rec_numeral)
  moreover have "active_terminal s = 0"
    using execute_call_enters[OF ex] by (auto simp: runs_shell_def entered_def simp del: upt_rec_numeral)
  ultimately show ?thesis using ex by blast
qed

section \<open>Facts the examples use\<close>

lemma sample_in_user: "va + n \<le> 0x8400000 \<Longrightarrow> 0x8000000 \<le> va \<Longrightarrow> in_user sample_kernel va n"
  by (simp add: in_user_def user_pde_def bit_or_iff)

lemma sample_console: "t < 3 \<Longrightarrow> console_ok t sample_kernel \<and> cursor_ok t sample_kernel"
  by (simp add: console_ok_def cursor_ok_def)

lemma sample_video: "video_linked sample_kernel"
  by (simp add: video_linked_def)

lemma sample_started: "all_started sample_kernel"
  by (rule sys_inv_started[OF sample_sys_inv])

lemma sample_typing: "typing sample_kernel []"
  by (simp add: typing_def no_command_def line_rel_def)

lemma sample_cur_pcb: "pcbs sample_kernel (cur_pcb_addr sample_kernel) = shell_pcb 0"
  using sample_pcbs[of 0] by (simp add: cur_pcb_addr_def get_pcb_blk_addr pcb_of_def)

lemma sample_fds: "find (free_fd sample_kernel) [2..<8] = Some 2"
proof -
  have "free_fd sample_kernel 2"
    using sample_cur_pcb by (simp add: free_fd_def cur_fd_def shell_pcb_def fresh_files_def)
  then show ?thesis by simp
qed

section \<open>Starting shells on the image\<close>

abbreviation (input) "sample_entry \<equiv> elf_entry (file_content sample_kernel 1)"

lemma sample_shell_command: "names_program sample_kernel shell_command 1"
proof -
  have "skip_spaces shell_command = shell_command" "first_word shell_command = first_word (c_lit ''shell'')"
    "arg_text shell_command = []" "strlen shell_command = Some 5"
    by (simp_all add: shell_command_def skip_spaces_def first_word_def arg_text_def c_lit_def chars_def)
  then show ?thesis
    using sample_names_program by (simp add: names_program_def Let_def sample_command)
qed

lemma sample_calls_ready: "calls_ready sample_kernel"
  using sample_cur_pcb by (auto simp: calls_ready_def cur_fd_def shell_pcb_def fresh_files_def blank_pcb_def Let_def)

lemma sample_shell_image: "shell_image sample_kernel 1" "shell_entry sample_kernel 1 = sample_entry"
  using sample_shell_command by (simp_all add: shell_image_def shell_entry_def)

section \<open>Booting it\<close>

definition sample_booted :: kernel where
  "sample_booted = boot_devices 0 0 (initial_globals 0x1000 0x2000 sample_image)"

lemma sample_globals: "fresh_globals (initial_globals 0x1000 0x2000 sample_image)"
  by (simp add: fresh_globals_def initial_globals_def linked_def blank_term_def)

lemma sample_booted_image: "same_image sample_kernel sample_booted"
  using booted[OF sample_globals, where regb = 0 and rega = 0, folded sample_booted_def]
  by (simp add: same_image_def initial_globals_def rd32_def sample_image_def)

lemma sample_booted_shell: "shell_image sample_booted 1" "shell_entry sample_booted 1 = sample_entry"
  using sample_shell_image shell_image_same[OF sample_booted_image] shell_entry_same[OF sample_booted_image] by simp_all

end
