(* ===== verification/User_Lib.thy ===== *)
theory User_Lib
  imports Lib_String
begin

text \<open>
  The support library of the user programs, syscalls/ece391support.c (fish/ece391support.c has the
  same string routines): strings, and the runs of a program.

  A program makes system calls through a record \<open>sys\<close> of operations, over a state the calls share;
  an array argument is its contents, and a call that writes to it gives the new contents.  The
  result of a program is an outcome, or \<open>None\<close> when it runs for ever.
\<close>

section \<open>String routines\<close>

fun ece391_strlen :: "u8 list \<Rightarrow> nat option" where
  "ece391_strlen [] = None"
| "ece391_strlen (c # s) = (if c = 0 then Some 0 else map_option Suc (ece391_strlen s))"

text \<open>Both pointers of \<open>ece391_strcpy\<close> point into the same array in the programs that use it.\<close>

function ece391_strcpy :: "u8 list \<Rightarrow> nat \<Rightarrow> nat \<Rightarrow> u8 list option" where
  "ece391_strcpy a dst src =
     (if length a \<le> src \<or> length a \<le> dst then None
      else if a ! src = 0 then Some (a[dst := 0])
      else ece391_strcpy (a[dst := a ! src]) (Suc dst) (Suc src))"
  by pat_completeness auto
termination
  by (relation "measure (\<lambda>(a, dst, src). length a - src)") auto

declare ece391_strcpy.simps [simp del]

text \<open>The characters are \<open>uint8_t\<close>, so the difference is unsigned.\<close>

fun ece391_strcmp :: "u8 list \<Rightarrow> u8 list \<Rightarrow> int option" where
  "ece391_strcmp (a # s1) (b # s2) =
     (if a = b then (if a = 0 then Some 0 else ece391_strcmp s1 s2) else Some (uint a - uint b))"
| "ece391_strcmp _ _ = None"

fun ece391_strncmp :: "u8 list \<Rightarrow> u8 list \<Rightarrow> nat \<Rightarrow> int option" where
  "ece391_strncmp s1 s2 0 = Some 0"
| "ece391_strncmp (a # s1) (b # s2) (Suc n) =
     (if a = b then (if a = 0 \<or> n = 0 then Some 0 else ece391_strncmp s1 s2 n)
      else Some (uint a - uint b))"
| "ece391_strncmp _ _ (Suc n) = None"

text \<open>The other two are the kernel's, line for line.\<close>

definition ece391_strrev :: "u8 list \<Rightarrow> u8 list option" where
  "ece391_strrev s = strrev s"

definition ece391_itoa :: "u32 \<Rightarrow> u8 list \<Rightarrow> u32 \<Rightarrow> u8 list option" where
  "ece391_itoa val buf radix = itoa val buf radix"

section \<open>What they compute\<close>

lemma uint_diff_zero [simp]: "uint a - uint b = 0 \<longleftrightarrow> a = (b :: u8)"
  by (simp add: word_uint_eq_iff)

lemma uint_differ: "a \<noteq> b \<Longrightarrow> uint a \<noteq> uint (b :: u8)"
  by (simp add: word_uint_eq_iff)

lemma ece391_strlen_cstr: "ece391_strlen s = (if 0 \<in> set s then Some (length (cstr s)) else None)"
  by (induction s) auto

lemma ece391_strcmp_zero:
  "0 \<in> set s1 \<Longrightarrow> 0 \<in> set s2 \<Longrightarrow> ece391_strcmp s1 s2 = Some 0 \<longleftrightarrow> cstr s1 = cstr s2"
  by (induction s1 s2 rule: ece391_strcmp.induct) (auto dest: uint_differ)

lemma ece391_strcmp_returns:
  "0 \<in> set s1 \<Longrightarrow> 0 \<in> set s2 \<Longrightarrow> \<exists>d. ece391_strcmp s1 s2 = Some d"
  by (induction s1 s2 rule: ece391_strcmp.induct) auto

text \<open>With the length of the second string, the comparison is the prefix test.\<close>

lemma ece391_strncmp_prefix:
  assumes "0 \<in> set s1" "0 \<in> set s2"
  shows "ece391_strncmp s1 s2 (length (cstr s2)) = Some 0 \<longleftrightarrow> take (length (cstr s2)) (cstr s1) = cstr s2"
    and "\<exists>d. ece391_strncmp s1 s2 (length (cstr s2)) = Some d"
proof -
  have "(ece391_strncmp s1 s2 (length (cstr s2)) = Some 0 \<longleftrightarrow> take (length (cstr s2)) (cstr s1) = cstr s2)
    \<and> (\<exists>d. ece391_strncmp s1 s2 (length (cstr s2)) = Some d)"
    using assms
  proof (induction s1 s2 rule: ece391_strcmp.induct)
    case (1 a s1 b s2)
    show ?case
    proof (cases "b = 0")
      case False
      note b = this
      show ?thesis
      proof (cases "a = b")
        case True
        then have s: "0 \<in> set s1" "0 \<in> set s2" using b 1(2,3) by auto
        show ?thesis
        proof (cases "length (cstr s2)")
          case 0
          then show ?thesis using True b by simp
        next
          case (Suc k)
          then show ?thesis using 1(1)[OF True _ s] True b by simp
        qed
      qed (use b uint_differ in auto)
    qed simp
  qed auto
  then show "ece391_strncmp s1 s2 (length (cstr s2)) = Some 0 \<longleftrightarrow> take (length (cstr s2)) (cstr s1) = cstr s2"
    "\<exists>d. ece391_strncmp s1 s2 (length (cstr s2)) = Some d" by blast+
qed

text \<open>A copy towards the front of the array, overlapping or not.\<close>

lemma ece391_strcpy_down:
  assumes "0 \<in> set (drop src a)" "dst \<le> src"
  shows "ece391_strcpy a dst src =
    Some (take dst a @ cstr (drop src a) @ 0 # drop (Suc (dst + length (cstr (drop src a)))) a)"
  using assms
proof (induction a dst src rule: ece391_strcpy.induct)
  case (1 a dst src)
  have s: "src < length a" using 1(2) by (cases "src < length a") auto
  then have d: "dst < length a" using 1(3) by simp
  note dr = Cons_nth_drop_Suc[OF s, symmetric]
  show ?case
  proof (cases "a ! src = 0")
    case True
    then show ?thesis
      using s d by (subst ece391_strcpy.simps) (simp add: dr upd_conv_take_nth_drop)
  next
    case False
    let ?b = "a[dst := a ! src]"
    have tail: "drop (Suc src) ?b = drop (Suc src) a" using 1(3) by simp
    have "ece391_strcpy a dst src = ece391_strcpy ?b (Suc dst) (Suc src)"
      using s d False by (subst ece391_strcpy.simps) simp
    also have "\<dots> = Some (take (Suc dst) ?b @ cstr (drop (Suc src) a)
        @ 0 # drop (Suc (Suc dst + length (cstr (drop (Suc src) a)))) ?b)"
      using 1(1)[of] 1(2,3) s d False dr tail by auto
    also have "take (Suc dst) ?b = take dst a @ [a ! src]"
      using d by (simp add: take_Suc_conv_app_nth)
    finally show ?thesis using False dr by (simp add: drop_update_cancel)
  qed
qed

section \<open>Programs and their system calls\<close>

record 's sys =
  sread :: "int \<Rightarrow> u8 list \<Rightarrow> int \<Rightarrow> 's \<Rightarrow> (int \<times> u8 list \<times> 's) outcome"
  swrite :: "int \<Rightarrow> u8 list \<Rightarrow> int \<Rightarrow> 's \<Rightarrow> (int \<times> 's) outcome"
  sopen :: "u8 list \<Rightarrow> 's \<Rightarrow> (int \<times> 's) outcome"
  sclose :: "int \<Rightarrow> 's \<Rightarrow> (int \<times> 's) outcome"
  sgetargs :: "u8 list \<Rightarrow> int \<Rightarrow> 's \<Rightarrow> (int \<times> u8 list \<times> 's) outcome"
  sexecute :: "u8 list \<Rightarrow> 's \<Rightarrow> (int \<times> 's) outcome"
  svidmap :: "nat \<Rightarrow> 's \<Rightarrow> (int \<times> 's) outcome"
  sset_handler :: "int \<Rightarrow> 's \<Rightarrow> (int \<times> 's) outcome"
  snumber :: "u32 \<Rightarrow> 's \<Rightarrow> (int \<times> 's) outcome"

definition upon :: "'a outcome \<Rightarrow> ('a \<Rightarrow> 'b outcome option) \<Rightarrow> 'b outcome option" where
  "upon m f = (case m of Done a \<Rightarrow> f a | Blocked \<Rightarrow> Some Blocked | Fault e \<Rightarrow> Some (Fault e))"

lemma upon_simps [simp]:
  "upon (Done a) f = f a" "upon Blocked f = Some Blocked" "upon (Fault e) f = Some (Fault e)"
  by (simp_all add: upon_def)

lemma upon_Done_iff: "upon m f = Some (Done b) \<longleftrightarrow> (\<exists>a. m = Done a \<and> f a = Some (Done b))"
  by (cases m) auto

definition run_then :: "'a outcome option \<Rightarrow> ('a \<Rightarrow> 'b outcome option) \<Rightarrow> 'b outcome option" where
  "run_then m f = (case m of None \<Rightarrow> None | Some r \<Rightarrow> upon r f)"

lemma run_then_simps [simp]: "run_then None f = None" "run_then (Some r) f = upon r f"
  by (simp_all add: run_then_def)

lemma upon_mono [partial_function_mono]:
  "(\<And>a. mono_option (\<lambda>f. B f a)) \<Longrightarrow> mono_option (\<lambda>f. upon m (B f))"
  by (cases m) (simp_all add: monotone_def flat_ord_def fun_ord_def)

lemma run_then_mono [partial_function_mono]:
  "(\<And>a. mono_option (\<lambda>f. B f a)) \<Longrightarrow> mono_option (\<lambda>f. run_then m (B f))"
  by (cases m) (simp_all add: upon_mono, simp add: monotone_def flat_ord_def)

text \<open>\<open>ece391_fdputs\<close> ignores what the call returns.\<close>

definition ece391_fdputs :: "'s sys \<Rightarrow> int \<Rightarrow> u8 list \<Rightarrow> 's \<Rightarrow> 's outcome" where
  "ece391_fdputs sys fd str s =
     andthen (of_opt OutOfBounds (ece391_strlen str))
       (\<lambda>n. andthen (swrite sys fd str (int n) s) (\<lambda>(r, s). Done s))"

end
