(* ===== verification/User_Programs.thy ===== *)
theory User_Programs
  imports User_Lib
begin

text \<open>
  The user programs of src/syscalls: testprint, hello, cat, ls, grep, shell, counter, pingpong and
  sigtest, each as a function of its system calls and of what its uninitialised arrays hold.
  A store outside an array is the fault \<open>OutOfBounds\<close>, one through a NULL pointer is
  \<open>WildPointer\<close>.
\<close>

section \<open>Idioms of the programs\<close>

definition c_line :: "string \<Rightarrow> u8 list" where
  "c_line m = chars m @ [10, 0]"

definition set_at :: "u8 list \<Rightarrow> int \<Rightarrow> u8 \<Rightarrow> u8 list outcome" where
  "set_at buf i v = (if 0 \<le> i \<and> i < int (length buf) then Done (buf[nat i := v]) else Fault OutOfBounds)"

lemma set_at_Done: "0 \<le> i \<Longrightarrow> i < int (length buf) \<Longrightarrow> set_at buf i v = Done (buf[nat i := v])"
  by (simp add: set_at_def)

text \<open>The exits \<open>ece391_fdputs (1, m); return r\<close>, and a sequence of messages.\<close>

definition puts_return :: "'s sys \<Rightarrow> u8 list \<Rightarrow> int \<Rightarrow> 's \<Rightarrow> (int \<times> 's) outcome option" where
  "puts_return sys m r s = upon (ece391_fdputs sys 1 m s) (\<lambda>s. Some (Done (r, s)))"

fun fdputs_all :: "'s sys \<Rightarrow> u8 list list \<Rightarrow> 's \<Rightarrow> 's outcome" where
  "fdputs_all sys [] s = Done s"
| "fdputs_all sys (m # ms) s = andthen (ece391_fdputs sys 1 m s) (fdputs_all sys ms)"

section \<open>testprint and hello\<close>

definition testprint_main :: "'s sys \<Rightarrow> 's \<Rightarrow> (int \<times> 's) outcome option" where
  "testprint_main sys s =
     puts_return sys (c_line ''Hello, if this ran, the program was correct. Yay!'') 0 s"

definition hello_main :: "'s sys \<Rightarrow> u8 list \<Rightarrow> 's \<Rightarrow> (int \<times> 's) outcome option" where
  "hello_main sys buf s =
     upon (ece391_fdputs sys 1 (c_lit ''Hi, what's your name? '') s) (\<lambda>s.
     upon (sread sys 0 buf 1023 s) (\<lambda>(cnt, buf, s).
       if cnt = -1 then puts_return sys (c_line ''Can't read name from keyboard.'') 3 s
       else upon (set_at buf cnt 0) (\<lambda>buf.
            upon (fdputs_all sys [c_lit ''Hello, '', buf] s) (\<lambda>s. Some (Done (0, s))))))"

section \<open>cat\<close>

partial_function (option) cat_loop :: "'s sys \<Rightarrow> int \<Rightarrow> u8 list \<Rightarrow> 's \<Rightarrow> (int \<times> 's) outcome option" where
  "cat_loop sys fd buf s =
     upon (sread sys fd buf 1024 s) (\<lambda>(cnt, buf, s).
       if cnt = 0 then Some (Done (0, s))
       else if cnt = -1 then puts_return sys (c_line ''file read failed'') 3 s
       else upon (swrite sys 1 buf cnt s) (\<lambda>(r, s).
         if r = -1 then Some (Done (3, s)) else cat_loop sys fd buf s))"

definition cat_main :: "'s sys \<Rightarrow> u8 list \<Rightarrow> 's \<Rightarrow> (int \<times> 's) outcome option" where
  "cat_main sys buf s =
     upon (sgetargs sys buf 1024 s) (\<lambda>(r, buf, s).
       if r \<noteq> 0 then puts_return sys (c_line ''could not read arguments'') 3 s
       else upon (sopen sys buf s) (\<lambda>(fd, s).
         if fd = -1 then puts_return sys (c_line ''file not found'') 2 s
         else cat_loop sys fd buf s))"

section \<open>ls\<close>

partial_function (option) ls_loop :: "'s sys \<Rightarrow> int \<Rightarrow> u8 list \<Rightarrow> 's \<Rightarrow> (int \<times> 's) outcome option" where
  "ls_loop sys fd buf s =
     upon (sread sys fd buf 32 s) (\<lambda>(cnt, buf, s).
       if cnt = 0 then Some (Done (0, s))
       else if cnt = -1 then puts_return sys (c_line ''directory entry read failed'') 3 s
       else upon (set_at buf cnt 10) (\<lambda>buf.
         upon (swrite sys 1 buf (cnt + 1) s) (\<lambda>(r, s).
           if r = -1 then Some (Done (3, s)) else ls_loop sys fd buf s)))"

definition ls_main :: "'s sys \<Rightarrow> u8 list \<Rightarrow> 's \<Rightarrow> (int \<times> 's) outcome option" where
  "ls_main sys buf s =
     upon (sopen sys (c_lit ''.'') s) (\<lambda>(fd, s).
       if fd = -1 then puts_return sys (c_line ''directory open failed'') 2 s
       else ls_loop sys fd buf s)"

section \<open>grep\<close>

text \<open>The call \<open>ece391_read (fd, data + last, n)\<close> on a part of an array.\<close>

definition read_at :: "'s sys \<Rightarrow> int \<Rightarrow> u8 list \<Rightarrow> int \<Rightarrow> int \<Rightarrow> 's \<Rightarrow> (int \<times> u8 list \<times> 's) outcome" where
  "read_at sys fd data last' n s =
     (if last' < 0 \<or> int (length data) < last' then Fault OutOfBounds
      else andthen (sread sys fd (drop (nat last') data) n s)
             (\<lambda>(cnt, part, s). Done (cnt, take (nat last') data @ part, s)))"

text \<open>The loop that looks for the end of a line.\<close>

function end_of_line :: "u8 list \<Rightarrow> int \<Rightarrow> nat \<Rightarrow> nat outcome" where
  "end_of_line data last' line_end =
     (if int line_end < last'
      then if length data \<le> line_end then Fault OutOfBounds
           else if data ! line_end \<noteq> 10 then end_of_line data last' (Suc line_end)
           else Done line_end
      else Done line_end)"
  by pat_completeness auto
termination
  by (relation "measure (\<lambda>(data, last', line_end). nat (last' - int line_end))") auto

declare end_of_line.simps [simp del]

text \<open>The loop over the positions of a line; the first match prints the line.\<close>

fun search_line :: "'s sys \<Rightarrow> u8 list \<Rightarrow> nat \<Rightarrow> u8 list \<Rightarrow> u8 list \<Rightarrow> nat \<Rightarrow> nat list \<Rightarrow> 's \<Rightarrow> 's outcome" where
  "search_line sys str s_len fname data line_start [] s = Done s"
| "search_line sys str s_len fname data line_start (check # checks) s =
     (if str ! 0 \<noteq> data ! check then search_line sys str s_len fname data line_start checks s
      else andthen (of_opt OutOfBounds (ece391_strncmp (drop check data) str s_len)) (\<lambda>r.
        if r = 0 then fdputs_all sys [fname, c_lit '':'', drop line_start data, [10, 0]] s
        else search_line sys str s_len fname data line_start checks s))"

lemma end_of_line_ge: "end_of_line data last' i = Done j \<Longrightarrow> i \<le> j"
  by (induction data last' i rule: end_of_line.induct, subst (asm) end_of_line.simps)
    (fastforce split: if_splits)

lemma andthen_cong [fundef_cong]:
  "m = m' \<Longrightarrow> (\<And>a. m' = Done a \<Longrightarrow> f a = g a) \<Longrightarrow> andthen m f = andthen m' g"
  by (cases m') simp_all

text \<open>The loop over the lines in the buffer: the array and \<open>last\<close> it leaves.\<close>

function scan_lines ::
    "'s sys \<Rightarrow> u8 list \<Rightarrow> nat \<Rightarrow> u8 list \<Rightarrow> int \<Rightarrow> int \<Rightarrow> u8 list \<Rightarrow> nat \<Rightarrow> 's \<Rightarrow> (u8 list \<times> int \<times> 's) outcome" where
  "scan_lines sys str s_len fname cnt last' data line_start s =
     andthen (end_of_line data last' line_start) (\<lambda>line_end.
       if length data \<le> line_end then Fault OutOfBounds
       else if data ! line_end \<noteq> 10 \<and> cnt \<noteq> 0 \<and> line_start \<noteq> 0
       then andthen (of_opt OutOfBounds (ece391_strcpy (data[line_end := 0]) 0 line_start))
              (\<lambda>data. Done (data, last' - int line_start, s))
       else andthen (search_line sys str s_len fname (data[line_end := 0]) line_start [line_start..<line_end] s) (\<lambda>s.
              if int (line_end + 1) \<ge> last' then Done (data[line_end := 0], 0, s)
              else scan_lines sys str s_len fname cnt last' (data[line_end := 0]) (line_end + 1) s))"
  by pat_completeness auto
termination
  by (relation "measure (\<lambda>(sys, str, s_len, fname, cnt, last', data, line_start, s). nat (last' - int line_start))")
    (auto dest: end_of_line_ge)

declare scan_lines.simps [simp del]

partial_function (option) grep_loop ::
    "'s sys \<Rightarrow> u8 list \<Rightarrow> nat \<Rightarrow> u8 list \<Rightarrow> int \<Rightarrow> u8 list \<Rightarrow> int \<Rightarrow> 's \<Rightarrow> (int \<times> 's) outcome option" where
  "grep_loop sys str s_len fname fd data last' s =
     upon (read_at sys fd data last' (1024 - last') s) (\<lambda>(cnt, data, s).
       if cnt = -1 then puts_return sys (c_line ''file read failed'') (-1) s
       else upon (scan_lines sys str s_len fname cnt (last' + cnt) data 0 s) (\<lambda>(data, last', s).
         if cnt = 0
         then upon (sclose sys fd s) (\<lambda>(r, s).
                if r = -1 then puts_return sys (c_line ''file close failed'') (-1) s
                else Some (Done (0, s)))
         else grep_loop sys str s_len fname fd data last' s))"

definition do_one_file :: "'s sys \<Rightarrow> u8 list \<Rightarrow> u8 list \<Rightarrow> u8 list \<Rightarrow> 's \<Rightarrow> (int \<times> 's) outcome option" where
  "do_one_file sys str fname data s =
     upon (of_opt OutOfBounds (ece391_strlen str)) (\<lambda>s_len.
     upon (sopen sys fname s) (\<lambda>(fd, s).
       if fd = -1 then puts_return sys (c_line ''file open failed'') (-1) s
       else grep_loop sys str s_len fname fd data 0 s))"

text \<open>Each call of \<open>do_one_file\<close> has its own uninitialised array, given by \<open>junk\<close>.\<close>

partial_function (option) grep_files ::
    "'s sys \<Rightarrow> ('s \<Rightarrow> u8 list) \<Rightarrow> u8 list \<Rightarrow> int \<Rightarrow> u8 list \<Rightarrow> 's \<Rightarrow> (int \<times> 's) outcome option" where
  "grep_files sys junk search fd buf s =
     upon (sread sys fd buf 32 s) (\<lambda>(cnt, buf, s).
       if cnt = 0 then Some (Done (0, s))
       else if cnt = -1 then puts_return sys (c_line ''directory entry read failed'') 3 s
       else if buf ! 0 = of_char CHR ''.'' then grep_files sys junk search fd buf s
       else upon (set_at buf cnt 0) (\<lambda>buf.
         run_then (do_one_file sys search buf (junk s) s) (\<lambda>(r, s).
           if r \<noteq> 0 then Some (Done (3, s)) else grep_files sys junk search fd buf s)))"

definition grep_main :: "'s sys \<Rightarrow> ('s \<Rightarrow> u8 list) \<Rightarrow> u8 list \<Rightarrow> u8 list \<Rightarrow> 's \<Rightarrow> (int \<times> 's) outcome option" where
  "grep_main sys junk buf search s =
     upon (sgetargs sys search 1024 s) (\<lambda>(r, search, s).
       if r \<noteq> 0 then puts_return sys (c_line ''could not read argument'') 3 s
       else upon (sopen sys (c_lit ''.'') s) (\<lambda>(fd, s).
         if fd = -1 then puts_return sys (c_line ''directory open failed'') 2 s
         else grep_files sys junk search fd buf s))"

section \<open>shell\<close>

definition shell_report :: "'s sys \<Rightarrow> int \<Rightarrow> 's \<Rightarrow> 's outcome" where
  "shell_report sys rval s =
     (if rval = -1 then ece391_fdputs sys 1 (c_line ''no such command'') s
      else if rval = 256 then ece391_fdputs sys 1 (c_line ''program terminated by exception'') s
      else if rval \<noteq> 0 then ece391_fdputs sys 1 (c_line ''program terminated abnormally'') s
      else Done s)"

text \<open>The command that a line of \<open>cnt\<close> bytes leaves in the buffer.\<close>

definition shell_line :: "int \<Rightarrow> u8 list \<Rightarrow> u8 list outcome" where
  "shell_line cnt buf =
     (if cnt > 0 \<and> int (length buf) < cnt then Fault OutOfBounds
      else set_at buf (if cnt > 0 \<and> buf ! nat (cnt - 1) = 10 then cnt - 1 else cnt) 0)"

partial_function (option) shell_loop :: "'s sys \<Rightarrow> u8 list \<Rightarrow> 's \<Rightarrow> (int \<times> 's) outcome option" where
  "shell_loop sys buf s =
     upon (ece391_fdputs sys 1 (c_lit ''391OS> '') s) (\<lambda>s.
     upon (sread sys 0 buf 1023 s) (\<lambda>(cnt, buf, s).
       if cnt = -1 then puts_return sys (c_line ''read from keyboard failed'') 3 s
       else upon (shell_line cnt buf) (\<lambda>buf.
         upon (of_opt OutOfBounds (ece391_strcmp buf (c_lit ''exit''))) (\<lambda>c.
           if c = 0 then Some (Done (0, s))
           else if buf ! 0 = 0 then shell_loop sys buf s
           else upon (sexecute sys buf s) (\<lambda>(rval, s).
             upon (shell_report sys rval s) (\<lambda>s. shell_loop sys buf s))))))"

definition shell_main :: "'s sys \<Rightarrow> u8 list \<Rightarrow> 's \<Rightarrow> (int \<times> 's) outcome option" where
  "shell_main sys buf s =
     upon (ece391_fdputs sys 1 (c_line ''Starting 391 Shell'') s) (\<lambda>s. shell_loop sys buf s)"

section \<open>counter\<close>

text \<open>The loop from \<open>i\<close> with \<open>n\<close> rounds to go.\<close>

fun counter_loop :: "'s sys \<Rightarrow> u8 list \<Rightarrow> u32 \<Rightarrow> nat \<Rightarrow> 's \<Rightarrow> 's outcome" where
  "counter_loop sys buf i 0 s = Done s"
| "counter_loop sys buf i (Suc n) s =
     andthen (of_opt OutOfBounds (ece391_itoa (i + 1) buf 10)) (\<lambda>buf.
     andthen (fdputs_all sys [buf, [10, 0]] s) (counter_loop sys buf (i + 1) n))"

definition counter_max :: "u8 \<Rightarrow> nat" where
  "counter_max c =
     (if c = of_char CHR ''0'' then 100 else if c = of_char CHR ''1'' then 10000
      else if c = of_char CHR ''2'' then 100000 else 0)"

definition counter_main :: "'s sys \<Rightarrow> u8 list \<Rightarrow> 's \<Rightarrow> (int \<times> 's) outcome option" where
  "counter_main sys buf s =
     upon (ece391_fdputs sys 1 (c_line ''Enter the Test Number: (0): 100, (1): 10000, (2): 100000'') s) (\<lambda>s.
     upon (sread sys 0 buf 1023 s) (\<lambda>(cnt, buf, s).
       if cnt = -1 then puts_return sys (c_line ''Can't read the number from keyboard.'') 3 s
       else upon (set_at buf cnt 0) (\<lambda>buf.
         upon (of_opt OutOfBounds (ece391_strlen buf)) (\<lambda>n.
           if n > 2 \<or> n = 2 \<and> (buf ! 0 < of_char CHR ''0'' \<or> buf ! 0 > of_char CHR ''2'')
           then puts_return sys (c_line ''Wrong Choice!'') 0 s
           else upon (counter_loop sys buf 0 (counter_max (buf ! 0)) s) (\<lambda>s. Some (Done (0, s)))))))"

section \<open>pingpong\<close>

abbreviation (input) "BUFMAX \<equiv> (81::nat)"
abbreviation (input) "START \<equiv> (1::nat)"
abbreviation (input) "STARTLOOP \<equiv> (2::nat)"
abbreviation (input) "LOOPMAX \<equiv> (78::nat)"
abbreviation (input) "STARTCHAR \<equiv> (65::u8)"
abbreviation (input) "ENDCHAR \<equiv> (90::u8)"

definition pingpong_buffer :: "u8 list" where
  "pingpong_buffer =
     (replicate BUFMAX 32)[BUFMAX - 1 := 0, BUFMAX - 2 := 10, BUFMAX - 3 := 124, START := 124]"

definition clear_inner :: "u8 list \<Rightarrow> u8 list" where
  "clear_inner buf = fold (\<lambda>i buf. buf[i := 32]) [STARTLOOP..<LOOPMAX] buf"

text \<open>One position: the frame, and the wait for a tick.\<close>

definition pingpong_frame ::
    "'s sys \<Rightarrow> int \<Rightarrow> u8 \<Rightarrow> nat \<Rightarrow> u8 list \<times> u8 list \<times> 's \<Rightarrow> (u8 list \<times> u8 list \<times> 's) outcome" where
  "pingpong_frame sys rtc_fd curchar j = (\<lambda>(buf, garbage, s).
     let buf = (clear_inner buf)[j := curchar] in
     andthen (ece391_fdputs sys 1 buf s) (\<lambda>s.
     andthen (sread sys rtc_fd garbage 4 s) (\<lambda>(r, garbage, s). Done (buf, garbage, s))))"

fun each :: "('a \<Rightarrow> 'b \<Rightarrow> 'b outcome) \<Rightarrow> 'a list \<Rightarrow> 'b \<Rightarrow> 'b outcome" where
  "each f [] b = Done b"
| "each f (x # xs) b = andthen (f x b) (each f xs)"

lemma andthen_Done [simp]: "andthen m Done = m"
  by (cases m) simp_all

lemma each_append: "each f (xs @ ys) b = andthen (each f xs b) (each f ys)"
proof (induction xs arbitrary: b)
  case (Cons x xs)
  then have "each f (xs @ ys) = (\<lambda>b. andthen (each f xs b) (each f ys))" by (intro ext)
  then show ?case by (simp add: andthen_assoc)
qed simp

text \<open>A loop of calls that keep a property.\<close>

lemma each_keeps:
  assumes "\<And>x b. x \<in> set xs \<Longrightarrow> P b \<Longrightarrow> \<exists>b'. f x b = Done b' \<and> P b'" "P b"
  shows "\<exists>b'. each f xs b = Done b' \<and> P b'"
  using assms
proof (induction xs arbitrary: b)
  case (Cons x xs)
  then obtain b' where "f x b = Done b'" "P b'" by force
  then show ?case using Cons by simp
qed simp

definition pingpong_next :: "u8 \<Rightarrow> u8" where
  "pingpong_next curchar = (if curchar = ENDCHAR then STARTCHAR else curchar + 1)"

definition pingpong_positions :: "nat list" where
  "pingpong_positions = [STARTLOOP..<LOOPMAX] @ rev [STARTLOOP..<LOOPMAX]"

partial_function (option) pingpong_loop ::
    "'s sys \<Rightarrow> int \<Rightarrow> u8 \<Rightarrow> u8 list \<times> u8 list \<times> 's \<Rightarrow> (int \<times> 's) outcome option" where
  "pingpong_loop sys rtc_fd curchar st =
     upon (each (pingpong_frame sys rtc_fd curchar) pingpong_positions st)
       (\<lambda>st. pingpong_loop sys rtc_fd (pingpong_next curchar) st)"

definition pingpong_main :: "'s sys \<Rightarrow> u8 list \<Rightarrow> 's \<Rightarrow> (int \<times> 's) outcome option" where
  "pingpong_main sys garbage s =
     upon (sopen sys (c_lit ''rtc'') s) (\<lambda>(rtc_fd, s).
     upon (swrite sys rtc_fd (le32 32) 4 s) (\<lambda>(r, s).
       pingpong_loop sys rtc_fd STARTCHAR (pingpong_buffer, garbage, s)))"

section \<open>sigtest\<close>

text \<open>
  The handlers' messages.  \<open>segfault_sighandler\<close> then points \<open>badbuf\<close> and the saved EAX at
  \<open>charbuf\<close>, so that the faulting store succeeds when it is run again.
\<close>

definition signum_text :: "int \<Rightarrow> u8 list" where
  "signum_text signum =
     (if signum = 0 then c_line ''0'' else if signum = 1 then c_line ''1''
      else if signum = 2 then c_line ''2'' else if signum = 3 then c_line ''3'' else c_line ''invalid'')"

definition alarm_sighandler :: "'s sys \<Rightarrow> int \<Rightarrow> 's \<Rightarrow> 's outcome" where
  "alarm_sighandler sys signum s =
     fdputs_all sys [c_lit ''Alarm signal handler called, signum: '', signum_text signum] s"

definition segfault_sighandler :: "'s sys \<Rightarrow> int \<Rightarrow> u8 list \<Rightarrow> nat \<Rightarrow> 's \<Rightarrow> (nat \<times> nat \<times> 's) outcome" where
  "segfault_sighandler sys signum buf charbuf s =
     andthen (fdputs_all sys [c_lit ''Segfault signal handler called, signum: '', signum_text signum,
        c_line ''Press enter to continue...''] s) (\<lambda>s.
     andthen (sread sys 0 buf 1 s) (\<lambda>(r, buf, s).
     andthen (ece391_fdputs sys 1 (c_line ''Signal handler returning'') s) (\<lambda>s. Done (charbuf, charbuf, s))))"

text \<open>
  The program up to the store through the NULL pointer \<open>badbuf\<close>, which is a page fault.
\<close>

definition sigtest_main :: "'s sys \<Rightarrow> u8 list \<Rightarrow> 's \<Rightarrow> (int \<times> 's) outcome option" where
  "sigtest_main sys buf s =
     upon (sgetargs sys buf 1024 s) (\<lambda>(r, buf, s).
       if r \<noteq> 0 then puts_return sys (c_line ''could not read argument'') 3 s
       else
         upon (if buf ! 0 = of_char CHR ''1''
               then andthen (ece391_fdputs sys 1 (c_line ''Installing signal handlers'') s) (\<lambda>s.
                    andthen (sset_handler sys 1 s) (\<lambda>(r, s). andthen (sset_handler sys 3 s) (\<lambda>(r, s). Done s)))
               else Done s) (\<lambda>s.
         upon (ece391_fdputs sys 1 (c_lit ''Hi, what's your name? '') s) (\<lambda>s.
         upon (sread sys 0 buf 1023 s) (\<lambda>(cnt, buf, s).
           if cnt = -1 then puts_return sys (c_line ''Can't read name from keyboard.'') 3 s
           else Some (Fault WildPointer)))))"

end
