(* ===== verification/User_Syserr.thy ===== *)
theory User_Syserr
  imports User_Programs
begin

text \<open>
  The error tests src/syscalls/ece391syserr.c: eight tests that call the kernel with arguments it
  has to refuse, and the menu.  \<open>junk\<close> gives what the uninitialised buffers hold.
\<close>

abbreviation (input) "NEG_FD \<equiv> (-1073741823::int)"
abbreviation (input) "BIG_FD \<equiv> (1073741823::int)"

text \<open>\<open>call_sys\<close> loads a number into EAX and traps.\<close>

definition call_sys :: "'s sys \<Rightarrow> int \<Rightarrow> 's \<Rightarrow> (int \<times> 's) outcome" where
  "call_sys sys num s = snumber sys (word_of_int num) s"

text \<open>A call that should have failed is reported, and marks the test.\<close>

definition expect_error :: "'s sys \<Rightarrow> u8 list \<Rightarrow> int \<Rightarrow> int \<times> 's \<Rightarrow> (int \<times> 's) outcome" where
  "expect_error sys m fail = (\<lambda>(r, s).
     if r \<noteq> -1 then andthen (ece391_fdputs sys 1 m s) (\<lambda>s. Done (2, s)) else Done (fail, s))"

definition verdict :: "'s sys \<Rightarrow> string \<Rightarrow> int \<times> 's \<Rightarrow> (int \<times> 's) outcome" where
  "verdict sys name = (\<lambda>(fail, s).
     andthen (ece391_fdputs sys 1 (if fail \<noteq> 0 then c_line (name @ '': FAIL'') else c_line (name @ '': PASS'')) s)
       (\<lambda>s. Done (fail, s)))"

section \<open>Bad descriptors\<close>

definition try_read ::
    "'s sys \<Rightarrow> int \<Rightarrow> string \<Rightarrow> int \<times> u8 list \<times> 's \<Rightarrow> (int \<times> u8 list \<times> 's) outcome" where
  "try_read sys fd m = (\<lambda>(fail, buf, s).
     andthen (sread sys fd buf 31 s) (\<lambda>(r, buf, s).
     andthen (expect_error sys (c_line m) fail (r, s)) (\<lambda>(fail, s). Done (fail, buf, s))))"

definition try_write ::
    "'s sys \<Rightarrow> int \<Rightarrow> string \<Rightarrow> int \<times> u8 list \<times> 's \<Rightarrow> (int \<times> u8 list \<times> 's) outcome" where
  "try_write sys fd m = (\<lambda>(fail, buf, s).
     andthen (swrite sys fd buf 31 s) (\<lambda>x.
     andthen (expect_error sys (c_line m) fail x) (\<lambda>(fail, s). Done (fail, buf, s))))"

definition try_close :: "'s sys \<Rightarrow> int \<Rightarrow> string \<Rightarrow> int \<times> 's \<Rightarrow> (int \<times> 's) outcome" where
  "try_close sys fd m = (\<lambda>(fail, s). andthen (sclose sys fd s) (expect_error sys (c_line m) fail))"

definition err_neg_fd :: "'s sys \<Rightarrow> u8 list \<Rightarrow> 's \<Rightarrow> (int \<times> 's) outcome" where
  "err_neg_fd sys buf s =
     andthen (try_read sys NEG_FD ''read fail'' (0, buf, s)) (\<lambda>x.
     andthen (try_write sys NEG_FD ''write fail'' x) (\<lambda>(fail, buf, s).
     andthen (try_close sys NEG_FD ''close fail'' (fail, s)) (verdict sys ''err_neg_fd'')))"

definition err_big_fd :: "'s sys \<Rightarrow> u8 list \<Rightarrow> 's \<Rightarrow> (int \<times> 's) outcome" where
  "err_big_fd sys buf s =
     andthen (try_read sys BIG_FD ''read fail'' (0, buf, s)) (\<lambda>x.
     andthen (try_write sys BIG_FD ''write fail'' x) (\<lambda>(fail, buf, s).
     andthen (try_close sys BIG_FD ''close fail'' (fail, s)) (verdict sys ''err_big_fd'')))"

section \<open>Opening\<close>

definition count_failed_open :: "'s sys \<Rightarrow> nat \<Rightarrow> int \<times> 's \<Rightarrow> (int \<times> 's) outcome" where
  "count_failed_open sys i = (\<lambda>(cnt, s).
     andthen (sopen sys (c_lit ''.'') s) (\<lambda>(r, s). Done (if r = -1 then cnt + 1 else cnt, s)))"

definition close_any :: "'s sys \<Rightarrow> nat \<Rightarrow> 's \<Rightarrow> 's outcome" where
  "close_any sys i s = andthen (sclose sys (int i) s) (\<lambda>(r, s). Done s)"

definition err_open_lots :: "'s sys \<Rightarrow> 's \<Rightarrow> (int \<times> 's) outcome" where
  "err_open_lots sys s =
     andthen (each (count_failed_open sys) [0..<7] (0, s)) (\<lambda>(cnt, s).
     andthen (each (close_any sys) [2..<8] s) (\<lambda>s.
       verdict sys ''err_open_lots'' (if cnt = 1 then 0 else 2, s)))"

definition try_open :: "'s sys \<Rightarrow> u8 list \<Rightarrow> string \<Rightarrow> int \<times> 's \<Rightarrow> (int \<times> 's) outcome" where
  "try_open sys name m = (\<lambda>(fail, s). andthen (sopen sys name s) (expect_error sys (c_line m) fail))"

definition err_open :: "'s sys \<Rightarrow> 's \<Rightarrow> (int \<times> 's) outcome" where
  "err_open sys s =
     andthen (try_open sys (c_lit ''helloo'') '''helloo' fail'' (0, s)) (\<lambda>x.
     andthen (try_open sys (c_lit ''shel'') '''shel' fail'' x) (\<lambda>x.
     andthen (try_open sys (c_lit []) ''empty string fail'' x) (verdict sys ''err_open'')))"

section \<open>Descriptors that are not open\<close>

definition err_unopened :: "'s sys \<Rightarrow> u8 list \<Rightarrow> 's \<Rightarrow> (int \<times> 's) outcome" where
  "err_unopened sys buf s =
     andthen (each (\<lambda>i. try_close sys (int i) ''close unopened or invalid fd fail'') [0..<8] (0, s)) (\<lambda>(fail, s).
     andthen (each (\<lambda>i. try_read sys (int i) ''read from unopened fd fail'') [2..<8] (fail, buf, s)) (\<lambda>x.
     andthen (each (\<lambda>i. try_write sys (int i) ''write to unopened fd fail'') [2..<8] x) (\<lambda>(fail, buf, s).
       verdict sys ''err_unopened'' (fail, s))))"

section \<open>Pointers, standard streams, call numbers\<close>

definition try_vidmap :: "'s sys \<Rightarrow> nat \<Rightarrow> string \<Rightarrow> int \<times> 's \<Rightarrow> (int \<times> 's) outcome" where
  "try_vidmap sys p m = (\<lambda>(fail, s). andthen (svidmap sys p s) (expect_error sys (c_line m) fail))"

definition err_vidmap :: "'s sys \<Rightarrow> 's \<Rightarrow> (int \<times> 's) outcome" where
  "err_vidmap sys s =
     andthen (try_vidmap sys 0 ''Null pointer fail'' (0, s)) (\<lambda>x.
     andthen (try_vidmap sys 0x400000 ''Kernel pointer fail fail'' x) (verdict sys ''err_vidmap''))"

definition err_stdin_out :: "'s sys \<Rightarrow> u8 list \<Rightarrow> 's \<Rightarrow> (int \<times> 's) outcome" where
  "err_stdin_out sys buf s =
     andthen (try_write sys 0 ''write to stdin fail'' (0, buf, s)) (\<lambda>x.
     andthen (try_read sys 1 ''read from stdout fail'' x) (\<lambda>(fail, buf, s).
       verdict sys ''err_stdin_out'' (fail, s)))"

definition try_number :: "'s sys \<Rightarrow> int \<Rightarrow> string \<Rightarrow> int \<times> 's \<Rightarrow> (int \<times> 's) outcome" where
  "try_number sys num m = (\<lambda>(fail, s). andthen (call_sys sys num s) (expect_error sys (c_line m) fail))"

definition err_syscall_num :: "'s sys \<Rightarrow> 's \<Rightarrow> (int \<times> 's) outcome" where
  "err_syscall_num sys s =
     andthen (try_number sys 1073741823 ''syscall 0 fail'' (0, s)) (\<lambda>x.
     andthen (try_number sys (-1073741823) ''big num syscall fail'' x) (\<lambda>x.
     andthen (try_number sys 0 ''neg num syscall fail'' x) (verdict sys ''err_syscall_num'')))"

section \<open>The menu\<close>

text \<open>\<open>fail += test ()\<close>.\<close>

definition add_test :: "('s \<Rightarrow> (int \<times> 's) outcome) \<Rightarrow> int \<times> 's \<Rightarrow> (int \<times> 's) outcome" where
  "add_test test = (\<lambda>(fail, s). andthen (test s) (\<lambda>(r, s). Done (fail + r, s)))"

definition syserr_tests :: "'s sys \<Rightarrow> ('s \<Rightarrow> u8 list) \<Rightarrow> ('s \<Rightarrow> (int \<times> 's) outcome) list" where
  "syserr_tests sys junk =
     [\<lambda>s. err_neg_fd sys (junk s) s, \<lambda>s. err_big_fd sys (junk s) s, err_open_lots sys, err_open sys,
      \<lambda>s. err_unopened sys (junk s) s, err_vidmap sys, \<lambda>s. err_stdin_out sys (junk s) s,
      err_syscall_num sys]"

definition syserr_main :: "'s sys \<Rightarrow> ('s \<Rightarrow> u8 list) \<Rightarrow> u8 list \<Rightarrow> 's \<Rightarrow> (int \<times> 's) outcome" where
  "syserr_main sys junk buf s =
     andthen (ece391_fdputs sys 1 (c_lit ''Choose from tests 1-8. 0 to run all: '') s) (\<lambda>s.
     andthen (sread sys 0 buf 127 s) (\<lambda>(cnt, buf, s).
       if cnt = -1
       then andthen (ece391_fdputs sys 1 (c_line ''Can't read test #'') s) (\<lambda>s. Done (2, s))
       else let select = uint (buf ! 0) - uint (of_char CHR ''0'' :: u8) in
         if select = 0
         then andthen (each add_test (syserr_tests sys junk) (0, s)) (\<lambda>(fail, s).
              andthen (ece391_fdputs sys 1
                  (10 # (if fail \<noteq> 0 then c_line ''Overall Tests: FAIL'' else c_line ''Overall Tests: PASS'')) s)
                (\<lambda>s. Done (fail, s)))
         else if 1 \<le> select \<and> select \<le> 8 then (syserr_tests sys junk ! nat (select - 1)) s
         else andthen (ece391_fdputs sys 1 (c_lit ''Invalid test number. Choose from tests 1-8 or 0'') s)
                (\<lambda>s. Done (0, s))))"

end
