(* ===== verification/User_Specs.thy ===== *)
theory User_Specs
  imports User_Syserr
begin

text \<open>
  What the programs do, given what the system calls do.  The interfaces: \<open>stdout\<close>, the standard
  output as a view on which characters are emitted one by one; \<open>pipe\<close>, a descriptor that gives
  its input in chunks; \<open>refusing\<close>, a kernel that refuses the calls of the error tests.
\<close>

section \<open>Output\<close>

locale stdout =
  fixes sys :: "'s sys" and ok :: "'s \<Rightarrow> bool" and view :: "'s \<Rightarrow> 'v" and emit :: "u8 \<Rightarrow> 'v \<Rightarrow> 'v"
    and fine :: "u8 \<Rightarrow> bool" and room :: nat
  assumes write_out: "ok s \<Longrightarrow> n \<le> length buf \<Longrightarrow> length buf \<le> room \<Longrightarrow> list_all fine (take n buf) \<Longrightarrow>
    \<exists>r s'. swrite sys 1 buf (int n) s = Done (r, s') \<and> (0 < n \<longrightarrow> r \<noteq> -1) \<and> ok s' \<and>
      view s' = fold emit (take n buf) (view s)"
begin

lemma fdputs:
  assumes "ok s" "0 \<in> set m" "length m \<le> room" "list_all fine (cstr m)"
  shows "\<exists>s'. ece391_fdputs sys 1 m s = Done s' \<and> ok s' \<and> view s' = fold emit (cstr m) (view s)"
proof -
  have t: "take (length (cstr m)) m = cstr m" by (simp add: cstr_def takeWhile_eq_take[symmetric])
  have "length (cstr m) \<le> length m" by (simp add: cstr_def length_takeWhile_le)
  from write_out[OF assms(1) this assms(3)] show ?thesis
    using assms(2,4) t by (auto simp: ece391_fdputs_def ece391_strlen_cstr)
qed

lemma fdputs_all:
  assumes "ok s" "\<And>m. m \<in> set ms \<Longrightarrow> 0 \<in> set m \<and> length m \<le> room \<and> list_all fine (cstr m)"
  shows "\<exists>s'. fdputs_all sys ms s = Done s' \<and> ok s' \<and> view s' = fold emit (concat (map cstr ms)) (view s)"
  using assms
proof (induction ms arbitrary: s)
  case (Cons m ms)
  obtain s1 where s1: "ece391_fdputs sys 1 m s = Done s1" "ok s1" "view s1 = fold emit (cstr m) (view s)"
    using fdputs[OF Cons.prems(1), of m] Cons.prems(2)[of m] by auto
  then show ?case using Cons.IH[OF s1(2)] Cons.prems(2) by simp
qed simp

lemma puts_return:
  assumes "ok s" "0 \<in> set m" "length m \<le> room" "list_all fine (cstr m)"
  shows "\<exists>s'. puts_return sys m r s = Some (Done (r, s')) \<and> ok s' \<and> view s' = fold emit (cstr m) (view s)"
  using fdputs[OF assms] by (auto simp: puts_return_def)

end

lemma c_line_props [simp]:
  "0 \<notin> set (chars m) \<Longrightarrow> cstr (c_line m) = chars m @ [10]" "0 \<in> set (c_line m)"
  "length (c_line m) = length m + 2"
proof -
  show "0 \<notin> set (chars m) \<Longrightarrow> cstr (c_line m) = chars m @ [10]"
    using cstr_append_nul[of "chars m @ [10]" "[]"] by (simp add: c_line_def)
qed (simp_all add: c_line_def chars_def)

section \<open>Input\<close>

locale pipe = stdout sys ok view emit fine room
  for sys :: "'s sys" and ok :: "'s \<Rightarrow> bool" and view :: "'s \<Rightarrow> 'v" and emit :: "u8 \<Rightarrow> 'v \<Rightarrow> 'v"
    and fine :: "u8 \<Rightarrow> bool" and room :: nat +
  fixes fd :: int and size :: nat and input :: "'s \<Rightarrow> u8 list list"
  assumes write_input: "ok s \<Longrightarrow> n \<le> length buf \<Longrightarrow> length buf \<le> room \<Longrightarrow>
      list_all fine (take n buf) \<Longrightarrow> swrite sys 1 buf (int n) s = Done (r, s') \<Longrightarrow> input s' = input s"
    and chunks: "ok s \<Longrightarrow> c \<in> set (input s) \<Longrightarrow> c \<noteq> [] \<and> length c \<le> size"
    and read_chunk: "ok s \<Longrightarrow> input s = c # cs \<Longrightarrow> size \<le> length buf \<Longrightarrow> length buf \<le> room \<Longrightarrow>
      \<exists>rest s'. sread sys fd buf (int size) s = Done (int (length c), c @ rest, s') \<and>
        length (c @ rest) = length buf \<and> ok s' \<and> view s' = view s \<and> input s' = cs"
    and read_end: "ok s \<Longrightarrow> input s = [] \<Longrightarrow> 0 < n \<Longrightarrow> n \<le> length buf \<Longrightarrow> length buf \<le> room \<Longrightarrow>
      \<exists>buf' s'. sread sys fd buf (int n) s = Done (0, buf', s') \<and> length buf' = length buf \<and>
        ok s' \<and> view s' = view s"
begin

text \<open>\<open>cat\<close> writes what it reads, chunk by chunk, and ends.\<close>

lemma cat_prints:
  assumes "size = 1024" "ok s" "1024 \<le> length buf" "length buf \<le> room" "list_all fine (concat (input s))"
  shows "\<exists>s'. cat_loop sys fd buf s = Some (Done (0, s')) \<and> ok s' \<and>
    view s' = fold emit (concat (input s)) (view s)"
  using assms(2-5)
proof (induction "input s" arbitrary: s buf)
  case Nil
  then obtain b x where "sread sys fd buf (int 1024) s = Done (0, b, x)" "ok x" "view x = view s"
    using read_end[of s 1024 buf] by auto
  then show ?case using Nil.hyps[symmetric] by (subst cat_loop.simps) simp
next
  case (Cons c cs)
  note inp = Cons.hyps(2)[symmetric]
  obtain rest x where r: "sread sys fd buf (int 1024) s = Done (int (length c), c @ rest, x)"
    "length (c @ rest) = length buf" "ok x" "view x = view s" "input x = cs"
    using read_chunk[OF Cons.prems(1) inp, of buf] assms(1) Cons.prems(2,3) by auto
  have c: "c \<noteq> []" using chunks[OF Cons.prems(1), of c] inp by simp
  then have pos: "0 < length c" by simp
  have out: "list_all fine (take (length c) (c @ rest))" using Cons.prems(4) inp by simp
  have l: "length c \<le> length (c @ rest)" "length (c @ rest) \<le> room" using r(2) Cons.prems(3) by simp_all
  with out obtain v y where w: "swrite sys 1 (c @ rest) (int (length c)) x = Done (v, y)" "v \<noteq> -1" "ok y"
    "view y = fold emit c (view s)"
    using write_out[OF r(3) l] pos r(4) by auto
  have y: "input y = cs" using write_input[OF r(3) l out w(1)] r(5) by simp
  have "cat_loop sys fd buf s = cat_loop sys fd (c @ rest) y"
    using r(1) w(1,2) c by (subst cat_loop.simps) (simp del: length_append)
  moreover have "\<exists>s'. cat_loop sys fd (c @ rest) y = Some (Done (0, s')) \<and> ok s' \<and>
      view s' = fold emit (concat (input y)) (view y)"
  proof (rule Cons.hyps(1)[OF y[symmetric] w(3)])
    show "1024 \<le> length (c @ rest)" "length (c @ rest) \<le> room" using r(2) Cons.prems(2,3) by simp_all
    show "list_all fine (concat (input y))" using Cons.prems(4) inp y by simp
  qed
  ultimately show ?case using w(4) y inp by simp
qed

text \<open>\<open>ls\<close> writes a line per chunk, and ends with a read that gives 0.\<close>

lemma ls_prints:
  assumes "size = 32" "ok s" "length buf = 33" "33 \<le> room" "list_all fine (concat (input s))" "fine 10"
  shows "\<exists>s'. ls_loop sys fd buf s = Some (Done (0, s')) \<and> ok s' \<and>
    view s' = fold emit (concat (map (\<lambda>c. c @ [10]) (input s))) (view s) \<and>
    (\<exists>x b b'. ok x \<and> sread sys fd b (int 32) x = Done (0, b', s'))"
  using assms(2,3,5)
proof (induction "input s" arbitrary: s buf)
  case Nil
  then obtain b x where "sread sys fd buf (int 32) s = Done (0, b, x)" "ok x" "view x = view s"
    using read_end[of s 32 buf] assms(4) by auto
  then show ?case using Nil.hyps[symmetric] Nil.prems(1) by (subst ls_loop.simps) auto
next
  case (Cons c cs)
  note inp = Cons.hyps(2)[symmetric]
  obtain rest x where r: "sread sys fd buf (int 32) s = Done (int (length c), c @ rest, x)"
    "length (c @ rest) = 33" "ok x" "view x = view s" "input x = cs"
    using read_chunk[OF Cons.prems(1) inp, of buf] assms(1,4) Cons.prems(2) by auto
  have c: "c \<noteq> []" "length c \<le> 32" using chunks[OF Cons.prems(1), of c] inp assms(1) by simp_all
  define b where "b = (c @ rest)[length c := 10]"
  obtain z tl where "rest = z # tl" using r(2) c(2) by (cases rest) auto
  then have b: "b = (c @ [10]) @ tl" by (simp add: b_def list_update_append)
  have lb: "length b = 33" using r(2) by (simp add: b_def)
  have sa: "set_at (c @ rest) (int (length c)) 10 = Done b" using r(2) c(2) by (simp add: set_at_def b_def)
  have t: "take (length c + 1) b = c @ [10]" by (simp add: b)
  then have out: "list_all fine (take (length c + 1) b)" using Cons.prems(3) inp assms(6) by simp
  have l: "length c + 1 \<le> length b" "length b \<le> room" using lb c(2) assms(4) by simp_all
  with out obtain v y where w: "swrite sys 1 b (int (length c + 1)) x = Done (v, y)" "v \<noteq> -1" "ok y"
    "view y = fold emit (c @ [10]) (view s)"
    using write_out[OF r(3) l] r(4) t by auto
  have y: "input y = cs" using write_input[OF r(3) l out w(1)] r(5) by simp
  have ne: "int (length c) \<noteq> 0" "int (length c) + 1 = int (length c + 1)" using c(1) by simp_all
  have "ls_loop sys fd buf s = ls_loop sys fd b y"
    using r(1) w(1,2) ne sa by (subst ls_loop.simps) (simp del: length_append add: add.commute)
  moreover have "\<exists>s'. ls_loop sys fd b y = Some (Done (0, s')) \<and> ok s' \<and>
      view s' = fold emit (concat (map (\<lambda>c. c @ [10]) (input y))) (view y) \<and>
      (\<exists>x b b'. ok x \<and> sread sys fd b (int 32) x = Done (0, b', s'))"
    by (rule Cons.hyps(1)[OF y[symmetric] w(3) lb]) (use Cons.prems(3) inp y in simp)
  ultimately show ?case using w(4) y inp by simp
qed

end

section \<open>A kernel under the error tests\<close>

text \<open>
  What the tests rely on: the set of descriptors 2 to 7 that are open, the calls that have to fail,
  and that opening the directory takes a free descriptor as long as there is one.
\<close>

locale refusing =
  fixes sys :: "'s sys" and ok :: "'s \<Rightarrow> bool" and opened :: "'s \<Rightarrow> nat set"
  assumes puts_out: "ok s \<Longrightarrow> 0 \<in> set m \<Longrightarrow> length m \<le> 128 \<Longrightarrow> 8 \<notin> set m \<Longrightarrow>
      \<exists>s'. ece391_fdputs sys 1 m s = Done s' \<and> ok s' \<and> opened s' = opened s"
    and opened_range: "ok s \<Longrightarrow> opened s \<subseteq> {2..<8}"
    and bad_read: "ok s \<Longrightarrow> fd \<noteq> 0 \<Longrightarrow> nat fd \<notin> opened s \<Longrightarrow> - (2 ^ 31) \<le> fd \<Longrightarrow> fd < 2 ^ 31 \<Longrightarrow> length buf = 32 \<Longrightarrow>
      \<exists>buf' s'. sread sys fd buf 31 s = Done (-1, buf', s') \<and> length buf' = 32 \<and> ok s' \<and> opened s' = opened s"
    and bad_write: "ok s \<Longrightarrow> fd \<noteq> 1 \<Longrightarrow> nat fd \<notin> opened s \<Longrightarrow> - (2 ^ 31) \<le> fd \<Longrightarrow> fd < 2 ^ 31 \<Longrightarrow> length buf = 32 \<Longrightarrow>
      \<exists>s'. swrite sys fd buf 31 s = Done (-1, s') \<and> ok s' \<and> opened s' = opened s"
    and close_any_fd: "ok s \<Longrightarrow> - (2 ^ 31) \<le> fd \<Longrightarrow> fd < 2 ^ 31 \<Longrightarrow>
      \<exists>s'. sclose sys fd s = Done (if nat fd \<in> opened s then 0 else -1, s') \<and> ok s' \<and> opened s' = opened s - {nat fd}"
    and bad_open: "ok s \<Longrightarrow> name \<in> {c_lit ''helloo'', c_lit ''shel'', c_lit []} \<Longrightarrow>
      \<exists>s'. sopen sys name s = Done (-1, s') \<and> ok s' \<and> opened s' = opened s"
    and open_dot: "ok s \<Longrightarrow> \<exists>r s'. sopen sys (c_lit ''.'') s = Done (r, s') \<and> ok s' \<and>
      (if opened s = {2..<8} then r = -1 \<and> opened s' = opened s
       else r \<noteq> -1 \<and> (\<exists>i. 2 \<le> i \<and> i < 8 \<and> i \<notin> opened s \<and> opened s' = insert i (opened s)))"
    and bad_vidmap: "ok s \<Longrightarrow> p \<in> {0, 0x400000} \<Longrightarrow>
      \<exists>s'. svidmap sys p s = Done (-1, s') \<and> ok s' \<and> opened s' = opened s"
    and bad_number: "ok s \<Longrightarrow> sint eax < 1 \<or> 11 \<le> sint eax \<Longrightarrow>
      \<exists>s'. snumber sys eax s = Done (-1, s') \<and> ok s' \<and> opened s' = opened s"
begin

definition calm_at :: "nat set \<Rightarrow> 's \<Rightarrow> bool" where
  "calm_at A s \<longleftrightarrow> ok s \<and> opened s = A"

lemma verdict_pass:
  assumes "calm_at A s" "length name \<le> 100" "8 \<notin> set (chars name)" "f = 0"
  shows "\<exists>s'. verdict sys name (f, s) = Done (0, s') \<and> calm_at A s'"
proof -
  have "0 \<in> set (c_line (name @ '': PASS''))" "length (c_line (name @ '': PASS'')) \<le> 128"
    "8 \<notin> set (c_line (name @ '': PASS''))"
    using assms(2,3) by (simp_all add: c_line_def chars_def)
  from puts_out[OF _ this, of s] obtain s' where
    "ece391_fdputs sys 1 (c_line (name @ '': PASS'')) s = Done s'" "ok s'" "opened s' = opened s"
    using assms(1) by (auto simp: calm_at_def)
  then show ?thesis using assms(1,4) by (auto simp: verdict_def calm_at_def)
qed

lemma tries:
  assumes "calm_at A s"
  shows "fd \<noteq> 0 \<Longrightarrow> nat fd \<notin> A \<Longrightarrow> - (2 ^ 31) \<le> fd \<Longrightarrow> fd < 2 ^ 31 \<Longrightarrow> length buf = 32 \<Longrightarrow>
      \<exists>buf' s'. try_read sys fd m (0, buf, s) = Done (0, buf', s') \<and> length buf' = 32 \<and> calm_at A s'"
    and "fd \<noteq> 1 \<Longrightarrow> nat fd \<notin> A \<Longrightarrow> - (2 ^ 31) \<le> fd \<Longrightarrow> fd < 2 ^ 31 \<Longrightarrow> length buf = 32 \<Longrightarrow>
      \<exists>s'. try_write sys fd m (0, buf, s) = Done (0, buf, s') \<and> calm_at A s'"
    and "nat fd \<notin> A \<Longrightarrow> - (2 ^ 31) \<le> fd \<Longrightarrow> fd < 2 ^ 31 \<Longrightarrow>
      \<exists>s'. try_close sys fd m (0, s) = Done (0, s') \<and> calm_at A s'"
    and "name \<in> {c_lit ''helloo'', c_lit ''shel'', c_lit []} \<Longrightarrow>
      \<exists>s'. try_open sys name m (0, s) = Done (0, s') \<and> calm_at A s'"
    and "p \<in> {0, 0x400000} \<Longrightarrow> \<exists>s'. try_vidmap sys p m (0, s) = Done (0, s') \<and> calm_at A s'"
    and "n < 1 \<or> 11 \<le> n \<Longrightarrow> - (2 ^ 31) \<le> n \<Longrightarrow> n < 2 ^ 31 \<Longrightarrow>
      \<exists>s'. try_number sys n m (0, s) = Done (0, s') \<and> calm_at A s'"
proof -
  have s: "ok s" "opened s = A" using assms by (simp_all add: calm_at_def)
  show "fd \<noteq> 0 \<Longrightarrow> nat fd \<notin> A \<Longrightarrow> - (2 ^ 31) \<le> fd \<Longrightarrow> fd < 2 ^ 31 \<Longrightarrow> length buf = 32 \<Longrightarrow>
      \<exists>buf' s'. try_read sys fd m (0, buf, s) = Done (0, buf', s') \<and> length buf' = 32 \<and> calm_at A s'"
    using bad_read[OF s(1), of fd buf] s(2) by (auto simp: try_read_def expect_error_def calm_at_def)
  show "fd \<noteq> 1 \<Longrightarrow> nat fd \<notin> A \<Longrightarrow> - (2 ^ 31) \<le> fd \<Longrightarrow> fd < 2 ^ 31 \<Longrightarrow> length buf = 32 \<Longrightarrow>
      \<exists>s'. try_write sys fd m (0, buf, s) = Done (0, buf, s') \<and> calm_at A s'"
    using bad_write[OF s(1), of fd buf] s(2) by (auto simp: try_write_def expect_error_def calm_at_def)
  show "nat fd \<notin> A \<Longrightarrow> - (2 ^ 31) \<le> fd \<Longrightarrow> fd < 2 ^ 31 \<Longrightarrow>
      \<exists>s'. try_close sys fd m (0, s) = Done (0, s') \<and> calm_at A s'"
    using close_any_fd[OF s(1), of fd] s(2) by (auto simp: try_close_def expect_error_def calm_at_def)
  show "name \<in> {c_lit ''helloo'', c_lit ''shel'', c_lit []} \<Longrightarrow>
      \<exists>s'. try_open sys name m (0, s) = Done (0, s') \<and> calm_at A s'"
    using bad_open[OF s(1), of name] s(2) by (auto simp: try_open_def expect_error_def calm_at_def)
  show "p \<in> {0, 0x400000} \<Longrightarrow> \<exists>s'. try_vidmap sys p m (0, s) = Done (0, s') \<and> calm_at A s'"
    using bad_vidmap[OF s(1), of p] s(2) by (auto simp: try_vidmap_def expect_error_def calm_at_def)
  assume n: "n < 1 \<or> 11 \<le> n" "- (2 ^ 31) \<le> n" "n < 2 ^ 31"
  then have "sint (word_of_int n :: u32) = n" by (simp add: signed_of_int signed_take_bit_int_eq_self)
  then show "\<exists>s'. try_number sys n m (0, s) = Done (0, s') \<and> calm_at A s'"
    using bad_number[OF s(1), of "word_of_int n"] n(1) s(2)
    by (auto simp: try_number_def call_sys_def expect_error_def calm_at_def)
qed

lemma err_fd_passes:
  assumes "calm_at {} s" "length buf = 32"
  shows "\<exists>s'. err_neg_fd sys buf s = Done (0, s') \<and> calm_at {} s'"
    and "\<exists>s'. err_big_fd sys buf s = Done (0, s') \<and> calm_at {} s'"
    and "\<exists>s'. err_stdin_out sys buf s = Done (0, s') \<and> calm_at {} s'"
proof -
  have pass: "\<exists>s'. andthen (try_read sys fd m (0, buf, s)) (\<lambda>x. andthen (try_write sys fd m' x) (\<lambda>(fail, buf, s).
      andthen (try_close sys fd m'' (fail, s)) (verdict sys n))) = Done (0, s') \<and> calm_at {} s'"
    if fd: "fd \<noteq> 0" "fd \<noteq> 1" "- (2 ^ 31) \<le> fd" "fd < 2 ^ 31" and n: "length n \<le> 100" "8 \<notin> set (chars n)" for fd m m' m'' n
  proof -
    obtain b1 s1 where s1: "try_read sys fd m (0, buf, s) = Done (0, b1, s1)" "length b1 = 32" "calm_at {} s1"
      using tries(1)[OF assms(1), of fd buf m] fd assms(2) by auto
    obtain s2 where s2: "try_write sys fd m' (0, b1, s1) = Done (0, b1, s2)" "calm_at {} s2"
      using tries(2)[OF s1(3), of fd b1 m'] fd s1(2) by auto
    obtain s3 where s3: "try_close sys fd m'' (0, s2) = Done (0, s3)" "calm_at {} s3"
      using tries(3)[OF s2(2), of fd m''] fd by auto
    show ?thesis using verdict_pass[OF s3(2) n, of 0] by (simp add: s1(1) s2(1) s3(1))
  qed
  show "\<exists>s'. err_neg_fd sys buf s = Done (0, s') \<and> calm_at {} s'"
    unfolding err_neg_fd_def by (rule pass) (simp_all add: chars_def)
  show "\<exists>s'. err_big_fd sys buf s = Done (0, s') \<and> calm_at {} s'"
    unfolding err_big_fd_def by (rule pass) (simp_all add: chars_def)
  obtain s1 where s1: "try_write sys 0 ''write to stdin fail'' (0, buf, s) = Done (0, buf, s1)" "calm_at {} s1"
    using tries(2)[OF assms(1), of 0 buf "''write to stdin fail''"] assms(2) by auto
  obtain b2 s2 where s2: "try_read sys 1 ''read from stdout fail'' (0, buf, s1) = Done (0, b2, s2)" "calm_at {} s2"
    using tries(1)[OF s1(2), of 1 buf "''read from stdout fail''"] assms(2) by auto
  show "\<exists>s'. err_stdin_out sys buf s = Done (0, s') \<and> calm_at {} s'"
    using verdict_pass[OF s2(2), of "''err_stdin_out''" 0] by (simp add: err_stdin_out_def s1(1) s2(1) chars_def)
qed

lemma err_calls_pass:
  assumes "calm_at {} s"
  shows "\<exists>s'. err_open sys s = Done (0, s') \<and> calm_at {} s'"
    and "\<exists>s'. err_vidmap sys s = Done (0, s') \<and> calm_at {} s'"
    and "\<exists>s'. err_syscall_num sys s = Done (0, s') \<and> calm_at {} s'"
proof -
  obtain s1 where s1: "try_open sys (c_lit ''helloo'') '''helloo' fail'' (0, s) = Done (0, s1)" "calm_at {} s1"
    using tries(4)[OF assms, of "c_lit ''helloo''"] by auto
  obtain s2 where s2: "try_open sys (c_lit ''shel'') '''shel' fail'' (0, s1) = Done (0, s2)" "calm_at {} s2"
    using tries(4)[OF s1(2), of "c_lit ''shel''"] by auto
  obtain s3 where s3: "try_open sys (c_lit []) ''empty string fail'' (0, s2) = Done (0, s3)" "calm_at {} s3"
    using tries(4)[OF s2(2), of "c_lit []"] by auto
  show "\<exists>s'. err_open sys s = Done (0, s') \<and> calm_at {} s'"
    using verdict_pass[OF s3(2), of "''err_open''" 0] by (simp add: err_open_def s1(1) s2(1) s3(1) chars_def)
  obtain v1 where v1: "try_vidmap sys 0 ''Null pointer fail'' (0, s) = Done (0, v1)" "calm_at {} v1"
    using tries(5)[OF assms, of 0] by auto
  obtain v2 where v2: "try_vidmap sys 0x400000 ''Kernel pointer fail fail'' (0, v1) = Done (0, v2)" "calm_at {} v2"
    using tries(5)[OF v1(2), of "0x400000"] by auto
  show "\<exists>s'. err_vidmap sys s = Done (0, s') \<and> calm_at {} s'"
    using verdict_pass[OF v2(2), of "''err_vidmap''" 0] by (simp add: err_vidmap_def v1(1) v2(1) chars_def)
  obtain n1 where n1: "try_number sys 1073741823 ''syscall 0 fail'' (0, s) = Done (0, n1)" "calm_at {} n1"
    using tries(6)[OF assms, of 1073741823] by auto
  obtain n2 where n2: "try_number sys (-1073741823) ''big num syscall fail'' (0, n1) = Done (0, n2)" "calm_at {} n2"
    using tries(6)[OF n1(2), of "-1073741823"] by auto
  obtain n3 where n3: "try_number sys 0 ''neg num syscall fail'' (0, n2) = Done (0, n3)" "calm_at {} n3"
    using tries(6)[OF n2(2), of 0] by auto
  show "\<exists>s'. err_syscall_num sys s = Done (0, s') \<and> calm_at {} s'"
    using verdict_pass[OF n3(2), of "''err_syscall_num''" 0] by (simp add: err_syscall_num_def n1(1) n2(1) n3(1) chars_def)
qed

text \<open>Six descriptors can be opened, the seventh call fails.\<close>

lemma opens:
  assumes "ok s" "n \<le> 7" "opened s = {}"
  shows "\<exists>s'. each (count_failed_open sys) [0..<n] (0, s) = Done (if n \<le> 6 then 0 else 1, s') \<and> ok s' \<and>
    opened s' \<subseteq> {2..<8} \<and> card (opened s') = min n 6"
  using assms(2)
proof (induction n)
  case 0
  then show ?case using assms by auto
next
  case (Suc n)
  then obtain s1 where s1: "each (count_failed_open sys) [0..<n] (0, s) = Done (if n \<le> 6 then 0 else 1, s1)" "ok s1"
    "opened s1 \<subseteq> {2..<8}" "card (opened s1) = min n 6" by auto
  have full: "opened s1 = {2..<8} \<longleftrightarrow> n = 6" if "n \<le> 6"
  proof
    assume "opened s1 = {2..<8}"
    then have "card (opened s1) = 6" by simp
    then show "n = 6" using s1(4) that by simp
  next
    assume "n = 6"
    then have "card (opened s1) = card {2..<8::nat}" using s1(4) by simp
    then show "opened s1 = {2..<8}" by (intro card_subset_eq s1(3)) simp_all
  qed
  obtain r s2 where "sopen sys (c_lit ''.'') s1 = Done (r, s2) \<and> ok s2 \<and>
    (if opened s1 = {2..<8} then r = -1 \<and> opened s2 = opened s1
     else r \<noteq> -1 \<and> (\<exists>i. 2 \<le> i \<and> i < 8 \<and> i \<notin> opened s1 \<and> opened s2 = insert i (opened s1)))"
    using open_dot[OF s1(2)] by (elim exE)
  note s2 = this[THEN conjunct1] this[THEN conjunct2, THEN conjunct1] this[THEN conjunct2, THEN conjunct2]
  have n: "n \<le> 6" using Suc.prems by simp
  have fin: "finite (opened s1)" using s1(3) finite_subset by blast
  have step: "each (count_failed_open sys) [0..<Suc n] (0, s) = Done (if r = -1 then 1 else 0, s2)"
    using s1(1) s2(1) n by (simp add: each_append count_failed_open_def del: upt_rec_numeral)
  show ?case
  proof (cases "n = 6")
    case True
    then show ?thesis unfolding step using s1(3,4) s2 full[OF n] by simp
  next
    case False
    then have ne: "opened s1 \<noteq> {2..<8}" using full[OF n] by simp
    then obtain i where "2 \<le> i" "i < 8" "i \<notin> opened s1" "opened s2 = insert i (opened s1)" "r \<noteq> -1"
      using s2(3) by auto
    then show ?thesis unfolding step using s1(3,4) s2(2) False n fin by simp
  qed
qed

lemma closes:
  assumes "ok s" "\<forall>i \<in> set fds. i < 8"
  shows "\<exists>s'. each (close_any sys) fds s = Done s' \<and> ok s' \<and> opened s' = opened s - set fds"
  using assms
proof (induction fds arbitrary: s)
  case (Cons i fds)
  obtain s1 where s1: "sclose sys (int i) s = Done (if i \<in> opened s then 0 else -1, s1)" "ok s1" "opened s1 = opened s - {i}"
    using close_any_fd[OF Cons.prems(1), of "int i"] Cons.prems(2) by auto
  then obtain s2 where "each (close_any sys) fds s1 = Done s2" "ok s2" "opened s2 = opened s1 - set fds"
    using Cons.IH[OF s1(2)] Cons.prems(2) by auto
  moreover have "close_any sys i s = Done s1" by (simp add: close_any_def s1(1))
  ultimately show ?case using s1(3) by auto
qed simp

lemma err_open_lots_passes:
  assumes "calm_at {} s"
  shows "\<exists>s'. err_open_lots sys s = Done (0, s') \<and> calm_at {} s'"
proof -
  obtain s1 where s1: "each (count_failed_open sys) [0..<7] (0, s) = Done (1, s1)" "ok s1" "opened s1 \<subseteq> {2..<8}"
    using opens[of s 7] assms by (auto simp: calm_at_def simp del: upt_rec_numeral)
  obtain s2 where s2: "each (close_any sys) [2..<8] s1 = Done s2" "ok s2" "opened s2 = opened s1 - {2..<8}"
    using closes[OF s1(2), of "[2..<8]"] by (auto simp del: upt_rec_numeral)
  then have "calm_at {} s2" using s1(3) by (auto simp: calm_at_def)
  from verdict_pass[OF this, of "''err_open_lots''" 0] show ?thesis
    using s1(1) s2(1) by (simp add: err_open_lots_def chars_def del: upt_rec_numeral)
qed

lemma err_unopened_passes:
  assumes "calm_at {} s" "length buf = 32"
  shows "\<exists>s'. err_unopened sys buf s = Done (0, s') \<and> calm_at {} s'"
proof -
  let ?P = "\<lambda>x. fst x = 0 \<and> calm_at {} (snd x)"
  let ?Q = "\<lambda>x. fst x = 0 \<and> length (fst (snd x)) = 32 \<and> calm_at {} (snd (snd x))"
  have "\<exists>b. try_close sys (int i) m x = Done b \<and> ?P b" if "i < 8" "?P x" for i m and x :: "int \<times> 's"
    using tries(3)[of "{}" "snd x" "int i" m] that by (cases x) auto
  then obtain x where x: "each (\<lambda>i. try_close sys (int i) ''close unopened or invalid fd fail'') [0..<8] (0, s) = Done x" "?P x"
    using each_keeps[of "[0..<8]" ?P "\<lambda>i. try_close sys (int i) ''close unopened or invalid fd fail''" "(0, s)"] assms(1)
    by (auto simp del: upt_rec_numeral)
  have "\<exists>b. try_read sys (int i) m x = Done b \<and> ?Q b" if "2 \<le> i" "i < 8" "?Q x" for i m and x :: "int \<times> u8 list \<times> 's"
    using tries(1)[of "{}" "snd (snd x)" "int i" "fst (snd x)" m] that by (cases x) auto
  then obtain y where y: "each (\<lambda>i. try_read sys (int i) ''read from unopened fd fail'') [2..<8] (0, buf, snd x) = Done y" "?Q y"
    using each_keeps[of "[2..<8]" ?Q "\<lambda>i. try_read sys (int i) ''read from unopened fd fail''" "(0, buf, snd x)"] x(2) assms(2)
    by (auto simp del: upt_rec_numeral)
  have "\<exists>b. try_write sys (int i) m x = Done b \<and> ?Q b" if "2 \<le> i" "i < 8" "?Q x" for i m and x :: "int \<times> u8 list \<times> 's"
    using tries(2)[of "{}" "snd (snd x)" "int i" "fst (snd x)" m] that by (cases x) auto
  then obtain z where z: "each (\<lambda>i. try_write sys (int i) ''write to unopened fd fail'') [2..<8] y = Done z" "?Q z"
    using each_keeps[of "[2..<8]" ?Q "\<lambda>i. try_write sys (int i) ''write to unopened fd fail''" y] y(2)
    by (auto simp del: upt_rec_numeral)
  obtain s1 b2 s2 b3 s3 where e: "x = (0, s1)" "y = (0, b2, s2)" "z = (0, b3, s3)" "calm_at {} s3"
    using x(2) y(2) z(2) by (cases x, cases y, cases z) auto
  from verdict_pass[OF e(4), of "''err_unopened''" 0] show ?thesis
    using x(1) y(1) z(1) e by (simp add: err_unopened_def chars_def del: upt_rec_numeral)
qed

lemma tests_pass:
  assumes "calm_at {} s" "\<And>s. length (junk s) = 32"
  shows "\<exists>s'. each add_test (syserr_tests sys junk) (0, s) = Done (0, s') \<and> calm_at {} s'"
proof -
  have "\<exists>s'. test s = Done (0, s') \<and> calm_at {} s'" if "test \<in> set (syserr_tests sys junk)" "calm_at {} s" for test s
    using that assms(2) err_fd_passes[OF that(2)] err_calls_pass[OF that(2)] err_open_lots_passes[OF that(2)]
      err_unopened_passes[OF that(2)]
    by (auto simp: syserr_tests_def)
  then have "\<exists>x. each add_test (syserr_tests sys junk) (0, s) = Done x \<and> (fst x = 0 \<and> calm_at {} (snd x))"
    using assms(1) by (intro each_keeps) (force simp: add_test_def)+
  then show ?thesis by (metis prod.collapse)
qed

end

end
