(* ===== verification/User_Grep.thy ===== *)
theory User_Grep
  imports User_Specs "HOL-Library.Sublist"
begin

text \<open>
  grep on one file (\<open>do_one_file\<close> of ece391grep.c) that one read of the 1024-byte buffer takes in:
  it prints exactly the lines that contain the search string, with the file's name before them.
\<close>

section \<open>The specification\<close>

function lines_of :: "u8 list \<Rightarrow> u8 list list" where
  "lines_of c = (if c = [] then [] else takeWhile (\<lambda>x. x \<noteq> 10) c # lines_of (drop 1 (dropWhile (\<lambda>x. x \<noteq> 10) c)))"
  by pat_completeness auto
termination
proof (relation "measure length")
  fix c :: "u8 list" assume "c \<noteq> []"
  moreover have "length (dropWhile (\<lambda>x. x \<noteq> 10) c) \<le> length c" by (rule length_dropWhile_le)
  ultimately show "(drop 1 (dropWhile (\<lambda>x. x \<noteq> 10) c), c) \<in> measure length" by (cases c) auto
qed simp

declare lines_of.simps [simp del]

definition line_matches :: "u8 list \<Rightarrow> u8 list \<Rightarrow> bool" where
  "line_matches p l \<longleftrightarrow> p \<noteq> [] \<and> sublist p l"

definition grep_line :: "u8 list \<Rightarrow> u8 list \<Rightarrow> u8 list \<Rightarrow> u8 list" where
  "grep_line p name l = (if line_matches p l then name @ chars '':'' @ l @ [10] else [])"

definition grep_text :: "u8 list \<Rightarrow> u8 list \<Rightarrow> u8 list \<Rightarrow> u8 list" where
  "grep_text p name c = concat (map (grep_line p name) (lines_of c))"

lemma sublist_at: "sublist p l \<longleftrightarrow> (\<exists>i \<le> length l. take (length p) (drop i l) = p)"
proof
  assume "sublist p l"
  then obtain a b where l: "l = a @ p @ b" by (auto simp: sublist_def)
  then show "\<exists>i \<le> length l. take (length p) (drop i l) = p" by (intro exI[of _ "length a"]) simp
next
  assume "\<exists>i \<le> length l. take (length p) (drop i l) = p"
  then obtain i where "take (length p) (drop i l) = p" by blast
  then have "l = take i l @ p @ drop (length p) (drop i l)" by (metis append_take_drop_id)
  then show "sublist p l" by (auto simp: sublist_def)
qed

section \<open>One line\<close>

lemma end_of_line_at:
  assumes "i + n < length data" "\<And>j. j < n \<Longrightarrow> data ! (i + j) \<noteq> 10" "int (i + n) \<le> last'"
    and "data ! (i + n) = 10 \<or> int (i + n) = last'"
  shows "end_of_line data last' i = Done (i + n)"
  using assms
proof (induction n arbitrary: i)
  case 0
  then show ?case by (subst end_of_line.simps) auto
next
  case (Suc n)
  have "end_of_line data last' (Suc i) = Done (Suc i + n)"
    by (rule Suc.IH) (use Suc.prems Suc.prems(2)[of "Suc j" for j] in auto)
  moreover have "data ! i \<noteq> 10" using Suc.prems(2)[of 0] by simp
  ultimately show ?case using Suc.prems(1,3) by (subst end_of_line.simps) simp
qed

text \<open>A buffer that holds a line from \<open>i\<close> on, closed by a NUL.\<close>

definition holds_line :: "u8 list \<Rightarrow> nat \<Rightarrow> u8 list \<Rightarrow> bool" where
  "holds_line data i l \<longleftrightarrow> (\<exists>a b. data = a @ l @ 0 # b \<and> length a = i) \<and> 0 \<notin> set l"

lemma holds_line_drop:
  assumes "holds_line data i l" "k \<le> length l"
  shows "cstr (drop (i + k) data) = drop k l" "0 \<in> set (drop (i + k) data)"
    "k < length l \<Longrightarrow> data ! (i + k) = l ! k"
proof -
  obtain a b where d: "data = a @ l @ 0 # b" "length a = i" and nz: "0 \<notin> set l"
    using assms(1) by (auto simp: holds_line_def)
  have dr: "drop (i + k) data = drop k l @ 0 # b" using assms(2) by (simp add: d(1) d(2)[symmetric])
  have "0 \<notin> set (drop k l)" using nz by (auto dest: in_set_dropD)
  then show "cstr (drop (i + k) data) = drop k l" "0 \<in> set (drop (i + k) data)"
    unfolding dr by (simp_all add: cstr_append_nul)
  show "k < length l \<Longrightarrow> data ! (i + k) = l ! k" by (simp add: d(1) d(2)[symmetric] nth_append)
qed

context stdout
begin

lemma search_line_prints:
  assumes h: "holds_line data i l" and str: "0 \<in> set str" and f: "0 \<in> set name" "length name \<le> room" "length data \<le> room" "4 \<le> room"
    and c: "list_all fine (cstr name @ chars '':'' @ l @ [10])" and s: "ok s"
    and ks: "ks \<le> length l"
  shows "\<exists>s'. search_line sys str (length (cstr str)) name data i [i + ks..<i + length l] s = Done s' \<and> ok s' \<and>
    view s' = fold emit (if cstr str \<noteq> [] \<and> (\<exists>k. ks \<le> k \<and> k < length l \<and> take (length (cstr str)) (drop k l) = cstr str)
      then cstr name @ chars '':'' @ l @ [10] else []) (view s)"
  using ks
proof (induction "length l - ks" arbitrary: ks)
  case 0
  then have "ks = length l" by simp
  then show ?case using s by auto
next
  case (Suc n)
  let ?p = "cstr str"
  have ks: "ks < length l" using Suc.hyps(2) by simp
  have up: "[i + ks..<i + length l] = (i + ks) # [i + Suc ks..<i + length l]" using ks by (simp add: upt_conv_Cons)
  note dl = holds_line_drop[OF h less_imp_le[OF ks]]
  have "0 \<notin> set l" using h by (simp add: holds_line_def)
  then have lk: "l ! ks \<noteq> 0" using nth_mem[OF ks] by metis
  have sp: "?p \<noteq> [] \<and> str ! 0 = hd ?p \<or> ?p = [] \<and> str ! 0 = 0" using str by (cases str) auto
  define hit where "hit k \<longleftrightarrow> take (length ?p) (drop k l) = ?p" for k
  have ex: "(\<exists>k. ks \<le> k \<and> k < length l \<and> hit k) \<longleftrightarrow> hit ks \<or> (\<exists>k. Suc ks \<le> k \<and> k < length l \<and> hit k)"
    using ks by (metis Suc_leD Suc_leI le_neq_implies_less order_refl)
  have IH: "\<exists>s'. search_line sys str (length ?p) name data i [i + Suc ks..<i + length l] s = Done s' \<and> ok s' \<and>
    view s' = fold emit (if ?p \<noteq> [] \<and> (\<exists>k. Suc ks \<le> k \<and> k < length l \<and> hit k)
      then cstr name @ chars '':'' @ l @ [10] else []) (view s)"
    unfolding hit_def by (rule Suc.hyps(1)) (use Suc.hyps(2) in simp_all)
  have cmp: "\<exists>r. ece391_strncmp (drop (i + ks) data) str (length ?p) = Some r \<and> (r = 0 \<longleftrightarrow> hit ks)"
    using ece391_strncmp_prefix[OF dl(2) str] dl(1) by (auto simp: hit_def)
  show ?case
  proof (cases "str ! 0 = l ! ks")
    case False
    have "\<not> hit ks" if "?p \<noteq> []"
    proof
      assume "hit ks"
      moreover have "drop ks l = l ! ks # drop (Suc ks) l" using ks by (simp add: Cons_nth_drop_Suc)
      ultimately have "hd ?p = l ! ks" using that by (cases ?p) (auto simp: hit_def)
      then show False using sp that False by simp
    qed
    then show ?thesis using IH False dl(3)[OF ks] ex unfolding up hit_def[symmetric] by auto
  next
    case True
    then have pne: "?p \<noteq> []" using sp lk by auto
    obtain r where r: "ece391_strncmp (drop (i + ks) data) str (length ?p) = Some r" "r = 0 \<longleftrightarrow> hit ks" using cmp by blast
    show ?thesis
    proof (cases "hit ks")
      case False
      then show ?thesis using IH True dl(3)[OF ks] r ex unfolding up hit_def[symmetric] by auto
    next
      case hit: True
      let ?ms = "[name, c_lit '':'', drop i data, [10, 0]]"
      have d0: "cstr (drop i data) = l" "0 \<in> set (drop i data)" using holds_line_drop(1,2)[OF h, of 0] by simp_all
      have ct: "cstr (c_lit '':'') = chars '':''" by (simp add: c_lit_def chars_def)
      have "0 \<in> set m \<and> length m \<le> room \<and> list_all fine (cstr m)" if "m \<in> set ?ms" for m
        using that f c d0 ct by (auto simp: c_lit_def chars_def)
      from fdputs_all[OF s this] obtain s' where s': "fdputs_all sys ?ms s = Done s'" "ok s'"
        "view s' = fold emit (concat (map cstr ?ms)) (view s)" by blast
      have "search_line sys str (length ?p) name data i [i + ks..<i + length l] s = fdputs_all sys ?ms s"
        unfolding up using True dl(3)[OF ks] r hit by simp
      then show ?thesis using s' d0(1) ct pne ex hit unfolding hit_def[symmetric] by auto
    qed
  qed
qed

lemma line_prints:
  assumes "holds_line data i l" "0 \<in> set str" "0 \<in> set name" "length name \<le> room" "length data \<le> room" "4 \<le> room"
    and "list_all fine (cstr name @ chars '':'' @ l @ [10])" "ok s"
  shows "\<exists>s'. search_line sys str (length (cstr str)) name data i [i..<i + length l] s = Done s' \<and> ok s' \<and>
    view s' = fold emit (grep_line (cstr str) (cstr name) l) (view s)"
proof -
  let ?p = "cstr str"
  have "?p \<noteq> [] \<and> (\<exists>k<length l. take (length ?p) (drop k l) = ?p) \<longleftrightarrow> line_matches ?p l"
    unfolding line_matches_def sublist_at
    by (metis drop_all le_neq_implies_less less_imp_le nle_le take_Nil)
  then show ?thesis
    using search_line_prints[OF assms, of 0] by (auto simp: grep_line_def)
qed

section \<open>The lines of the buffer\<close>

lemma scan_step:
  assumes "end_of_line data last' i = Done e" "e < length data" "\<not> (data ! e \<noteq> 10 \<and> cnt \<noteq> 0 \<and> i \<noteq> 0)"
    and "search_line sys str n name (data[e := 0]) i [i..<e] s = Done s1"
  shows "scan_lines sys str n name cnt last' data i s =
    (if int (e + 1) \<ge> last' then Done (data[e := 0], 0, s1)
     else scan_lines sys str n name cnt last' (data[e := 0]) (e + 1) s1)"
  using assms by (subst scan_lines.simps) auto

lemma scan_first:
  assumes "r \<noteq> []" "data = a @ r @ rest" "length a = i" "rest \<noteq> []" "0 \<notin> set r" "last' = int (i + length r)" "cnt \<noteq> 0"
    and "0 \<in> set str" "0 \<in> set name" "length name \<le> room" "length data \<le> room" "4 \<le> room"
    and "list_all fine (cstr name @ chars '':'' @ r @ [10])" "ok s"
  shows "\<exists>data' q x s'. scan_lines sys str (length (cstr str)) name cnt last' data i s = Done (data', int (length q), s') \<and>
    length data' = length data \<and> take (length q) data' = q \<and> ok s' \<and> 0 \<notin> set q \<and> 10 \<notin> set q \<and> set q \<subseteq> set r \<and>
    (q \<noteq> [] \<longrightarrow> length q < i + length r) \<and> view s' = fold emit x (view s) \<and>
    x @ (if q = [] then [] else grep_line (cstr str) (cstr name) q) = grep_text (cstr str) (cstr name) r"
  using assms
proof (induction r arbitrary: data a i s rule: lines_of.induct)
  case (1 r)
  define l r' where "l = takeWhile (\<lambda>x. x \<noteq> 10) r" and "r' = drop 1 (dropWhile (\<lambda>x. x \<noteq> 10) r)"
  note prems = 1(2-15)
  have lines: "grep_text p n r = grep_line p n l @ grep_text p n r'" for p n
    using prems(1) by (simp add: grep_text_def lines_of.simps[of r] l_def r'_def)
  have "10 \<notin> set l" by (auto simp: l_def dest: set_takeWhileD)
  then have l10: "\<And>j. j < length l \<Longrightarrow> l ! j \<noteq> 10" by (auto dest: nth_mem)
  have lr: "set l \<subseteq> set r" "0 \<notin> set l" using prems(5) by (auto simp: l_def dest: set_takeWhileD)
  have fl: "list_all fine (cstr name @ chars '':'' @ l @ [10])"
    using prems(13) lr(1) by (auto simp: list_all_iff)
  show ?case
  proof (cases "10 \<in> set r")
    case True
    then have r: "r = l @ 10 # r'"
      unfolding l_def r'_def by (induction r) auto
    let ?e = "i + length l" and ?d = "data[i + length l := 0]"
    have d: "data = a @ l @ 10 # (r' @ rest)" using prems(2) r by simp
    have e: "end_of_line data last' i = Done ?e"
    proof (rule end_of_line_at)
      fix j assume "j < length l"
      then show "data ! (i + j) \<noteq> 10" using l10[of j] by (simp add: d prems(3)[symmetric] nth_append)
    qed (use prems(6) r in \<open>simp_all add: d prems(3)[symmetric] nth_append\<close>)
    have d': "?d = a @ l @ 0 # (r' @ rest)" by (simp add: d prems(3)[symmetric] list_update_append)
    then have "holds_line ?d i l" using prems(3) lr(2) by (auto simp: holds_line_def)
    from line_prints[OF this prems(8,9,10) _ prems(12) fl prems(14)]
    obtain s1 where s1: "search_line sys str (length (cstr str)) name ?d i [i..<?e] s = Done s1" "ok s1"
      "view s1 = fold emit (grep_line (cstr str) (cstr name) l) (view s)"
      using prems(11) by auto
    have "data ! ?e = 10" by (simp add: d prems(3)[symmetric] nth_append)
    then have step: "scan_lines sys str (length (cstr str)) name cnt last' data i s =
        (if int (?e + 1) \<ge> last' then Done (?d, 0, s1)
         else scan_lines sys str (length (cstr str)) name cnt last' ?d (?e + 1) s1)"
      using scan_step[OF e _ _ s1(1), of cnt] by (simp add: d prems(3)[symmetric])
    show ?thesis
    proof (cases "r' = []")
      case True
      then have "grep_text p n r' = []" for p n by (simp add: grep_text_def lines_of.simps)
      then show ?thesis
        using step True r prems(6) s1(2,3) lines
        by (intro exI[of _ ?d] exI[of _ "[]"] exI[of _ "grep_line (cstr str) (cstr name) l"] exI[of _ s1]) simp
    next
      case ne: False
      have lt: "\<not> int (?e + 1) \<ge> last'" using ne r prems(6) by simp
      have "list_all fine (cstr name @ chars '':'' @ r' @ [10])" using prems(13) r by simp
      note fr = this
      have lr': "length r = length l + 1 + length r'" using arg_cong[OF r, of length] by simp
      have nz: "0 \<notin> set r'" using prems(5) arg_cong[OF r, of set] by auto
      have dd: "?d = (a @ l @ [0]) @ r' @ rest" using d' by simp
      have ia: "length (a @ l @ [0]) = ?e + 1" using prems(3) by simp
      have la: "last' = int (?e + 1 + length r')" using prems(6) lr' by simp
      have ld: "length ?d \<le> room" using prems(11) by simp
      obtain data' q x s' where q: "scan_lines sys str (length (cstr str)) name cnt last' ?d (?e + 1) s1 = Done (data', int (length q), s')"
        "length data' = length ?d" "take (length q) data' = q" "ok s'" "0 \<notin> set q" "10 \<notin> set q" "set q \<subseteq> set r'"
        "q \<noteq> [] \<longrightarrow> length q < (?e + 1) + length r'" "view s' = fold emit x (view s1)"
        "x @ (if q = [] then [] else grep_line (cstr str) (cstr name) q) = grep_text (cstr str) (cstr name) r'"
        using 1(1)[folded r'_def, OF prems(1) ne dd ia prems(4) nz la prems(7,8,9,10) ld prems(12) fr s1(2)] by blast
      have sr: "set r' \<subseteq> set r" using arg_cong[OF r, of set] by auto
      show ?thesis
        using step lt q s1(3) lines sr lr'
        by (intro exI[of _ data'] exI[of _ q] exI[of _ "grep_line (cstr str) (cstr name) l @ x"] exI[of _ s']) auto
    qed
  next
    case False
    then have all: "\<forall>x \<in> set r. x \<noteq> 10" by auto
    have dw: "dropWhile (\<lambda>x. x \<noteq> 10) r = []" unfolding dropWhile_eq_Nil_conv by (rule all)
    have tw: "takeWhile (\<lambda>x. x \<noteq> 10) r = r" unfolding takeWhile_eq_all_conv by (rule all)
    have r: "l = r" "r' = []" unfolding l_def r'_def dw tw by simp_all
    have gt: "grep_text p n r = grep_line p n r" for p n
      using lines[of p n] r by (simp add: grep_text_def lines_of.simps[of "[]"])
    obtain b rest' where rest: "rest = b # rest'" using prems(4) by (cases rest) auto
    let ?e = "i + length r" and ?d = "data[i + length r := 0]"
    have d: "data = a @ r @ b # rest'" using prems(2) rest by simp
    have e: "end_of_line data last' i = Done ?e"
    proof (rule end_of_line_at)
      fix j assume "j < length r"
      then show "data ! (i + j) \<noteq> 10" using l10[of j] r(1) by (simp add: d prems(3)[symmetric] nth_append)
    qed (use prems(6) in \<open>simp_all add: d prems(3)[symmetric]\<close>)
    have d': "?d = a @ r @ 0 # rest'" by (simp add: d prems(3)[symmetric] list_update_append)
    show ?thesis
    proof (cases "b \<noteq> 10 \<and> i \<noteq> 0")
      case True
      have dr: "drop i ?d = r @ 0 # rest'" using d' prems(3) by simp
      then have cd: "cstr (drop i ?d) = r" "0 \<in> set (drop i ?d)" using prems(5) by (simp_all add: cstr_append_nul)
      have cp: "ece391_strcpy ?d 0 i = Some (r @ 0 # drop (Suc (length r)) ?d)"
        using ece391_strcpy_down[OF cd(2), of 0] cd(1) by simp
      have "data ! ?e = b" by (simp add: d prems(3)[symmetric] nth_append)
      then have call: "scan_lines sys str (length (cstr str)) name cnt last' data i s =
          Done (r @ 0 # drop (Suc (length r)) ?d, int (length r), s)"
        using e True prems(6,7) cp by (subst scan_lines.simps) (simp add: d prems(3)[symmetric])
      have "length (r @ 0 # drop (Suc (length r)) ?d) = length data"
        using arg_cong[OF d, of length] prems(3) by simp
      moreover have "length r < i + length r" using True by simp
      ultimately show ?thesis
        unfolding call using prems(1,5,14) False gt
        by (intro exI[of _ "r @ 0 # drop (Suc (length r)) ?d"] exI[of _ r] exI[of _ "[]"] exI[of _ s]) simp
    next
      case keep: False
      have "holds_line ?d i r" using prems(3,5) d' by (auto simp: holds_line_def)
      from line_prints[OF this prems(8,9,10) _ prems(12) prems(13) prems(14)]
      obtain s1 where s1: "search_line sys str (length (cstr str)) name ?d i [i..<?e] s = Done s1" "ok s1"
        "view s1 = fold emit (grep_line (cstr str) (cstr name) r) (view s)"
        using prems(11) by auto
      have lt: "?e < length data" by (simp add: d prems(3)[symmetric])
      have "data ! ?e = b" by (simp add: d prems(3)[symmetric] nth_append)
      then have nb: "\<not> (data ! ?e \<noteq> 10 \<and> cnt \<noteq> 0 \<and> i \<noteq> 0)" using keep by auto
      have "scan_lines sys str (length (cstr str)) name cnt last' data i s = Done (?d, 0, s1)"
        using scan_step[OF e lt nb s1(1)] by (simp add: prems(6))
      then show ?thesis
        using s1(2,3) gt
        by (intro exI[of _ ?d] exI[of _ "[]"] exI[of _ "grep_line (cstr str) (cstr name) r"] exI[of _ s1]) simp
    qed
  qed
qed

text \<open>The pass after the last read, over the unfinished line.\<close>

lemma scan_last:
  assumes "length q < length data" "take (length q) data = q" "0 \<notin> set q" "10 \<notin> set q"
    and "0 \<in> set str" "0 \<in> set name" "length name \<le> room" "length data \<le> room" "4 \<le> room"
    and "list_all fine (cstr name @ chars '':'' @ q @ [10])" "ok s"
  shows "\<exists>data' s'. scan_lines sys str (length (cstr str)) name 0 (int (length q)) data 0 s = Done (data', 0, s') \<and> ok s' \<and>
    view s' = fold emit (if q = [] then [] else grep_line (cstr str) (cstr name) q) (view s)"
proof -
  let ?d = "data[length q := 0]"
  have e: "end_of_line data (int (length q)) 0 = Done (0 + length q)"
  proof (rule end_of_line_at)
    fix j assume j: "j < length q"
    then have "data ! j = q ! j" using assms(2) by (metis nth_take)
    then show "data ! (0 + j) \<noteq> 10" using assms(4) j by (auto dest: nth_mem)
  qed (use assms(1) in simp_all)
  have "data = q @ drop (length q) data" using assms(2) by (metis append_take_drop_id)
  then obtain b rest where "data = q @ b # rest" using assms(1) by (metis append_Nil2 less_irrefl neq_Nil_conv)
  then have "?d = [] @ q @ 0 # rest" by (simp add: list_update_append)
  then have h: "holds_line ?d 0 q" using assms(3) unfolding holds_line_def by blast
  have ld: "length ?d \<le> room" using assms(8) by simp
  obtain s1 where s1: "search_line sys str (length (cstr str)) name ?d 0 [0..<0 + length q] s = Done s1" "ok s1"
    "view s1 = fold emit (grep_line (cstr str) (cstr name) q) (view s)"
    using line_prints[OF h assms(5,6,7) ld assms(9,10,11)] by auto
  have "scan_lines sys str (length (cstr str)) name 0 (int (length q)) data 0 s = Done (?d, 0, s1)"
    using scan_step[OF e _ _, of 0 str "length (cstr str)" name s s1] s1(1) assms(1) by simp
  moreover have "grep_line (cstr str) (cstr name) [] = []"
    by (auto simp: grep_line_def line_matches_def)
  ultimately show ?thesis using s1(2,3) by auto
qed

end

section \<open>One file\<close>

locale greppable = pipe +
  assumes close_file: "ok s \<Longrightarrow> \<exists>r s'. sclose sys fd s = Done (r, s') \<and> r \<noteq> -1 \<and> view s' = view s"
begin

text \<open>Output does not touch the input.\<close>

lemma frozen: "stdout sys (\<lambda>s. ok s \<and> input s = I) view emit fine room"
proof
  fix s n buf
  assume a: "ok s \<and> input s = I" "n \<le> length buf" "length buf \<le> room" "list_all fine (take n buf)"
  then obtain r s' where "swrite sys 1 buf (int n) s = Done (r, s')" "0 < n \<longrightarrow> r \<noteq> -1" "ok s'"
    "view s' = fold emit (take n buf) (view s)" using write_out by blast
  then show "\<exists>r s'. swrite sys 1 buf (int n) s = Done (r, s') \<and> (0 < n \<longrightarrow> r \<noteq> -1) \<and> (ok s' \<and> input s' = I) \<and>
      view s' = fold emit (take n buf) (view s)"
    using write_input a by blast
qed

lemma grep_prints:
  assumes size: "size = 1024" and s: "ok s" "input s = [c]" and d: "length data = 1025" "1025 \<le> room" "length name \<le> room"
    and str: "0 \<in> set str" "0 \<in> set name" and nz: "0 \<notin> set c"
    and f: "list_all fine (cstr name @ chars '':'' @ c @ [10])"
  shows "\<exists>s'. grep_loop sys str (length (cstr str)) name fd data 0 s = Some (Done (0, s')) \<and>
    view s' = fold emit (grep_text (cstr str) (cstr name) c) (view s)"
proof -
  have c: "c \<noteq> []" "length c \<le> 1024" using chunks[OF s(1), of c] s(2) size by simp_all
  obtain rest x where x: "sread sys fd data 1024 s = Done (int (length c), c @ rest, x)" "length (c @ rest) = 1025"
    "ok x" "view x = view s" "input x = []"
    using read_chunk[OF s, of data] d size by auto
  have rest: "rest \<noteq> []" "length (c @ rest) \<le> room" "4 \<le> room" "int (length c) \<noteq> 0"
    using x(2) c d(2) by auto
  have z: "length [] = (0::nat)" "c @ rest = [] @ c @ rest" "int (length c) = int (0 + length c)" by simp_all
  have xi: "ok x \<and> input x = []" using x(3,5) by simp
  obtain data' q y x1 where q: "scan_lines sys str (length (cstr str)) name (int (length c)) (int (length c)) (c @ rest) 0 x =
      Done (data', int (length q), x1)"
    "length data' = 1025" "take (length q) data' = q" "ok x1" "input x1 = []" "0 \<notin> set q" "10 \<notin> set q" "set q \<subseteq> set c"
    "q \<noteq> [] \<longrightarrow> length q < length c" "view x1 = fold emit y (view x)"
    "y @ (if q = [] then [] else grep_line (cstr str) (cstr name) q) = grep_text (cstr str) (cstr name) c"
    using stdout.scan_first[OF frozen c(1) z(2,1) rest(1) nz z(3) rest(4) str d(3) rest(2,3) f xi] x(2) by auto
  have lq: "length q < 1024" using q(9) c(2) by (cases "q = []") auto
  let ?n = "1024 - length q"
  have nq: "1024 - int (length q) = int ?n" "0 < ?n" "?n \<le> length (drop (length q) data')" "length (drop (length q) data') \<le> room"
    using lq q(2) d(2) by (simp_all add: of_nat_diff)
  obtain part x2 where x2: "sread sys fd (drop (length q) data') (int ?n) x1 = Done (0, part, x2)"
    "length part = length (drop (length q) data')" "ok x2" "view x2 = view x1"
    using read_end[OF q(4,5) nq(2,3,4)] by blast
  let ?d2 = "take (length q) data' @ part"
  have d2: "length q < length ?d2" "take (length q) ?d2 = q" "length ?d2 \<le> room"
    using lq q(2,3) x2(2) d(2) by simp_all
  have fq: "list_all fine (cstr name @ chars '':'' @ q @ [10])" using f q(8) by (auto simp: list_all_iff)
  obtain d3 x3 where x3: "scan_lines sys str (length (cstr str)) name 0 (int (length q)) ?d2 0 x2 = Done (d3, 0, x3)" "ok x3"
    "view x3 = fold emit (if q = [] then [] else grep_line (cstr str) (cstr name) q) (view x2)"
    using scan_last[OF d2(1,2) q(6,7) str d(3) d2(3) rest(3) fq x2(3)] by blast
  obtain r x4 where x4: "sclose sys fd x3 = Done (r, x4)" "r \<noteq> -1" "view x4 = view x3"
    using close_file[OF x3(2)] by blast
  have r1: "read_at sys fd data 0 1024 s = Done (int (length c), c @ rest, x)" using x(1) by (simp add: read_at_def)
  have r2: "read_at sys fd data' (int (length q)) (1024 - int (length q)) x1 = Done (0, ?d2, x2)"
    using x2(1) lq q(2) unfolding nq(1) by (simp add: read_at_def)
  have second: "grep_loop sys str (length (cstr str)) name fd data' (int (length q)) x1 = Some (Done (0, x4))"
    using r2 x3(1) x4(1,2) by (subst grep_loop.simps) simp
  have "int (length c) \<noteq> -1" by simp
  then have "grep_loop sys str (length (cstr str)) name fd data 0 s = Some (Done (0, x4))"
    using r1 q(1) rest(4) second by (subst grep_loop.simps) simp
  moreover have "view x4 = fold emit (grep_text (cstr str) (cstr name) c) (view s)"
    unfolding q(11)[symmetric] fold_append comp_def using x4(3) x3(3) x2(4) q(10) x(4) by simp
  ultimately show ?thesis by blast
qed

end

end
