(* ===== verification/User_Output.thy ===== *)
theory User_Output
  imports User_Specs
begin

text \<open>
  The programs that only print: counter, which writes the numbers from 1 on, and pingpong, whose
  frames are two walls and a character, and which never ends.
\<close>

lemma decimal_digit: "c \<in> set (itoa_text 10 v) \<Longrightarrow> 48 \<le> c \<and> c \<le> 57"
proof -
  have "\<forall>d \<in> set [0..<10]. 48 \<le> lookup ! d \<and> lookup ! d \<le> 57"
    by (simp add: lookup_def chars_def upt_conv_Cons)
  then have "48 \<le> digit_char d \<and> digit_char d \<le> 57" if "d \<in> set (digits 10 v)" for d
    using digits_bound[of 10 d v] that by (simp add: digit_char_def)
  then show "c \<in> set (itoa_text 10 v) \<Longrightarrow> 48 \<le> c \<and> c \<le> 57" by (auto simp: itoa_text_def split: if_splits)
qed

section \<open>counter and pingpong\<close>

definition count_text :: "nat \<Rightarrow> nat \<Rightarrow> u8 list" where
  "count_text i n = concat (map (\<lambda>k. itoa_text 10 k @ [10]) [Suc i..<Suc (i + n)])"

context stdout
begin

lemma counter_prints:
  assumes "ok s" "i + n \<le> 1000000" "length buf = 1024" "1024 \<le> room"
    and fine: "\<And>c. (48 \<le> c \<and> c \<le> 57) \<or> c = 10 \<Longrightarrow> fine c"
  shows "\<exists>s'. counter_loop sys buf (of_nat i) n s = Done s' \<and> ok s' \<and> view s' = fold emit (count_text i n) (view s)"
  using assms(1-3)
proof (induction n arbitrary: i buf s)
  case 0
  then show ?case by (simp add: count_text_def)
next
  case (Suc n)
  let ?t = "itoa_text 10 (Suc i)"
  have v: "unat (of_nat i + 1 :: u32) = Suc i"
  proof -
    have "(of_nat i + 1 :: u32) = of_nat (Suc i)" by simp
    then show ?thesis using Suc.prems(2) by (simp only: unat_of_nat) simp
  qed
  have "length ?t \<le> 7" by (rule itoa_text_length) (use Suc.prems(2) in simp_all)
  then have it: "ece391_itoa (of_nat i + 1) buf 10 = Some (?t @ 0 # drop (Suc (length ?t)) buf)"
    using itoa_correct[of 10 "of_nat i + 1" buf] v Suc.prems(3) by (simp add: ece391_itoa_def)
  let ?b = "?t @ 0 # drop (Suc (length ?t)) buf"
  have lb: "length ?b = 1024" using Suc.prems(3) \<open>length ?t \<le> 7\<close> by simp
  have nz: "0 \<notin> set ?t" by (rule itoa_text_nonzero) simp_all
  have dig: "48 \<le> c \<and> c \<le> 57" if "c \<in> set ?t" for c
    by (rule decimal_digit[OF that])
  have "0 \<in> set m \<and> length m \<le> room \<and> list_all fine (cstr m)" if "m \<in> set [?b, [10, 0]]" for m
    using that nz lb assms(4) fine dig by (auto simp: cstr_append_nul list_all_iff)
  from fdputs_all[OF Suc.prems(1), of "[?b, [10, 0]]", OF this] obtain s1 where
    s1: "fdputs_all sys [?b, [10, 0]] s = Done s1" "ok s1" "view s1 = fold emit (concat (map cstr [?b, [10, 0]])) (view s)"
    by blast
  have ct: "concat (map cstr [?b, [10, 0]]) = ?t @ [10]" using nz by (simp add: cstr_append_nul)
  have n1: "(of_nat i + 1 :: u32) = of_nat (Suc i)" by simp
  obtain s2 where s2: "counter_loop sys ?b (of_nat (Suc i)) n s1 = Done s2" "ok s2"
    "view s2 = fold emit (count_text (Suc i) n) (view s1)"
    using Suc.IH[OF s1(2) _ lb, of "Suc i"] Suc.prems(2) by auto
  have "count_text i (Suc n) = (?t @ [10]) @ count_text (Suc i) n"
  proof -
    have "[Suc i..<Suc (i + Suc n)] = Suc i # [Suc (Suc i)..<Suc (Suc i + n)]"
      by (simp add: upt_conv_Cons del: upt_Suc)
    then show ?thesis by (simp add: count_text_def del: upt_Suc)
  qed
  moreover have "counter_loop sys buf (of_nat i) (Suc n) s = Done s2"
    by (simp only: counter_loop.simps n1 it[unfolded n1] of_opt.simps andthen.simps s1(1) s2(1))
  ultimately show ?case using s1(3) s2(2,3) unfolding ct by simp
qed

end

text \<open>A frame of pingpong: the walls, the character, the newline.\<close>

definition frame_text :: "u8 \<Rightarrow> nat \<Rightarrow> u8 list" where
  "frame_text c j = [32, 124] @ (replicate 76 32)[j - 2 := c] @ [124, 10]"

lemma clear_inner_at: "i < length buf \<Longrightarrow> clear_inner buf ! i = (if 2 \<le> i \<and> i < 78 then 32 else buf ! i)"
  and clear_inner_length: "length (clear_inner buf) = length buf"
proof -
  have f: "length (fold (\<lambda>i buf. buf[i := 32]) is b) = length b \<and>
      (\<forall>i < length b. fold (\<lambda>i buf. buf[i := (32 :: u8)]) is b ! i = (if i \<in> set is then 32 else b ! i))" for "is" b
    by (induction "is" arbitrary: b) (auto simp: nth_list_update)
  show "length (clear_inner buf) = length buf" using f unfolding clear_inner_def by blast
  show "i < length buf \<Longrightarrow> clear_inner buf ! i = (if 2 \<le> i \<and> i < 78 then 32 else buf ! i)"
    using f[of "[2..<78]" buf] by (simp add: clear_inner_def del: upt_rec_numeral)
qed

definition walls :: "u8 list \<Rightarrow> bool" where
  "walls buf \<longleftrightarrow> length buf = 81 \<and> buf ! 0 = 32 \<and> buf ! 1 = 124 \<and> buf ! 78 = 124 \<and> buf ! 79 = 10 \<and> buf ! 80 = 0"

lemma walls_start: "walls pingpong_buffer"
  by (simp add: walls_def pingpong_buffer_def nth_list_update)

lemma frame_is:
  assumes "walls buf" "2 \<le> j" "j < 78"
  shows "(clear_inner buf)[j := c] = frame_text c j @ [0]"
proof (rule nth_equalityI)
  show "length ((clear_inner buf)[j := c]) = length (frame_text c j @ [0])"
    using assms(1) by (simp add: clear_inner_length walls_def frame_text_def)
  fix i assume "i < length ((clear_inner buf)[j := c])"
  then have i: "i < 81" using assms(1) by (simp add: clear_inner_length walls_def)
  consider "i = 0" | "i = 1" | "2 \<le> i" "i < 78" | "i = 78" | "i = 79" | "i = 80" using i by linarith
  then show "(clear_inner buf)[j := c] ! i = (frame_text c j @ [0]) ! i"
  proof cases
    case 3
    obtain k where k: "i = Suc (Suc k)" "k < 76" using 3 by (intro that[of "i - 2"]) simp_all
    then have "(frame_text c j @ [0]) ! i = (replicate 76 32)[j - 2 := c] ! (i - 2)"
      by (simp add: frame_text_def nth_append)
    then show ?thesis
      using 3 assms clear_inner_at[of i buf] by (auto simp: nth_list_update clear_inner_length walls_def)
  qed (use assms clear_inner_at[of i buf] in \<open>auto simp: nth_list_update clear_inner_length walls_def frame_text_def nth_append nth_Cons'\<close>)
qed

lemma frame_walls: "2 \<le> j \<Longrightarrow> j < 78 \<Longrightarrow> walls (frame_text c j @ [0])"
  by (simp add: walls_def frame_text_def nth_append nth_Cons')

text \<open>pingpong returns under no kernel: it blocks, faults, or goes on for ever.\<close>

lemma pingpong_loop_endless: "pingpong_loop sys fd c st = Some out \<Longrightarrow> \<forall>x. out \<noteq> Done x"
proof (rule pingpong_loop.raw_induct[where P = "\<lambda>sys fd c st out. \<forall>x. out \<noteq> Done x"])
  fix f :: "'a sys \<Rightarrow> int \<Rightarrow> u8 \<Rightarrow> u8 list \<times> u8 list \<times> 'a \<Rightarrow> (int \<times> 'a) outcome option" and sys fd c st out
  assume "\<And>sys fd c st out. f sys fd c st = Some out \<Longrightarrow> \<forall>x. out \<noteq> Done x"
    and "upon (each (pingpong_frame sys fd c) pingpong_positions st) (f sys fd (pingpong_next c)) = Some out"
  then show "\<forall>x. out \<noteq> Done x"
    by (cases "each (pingpong_frame sys fd c) pingpong_positions st") auto
qed

lemma pingpong_endless: "pingpong_main sys garbage s \<noteq> Some (Done (r, s'))"
proof
  assume "pingpong_main sys garbage s = Some (Done (r, s'))"
  then show False
    unfolding pingpong_main_def
    by (auto simp: upon_Done_iff dest: pingpong_loop_endless)
qed

end
