(* ===== verification/User_Kernel.thy ===== *)
theory User_Kernel
  imports User_Output Sample_Kernel
begin

text \<open>
  The kernel as the system calls of the user programs (src/syscalls/ece391syscall.S: the number in
  EAX, the arguments in EBX, ECX and EDX, then \<open>int $0x80\<close>).  An array argument lies at a fixed
  address of the program page; its contents are stored there before the call and loaded back after
  it.  What comes during the waits of successive calls is a list of event lists, and a program that
  \<open>execute\<close> enters is a parameter: its status and the state in which it halts.
\<close>

section \<open>The calls\<close>

type_synonym events = "(kernel \<Rightarrow> kernel) list"
type_synonym user_state = "kernel \<times> events list"

record user_side =
  buffer_at :: nat
  user_esp :: u32
  user_ebp :: u32
  other_regs :: "u32 \<times> u32 \<times> u32"
  child :: "u32 \<Rightarrow> u32 \<Rightarrow> kernel \<Rightarrow> (u8 \<times> kernel) outcome"

definition trap :: "user_side \<Rightarrow> events \<Rightarrow> u32 \<Rightarrow> u32 \<Rightarrow> u32 \<Rightarrow> u32 \<Rightarrow> kernel \<Rightarrow> (int \<times> kernel) outcome" where
  "trap u evs eax ebx ecx edx s =
     andthen (syscall_entry evs eax ebx ecx edx (user_esp u) (user_ebp u) s)
       (\<lambda>(c, s). case c of Return r \<Rightarrow> Done (r, s) | _ \<Rightarrow> Blocked)"

abbreviation (input) "at u \<equiv> (of_nat (buffer_at u) :: u32)"

definition next_events :: "events list \<Rightarrow> events" where
  "next_events w = (if w = [] then [] else hd w)"

text \<open>A call that returns no value to this program, since it went on in another, is \<open>Blocked\<close>.\<close>

definition run_child :: "user_side \<Rightarrow> u32 \<Rightarrow> u32 \<Rightarrow> kernel \<Rightarrow> (int \<times> kernel) outcome" where
  "run_child u start stack s =
     andthen (child u start stack s) (\<lambda>(status, s).
     andthen (syscall_entry [] 1 (ucast status) 0 0 0 0 s) (\<lambda>(c, s).
       case c of Resume r esp ebp \<Rightarrow> Done (sint r, s) | _ \<Rightarrow> Blocked))"

definition kernel_execute :: "user_side \<Rightarrow> u8 list \<Rightarrow> kernel \<Rightarrow> (int \<times> kernel) outcome" where
  "kernel_execute u command s =
     andthen (copy_out (buffer_at u) command s) (\<lambda>s.
     andthen (syscall_entry [] 2 (at u) 0 0 (user_esp u) (user_ebp u) s) (\<lambda>(c, s).
       case c of Return r \<Rightarrow> Done (r, s) | Enter_user start stack \<Rightarrow> run_child u start stack s | _ \<Rightarrow> Blocked))"

definition kernel_read :: "user_side \<Rightarrow> events \<Rightarrow> int \<Rightarrow> u8 list \<Rightarrow> int \<Rightarrow> kernel \<Rightarrow> (int \<times> u8 list \<times> kernel) outcome" where
  "kernel_read u evs fd buf n s =
     andthen (copy_out (buffer_at u) buf s) (\<lambda>s.
     andthen (trap u evs 3 (word_of_int fd) (at u) (word_of_int n) s) (\<lambda>(r, s).
     andthen (copy_in (buffer_at u) (length buf) s) (\<lambda>buf. Done (r, buf, s))))"

definition kernel_write :: "user_side \<Rightarrow> int \<Rightarrow> u8 list \<Rightarrow> int \<Rightarrow> kernel \<Rightarrow> (int \<times> kernel) outcome" where
  "kernel_write u fd buf n s =
     andthen (copy_out (buffer_at u) buf s) (trap u [] 4 (word_of_int fd) (at u) (word_of_int n))"

definition kernel_getargs :: "user_side \<Rightarrow> u8 list \<Rightarrow> int \<Rightarrow> kernel \<Rightarrow> (int \<times> u8 list \<times> kernel) outcome" where
  "kernel_getargs u buf n s =
     andthen (copy_out (buffer_at u) buf s) (\<lambda>s.
     andthen (trap u [] 7 (at u) (word_of_int n) 0 s) (\<lambda>(r, s).
     andthen (copy_in (buffer_at u) (length buf) s) (\<lambda>buf. Done (r, buf, s))))"

definition kernel_open :: "user_side \<Rightarrow> u8 list \<Rightarrow> kernel \<Rightarrow> (int \<times> kernel) outcome" where
  "kernel_open u name s = andthen (copy_out (buffer_at u) name s) (trap u [] 5 (at u) 0 0)"

definition with_events :: "events list \<Rightarrow> (int \<times> kernel) outcome \<Rightarrow> (int \<times> user_state) outcome" where
  "with_events w m = andthen m (\<lambda>(r, s). Done (r, (s, w)))"

definition kernel_sys :: "user_side \<Rightarrow> user_state sys" where
  "kernel_sys u =
     \<lparr>sread = \<lambda>fd buf n (s, w). andthen (kernel_read u (next_events w) fd buf n s)
                (\<lambda>(r, buf, s). Done (r, buf, (s, tl w))),
      swrite = \<lambda>fd buf n (s, w). with_events w (kernel_write u fd buf n s),
      sopen = \<lambda>name (s, w). with_events w (kernel_open u name s),
      sclose = \<lambda>fd (s, w). with_events w (trap u [] 6 (word_of_int fd) 0 0 s),
      sgetargs = \<lambda>buf n (s, w). andthen (kernel_getargs u buf n s) (\<lambda>(r, buf, s). Done (r, buf, (s, w))),
      sexecute = \<lambda>command (s, w). with_events w (kernel_execute u command s),
      svidmap = \<lambda>p (s, w). with_events w (trap u [] 8 (of_nat p) 0 0 s),
      sset_handler = \<lambda>signum (s, w). with_events w (trap u [] 9 (word_of_int signum) 0 0 s),
      snumber = \<lambda>eax (s, w). with_events w (case other_regs u of (b, c, d) \<Rightarrow> trap u [] eax b c d s)\<rparr>"

lemma kernel_sys_simps [simp]:
  "sread (kernel_sys u) fd buf n x = andthen (kernel_read u (next_events (snd x)) fd buf n (fst x))
     (\<lambda>(r, buf, s). Done (r, buf, (s, tl (snd x))))"
  "swrite (kernel_sys u) fd buf n x = with_events (snd x) (kernel_write u fd buf n (fst x))"
  "sopen (kernel_sys u) name x = with_events (snd x) (kernel_open u name (fst x))"
  "sclose (kernel_sys u) fd x = with_events (snd x) (trap u [] 6 (word_of_int fd) 0 0 (fst x))"
  "sgetargs (kernel_sys u) buf n x = andthen (kernel_getargs u buf n (fst x)) (\<lambda>(r, buf, s). Done (r, buf, (s, snd x)))"
  "sexecute (kernel_sys u) buf x = with_events (snd x) (kernel_execute u buf (fst x))"
  "svidmap (kernel_sys u) p x = with_events (snd x) (trap u [] 8 (of_nat p) 0 0 (fst x))"
  "sset_handler (kernel_sys u) signum x = with_events (snd x) (trap u [] 9 (word_of_int signum) 0 0 (fst x))"
  "snumber (kernel_sys u) eax x = with_events (snd x) (case other_regs u of (b, c, d) \<Rightarrow> trap u [] eax b c d (fst x))"
  by (simp_all add: kernel_sys_def split: prod.splits)

lemma with_events_Done [simp]: "with_events w (Done (r, s)) = Done (r, (s, w))"
  by (simp add: with_events_def)

lemma sint_of_int: "- 2147483648 \<le> n \<Longrightarrow> n < 2147483648 \<Longrightarrow> sint (word_of_int n :: u32) = n"
  by (simp add: signed_of_int signed_take_bit_int_eq_self)

lemma sint_of_nat: "n < 2147483648 \<Longrightarrow> sint (of_nat n :: u32) = int n"
  using sint_of_int[of "int n"] by simp

text \<open>A call with a number of the table.\<close>

lemma trap_call:
  assumes "1 \<le> n" "n \<le> 10"
  shows "trap u evs (word_of_int n) b c d s =
    andthen (do_syscall_in_C evs n b c d (user_esp u) (user_ebp u) (s\<lparr>if_flag := True\<rparr>)) (\<lambda>(c, s).
      case c of Return r \<Rightarrow> Done (r, s\<lparr>if_flag := True\<rparr>) | _ \<Rightarrow> Blocked)"
proof -
  have i: "sint (word_of_int n :: u32) = n" by (rule sint_of_int) (use assms in simp_all)
  show ?thesis
    using assms
    by (cases "do_syscall_in_C evs n b c d (user_esp u) (user_ebp u) (s\<lparr>if_flag := True\<rparr>)")
      (auto simp: trap_def syscall_entry_def cli_def sti_def i split: control.splits)
qed

lemma returns_then:
  "andthen (returns m) (\<lambda>(c, s). case c of Return r \<Rightarrow> Done (r, s\<lparr>if_flag := True\<rparr>) | _ \<Rightarrow> Blocked) =
   andthen m (\<lambda>(r, s). Done (r, s\<lparr>if_flag := True\<rparr>))"
  by (cases m) (auto simp: returns_def)

lemmas trap_calls = trap_call[of 3, simplified] trap_call[of 4, simplified] trap_call[of 5, simplified]
  trap_call[of 6, simplified] trap_call[of 7, simplified] trap_call[of 8, simplified] trap_call[of 9, simplified]

lemma trap_bad_number: "sint eax < 1 \<or> 11 \<le> sint eax \<Longrightarrow> trap u evs eax b c d s = Done (-1, s\<lparr>if_flag := True\<rparr>)"
  by (simp add: trap_def syscall_bad_number)

section \<open>A process with a terminal\<close>

text \<open>What the calls on descriptors look at, apart from memory and console.\<close>

definition side :: "kernel \<Rightarrow> (nat \<times> nat \<times> int) \<times> (u32 \<Rightarrow> pcb_t) \<times> (nat \<Rightarrow> u32) \<times> (nat \<Rightarrow> int) \<times> (mem \<times> u32 \<times> u32) \<times>
    int \<times> mem" where
  "side s = ((active_terminal s, displayed_terminal s, done_init_terminal s), pcbs s, page_directory s,
     (\<lambda>t. pid (terminal s t)), (fs s, inodesCount s, data_count_blk s), curr_pid s, stack_junk s)"

lemma side_upd [simp]:
  "side (s\<lparr>if_flag := b\<rparr>) = side s" "side (s\<lparr>phys := m\<rparr>) = side s"
  "side (upd_term t (\<lambda>x. x\<lparr>line_length := n\<rparr>) s) = side s"
  by (auto simp: side_def upd_term_def)

lemma side_putc [simp]: "side (terminal_putc c tid s) = side s"
  by (rule putc_keeps) (auto simp: side_def no_console_def)

lemma counter_putc [simp]: "internalCounter (fold (\<lambda>c. terminal_putc c tid) cs s) = internalCounter s"
proof (induction cs arbitrary: s)
  case (Cons c cs)
  have "internalCounter (terminal_putc c tid s) = internalCounter s" by (rule putc_keeps) (simp add: no_console_def)
  then show ?case using Cons by simp
qed simp

lemma side_fold_putc [simp]: "side (fold (\<lambda>c. terminal_putc c tid) cs s) = side s"
  by (induction cs arbitrary: s) simp_all

lemma side_copy_out: "copy_out va bs s = Done s' \<Longrightarrow> side s' = side s"
  by (auto simp: copy_out_def split: if_splits)

definition serves :: "user_side \<Rightarrow> nat \<Rightarrow> kernel \<Rightarrow> bool" where
  "serves u t s \<longleftrightarrow> active_terminal s = t \<and> t < 3 \<and> console_ok t s \<and>
     (\<exists>p<6. page_directory s 32 = user_pde p) \<and> 0x8000000 \<le> buffer_at u \<and> buffer_at u + 2048 \<le> 0x8400000 \<and>
     terminal_on (pcbs s (cur_pcb_addr s)) = int t \<and> curr_pid s = pid (active_term s) \<and>
     flags (cur_fd 1 s) = ENGAGED \<and> table_ptr (cur_fd 1 s) = stdout_operations"

lemma cur_side: "side s' = side s \<Longrightarrow> cur_pcb_addr s' = cur_pcb_addr s"
  "side s' = side s \<Longrightarrow> cur_fd fd s' = cur_fd fd s"
  by (simp_all add: side_def cur_pcb_addr_def cur_fd_def fun_eq_iff)

lemma serves_side:
  assumes "serves u t s" "side s' = side s" "console_ok t s'"
  shows "serves u t s'"
proof -
  have "pid (terminal s' x) = pid (terminal s x)" for x using assms(2) by (simp add: side_def fun_eq_iff)
  then show ?thesis
    using assms cur_side[OF assms(2)] unfolding serves_def by (simp add: side_def)
qed

lemma serves_user:
  assumes "serves u t s" "n \<le> 2048"
  shows "in_user s (buffer_at u) n"
  using assms user_pde_fields(1) by (auto simp: serves_def in_user_def)

lemma in_user_side: "side s' = side s \<Longrightarrow> in_user s' = in_user s \<and> user_phys s' = user_phys s"
  by (simp add: side_def in_user_def user_phys_def fun_eq_iff)

lemma unat_at: "serves u t s \<Longrightarrow> unat (at u) = buffer_at u \<and> buffer_at u \<noteq> 0"
  by (simp add: serves_def unat_of_nat)

text \<open>Putting an array in place changes no screen.\<close>

lemma screen_copy_out:
  assumes "serves u t s" "copy_out va bs s = Done s'" "v < 3"
  shows "screen_of v s' = screen_of v s"
proof -
  obtain p where p: "p < 6" "page_directory s 32 = user_pde p" using assms(1) by (auto simp: serves_def)
  obtain m where s': "s' = s\<lparr>phys := m\<rparr>" using copy_out_frame[OF assms(2)] by blast
  have b: "vid_base v s + 4000 \<le> 0x800000" using assms(3) by (simp add: vid_base_def)
  have "page_chars (vid_base v s) (phys s') = page_chars (vid_base v s) (phys s)"
    by (rule page_chars_cong, rule copy_out_other[OF assms(2) p(2,1)]) (use b in simp)
  then show ?thesis by (simp add: screen_of_def s' vid_base_def)
qed

lemma place_array:
  assumes "serves u t s" "length bs \<le> 2048"
  shows "\<exists>s'. copy_out (buffer_at u) bs s = Done s' \<and> serves u t s' \<and> side s' = side s \<and>
    screen_of t s' = screen_of t s \<and> copy_in (buffer_at u) (length bs) s' = Done bs \<and>
    internalCounter s' = internalCounter s"
proof -
  obtain s' where c: "copy_out (buffer_at u) bs s = Done s'"
    using serves_user[OF assms] by (cases "bs = []") (simp_all add: copy_out_def)
  obtain m where s': "s' = s\<lparr>phys := m\<rparr>" using copy_out_frame[OF c] by blast
  have con: "console_ok v s' = console_ok v s" for v by (simp add: s' console_ok_def)
  have t: "t < 3" using assms(1) by (simp add: serves_def)
  show ?thesis
    using c side_copy_out[OF c] serves_side[OF assms(1) side_copy_out[OF c]] con screen_copy_out[OF assms(1) c t]
      copy_in_out[OF c] assms(1) by (auto simp: serves_def s')
qed

section \<open>Writing\<close>

lemma console_ok_upd [simp]:
  "console_ok t (s\<lparr>if_flag := b\<rparr>) = console_ok t s" "screen_of t (s\<lparr>if_flag := b\<rparr>) = screen_of t s"
  "console_ok t (upd_term v (\<lambda>x. x\<lparr>line_length := n\<rparr>) s) = console_ok t s"
  "screen_of t (upd_term v (\<lambda>x. x\<lparr>line_length := n\<rparr>) s) = screen_of t s"
  "internalCounter (upd_term v f s) = internalCounter s"
  by (auto simp: console_ok_def screen_of_def vid_base_def upd_term_def)

lemma kernel_write_prints:
  assumes s: "serves u t s" and n: "n \<le> length buf" "length buf \<le> 2048" and c: "BACKSPACE \<notin> set (take n buf)"
  shows "\<exists>r s'. kernel_write u 1 buf (int n) s = Done (r, s') \<and> (0 < n \<longrightarrow> r = 0) \<and> serves u t s' \<and>
    side s' = side s \<and> screen_of t s' = fold scr_putc (take n buf) (screen_of t s) \<and>
    internalCounter s' = internalCounter s \<and>
    (0 < n \<longrightarrow> (\<exists>m. s' = (upd_term t (\<lambda>t. t\<lparr>line_length := 0\<rparr>)
      (fold (\<lambda>c. terminal_putc c t) (take n buf) (s\<lparr>phys := m, if_flag := True\<rparr>)))\<lparr>if_flag := True\<rparr>))"
proof -
  obtain x where x: "copy_out (buffer_at u) buf s = Done x" "serves u t x" "side x = side s"
    "screen_of t x = screen_of t s" "copy_in (buffer_at u) (length buf) x = Done buf"
    "internalCounter x = internalCounter s"
    using place_array[OF s n(2)] by blast
  define y where "y = x\<lparr>if_flag := True\<rparr>"
  have y: "serves u t y" "side y = side s" "screen_of t y = screen_of t s" "internalCounter y = internalCounter s"
    using serves_side[OF x(2), of y] x(2,3,4,6) by (simp_all add: y_def serves_def)
  have sn: "sint (of_nat n :: u32) = int n" by (rule sint_of_nat) (use n in simp)
  have cp: "copy_in (buffer_at u) n y = Done (take n buf)"
    using copy_in_prefix[OF x(5) n(1)] copy_in_cong[of y x] by (simp add: y_def)
  note k = kernel_write_def x(1) trap_calls(2) y_def[symmetric] do_syscall_in_C_def returns_then sn
  show ?thesis
  proof (cases "n = 0")
    case True
    then have "kernel_write u 1 buf (int n) s = Done (-1, y)"
      using y(1) by (simp add: k write_call_def returns_def) (simp add: y_def)
    then show ?thesis using y True by auto
  next
    case False
    define z where "z = fold (\<lambda>c. terminal_putc c t) (take n buf) y"
    have yc: "console_ok t y" "active_terminal y = t" "t < 3" using y(1) by (auto simp: serves_def)
    have z: "console_ok t z" "screen_of t z = fold scr_putc (take n buf) (screen_of t s)"
      using print_refines[OF yc(1) c] y(3) by (simp_all add: z_def)
    have sz: "side z = side s" "internalCounter z = internalCounter s" using y(2,4) by (simp_all add: z_def)
    then have az: "active_terminal z = t" using yc(2) y(2) sz(1) by (simp add: side_def)
    have tid: "(if done_init_terminal y = 0 then int (active_terminal y)
        else terminal_on (pcbs y (get_pcb_blk (pid (active_term y))))) = int t"
      using y(1) by (auto simp: serves_def cur_pcb_addr_def)
    have w: "terminal_write 1 (buffer_at u) (int n) y = Done (0, upd_term t (\<lambda>t. t\<lparr>line_length := 0\<rparr>) z)"
      using False cp yc(3) unat_at[OF y(1)] unfolding terminal_write_def tid by (simp add: Let_def z_def[symmetric] az)
    have "kernel_write u 1 buf (int n) s =
        Done (0, (upd_term t (\<lambda>t. t\<lparr>line_length := 0\<rparr>) z)\<lparr>if_flag := True\<rparr>)"
      using y(1) False unat_at[OF y(1)] w by (simp add: k write_call_def serves_def)
    moreover have "serves u t ((upd_term t (\<lambda>t. t\<lparr>line_length := 0\<rparr>) z)\<lparr>if_flag := True\<rparr>)"
      by (rule serves_side[OF s]) (use z sz in simp_all)
    moreover obtain m where "x = s\<lparr>phys := m\<rparr>" using copy_out_frame[OF x(1)] by blast
    then have "z = fold (\<lambda>c. terminal_putc c t) (take n buf) (s\<lparr>phys := m, if_flag := True\<rparr>)" by (simp add: z_def y_def)
    ultimately show ?thesis using z sz by auto
  qed
qed

lemma kernel_stdout:
  assumes "serves u t (fst x)" "n \<le> length buf" "length buf \<le> 2048" "list_all (\<lambda>c. c \<noteq> BACKSPACE) (take n buf)"
  shows "\<exists>r y. swrite (kernel_sys u) 1 buf (int n) x = Done (r, y) \<and> (0 < n \<longrightarrow> r \<noteq> -1) \<and> serves u t (fst y) \<and>
    screen_of t (fst y) = fold scr_putc (take n buf) (screen_of t (fst x)) \<and> side (fst y) = side (fst x) \<and>
    internalCounter (fst y) = internalCounter (fst x)"
proof -
  have "BACKSPACE \<notin> set (take n buf)" using assms(4) by (auto simp: list_all_iff)
  from kernel_write_prints[OF assms(1-3) this] show ?thesis by auto
qed

interpretation screen: stdout "kernel_sys u" "\<lambda>x. serves u t (fst x)" "\<lambda>x. screen_of t (fst x)" scr_putc
    "\<lambda>c. c \<noteq> BACKSPACE" 2048 for u t
proof unfold_locales
  fix x :: user_state and n and buf :: "u8 list"
  assume a: "serves u t (fst x)" "n \<le> length buf" "length buf \<le> 2048" "list_all (\<lambda>c. c \<noteq> BACKSPACE) (take n buf)"
  show "\<exists>r s'. swrite (kernel_sys u) 1 buf (int n) x = Done (r, s') \<and> (0 < n \<longrightarrow> r \<noteq> -1) \<and> serves u t (fst s') \<and>
      screen_of t (fst s') = fold scr_putc (take n buf) (screen_of t (fst x))"
    using kernel_stdout[OF a] by blast
qed

section \<open>Reading\<close>

lemma overwrite_array:
  assumes "copy_in va (length buf) s = Done buf" "copy_out va bs s = Done s'" "length bs \<le> length buf" "bs \<noteq> []"
  shows "copy_in va (length buf) s' = Done (bs @ drop (length bs) buf)"
proof -
  have b: "buf \<noteq> []" using assms(3,4) by auto
  then have l: "in_user s va (length buf)" "load (phys s) (user_phys s va) (length buf) = buf"
    using assms(1) by (auto simp: copy_in_def split: if_splits)
  have s': "s' = s\<lparr>phys := store (phys s) (user_phys s va) bs\<rparr>"
    using assms(2,4) by (simp add: copy_out_def split: if_splits)
  have "load (store (phys s) (user_phys s va) bs) (user_phys s va) (length buf) = bs @ drop (length bs) buf"
  proof (rule nth_equalityI)
    fix i assume i: "i < length (load (store (phys s) (user_phys s va) bs) (user_phys s va) (length buf))"
    have "phys s (user_phys s va + i) = buf ! i" using arg_cong[OF l(2), of "\<lambda>l. l ! i"] i by simp
    then show "load (store (phys s) (user_phys s va) bs) (user_phys s va) (length buf) ! i =
        (bs @ drop (length bs) buf) ! i"
      using i assms(3) by (auto simp: store_apply nth_append)
  qed (use assms(3) in simp)
  moreover have "user_phys s' va = user_phys s va" "in_user s' va (length buf)"
    using l(1) by (simp_all add: s' user_phys_def in_user_def)
  ultimately show ?thesis using b by (simp add: copy_in_def) (simp add: s')
qed

definition advance_fd :: "int \<Rightarrow> int \<Rightarrow> u32 \<Rightarrow> kernel \<Rightarrow> kernel" where
  "advance_fd fd r a s = upd_pcb a (upd_fd (nat fd) (\<lambda>d. d\<lparr>file_position := file_position d + word_of_int r\<rparr>)) s"

lemma kernel_read_call:
  assumes s: "serves u t s" and fd: "0 \<le> fd" "fd < 8" "flags (cur_fd fd s) = ENGAGED"
    and n: "0 < n" "n \<le> 2048" and x: "copy_out (buffer_at u) buf s = Done x"
    and entry: "read_call_entry (table_ptr (cur_fd fd s)) evs fd (buffer_at u) (int n) (x\<lparr>if_flag := True\<rparr>) = Done (r, z)"
    and out: "copy_in (buffer_at u) (length buf) z = Done buf'"
  shows "kernel_read u evs fd buf (int n) s = Done (r, buf', (advance_fd fd r (cur_pcb_addr s) z)\<lparr>if_flag := True\<rparr>)"
proof -
  have sx: "side (x\<lparr>if_flag := True\<rparr>) = side s" using side_copy_out[OF x] by simp
  have c: "cur_fd fd (x\<lparr>if_flag := True\<rparr>) = cur_fd fd s" "cur_pcb_addr (x\<lparr>if_flag := True\<rparr>) = cur_pcb_addr s"
    using cur_side[OF sx] by simp_all
  have w: "sint (word_of_int fd :: u32) = fd" "sint (of_nat n :: u32) = int n"
    using fd n by (auto intro!: sint_of_int sint_of_nat)
  have "copy_in (buffer_at u) (length buf) ((advance_fd fd r (cur_pcb_addr s) z)\<lparr>if_flag := True\<rparr>) = Done buf'"
    using out by (subst copy_in_cong[of _ z]) (simp_all add: advance_fd_def upd_pcb_def)
  then show ?thesis
    using fd n c w unat_at[OF s] entry
    by (simp add: kernel_read_def x trap_calls(1) do_syscall_in_C_def returns_then read_call_def Let_def
        advance_fd_def[symmetric])
qed

text \<open>What advancing a descriptor of a program leaves alone.\<close>

lemma advance_fd_simps [simp]:
  "screen_of t (advance_fd fd r a s) = screen_of t s" "console_ok t (advance_fd fd r a s) = console_ok t s"
  "fs (advance_fd fd r a s) = fs s" "inodesCount (advance_fd fd r a s) = inodesCount s"
  "data_count_blk (advance_fd fd r a s) = data_count_blk s" "stack_junk (advance_fd fd r a s) = stack_junk s"
  "internalCounter (advance_fd fd r a s) = internalCounter s"
  by (simp_all add: advance_fd_def upd_pcb_def screen_of_def vid_base_def console_ok_def)

lemma advance_fd_cur:
  assumes "a = cur_pcb_addr s"
  shows "cur_fd (int j) (advance_fd (int i) r a s) =
    (if j = i then (cur_fd (int i) s)\<lparr>file_position := file_position (cur_fd (int i) s) + word_of_int r\<rparr>
     else cur_fd (int j) s)"
  unfolding advance_fd_def assms nat_int cur_fd_upd by simp

lemma serves_advance:
  assumes "serves u t s" "a = cur_pcb_addr s"
  shows "serves u t (advance_fd (int i) r a s)"
proof -
  let ?s = "advance_fd (int i) r a s"
  have c: "flags (cur_fd 1 ?s) = flags (cur_fd 1 s)" "table_ptr (cur_fd 1 ?s) = table_ptr (cur_fd 1 s)"
    using advance_fd_cur[OF assms(2), of 1 i r] by (auto split: if_splits)
  have p: "active_terminal ?s = active_terminal s" "page_directory ?s = page_directory s" "curr_pid ?s = curr_pid s"
    "terminal ?s = terminal s" "cur_pcb_addr ?s = cur_pcb_addr s"
    by (simp_all add: advance_fd_def upd_pcb_def cur_pcb_addr_def)
  have "terminal_on (pcbs ?s (cur_pcb_addr s)) = terminal_on (pcbs s (cur_pcb_addr s))"
    by (simp add: advance_fd_def upd_pcb_def upd_fd_def)
  then show ?thesis using assms(1) unfolding serves_def p c by simp
qed

section \<open>The chunks of a file\<close>

text \<open>
  Successive reads of \<open>n\<close> bytes of an ordinary file.  Each of them gives the smaller of \<open>n\<close> and
  the length of the file, whatever the position.
\<close>

function chunks_from :: "kernel \<Rightarrow> u32 \<Rightarrow> nat \<Rightarrow> nat \<Rightarrow> u8 list list" where
  "chunks_from s inode n pos =
     (if unat (inode_length (fs s) inode) \<le> pos \<or> n = 0 then []
      else map (file_byte s inode) [pos..<pos + min n (unat (inode_length (fs s) inode))]
           # chunks_from s inode n (pos + min n (unat (inode_length (fs s) inode))))"
  by pat_completeness auto
termination
  by (relation "measure (\<lambda>(s, inode, n, pos). unat (inode_length (fs s) inode) - pos)") auto

declare chunks_from.simps [simp del]

lemma chunks_from_cong:
  assumes "fs s' = fs s" "file_byte s' inode = file_byte s inode"
  shows "chunks_from s' inode n pos = chunks_from s inode n pos"
  using assms
  by (induction s inode n pos rule: chunks_from.induct) (simp add: chunks_from.simps[of s'] chunks_from.simps)

lemma chunks_from_size: "c \<in> set (chunks_from s inode n pos) \<Longrightarrow> c \<noteq> [] \<and> length c \<le> n"
  by (induction s inode n pos rule: chunks_from.induct, subst (asm) (2) chunks_from.simps) (auto split: if_splits)

lemma small_file_chunks:
  assumes "unat (inode_length (fs s) inode) \<le> n" "inode_length (fs s) inode \<noteq> 0"
  shows "chunks_from s inode n 0 = [file_content s inode]"
proof -
  have "unat (inode_length (fs s) inode) \<noteq> 0" using assms(2) by (simp add: unat_eq_zero)
  then show ?thesis using assms(1) by (subst chunks_from.simps, subst chunks_from.simps) (auto simp: file_content_def)
qed

definition reads_file :: "int \<Rightarrow> u32 \<Rightarrow> nat \<Rightarrow> kernel \<Rightarrow> bool" where
  "reads_file fd inode n s \<longleftrightarrow> 2 \<le> fd \<and> fd < 8 \<and> flags (cur_fd fd s) = ENGAGED \<and>
     table_ptr (cur_fd fd s) = files_operations \<and> inode_num (cur_fd fd s) = inode \<and>
     inode \<le> inodesCount s \<and> inode \<noteq> verylarge_inode s \<and> 0 < n \<and> n \<le> 2048 \<and>
     unat (inode_length (fs s) inode) < 2 ^ 30 \<and>
     readable s inode 0 (unat (inode_length (fs s) inode) + n)"

definition chunks_left :: "int \<Rightarrow> nat \<Rightarrow> kernel \<Rightarrow> u8 list list" where
  "chunks_left fd n s = chunks_from s (inode_num (cur_fd fd s)) n (unat (file_position (cur_fd fd s)))"

lemma file_facts_side:
  assumes "side s' = side s"
  shows "file_byte s' = file_byte s" "block_ok s' = block_ok s" "verylarge_inode s' = verylarge_inode s"
    "fs s' = fs s" "inodesCount s' = inodesCount s"
proof -
  have f: "fs s' = fs s" "inodesCount s' = inodesCount s" "data_count_blk s' = data_count_blk s"
    "stack_junk s' = stack_junk s"
    using assms by (simp_all add: side_def)
  show "file_byte s' = file_byte s" "block_ok s' = block_ok s" by (intro ext, simp add: f file_byte_def block_ok_def)+
  show "verylarge_inode s' = verylarge_inode s" by (rule verylarge_inode_cong[OF f(1,4)])
  show "fs s' = fs s" "inodesCount s' = inodesCount s" by (rule f)+
qed

lemma reads_file_side: "side s' = side s \<Longrightarrow> reads_file fd inode n s' = reads_file fd inode n s"
  using cur_side(2)[of s' s fd] file_facts_side[of s' s] by (simp add: reads_file_def readable_def)

lemma chunks_left_side: "side s' = side s \<Longrightarrow> chunks_left fd n s' = chunks_left fd n s"
  using cur_side(2)[of s' s fd] file_facts_side[of s' s] chunks_from_cong[of s' s]
  by (simp add: chunks_left_def)

lemma side_note [simp]: "side (note_verylarge i s) = side s"
  by (simp add: side_def note_verylarge_def)

lemma note_screen [simp]:
  "screen_of t (note_verylarge i s) = screen_of t s" "console_ok t (note_verylarge i s) = console_ok t s"
  "phys (note_verylarge i s) = phys s" "page_directory (note_verylarge i s) = page_directory s"
  by (auto simp: note_verylarge_def screen_of_def vid_base_def console_ok_def)

text \<open>The files and the other descriptors.\<close>

definition others_kept :: "nat \<Rightarrow> kernel \<Rightarrow> kernel \<Rightarrow> bool" where
  "others_kept i s s' \<longleftrightarrow> fs s' = fs s \<and> inodesCount s' = inodesCount s \<and> data_count_blk s' = data_count_blk s \<and>
     stack_junk s' = stack_junk s \<and> (\<forall>j. j \<noteq> i \<longrightarrow> cur_fd (int j) s' = cur_fd (int j) s)"

lemma others_keptD:
  assumes "others_kept i s s'"
  shows "file_byte s' = file_byte s" "block_ok s' = block_ok s" "verylarge_inode s' = verylarge_inode s"
    "j \<noteq> i \<Longrightarrow> reads_file (int j) inode n s' = reads_file (int j) inode n s"
    "j \<noteq> i \<Longrightarrow> chunks_left (int j) n s' = chunks_left (int j) n s"
proof -
  have f: "fs s' = fs s" "inodesCount s' = inodesCount s" "data_count_blk s' = data_count_blk s" "stack_junk s' = stack_junk s"
    using assms by (simp_all add: others_kept_def)
  show b: "file_byte s' = file_byte s" "block_ok s' = block_ok s" by (intro ext, simp add: f file_byte_def block_ok_def)+
  show v: "verylarge_inode s' = verylarge_inode s" by (rule verylarge_inode_cong[OF f(1,4)])
  show "j \<noteq> i \<Longrightarrow> reads_file (int j) inode n s' = reads_file (int j) inode n s"
    "j \<noteq> i \<Longrightarrow> chunks_left (int j) n s' = chunks_left (int j) n s"
    using assms b v chunks_from_cong[OF f(1)] by (simp_all add: reads_file_def readable_def chunks_left_def others_kept_def)
qed

text \<open>The state after a read, given the one the driver leaves.\<close>

lemma read_done:
  fixes r :: int and i :: nat
  assumes s: "serves u t s" and z: "side z = side s" "console_ok t z"
  defines "s' \<equiv> (advance_fd (int i) r (cur_pcb_addr s) z)\<lparr>if_flag := True\<rparr>"
  shows "serves u t s'" "screen_of t s' = screen_of t z" "internalCounter s' = internalCounter z"
    "fs s' = fs s" "file_byte s' = file_byte s" "reads_file (int i) inode n s \<Longrightarrow> reads_file (int i) inode n s'"
    "cur_fd (int i) s' = (cur_fd (int i) s)\<lparr>file_position := file_position (cur_fd (int i) s) + word_of_int r\<rparr>"
    "others_kept i s s'"
proof -
  let ?a = "advance_fd (int i) r (cur_pcb_addr s) z"
  have sv: "serves u t z" by (rule serves_side[OF s z])
  have cpa: "cur_pcb_addr s = cur_pcb_addr z" using cur_side(1)[OF z(1)] by simp
  have "serves u t ?a" by (rule serves_advance[OF sv cpa])
  then show "serves u t s'" unfolding s'_def by (rule serves_side) (simp_all add: z(2))
  show "screen_of t s' = screen_of t z" "internalCounter s' = internalCounter z" by (simp_all add: s'_def)
  note ff = file_facts_side[OF z(1)]
  show fs: "fs s' = fs s" using ff(4) by (simp add: s'_def)
  have n: "inodesCount s' = inodesCount s" "data_count_blk s' = data_count_blk s" "stack_junk s' = stack_junk s"
    using z(1) by (simp_all add: s'_def side_def)
  show "file_byte s' = file_byte s" by (intro ext) (simp add: file_byte_def fs n)
  have "side s' = side ?a" by (simp add: s'_def)
  then show c: "cur_fd (int i) s' = (cur_fd (int i) s)\<lparr>file_position := file_position (cur_fd (int i) s) + word_of_int r\<rparr>"
    using advance_fd_cur[OF cpa, of i i r] cur_side(2)[OF z(1), of "int i"] cur_side(2)[of s' ?a "int i"] by simp
  have "cur_fd (int j) s' = cur_fd (int j) s" if "j \<noteq> i" for j
    using advance_fd_cur[OF cpa, of j i r] cur_side(2)[OF z(1), of "int j"] cur_side(2)[of s' ?a "int j"] that
    by (simp add: s'_def)
  then show "others_kept i s s'" by (simp add: others_kept_def fs n)
  have "verylarge_inode s' = verylarge_inode s" by (rule verylarge_inode_cong[OF fs n(3)])
  moreover have "block_ok s' = block_ok s" by (intro ext) (simp add: block_ok_def fs n)
  ultimately show "reads_file (int i) inode n s \<Longrightarrow> reads_file (int i) inode n s'"
    using c fs n by (simp add: reads_file_def readable_def)
qed

text \<open>The state in which the kernel runs the driver, with the array in place.\<close>

lemma read_begin:
  assumes s: "serves u t s" and m: "length buf \<le> 2048"
  obtains x y where "copy_out (buffer_at u) buf s = Done x" "y = x\<lparr>if_flag := True\<rparr>" "side y = side s"
    "console_ok t y" "screen_of t y = screen_of t s" "internalCounter y = internalCounter s"
    "copy_in (buffer_at u) (length buf) y = Done buf" "serves u t y"
    "\<forall>i. file_desc_array (pcbs y (get_pcb_blk (curr_pid y))) i = cur_fd (int i) s"
proof -
  obtain x where x: "copy_out (buffer_at u) buf s = Done x" "serves u t x" "side x = side s"
    "screen_of t x = screen_of t s" "copy_in (buffer_at u) (length buf) x = Done buf"
    "internalCounter x = internalCounter s"
    using place_array[OF s m] by blast
  have y: "side (x\<lparr>if_flag := True\<rparr>) = side s" "console_ok t (x\<lparr>if_flag := True\<rparr>)"
    using x(2,3) by (simp_all add: serves_def)
  have sv: "serves u t (x\<lparr>if_flag := True\<rparr>)" by (rule serves_side[OF s y])
  have "file_desc_array (pcbs (x\<lparr>if_flag := True\<rparr>) (get_pcb_blk (curr_pid (x\<lparr>if_flag := True\<rparr>)))) i = cur_fd (int i) s" for i
    using sv cur_side(2)[OF y(1), of "int i"] by (simp add: serves_def cur_fd_def cur_pcb_addr_def)
  moreover have "copy_in (buffer_at u) (length buf) (x\<lparr>if_flag := True\<rparr>) = Done buf"
    using x(5) copy_in_cong[of "x\<lparr>if_flag := True\<rparr>" x] by simp
  ultimately show thesis using that[OF x(1) refl y(1) y(2) _ _ _ sv] x(4,6) by simp
qed

lemma file_read_end:
  assumes s: "serves u t s" "reads_file (int i) inode n s"
    and e: "unat (inode_length (fs s) inode) \<le> unat (file_position (cur_fd (int i) s))"
    and m: "0 < m" "m \<le> length buf" "length buf \<le> 2048"
  shows "\<exists>s'. kernel_read u evs (int i) buf (int m) s = Done (0, buf, s') \<and>
    serves u t s' \<and> reads_file (int i) inode n s' \<and> screen_of t s' = screen_of t s \<and> others_kept i s s' \<and>
    cur_fd (int i) s' = cur_fd (int i) s"
proof -
  obtain x y where x: "copy_out (buffer_at u) buf s = Done x" "y = x\<lparr>if_flag := True\<rparr>" and y: "side y = side s"
    "console_ok t y" "screen_of t y = screen_of t s" "internalCounter y = internalCounter s"
    "copy_in (buffer_at u) (length buf) y = Done buf" "serves u t y"
    and d: "\<forall>i. file_desc_array (pcbs y (get_pcb_blk (curr_pid y))) i = cur_fd (int i) s"
    by (rule read_begin[OF s(1) m(3)])
  have f: "2 \<le> i" "i < 8" "flags (cur_fd (int i) s) = ENGAGED" "table_ptr (cur_fd (int i) s) = files_operations"
    "inode_num (cur_fd (int i) s) = inode" "inode \<le> inodesCount s"
    using s(2) by (simp_all add: reads_file_def)
  have mw: "(of_nat m :: u32) \<noteq> 0" using m by (simp add: word_unat_eq_iff unat_of_nat)
  note ff = file_facts_side[OF y(1)]
  let ?z = "note_verylarge inode y"
  have rd: "read_data inode (file_position (cur_fd (int i) s)) False (of_nat m) y = Done (0, [], ?z)"
    using read_data_eq[of inode y "of_nat m" "file_position (cur_fd (int i) s)"] f(6) mw e ff by (simp add: word_le_nat_alt)
  have entry: "read_call_entry (table_ptr (cur_fd (int i) s)) evs (int i) (buffer_at u) (int m) y = Done (0, ?z)"
    using f m rd unat_at[OF s(1)] by (simp add: read_from_file_def Let_def d copy_out_def)
  have out: "copy_in (buffer_at u) (length buf) ?z = Done buf" using y(5) copy_in_cong[of ?z y] by simp
  have "kernel_read u evs (int i) buf (int m) s =
      Done (0, buf, (advance_fd (int i) 0 (cur_pcb_addr s) ?z)\<lparr>if_flag := True\<rparr>)"
    using kernel_read_call[OF s(1), of "int i" m buf x evs 0 ?z buf] f m x(1) entry out by (simp add: x(2))
  moreover have z: "side ?z = side s" "console_ok t ?z" "screen_of t ?z = screen_of t s" using y by simp_all
  moreover note rdone = read_done[OF s(1) z(1,2), where r = 0 and i = i]
  moreover have "screen_of t ((advance_fd (int i) 0 (cur_pcb_addr s) ?z)\<lparr>if_flag := True\<rparr>) = screen_of t s"
    using rdone(2) z(3) by simp
  moreover have "cur_fd (int i) ((advance_fd (int i) 0 (cur_pcb_addr s) ?z)\<lparr>if_flag := True\<rparr>) = cur_fd (int i) s"
    using rdone(7) by simp
  ultimately show ?thesis using s(2) by blast
qed

lemma file_read_chunk:
  assumes s: "serves u t s" "reads_file (int i) inode n s" and c: "chunks_left (int i) n s = c # cs"
    and m: "n \<le> length buf" "length buf \<le> 2048"
  shows "\<exists>rest s'. kernel_read u evs (int i) buf (int n) s = Done (int (length c), c @ rest, s') \<and>
    length (c @ rest) = length buf \<and> serves u t s' \<and> reads_file (int i) inode n s' \<and>
    screen_of t s' = screen_of t s \<and> chunks_left (int i) n s' = cs \<and> others_kept i s s'"
proof -
  obtain x y where x: "copy_out (buffer_at u) buf s = Done x" "y = x\<lparr>if_flag := True\<rparr>" and y: "side y = side s"
    "console_ok t y" "screen_of t y = screen_of t s" "internalCounter y = internalCounter s"
    "copy_in (buffer_at u) (length buf) y = Done buf" "serves u t y"
    and d: "\<forall>i. file_desc_array (pcbs y (get_pcb_blk (curr_pid y))) i = cur_fd (int i) s"
    by (rule read_begin[OF s(1) m(2)])
  have f: "2 \<le> i" "i < 8" "flags (cur_fd (int i) s) = ENGAGED" "table_ptr (cur_fd (int i) s) = files_operations"
    "inode_num (cur_fd (int i) s) = inode" "inode \<le> inodesCount s" "inode \<noteq> verylarge_inode s" "0 < n" "n \<le> 2048"
    "unat (inode_length (fs s) inode) < 2 ^ 30" "readable s inode 0 (unat (inode_length (fs s) inode) + n)"
    using s(2) by (simp_all add: reads_file_def)
  note ff = file_facts_side[OF y(1)]
  define pos L where "pos = unat (file_position (cur_fd (int i) s))" and "L = unat (inode_length (fs s) inode)"
  define k where "k = min n L"
  have ch: "pos < L" "c = map (file_byte s inode) [pos..<pos + k]" "cs = chunks_from s inode n (pos + k)"
    using c f(5,8) chunks_from.simps[of s inode n pos] by (auto simp: chunks_left_def pos_def L_def k_def split: if_splits)
  have nw: "unat (of_nat n :: u32) = n" "(of_nat n :: u32) \<noteq> 0" using f(8,9) by (simp_all add: word_unat_eq_iff unat_of_nat)
  let ?z = "note_verylarge inode y" and ?bs = "map (file_byte s inode) [pos..<pos + n]"
  have "readable y inode pos (pos + n)" using f(11) ch(1) ff by (auto simp: readable_def L_def)
  moreover have "file_position (cur_fd (int i) s) < inode_length (fs y) inode"
    using ch(1) ff by (simp add: word_less_nat_alt pos_def L_def)
  ultimately have rd: "read_data inode (file_position (cur_fd (int i) s)) False (of_nat n) y = Done (int k, ?bs, ?z)"
    using read_data_readable[of inode y "of_nat n" "file_position (cur_fd (int i) s)"]
      read_result_ordinary[of inode y "inode_length (fs y) inode" "of_nat n"] f(6,7,10) nw ff
    by (simp add: pos_def[symmetric] k_def L_def)
  have z: "side ?z = side s" "console_ok t ?z" "screen_of t ?z = screen_of t s" using y by simp_all
  have sz: "serves u t ?z" by (rule serves_side[OF s(1) z(1,2)])
  have bs: "length ?bs = n" "?bs \<noteq> []" using f(8) by simp_all
  obtain w where w: "copy_out (buffer_at u) ?bs ?z = Done w" "serves u t w" "side w = side ?z" "screen_of t w = screen_of t ?z"
    using place_array[OF sz, of ?bs] bs(1) f(9) by auto
  have entry: "read_call_entry (table_ptr (cur_fd (int i) s)) evs (int i) (buffer_at u) (int n) y = Done (int k, w)"
    using f rd unat_at[OF s(1)] w(1) by (simp add: read_from_file_def Let_def d)
  have "copy_in (buffer_at u) (length buf) ?z = Done buf" using y(5) copy_in_cong[of ?z y] by simp
  from overwrite_array[OF this w(1)] have out: "copy_in (buffer_at u) (length buf) w = Done (?bs @ drop n buf)"
    using bs m(1) by simp
  let ?s' = "(advance_fd (int i) (int k) (cur_pcb_addr s) w)\<lparr>if_flag := True\<rparr>"
  have call: "kernel_read u evs (int i) buf (int n) s = Done (int k, ?bs @ drop n buf, ?s')"
    using kernel_read_call[OF s(1), of "int i" n buf x evs "int k" w] f x(1) entry out by (simp add: x(2))
  have cl: "length c = k" "?bs @ drop n buf = c @ (drop k ?bs @ drop n buf)"
  proof -
    have "take k ?bs = c" unfolding ch(2) by (simp add: take_map take_upt k_def)
    then have "?bs = c @ drop k ?bs" by (metis append_take_drop_id)
    then show "?bs @ drop n buf = c @ (drop k ?bs @ drop n buf)" by (metis append_assoc)
  qed (simp add: ch(2))
  have w': "side w = side s" "console_ok t w" using w(2,3) z(1) by (simp_all add: serves_def)
  note rdone = read_done[OF s(1) w', where r = "int k" and i = i]
  have "unat (file_position (cur_fd (int i) s) + of_nat k) = pos + k"
    using ch(1) f(9,10) by (simp add: unat_word_ariths unat_of_nat pos_def L_def k_def)
  then have left: "chunks_left (int i) n ?s' = cs"
    using rdone(4,5,7) f(5) ch(3) chunks_from_cong[of ?s' s inode n] by (simp add: chunks_left_def)
  have "kernel_read u evs (int i) buf (int n) s = Done (int (length c), c @ (drop k ?bs @ drop n buf), ?s')"
    unfolding call cl by (rule refl)
  moreover have "length (c @ (drop k ?bs @ drop n buf)) = length buf" unfolding cl(2)[symmetric] using m(1) by simp
  moreover have "screen_of t ?s' = screen_of t s" using rdone(2) w(4) z(3) by simp
  ultimately show ?thesis using rdone(1) rdone(6)[OF s(2)] rdone(8) left by blast
qed

interpretation file_pipe: pipe "kernel_sys u" "\<lambda>x. serves u t (fst x) \<and> reads_file fd inode n (fst x)"
    "\<lambda>x. screen_of t (fst x)" scr_putc "\<lambda>c. c \<noteq> BACKSPACE" 2048 fd n "\<lambda>x. chunks_left fd n (fst x)"
  for u t fd inode n
proof unfold_locales
  fix x :: user_state and m and buf :: "u8 list"
  assume a: "serves u t (fst x) \<and> reads_file fd inode n (fst x)" "m \<le> length buf" "length buf \<le> 2048"
    and f: "list_all (\<lambda>c. c \<noteq> BACKSPACE) (take m buf)"
  then obtain r y where y: "swrite (kernel_sys u) 1 buf (int m) x = Done (r, y)" "0 < m \<longrightarrow> r \<noteq> -1"
    "serves u t (fst y)" "screen_of t (fst y) = fold scr_putc (take m buf) (screen_of t (fst x))"
    "side (fst y) = side (fst x)"
    using kernel_stdout[OF _ a(2,3) f] by blast
  have rf: "reads_file fd inode n (fst y)" using reads_file_side[OF y(5)] a(1) by simp
  show "\<exists>r y. swrite (kernel_sys u) 1 buf (int m) x = Done (r, y) \<and> (0 < m \<longrightarrow> r \<noteq> -1) \<and>
      (serves u t (fst y) \<and> reads_file fd inode n (fst y)) \<and>
      screen_of t (fst y) = fold scr_putc (take m buf) (screen_of t (fst x))"
    by (intro exI[of _ r] exI[of _ y] conjI) (rule y rf)+
  fix r' y'
  assume "swrite (kernel_sys u) 1 buf (int m) x = Done (r', y')"
  then show "chunks_left fd n (fst y') = chunks_left fd n (fst x)"
    using y(1) chunks_left_side[OF y(5)] by simp
next
  fix x :: user_state and c
  assume "serves u t (fst x) \<and> reads_file fd inode n (fst x)" "c \<in> set (chunks_left fd n (fst x))"
  then show "c \<noteq> [] \<and> length c \<le> n" using chunks_from_size by (auto simp: chunks_left_def)
next
  fix x :: user_state and c cs and buf :: "u8 list"
  assume a: "serves u t (fst x) \<and> reads_file fd inode n (fst x)" "chunks_left fd n (fst x) = c # cs"
    "n \<le> length buf" "length buf \<le> 2048"
  then obtain i where "fd = int i" using nonneg_int_cases[of fd] by (auto simp: reads_file_def)
  then show "\<exists>rest s'. sread (kernel_sys u) fd buf (int n) x = Done (int (length c), c @ rest, s') \<and>
      length (c @ rest) = length buf \<and> (serves u t (fst s') \<and> reads_file fd inode n (fst s')) \<and>
      screen_of t (fst s') = screen_of t (fst x) \<and> chunks_left fd n (fst s') = cs"
    using a file_read_chunk[of u t "fst x" i inode n c cs buf "next_events (snd x)"] by fastforce
next
  fix x :: user_state and m and buf :: "u8 list"
  assume a: "serves u t (fst x) \<and> reads_file fd inode n (fst x)" "chunks_left fd n (fst x) = []"
    "0 < m" "m \<le> length buf" "length buf \<le> 2048"
  then obtain i where i: "fd = int i" using nonneg_int_cases[of fd] by (auto simp: reads_file_def)
  have "unat (inode_length (fs (fst x)) inode) \<le> unat (file_position (cur_fd (int i) (fst x)))"
    using a(1,2) i chunks_from.simps[of "fst x" inode n] by (auto simp: chunks_left_def reads_file_def split: if_splits)
  then show "\<exists>buf' s'. sread (kernel_sys u) fd buf (int m) x = Done (0, buf', s') \<and> length buf' = length buf \<and>
      (serves u t (fst s') \<and> reads_file fd inode n (fst s')) \<and> screen_of t (fst s') = screen_of t (fst x)"
    using a i file_read_end[of u t "fst x" i inode n m buf "next_events (snd x)"] by fastforce
qed

section \<open>Reading the directory\<close>

definition reads_directory :: "int \<Rightarrow> kernel \<Rightarrow> bool" where
  "reads_directory fd s \<longleftrightarrow> 2 \<le> fd \<and> fd < 8 \<and> flags (cur_fd fd s) = ENGAGED \<and>
     table_ptr (cur_fd fd s) = directories_operations \<and> 0 \<le> internalCounter s"

definition names_left :: "kernel \<Rightarrow> u8 list list" where
  "names_left s = map (\<lambda>i. filename (dentry_at (fs s) i)) [nat (internalCounter s)..<17]"

lemma directory_read_name:
  assumes s: "serves u t s" "reads_directory (int i) s" and c: "names_left s = c # cs"
    and m: "32 \<le> length buf" "length buf \<le> 2048"
  shows "\<exists>rest s'. kernel_read u evs (int i) buf 32 s = Done (int (length c), c @ rest, s') \<and>
    length (c @ rest) = length buf \<and> serves u t s' \<and> reads_directory (int i) s' \<and>
    screen_of t s' = screen_of t s \<and> names_left s' = cs"
proof -
  obtain x y where x: "copy_out (buffer_at u) buf s = Done x" "y = x\<lparr>if_flag := True\<rparr>" and y: "side y = side s"
    "console_ok t y" "screen_of t y = screen_of t s" "internalCounter y = internalCounter s"
    "copy_in (buffer_at u) (length buf) y = Done buf" "serves u t y"
    by (rule read_begin[OF s(1) m(2)])
  have f: "2 \<le> i" "i < 8" "flags (cur_fd (int i) s) = ENGAGED" "table_ptr (cur_fd (int i) s) = directories_operations"
    "0 \<le> internalCounter s" using s(2) by (simp_all add: reads_directory_def)
  note ff = file_facts_side[OF y(1)]
  define k where "k = nat (internalCounter s)"
  have k: "k < 17" using c by (cases "k < 17") (simp_all add: names_left_def k_def)
  have ch: "c = filename (dentry_at (fs s) k)" "cs = map (\<lambda>i. filename (dentry_at (fs s) i)) [Suc k..<17]"
    using c k by (simp_all add: names_left_def k_def[symmetric] upt_conv_Cons del: upt_rec_numeral)
  have len: "length c = 32" by (simp add: ch(1) dentry_at_def)
  have iu: "in_user y (buffer_at u) 32" by (rule serves_user[OF y(6)]) simp
  define w where "w = y\<lparr>phys := store (phys y) (user_phys y (buffer_at u)) c, internalCounter := internalCounter y + 1\<rparr>"
  have entry: "read_call_entry (table_ptr (cur_fd (int i) s)) evs (int i) (buffer_at u) (int 32) y = Done (int 32, w)"
    using read_from_directory_steps[of y "buffer_at u" "int i" 32] f(4,5) y(4) k iu ff(4) by (simp add: w_def ch(1) k_def)
  define v where "v = y\<lparr>phys := store (phys y) (user_phys y (buffer_at u)) c\<rparr>"
  have cv: "copy_out (buffer_at u) c y = Done v" using iu len by (auto simp: copy_out_def v_def)
  have wv: "screen_of t w = screen_of t v" "console_ok t w = console_ok t v" "side w = side v" "phys w = phys v"
      "page_directory w = page_directory v"
    by (simp_all add: w_def v_def screen_of_def vid_base_def console_ok_def side_def)
  obtain v' where v': "copy_out (buffer_at u) c y = Done v'" "serves u t v'" "side v' = side y" "screen_of t v' = screen_of t y"
    using place_array[OF y(6), of c] len by auto
  have vv: "v' = v" using v'(1) cv by simp
  have out: "copy_in (buffer_at u) (length buf) w = Done (c @ drop 32 buf)"
    using overwrite_array[OF y(5) cv] len m(1) copy_in_cong[OF wv(4,5)] by fastforce
  let ?s' = "(advance_fd (int i) (int 32) (cur_pcb_addr s) w)\<lparr>if_flag := True\<rparr>"
  have "kernel_read u evs (int i) buf (int 32) s = Done (int 32, c @ drop 32 buf, ?s')"
    by (rule kernel_read_call[OF s(1) _ _ f(3) _ _ x(1) _ out]) (use f entry x(2) in simp_all)
  moreover have z: "side w = side s" "console_ok t w" using wv v' vv y(1) by (simp_all add: serves_def)
  note rdone = read_done[OF s(1) z, where r = "int 32" and i = i]
  have ic: "internalCounter w = internalCounter s + 1" using y(4) by (simp add: w_def)
  have "names_left ?s' = cs" using rdone(3,4) ic f(5) ch(2) by (simp add: names_left_def k_def nat_add_distrib del: upt_rec_numeral)
  moreover have "reads_directory (int i) ?s'" using rdone(3,7) f ic by (simp add: reads_directory_def)
  ultimately show ?thesis
    using len m(1) rdone(1,2) wv(1) v'(4) vv y(3) by (intro exI[of _ "drop 32 buf"] exI[of _ ?s']) simp
qed

lemma directory_read_end:
  assumes s: "serves u t s" "reads_directory (int i) s" and e: "names_left s = []"
    and m: "0 < m" "m \<le> length buf" "length buf \<le> 2048"
  shows "\<exists>s'. kernel_read u evs (int i) buf (int m) s = Done (0, buf, s') \<and>
    serves u t s' \<and> reads_directory (int i) s' \<and> screen_of t s' = screen_of t s"
proof -
  obtain x y where x: "copy_out (buffer_at u) buf s = Done x" "y = x\<lparr>if_flag := True\<rparr>" and y: "side y = side s"
    "console_ok t y" "screen_of t y = screen_of t s" "internalCounter y = internalCounter s"
    "copy_in (buffer_at u) (length buf) y = Done buf"
    by (rule read_begin[OF s(1) m(3)])
  have f: "2 \<le> i" "i < 8" "flags (cur_fd (int i) s) = ENGAGED" "table_ptr (cur_fd (int i) s) = directories_operations"
    using s(2) by (simp_all add: reads_directory_def)
  let ?w = "y\<lparr>internalCounter := 0\<rparr>"
  have entry: "read_call_entry (table_ptr (cur_fd (int i) s)) evs (int i) (buffer_at u) (int m) y = Done (0, ?w)"
    using e y(4) f(4) by (simp add: read_from_directory_end names_left_def del: upt_rec_numeral)
  have out: "copy_in (buffer_at u) (length buf) ?w = Done buf" using y(5) copy_in_cong[of ?w y] by simp
  let ?s' = "(advance_fd (int i) 0 (cur_pcb_addr s) ?w)\<lparr>if_flag := True\<rparr>"
  have "kernel_read u evs (int i) buf (int m) s = Done (0, buf, ?s')"
    by (rule kernel_read_call[OF s(1) _ _ f(3) m(1) _ x(1) _ out]) (use f entry x(2) m in simp_all)
  moreover have "side ?w = side s" "console_ok t ?w" "screen_of t ?w = screen_of t s"
    using y by (simp_all add: side_def console_ok_def screen_of_def vid_base_def)
  ultimately show ?thesis using read_done[OF s(1), of ?w, where r = 0 and i = i] f by (auto simp: reads_directory_def)
qed

interpretation dir_pipe: pipe "kernel_sys u" "\<lambda>x. serves u t (fst x) \<and> reads_directory fd (fst x)"
    "\<lambda>x. screen_of t (fst x)" scr_putc "\<lambda>c. c \<noteq> BACKSPACE" 2048 fd 32 "\<lambda>x. names_left (fst x)"
  for u t fd
proof unfold_locales
  fix x :: user_state and m and buf :: "u8 list"
  assume a: "serves u t (fst x) \<and> reads_directory fd (fst x)" "m \<le> length buf" "length buf \<le> 2048"
    and f: "list_all (\<lambda>c. c \<noteq> BACKSPACE) (take m buf)"
  then obtain r y where y: "swrite (kernel_sys u) 1 buf (int m) x = Done (r, y)" "0 < m \<longrightarrow> r \<noteq> -1"
    "serves u t (fst y)" "screen_of t (fst y) = fold scr_putc (take m buf) (screen_of t (fst x))"
    "side (fst y) = side (fst x)" "internalCounter (fst y) = internalCounter (fst x)"
    using kernel_stdout[OF _ a(2,3) f] by blast
  have rd: "reads_directory fd (fst y)" using a(1) y(6) cur_side(2)[OF y(5)] by (simp add: reads_directory_def)
  show "\<exists>r y. swrite (kernel_sys u) 1 buf (int m) x = Done (r, y) \<and> (0 < m \<longrightarrow> r \<noteq> -1) \<and>
      (serves u t (fst y) \<and> reads_directory fd (fst y)) \<and>
      screen_of t (fst y) = fold scr_putc (take m buf) (screen_of t (fst x))"
    by (intro exI[of _ r] exI[of _ y] conjI) (rule y rd)+
  fix r' y'
  assume "swrite (kernel_sys u) 1 buf (int m) x = Done (r', y')"
  then show "names_left (fst y') = names_left (fst x)"
    using y(1,6) file_facts_side(4)[OF y(5)] by (simp add: names_left_def del: upt_rec_numeral)
next
  fix x :: user_state and c
  assume "c \<in> set (names_left (fst x))"
  then show "c \<noteq> [] \<and> length c \<le> 32"
    using length_load by (auto simp: names_left_def dentry_at_def load_def simp del: upt_rec_numeral)
next
  fix x :: user_state and c cs and buf :: "u8 list"
  assume a: "serves u t (fst x) \<and> reads_directory fd (fst x)" "names_left (fst x) = c # cs"
    "32 \<le> length buf" "length buf \<le> 2048"
  then obtain i where "fd = int i" using nonneg_int_cases[of fd] by (auto simp: reads_directory_def)
  then show "\<exists>rest s'. sread (kernel_sys u) fd buf (int 32) x = Done (int (length c), c @ rest, s') \<and>
      length (c @ rest) = length buf \<and> (serves u t (fst s') \<and> reads_directory fd (fst s')) \<and>
      screen_of t (fst s') = screen_of t (fst x) \<and> names_left (fst s') = cs"
    using a directory_read_name[of u t "fst x" i c cs buf "next_events (snd x)"] by fastforce
next
  fix x :: user_state and m and buf :: "u8 list"
  assume a: "serves u t (fst x) \<and> reads_directory fd (fst x)" "names_left (fst x) = []"
    "0 < m" "m \<le> length buf" "length buf \<le> 2048"
  then obtain i where "fd = int i" using nonneg_int_cases[of fd] by (auto simp: reads_directory_def)
  then show "\<exists>buf' s'. sread (kernel_sys u) fd buf (int m) x = Done (0, buf', s') \<and> length buf' = length buf \<and>
      (serves u t (fst s') \<and> reads_directory fd (fst s')) \<and> screen_of t (fst s') = screen_of t (fst x)"
    using a directory_read_end[of u t "fst x" i m buf "next_events (snd x)"] by fastforce
qed

section \<open>Opening\<close>

lemma named_cong: "cstr a = cstr b \<Longrightarrow> dentries_named m a = dentries_named m b"
proof -
  assume "cstr a = cstr b"
  then have "entry_named m a = entry_named m b" by (intro ext) (simp add: entry_named_def)
  then show ?thesis by (simp only: dentries_named_def)
qed

lemma cstr_prefix: "0 \<in> set a \<Longrightarrow> take (length a) b = a \<Longrightarrow> cstr b = cstr a \<and> 0 \<in> set b"
proof -
  assume a: "0 \<in> set a" "take (length a) b = a"
  have "b = a @ drop (length a) b" using a(2) by (metis append_take_drop_id)
  then obtain c where "b = a @ c" by blast
  then show ?thesis using a(1) by (simp add: cstr_def)
qed

text \<open>The kernel sees the string that was put in place.\<close>

lemma string_argument:
  assumes s: "serves u t s" and n: "0 \<in> set name" "length name \<le> 2048"
  obtains x y name' where "copy_out (buffer_at u) name s = Done x" "y = x\<lparr>if_flag := True\<rparr>"
    "user_string (buffer_at u) y = Done name'" "cstr name' = cstr name" "0 \<in> set name'" "serves u t y"
    "side y = side s" "screen_of t y = screen_of t s" "internalCounter y = internalCounter s"
proof -
  obtain x y where x: "copy_out (buffer_at u) name s = Done x" "y = x\<lparr>if_flag := True\<rparr>" and y: "side y = side s"
    "console_ok t y" "screen_of t y = screen_of t s" "internalCounter y = internalCounter s"
    "copy_in (buffer_at u) (length name) y = Done name" "serves u t y"
    by (rule read_begin[OF s n(2)])
  define k where "k = 0x8400000 - buffer_at u"
  have b: "0x8000000 \<le> buffer_at u" "buffer_at u + 2048 \<le> 0x8400000" using s by (simp_all add: serves_def)
  obtain p where "p < 6" "page_directory y 32 = user_pde p" using y(6) by (auto simp: serves_def)
  then have "in_user y (buffer_at u) k" using b user_pde_fields(1) by (simp add: in_user_def k_def)
  then obtain name' where c: "copy_in (buffer_at u) k y = Done name'" "length name' = k"
    by (cases "k = 0") (auto simp: copy_in_def)
  have us: "user_string (buffer_at u) y = Done name'" using b c(1) by (simp add: user_string_def k_def)
  have "take (length name) name' = name"
    using copy_in_prefix[of "buffer_at u" name' y "length name"] c y(5) b n(2) by (simp add: k_def)
  from cstr_prefix[OF n(1) this] have nm: "cstr name' = cstr name" "0 \<in> set name'" by simp_all
  from that[OF x us nm y(6,1,3,4)] show thesis .
qed

lemma kernel_open_call:
  assumes s: "serves u t s" and n: "0 \<in> set name" "length name \<le> 2048"
  obtains y name' where "kernel_open u name s = andthen (open_call (Some name') y) (\<lambda>(r, s). Done (r, s\<lparr>if_flag := True\<rparr>))"
    "cstr name' = cstr name" "0 \<in> set name'" "serves u t y" "side y = side s" "screen_of t y = screen_of t s"
    "internalCounter y = internalCounter s"
proof -
  obtain x y name' where x: "copy_out (buffer_at u) name s = Done x" "y = x\<lparr>if_flag := True\<rparr>"
    and us: "user_string (buffer_at u) y = Done name'" and y: "cstr name' = cstr name" "0 \<in> set name'" "serves u t y"
    "side y = side s" "screen_of t y = screen_of t s" "internalCounter y = internalCounter s"
    by (rule string_argument[OF s n])
  have at: "at u \<noteq> 0" "unat (at u) = buffer_at u" using unat_at[OF s] by (auto simp: word_unat_eq_iff)
  have "kernel_open u name s = andthen (open_call (Some name') y) (\<lambda>(r, s). Done (r, s\<lparr>if_flag := True\<rparr>))"
    using at us by (simp add: kernel_open_def x(1) trap_calls(3) x(2)[symmetric] do_syscall_in_C_def returns_then)
  from that[OF this y] show thesis .
qed

lemma free_fd_side: "side s' = side s \<Longrightarrow> free_fd s' = free_fd s"
proof -
  assume "side s' = side s"
  from cur_side(2)[OF this] show "free_fd s' = free_fd s" by (intro ext) (simp add: free_fd_def)
qed

lemma has_file_cong:
  assumes "cstr b = cstr a" "0 \<in> set b" "fs s' = fs s" "has_file s a"
  shows "has_file s' b" "file_dentry s' b = file_dentry s a"
proof -
  show "has_file s' b"
    using assms(2,4) unfolding has_file_def assms(3) named_cong[OF assms(1)] assms(1) by simp
  show "file_dentry s' b = file_dentry s a" unfolding file_dentry_def assms(3) named_cong[OF assms(1)] by (rule refl)
qed

lemma serves_engage:
  assumes "serves u t s" "2 \<le> i"
  shows "serves u t (engage_fd i d s)"
proof -
  have c: "cur_fd 1 (engage_fd i d s) = cur_fd 1 s" using engaged_fd(2)[of 1 i d s] assms(2) by simp
  have p: "active_terminal (engage_fd i d s) = active_terminal s" "terminal (engage_fd i d s) = terminal s"
    "console_ok t (engage_fd i d s) = console_ok t s"
    by (simp_all add: engage_fd_def upd_pcb_def console_ok_def)
  have "terminal_on (pcbs (engage_fd i d s) (cur_pcb_addr s)) = terminal_on (pcbs s (cur_pcb_addr s))"
    by (simp add: engage_fd_def upd_pcb_def upd_fd_def)
  then show ?thesis using assms(1) unfolding serves_def engage_fd_frame c p by simp
qed

lemma kernel_open_file:
  assumes s: "serves u t s" and n: "length name \<le> 2048" "has_file s name" and i: "find (free_fd s) [2..<8] = Some i"
  shows "\<exists>s'. kernel_open u name s = Done (int i, s') \<and> serves u t s' \<and> screen_of t s' = screen_of t s \<and>
    internalCounter s' = internalCounter s \<and> fs s' = fs s \<and> inodesCount s' = inodesCount s \<and>
    data_count_blk s' = data_count_blk s \<and> stack_junk s' = stack_junk s \<and>
    cur_fd (int i) s' = \<lparr>table_ptr = type_operations (filetype (file_dentry s name)),
      inode_num = dentry_inode (file_dentry s name), file_position = 0, flags = ENGAGED\<rparr> \<and>
    (\<forall>j. j \<noteq> i \<longrightarrow> cur_fd (int j) s' = cur_fd (int j) s)"
proof -
  have z: "0 \<in> set name" using n(2) by (simp add: has_file_def)
  obtain y name' where y: "kernel_open u name s = andthen (open_call (Some name') y) (\<lambda>(r, s). Done (r, s\<lparr>if_flag := True\<rparr>))"
    "cstr name' = cstr name" "0 \<in> set name'" "serves u t y" "side y = side s" "screen_of t y = screen_of t s"
    "internalCounter y = internalCounter s"
    by (rule kernel_open_call[OF s z n(1)])
  note ff = file_facts_side[OF y(5)]
  note hf = has_file_cong[OF y(2,3) ff(4) n(2)]
  let ?d = "file_dentry s name" and ?z = "engage_fd i (file_dentry s name) y"
  have o: "open_call (Some name') y = Done (int i, ?z)"
    using open_call_file[OF hf(1)] i free_fd_side[OF y(5)] hf(2) by (simp del: upt_rec_numeral)
  have i2: "2 \<le> i" using i by (simp only: fds_lowest)
  have fl: "side (?z\<lparr>if_flag := True\<rparr>) = side ?z" by simp
  have sv: "serves u t (?z\<lparr>if_flag := True\<rparr>)"
    by (rule serves_side[OF serves_engage[OF y(4) i2, of ?d] fl]) (use serves_engage[OF y(4) i2, of ?d] in \<open>simp add: serves_def\<close>)
  have sc: "screen_of t ?z = screen_of t y" "internalCounter ?z = internalCounter y" "data_count_blk ?z = data_count_blk s"
    "stack_junk ?z = stack_junk s"
    using y(5) by (simp_all add: engage_fd_def upd_pcb_def screen_of_def vid_base_def side_def)
  show ?thesis
    using y(1,6,7) o sv sc ff engaged_fd(1)[of i ?d y] cur_side(2)[OF fl] cur_side(2)[OF y(5)]
    by (intro exI[of _ "?z\<lparr>if_flag := True\<rparr>"]) (auto simp: engaged_fd(2))
qed

lemma kernel_open_missing:
  assumes s: "serves u t s" and n: "0 \<in> set name" "length name \<le> 2048"
    and no: "cstr name = [] \<or> length (cstr name) > 32 \<or> dentries_named (fs s) name = [] \<or> find (free_fd s) [2..<8] = None"
  shows "\<exists>s'. kernel_open u name s = Done (-1, s') \<and> serves u t s' \<and> side s' = side s \<and>
    screen_of t s' = screen_of t s \<and> internalCounter s' = internalCounter s"
proof -
  obtain y name' where y: "kernel_open u name s = andthen (open_call (Some name') y) (\<lambda>(r, s). Done (r, s\<lparr>if_flag := True\<rparr>))"
    "cstr name' = cstr name" "0 \<in> set name'" "serves u t y" "side y = side s" "screen_of t y = screen_of t s"
    "internalCounter y = internalCounter s"
    by (rule kernel_open_call[OF s n])
  have "open_call (Some name') y = Done (-1, y)"
    using no open_call_eq[OF y(3), of y] y(2) named_cong[OF y(2)] file_facts_side(4)[OF y(5)] free_fd_side[OF y(5)]
    by (auto simp del: upt_rec_numeral split: option.splits)
  then show ?thesis
    using y serves_side[OF s, of "y\<lparr>if_flag := True\<rparr>"] by (auto simp: serves_def)
qed

end
