(* ===== verification/User_Tests.thy ===== *)
theory User_Tests
  imports User_Kernel
begin

text \<open>
  The kernel refuses what the error tests of ece391syserr.c ask of it: the interface \<open>refusing\<close>
  interpreted on the system calls.
\<close>

section \<open>The state of the tests\<close>

definition tests_ready :: "user_side \<Rightarrow> nat \<Rightarrow> kernel \<Rightarrow> bool" where
  "tests_ready u t s \<longleftrightarrow> serves u t s \<and> flags (cur_fd 0 s) = ENGAGED \<and> table_ptr (cur_fd 0 s) = stdin_operations \<and>
     has_file s (c_lit ''.'') \<and> filetype (file_dentry s (c_lit ''.'')) = 1 \<and>
     dentries_named (fs s) (c_lit ''helloo'') = [] \<and> dentries_named (fs s) (c_lit ''shel'') = [] \<and>
     (\<forall>i. 2 \<le> i \<and> i < 8 \<and> \<not> free_fd s i \<longrightarrow> table_ptr (cur_fd (int i) s) = directories_operations)"

definition open_fds :: "kernel \<Rightarrow> nat set" where
  "open_fds s = {i. 2 \<le> i \<and> i < 8 \<and> \<not> free_fd s i}"

lemma tests_ready_upto:
  assumes "tests_ready u t s" "serves u t s'" "fs s' = fs s"
    and "\<And>i. flags (cur_fd (int i) s') = flags (cur_fd (int i) s) \<and> table_ptr (cur_fd (int i) s') = table_ptr (cur_fd (int i) s)"
  shows "tests_ready u t s'" "open_fds s' = open_fds s"
proof -
  have f: "free_fd s' = free_fd s" using assms(4) by (intro ext) (simp add: free_fd_def)
  show "open_fds s' = open_fds s" by (simp add: open_fds_def f)
  show "tests_ready u t s'"
    using assms(1,2) assms(4)[of 0] assms(4) unfolding tests_ready_def has_file_def file_dentry_def assms(3) f by simp
qed

lemma tests_ready_side:
  assumes "tests_ready u t s" "side s' = side s" "console_ok t s'"
  shows "tests_ready u t s'" "open_fds s' = open_fds s"
proof -
  have "serves u t s" using assms(1) by (simp add: tests_ready_def)
  then have sv: "serves u t s'" by (rule serves_side[OF _ assms(2,3)])
  show "tests_ready u t s'" "open_fds s' = open_fds s"
    by (rule tests_ready_upto[OF assms(1) sv file_facts_side(4)[OF assms(2)]]; simp add: cur_side(2)[OF assms(2)])+
qed

lemma ready_serves: "tests_ready u t s \<Longrightarrow> serves u t s \<and> console_ok t s"
  by (simp add: tests_ready_def serves_def)

text \<open>What the drivers that do nothing do: print, and fail.\<close>

lemma donothing_side:
  assumes "serves u t s"
  shows "\<exists>s'. donothing s = Done (-1, s') \<and> side s' = side s \<and> console_ok t s' \<and> internalCounter s' = internalCounter s"
proof -
  have a: "active_terminal s = t" "console_ok t s" using assms by (simp_all add: serves_def)
  have "BACKSPACE \<notin> set (chars ''terminal do nothing'')" by (simp add: chars_def)
  from print_refines[OF a(2) this] show ?thesis unfolding donothing_eq fold_putc_active a(1) by simp
qed

section \<open>Messages, reads and writes\<close>

lemma tests_puts:
  assumes r: "tests_ready u t (fst x)" and m: "0 \<in> set m" "length m \<le> 128" "8 \<notin> set m"
  shows "\<exists>y. ece391_fdputs (kernel_sys u) 1 m x = Done y \<and> tests_ready u t (fst y) \<and> open_fds (fst y) = open_fds (fst x)"
proof -
  have l: "length (cstr m) \<le> length m" "length m \<le> 2048" using m(2) by (simp_all add: cstr_def length_takeWhile_le)
  have "list_all (\<lambda>c. c \<noteq> 8) (take (length (cstr m)) m)" using m(3) by (auto simp: list_all_iff dest: in_set_takeD)
  then obtain v y where y: "swrite (kernel_sys u) 1 m (int (length (cstr m))) x = Done (v, y)" "serves u t (fst y)"
    "side (fst y) = side (fst x)"
    using kernel_stdout[of u t x "length (cstr m)" m] ready_serves[OF r] l by auto
  have "console_ok t (fst y)" using y(2) by (simp add: serves_def)
  from tests_ready_side[OF r y(3) this] show ?thesis
    using y(1) m(1) by (simp add: ece391_fdputs_def ece391_strlen_cstr)
qed

lemma sint_fd: "- (2 ^ 31) \<le> fd \<Longrightarrow> fd < 2 ^ 31 \<Longrightarrow> sint (word_of_int fd :: u32) = fd"
  by (rule sint_of_int) simp_all

lemma tests_read:
  assumes r: "tests_ready u t s" and fd: "fd \<noteq> 0" "nat fd \<notin> open_fds s" "- (2 ^ 31) \<le> fd" "fd < 2 ^ 31"
    and b: "length buf = 32"
  shows "\<exists>buf' s'. kernel_read u evs fd buf 31 s = Done (-1, buf', s') \<and> length buf' = 32 \<and> tests_ready u t s' \<and>
    open_fds s' = open_fds s"
proof -
  have s: "serves u t s" using ready_serves[OF r] by simp
  have lb: "length buf \<le> 2048" using b by simp
  obtain x y where x: "copy_out (buffer_at u) buf s = Done x" "y = x\<lparr>if_flag := True\<rparr>" and y: "side y = side s"
    "console_ok t y" "screen_of t y = screen_of t s" "internalCounter y = internalCounter s"
    "copy_in (buffer_at u) (length buf) y = Done buf" "serves u t y"
    by (rule read_begin[OF s lb])
  note cf = cur_side(2)[OF y(1)]
  show ?thesis
  proof (cases "fd = 1")
    case False
    then have "fd < 0 \<or> fd \<ge> 8 \<or> flags (cur_fd fd s) = NOT_ENGAGED"
      using fd by (auto simp: open_fds_def free_fd_def)
    then have "read_call evs fd (buffer_at u) 31 y = Done (-1, y)" using cf by (auto simp: read_call_def)
    moreover have "copy_in (buffer_at u) (length buf) (y\<lparr>if_flag := True\<rparr>) = Done buf"
      using y(5) copy_in_cong[of "y\<lparr>if_flag := True\<rparr>" y] by simp
    ultimately have "kernel_read u evs fd buf 31 s = Done (-1, buf, y\<lparr>if_flag := True\<rparr>)"
      using unat_at[OF s] sint_fd[OF fd(3,4)]
      by (simp add: kernel_read_def x(1) trap_calls(1) x(2)[symmetric] do_syscall_in_C_def returns_then)
    then show ?thesis using tests_ready_side[OF r, of "y\<lparr>if_flag := True\<rparr>"] y(1,2) b by auto
  next
    case True
    obtain z where z: "donothing y = Done (-1, z)" "side z = side y" "console_ok t z"
      using donothing_side[OF y(6)] by blast
    have zs: "side z = side s" using z(2) y(1) by simp
    have tb: "table_ptr (cur_fd 1 s) = stdout_operations" "flags (cur_fd 1 s) = ENGAGED" using s by (simp_all add: serves_def)
    have "in_user z (buffer_at u) (length buf)" by (rule serves_user[OF serves_side[OF s zs z(3)] lb])
    then obtain buf' where buf': "copy_in (buffer_at u) (length buf) z = Done buf'" "length buf' = length buf"
      by (cases "length buf = 0") (auto simp: copy_in_def)
    let ?s' = "(advance_fd (int 1) (-1) (cur_pcb_addr s) z)\<lparr>if_flag := True\<rparr>"
    have "kernel_read u evs fd buf (int 31) s = Done (-1, buf', ?s')"
      using kernel_read_call[OF s, of 1 31 buf x evs "-1" z buf'] tb x z(1) buf'(1) True by simp
    moreover note rd = read_done[OF s zs z(3), where r = "-1" and i = 1]
    have c: "cur_fd (int i) ?s' = (if i = 1 then (cur_fd 1 s)\<lparr>file_position := file_position (cur_fd 1 s) - 1\<rparr> else cur_fd (int i) s)" for i
    proof -
      have cpa: "cur_pcb_addr s = cur_pcb_addr z" using cur_side(1)[OF zs] by simp
      have "side ?s' = side (advance_fd (int 1) (-1) (cur_pcb_addr s) z)" by simp
      from cur_side(2)[OF this] show ?thesis
        using advance_fd_cur[OF cpa, of i 1 "-1"] cur_side(2)[OF zs] by auto
    qed
    ultimately show ?thesis
      using tests_ready_upto[OF r rd(1) rd(4)] c buf'(2) b by auto
  qed
qed

lemma tests_write:
  assumes r: "tests_ready u t s" and fd: "fd \<noteq> 1" "nat fd \<notin> open_fds s" "- (2 ^ 31) \<le> fd" "fd < 2 ^ 31"
    and b: "length buf = 32"
  shows "\<exists>s'. kernel_write u fd buf 31 s = Done (-1, s') \<and> tests_ready u t s' \<and> open_fds s' = open_fds s"
proof -
  have s: "serves u t s" using ready_serves[OF r] by simp
  have lb: "length buf \<le> 2048" using b by simp
  obtain x y where x: "copy_out (buffer_at u) buf s = Done x" "y = x\<lparr>if_flag := True\<rparr>" and y: "side y = side s"
    "console_ok t y" "screen_of t y = screen_of t s" "internalCounter y = internalCounter s"
    "copy_in (buffer_at u) (length buf) y = Done buf" "serves u t y"
    by (rule read_begin[OF s lb])
  note cf = cur_side(2)[OF y(1)]
  have "\<exists>z. write_call fd (buffer_at u) 31 y = Done (-1, z) \<and> side z = side s \<and> console_ok t z"
  proof (cases "fd = 0")
    case False
    then have "fd < 0 \<or> fd \<ge> 8 \<or> flags (cur_fd fd s) = NOT_ENGAGED"
      using fd by (auto simp: open_fds_def free_fd_def)
    then have "write_call fd (buffer_at u) 31 y = Done (-1, y)" using cf by (auto simp: write_call_def)
    then show ?thesis using y(1,2) by blast
  next
    case True
    have tb: "table_ptr (cur_fd 0 s) = stdin_operations" "flags (cur_fd 0 s) = ENGAGED" using r by (simp_all add: tests_ready_def)
    obtain z where "donothing y = Done (-1, z)" "side z = side y" "console_ok t z"
      using donothing_side[OF y(6)] by blast
    then show ?thesis using True tb cf unat_at[OF s] y(1) by (simp add: write_call_def)
  qed
  then obtain z where z: "write_call fd (buffer_at u) 31 y = Done (-1, z)" "side z = side s" "console_ok t z" by blast
  have "kernel_write u fd buf 31 s = Done (-1, z\<lparr>if_flag := True\<rparr>)"
    using z(1) unat_at[OF s] sint_fd[OF fd(3,4)]
    by (simp add: kernel_write_def x(1) trap_calls(2) x(2)[symmetric] do_syscall_in_C_def returns_then)
  then show ?thesis using tests_ready_side[OF r, of "z\<lparr>if_flag := True\<rparr>"] z(2,3) by simp
qed

section \<open>Closing and opening\<close>

lemma cur_fd_release:
  "cur_fd (int j) (release_fd i s) =
    (if j = i then (cur_fd (int i) s)\<lparr>inode_num := NOINODE, file_position := START_OF_FILE, flags := NOT_ENGAGED\<rparr>
     else cur_fd (int j) s)"
  by (simp add: release_fd_def cur_fd_upd)

lemma serves_release:
  assumes "serves u t s" "2 \<le> i"
  shows "serves u t (release_fd i s)"
proof -
  have c: "cur_fd 1 (release_fd i s) = cur_fd 1 s" using cur_fd_release[of 1 i s] assms(2) by simp
  have p: "active_terminal (release_fd i s) = active_terminal s" "terminal (release_fd i s) = terminal s"
    "console_ok t (release_fd i s) = console_ok t s" "page_directory (release_fd i s) = page_directory s"
    "curr_pid (release_fd i s) = curr_pid s" "cur_pcb_addr (release_fd i s) = cur_pcb_addr s"
    by (simp_all add: release_fd_def upd_pcb_def console_ok_def cur_pcb_addr_def)
  have "terminal_on (pcbs (release_fd i s) (cur_pcb_addr s)) = terminal_on (pcbs s (cur_pcb_addr s))"
    by (simp add: release_fd_def upd_pcb_def upd_fd_def)
  then show ?thesis using assms(1) unfolding serves_def c p by simp
qed

lemma tests_close:
  assumes r: "tests_ready u t s" and fd: "- (2 ^ 31) \<le> fd" "fd < 2 ^ 31"
  shows "\<exists>s'. trap u [] 6 (word_of_int fd) 0 0 s = Done (if nat fd \<in> open_fds s then 0 else -1, s') \<and>
    tests_ready u t s' \<and> open_fds s' = open_fds s - {nat fd}"
proof -
  have s: "serves u t s" "console_ok t s" using ready_serves[OF r] by simp_all
  define y where "y = s\<lparr>if_flag := True\<rparr>"
  have y: "side y = side s" "console_ok t y" using s by (simp_all add: y_def)
  have call: "trap u [] 6 (word_of_int fd) 0 0 s = andthen (close_call fd y) (\<lambda>(r, s). Done (r, s\<lparr>if_flag := True\<rparr>))"
    using sint_fd[OF fd] by (simp add: trap_calls(4) y_def do_syscall_in_C_def returns_then)
  show ?thesis
  proof (cases "nat fd \<in> open_fds s")
    case False
    then have "fd \<le> 1 \<or> fd \<ge> 8 \<or> flags (cur_fd fd s) = NOT_ENGAGED" by (auto simp: open_fds_def free_fd_def)
    then have "close_call fd y = Done (-1, y)" using cur_side(2)[OF y(1)] by (auto simp: close_call_def)
    then show ?thesis using False call tests_ready_side[OF r, of "y\<lparr>if_flag := True\<rparr>"] y by simp
  next
    case True
    then obtain i where i: "fd = int i" "2 \<le> i" "i < 8" "\<not> free_fd s i"
      by (metis (mono_tags, lifting) mem_Collect_eq open_fds_def nat_eq_iff2 nat_0_iff not_numeral_le_zero)
    then have tb: "table_ptr (cur_fd (int i) y) = directories_operations" "flags (cur_fd (int i) y) \<noteq> NOT_ENGAGED"
      using r cur_side(2)[OF y(1)] by (simp_all add: tests_ready_def free_fd_def)
    let ?z = "((release_fd i y)\<lparr>internalCounter := 0\<rparr>)\<lparr>if_flag := True\<rparr>"
    have "close_call fd y = Done (0, (release_fd i y)\<lparr>internalCounter := 0\<rparr>)"
      using close_call_eq[of fd y] i tb by (simp add: close_directory_def)
    then have c: "trap u [] 6 (word_of_int fd) 0 0 s = Done (0, ?z)" using call by simp
    have sd: "side ?z = side (release_fd i y)" by (simp add: side_def)
    have sv: "serves u t (release_fd i y)" by (rule serves_release[OF serves_side[OF s(1) y] i(2)])
    have sz: "serves u t ?z" by (rule serves_side[OF sv sd]) (use sv in \<open>simp add: serves_def console_ok_def\<close>)
    have fz: "fs ?z = fs s" by (simp add: release_fd_def upd_pcb_def y_def)
    have cz: "cur_fd (int j) ?z = (if j = i then (cur_fd (int i) s)\<lparr>inode_num := NOINODE,
        file_position := START_OF_FILE, flags := NOT_ENGAGED\<rparr> else cur_fd (int j) s)" for j
      using cur_side(2)[OF sd] cur_fd_release[of j i y] cur_side(2)[OF y(1)] by simp
    have ff: "free_fd ?z j \<longleftrightarrow> j = i \<or> free_fd s j" for j using cz[of j] by (simp add: free_fd_def)
    have "open_fds ?z = open_fds s - {i}" unfolding open_fds_def ff using i(2) by auto
    moreover have "tests_ready u t ?z"
      using r sz cz[of 0] i(2) unfolding tests_ready_def ff has_file_def file_dentry_def fz by (auto simp: cz)
    ultimately show ?thesis using True c i(1) by auto
  qed
qed

lemma tests_bad_open:
  assumes r: "tests_ready u t s" and n: "name \<in> {c_lit ''helloo'', c_lit ''shel'', c_lit []}"
  shows "\<exists>s'. kernel_open u name s = Done (-1, s') \<and> tests_ready u t s' \<and> open_fds s' = open_fds s"
proof -
  have s: "serves u t s" using ready_serves[OF r] by simp
  have z: "0 \<in> set name" "length name \<le> 2048" using n by (auto simp: c_lit_def chars_def)
  have "cstr name = [] \<or> dentries_named (fs s) name = []"
    using n r by (auto simp: tests_ready_def c_lit_def chars_def)
  then obtain s' where "kernel_open u name s = Done (-1, s')" "serves u t s'" "side s' = side s"
    using kernel_open_missing[OF s z] by blast
  then show ?thesis using tests_ready_side[OF r, of s'] by (auto simp: serves_def)
qed

lemma tests_open_dot:
  assumes r: "tests_ready u t s"
  shows "\<exists>v s'. kernel_open u (c_lit ''.'') s = Done (v, s') \<and> tests_ready u t s' \<and>
    (if open_fds s = {2..<8} then v = -1 \<and> open_fds s' = open_fds s
     else v \<noteq> -1 \<and> (\<exists>i. 2 \<le> i \<and> i < 8 \<and> i \<notin> open_fds s \<and> open_fds s' = insert i (open_fds s)))"
proof -
  have s: "serves u t s" "has_file s (c_lit ''.'')" "filetype (file_dentry s (c_lit ''.'')) = 1"
    using r by (simp_all add: tests_ready_def)
  have z: "0 \<in> set (c_lit ''.'')" "length (c_lit ''.'') \<le> 2048" by (simp_all add: c_lit_def chars_def)
  show ?thesis
  proof (cases "find (free_fd s) [2..<8]")
    case None
    then have "open_fds s = {2..<8}" unfolding fds_full by (auto simp: open_fds_def)
    moreover obtain s' where "kernel_open u (c_lit ''.'') s = Done (-1, s')" "serves u t s'" "side s' = side s"
      using kernel_open_missing[OF s(1) z] None by blast
    ultimately show ?thesis using tests_ready_side[OF r, of s'] by (auto simp: serves_def)
  next
    case (Some i)
    then have i: "2 \<le> i" "i < 8" "free_fd s i" by (simp_all only: fds_lowest)
    obtain s' where s': "kernel_open u (c_lit ''.'') s = Done (int i, s')" "serves u t s'" "fs s' = fs s"
      "cur_fd (int i) s' = \<lparr>table_ptr = directories_operations,
        inode_num = dentry_inode (file_dentry s (c_lit ''.'')), file_position = 0, flags = ENGAGED\<rparr>"
      "\<forall>j. j \<noteq> i \<longrightarrow> cur_fd (int j) s' = cur_fd (int j) s"
      using kernel_open_file[OF s(1) z(2) s(2) Some] s(3) by (auto simp: type_operations_def)
    have ff: "free_fd s' j \<longleftrightarrow> j \<noteq> i \<and> free_fd s j" for j
      using s'(4,5) by (cases "j = i") (simp_all add: free_fd_def)
    have "open_fds s' = insert i (open_fds s)" unfolding open_fds_def ff using i by auto
    moreover have "i \<notin> open_fds s" using i(3) by (simp add: open_fds_def)
    moreover have "cur_fd 0 s' = cur_fd 0 s" using s'(5)[rule_format, of 0] i(1) by simp
    then have "tests_ready u t s'"
      using r s'(2,4,5) unfolding tests_ready_def ff has_file_def file_dentry_def s'(3)
      by (metis file_desct.select_convs(1))
    moreover have "open_fds s \<noteq> {2..<8}" using i \<open>i \<notin> open_fds s\<close> by auto
    ultimately show ?thesis using s'(1) i(1,2) by auto
  qed
qed

text \<open>The image of the tests is any with a directory entry and without the two names.\<close>

interpretation tested: refusing "kernel_sys u" "\<lambda>x. tests_ready u t (fst x)" "\<lambda>x. open_fds (fst x)" for u t
proof unfold_locales
  fix x :: user_state
  assume r: "tests_ready u t (fst x)"
  note on = tests_ready_side[OF r, of "(fst x)\<lparr>if_flag := True\<rparr>"] ready_serves[OF r]
  show "open_fds (fst x) \<subseteq> {2..<8}" by (auto simp: open_fds_def)
  show "\<exists>y. ece391_fdputs (kernel_sys u) 1 m x = Done y \<and> tests_ready u t (fst y) \<and> open_fds (fst y) = open_fds (fst x)"
    if "0 \<in> set m" "length m \<le> 128" "8 \<notin> set m" for m
    by (rule tests_puts[OF r that])
  show "\<exists>buf' y. sread (kernel_sys u) fd buf 31 x = Done (-1, buf', y) \<and> length buf' = 32 \<and> tests_ready u t (fst y) \<and>
      open_fds (fst y) = open_fds (fst x)"
    if "fd \<noteq> 0" "nat fd \<notin> open_fds (fst x)" "- (2 ^ 31) \<le> fd" "fd < 2 ^ 31" "length buf = 32" for fd buf
    using tests_read[OF r that, of "next_events (snd x)"] by auto
  show "\<exists>y. swrite (kernel_sys u) fd buf 31 x = Done (-1, y) \<and> tests_ready u t (fst y) \<and>
      open_fds (fst y) = open_fds (fst x)"
    if "fd \<noteq> 1" "nat fd \<notin> open_fds (fst x)" "- (2 ^ 31) \<le> fd" "fd < 2 ^ 31" "length buf = 32" for fd buf
    using tests_write[OF r that] by auto
  show "\<exists>y. sclose (kernel_sys u) fd x = Done (if nat fd \<in> open_fds (fst x) then 0 else -1, y) \<and>
      tests_ready u t (fst y) \<and> open_fds (fst y) = open_fds (fst x) - {nat fd}"
    if "- (2 ^ 31) \<le> fd" "fd < 2 ^ 31" for fd
    using tests_close[OF r that] by auto
  show "\<exists>y. sopen (kernel_sys u) name x = Done (-1, y) \<and> tests_ready u t (fst y) \<and> open_fds (fst y) = open_fds (fst x)"
    if "name \<in> {c_lit ''helloo'', c_lit ''shel'', c_lit []}" for name
    using tests_bad_open[OF r that] by auto
  show "\<exists>v y. sopen (kernel_sys u) (c_lit ''.'') x = Done (v, y) \<and> tests_ready u t (fst y) \<and>
      (if open_fds (fst x) = {2..<8} then v = -1 \<and> open_fds (fst y) = open_fds (fst x)
       else v \<noteq> -1 \<and> (\<exists>i. 2 \<le> i \<and> i < 8 \<and> i \<notin> open_fds (fst x) \<and> open_fds (fst y) = insert i (open_fds (fst x))))"
  proof -
    obtain v s' where "kernel_open u (c_lit ''.'') (fst x) = Done (v, s')" "tests_ready u t s'"
      "if open_fds (fst x) = {2..<8} then v = -1 \<and> open_fds s' = open_fds (fst x)
       else v \<noteq> -1 \<and> (\<exists>i. 2 \<le> i \<and> i < 8 \<and> i \<notin> open_fds (fst x) \<and> open_fds s' = insert i (open_fds (fst x)))"
      using tests_open_dot[OF r] by blast
    then show ?thesis by (intro exI[of _ v] exI[of _ "(s', snd x)"]) simp
  qed
  show "\<exists>y. svidmap (kernel_sys u) p x = Done (-1, y) \<and> tests_ready u t (fst y) \<and> open_fds (fst y) = open_fds (fst x)"
    if "p \<in> {0, 0x400000}" for p
  proof -
    have "vidmap_call (unat (of_nat p :: u32)) s = Done (-1, s)" for s using that by (auto simp: vidmap_call_def)
    then have "trap u [] 8 (of_nat p) 0 0 (fst x) = Done (-1, (fst x)\<lparr>if_flag := True\<rparr>)"
      by (simp add: trap_calls(6) do_syscall_in_C_def returns_then)
    then show ?thesis using on by simp
  qed
  show "\<exists>y. snumber (kernel_sys u) eax x = Done (-1, y) \<and> tests_ready u t (fst y) \<and> open_fds (fst y) = open_fds (fst x)"
    if "sint eax < 1 \<or> 11 \<le> sint eax" for eax
    using trap_bad_number[OF that, of u "[]"] on by (cases "other_regs u") simp
qed

end
