(* ===== verification/User_Kept.thy ===== *)
theory User_Kept
  imports User_Kernel
begin

text \<open>
  What the calls of a program leave alone: everything that the other processes, the shell that
  started the program among them, rely on.  \<open>kept s s'\<close> relates the states before and after calls of
  the current process; the interface \<open>keeping_pipe\<close> carries such a relation through the loops of a
  program.
\<close>

section \<open>The frame of a process\<close>

definition held :: "kernel \<Rightarrow> (nat \<times> nat \<times> int) \<times> ((nat \<Rightarrow> u32) \<times> (nat \<Rightarrow> int) \<times> int) \<times>
    (nat \<Rightarrow> (int \<times> int \<times> int) \<times> nat) \<times> (mem \<times> u32 \<times> u32 \<times> mem \<times> int) \<times> (u32 \<times> u32 \<times> u32 \<times> u32)" where
  "held s = ((active_terminal s, displayed_terminal s, done_init_terminal s),
     (page_directory s, pid_array s, curr_pid s),
     (\<lambda>t. (term_core (terminal s t), length (tempbuf (terminal s t)))),
     (fs s, inodesCount s, data_count_blk s, stack_junk s, internalCounter s),
     (caps s, shift_key s, control_key s, alt_key s))"

text \<open>The standard descriptors.\<close>

definition std_fds :: "pcb_t \<Rightarrow> (u32 \<times> op_table) list" where
  "std_fds p = map (\<lambda>i. (flags (file_desc_array p i), table_ptr (file_desc_array p i))) [0, 1]"

definition kept :: "kernel \<Rightarrow> kernel \<Rightarrow> bool" where
  "kept s s' \<longleftrightarrow> held s' = held s \<and> (\<forall>a. a \<noteq> cur_pcb_addr s \<longrightarrow> pcbs s' a = pcbs s a) \<and>
     (\<forall>a. pcb_core (pcbs s' a) = pcb_core (pcbs s a) \<and> std_fds (pcbs s' a) = std_fds (pcbs s a))"

lemma held_cur: "held s' = held s \<Longrightarrow> cur_pcb_addr s' = cur_pcb_addr s"
  by (simp add: held_def cur_pcb_addr_def term_core_def fun_eq_iff)

lemma kept_refl [simp]: "kept s s"
  by (simp add: kept_def)

lemma kept_trans: "kept s s1 \<Longrightarrow> kept s1 s2 \<Longrightarrow> kept s s2"
  using held_cur[of s1 s] by (simp add: kept_def)

lemma held_upd [simp]:
  "held (s\<lparr>if_flag := b\<rparr>) = held s" "held (s\<lparr>phys := m\<rparr>) = held s" "held (s\<lparr>str_len := n\<rparr>) = held s"
  "held (s\<lparr>outs := l\<rparr>) = held s" "held (upd_pcb a g s) = held s" "held (note_verylarge i s) = held s"
  by (simp_all add: held_def upd_pcb_def note_verylarge_def)

lemma held_upd_term [simp]:
  "(\<And>x. term_core (f x) = term_core x \<and> length (tempbuf (f x)) = length (tempbuf x)) \<Longrightarrow> held (upd_term t f s) = held s"
  by (auto simp: held_def upd_term_def)

lemma held_putc [simp]: "held (terminal_putc c tid s) = held s"
  by (rule putc_keeps) (auto simp: held_def no_console_def term_core_def)

lemma held_fold_putc [simp]: "held (fold (\<lambda>c. terminal_putc c tid) cs s) = held s"
  by (induction cs arbitrary: s) simp_all

lemma held_copy_out: "copy_out va bs s = Done s' \<Longrightarrow> held s' = held s \<and> pcbs s' = pcbs s"
  by (auto simp: copy_out_def split: if_splits)

text \<open>Whatever leaves the control blocks alone, and a change of a descriptor behind the first two.\<close>

lemma kept_same: "held s' = held s \<Longrightarrow> pcbs s' = pcbs s \<Longrightarrow> kept s s'"
  by (simp add: kept_def)

lemma kept_fd:
  assumes "2 \<le> i \<or> (\<forall>d. flags (f d) = flags d \<and> table_ptr (f d) = table_ptr d)"
  shows "kept s (upd_pcb (cur_pcb_addr s) (upd_fd i f) s)"
proof -
  let ?s = "upd_pcb (cur_pcb_addr s) (upd_fd i f) s"
  have "held ?s = held s" by simp
  moreover have "pcb_core (pcbs ?s a) = pcb_core (pcbs s a) \<and> std_fds (pcbs ?s a) = std_fds (pcbs s a)" for a
    using assms by (auto simp: upd_pcb_def pcb_core_def upd_fd_def std_fds_def)
  ultimately show ?thesis by (simp only: kept_def) (simp add: upd_pcb_def)
qed

lemma kept_copy_out: "copy_out va bs s = Done s' \<Longrightarrow> kept s s'"
  using held_copy_out by (intro kept_same) auto

lemma kept_if_flag: "kept s (s\<lparr>if_flag := b\<rparr>)"
  by (rule kept_same) simp_all

section \<open>The calls of a program\<close>

lemma terminal_write_kept:
  assumes "terminal_write fd buf n s = Done (r, s')"
  shows "kept s s'"
proof -
  have "kept s (upd_term a (\<lambda>t. t\<lparr>line_length := 0\<rparr>) (fold (\<lambda>c. terminal_putc c tid) cs s))" for a tid cs
  proof (rule kept_same)
    show "pcbs (upd_term a (\<lambda>t. t\<lparr>line_length := 0\<rparr>) (fold (\<lambda>c. terminal_putc c tid) cs s)) = pcbs s"
      by (simp add: pcbs_fold_putc upd_term_def)
  qed simp
  then show ?thesis
    using assms by (auto simp: terminal_write_def Let_def andthen_Done_iff split: if_splits)
qed

lemma read_from_file_kept:
  assumes "read_from_file fd buf n s = Done (r, s')"
  shows "kept s s'"
proof -
  have "kept s x" if "read_data i p False k s = Done (v, bs, x)" for i p k v bs x
    using that by (intro kept_same)
      (auto simp: read_data_def Let_def andthen_Done_iff note_verylarge_def held_def split: if_splits prod.splits)
  then have "kept s y" if "read_data i p False k s = Done (v, bs, x)" "copy_out va bs x = Done y" for i p k v bs x va y
    using that kept_trans[OF _ kept_copy_out] by blast
  then show ?thesis
    using assms by (auto simp: read_from_file_def Let_def andthen_Done_iff split: if_splits)
qed

lemma trap_step:
  assumes "1 \<le> n" "n \<le> 10" "trap u evs (word_of_int n) b c d s = Done (r, s')"
  obtains x where "do_syscall_in_C evs n b c d (user_esp u) (user_ebp u) (s\<lparr>if_flag := True\<rparr>) = Done (Return r, x)"
    "s' = x\<lparr>if_flag := True\<rparr>"
proof -
  obtain k x where x: "do_syscall_in_C evs n b c d (user_esp u) (user_ebp u) (s\<lparr>if_flag := True\<rparr>) = Done (k, x)"
    "(case k of Return r \<Rightarrow> Done (r, x\<lparr>if_flag := True\<rparr>) | _ \<Rightarrow> Blocked) = Done (r, s')"
    using assms(3) unfolding trap_call[OF assms(1,2)] by (auto simp: andthen_Done_iff)
  then have "k = Return r" "s' = x\<lparr>if_flag := True\<rparr>" by (cases k; simp)+
  then show thesis using x(1) that by blast
qed

lemma trap_kept:
  assumes "1 \<le> n" "n \<le> 10" "trap u evs (word_of_int n) b c d s = Done (r, s')"
    and "\<And>k x. do_syscall_in_C evs n b c d (user_esp u) (user_ebp u) (s\<lparr>if_flag := True\<rparr>) = Done (Return k, x) \<Longrightarrow>
      kept (s\<lparr>if_flag := True\<rparr>) x"
  shows "kept s s'"
  using trap_step[OF assms(1-3)] assms(4) kept_trans[OF kept_if_flag kept_trans[OF _ kept_if_flag]] by metis

lemma kernel_write_kept:
  assumes s: "serves u t s" and w: "kernel_write u 1 buf n s = Done (r, s')"
  shows "kept s s'"
proof -
  obtain x where x: "copy_out (buffer_at u) buf s = Done x" "trap u [] (word_of_int 4) (word_of_int 1) (at u) (word_of_int n) x = Done (r, s')"
    using w by (auto simp: kernel_write_def andthen_Done_iff)
  have c: "cur_fd 1 (x\<lparr>if_flag := True\<rparr>) = cur_fd 1 s" by (rule cur_side) (simp add: side_copy_out[OF x(1)])
  have "kept x s'"
  proof (rule trap_kept[OF _ _ x(2)])
    fix k y assume "do_syscall_in_C [] 4 (word_of_int 1) (at u) (word_of_int n) (user_esp u) (user_ebp u) (x\<lparr>if_flag := True\<rparr>) = Done (Return k, y)"
    then have "write_call 1 (unat (at u)) (sint (word_of_int n :: u32)) (x\<lparr>if_flag := True\<rparr>) = Done (k, y)"
      by (simp add: do_syscall_in_C_def returns_Done)
    then show "kept (x\<lparr>if_flag := True\<rparr>) y"
      using s terminal_write_kept by (auto simp: write_call_def c serves_def split: if_splits)
  qed simp_all
  then show ?thesis by (rule kept_trans[OF kept_copy_out[OF x(1)]])
qed

lemma read_call_kept:
  assumes "2 \<le> fd" "fd < 8" "table_ptr (cur_fd fd s) = files_operations" "read_call evs fd buf n s = Done (k, y)"
  shows "kept s y"
proof (cases "buf = 0 \<or> n \<le> 0 \<or> flags (cur_fd fd s) = NOT_ENGAGED")
  case True
  then show ?thesis using assms by (auto simp: read_call_def split: if_splits)
next
  case False
  then obtain z where z: "read_from_file fd buf n s = Done (k, z)"
    "y = upd_pcb (cur_pcb_addr s) (upd_fd (nat fd) (\<lambda>d. d\<lparr>file_position := file_position d + word_of_int k\<rparr>)) z"
    using assms by (auto simp: read_call_def Let_def andthen_Done_iff)
  have k: "kept s z" by (rule read_from_file_kept[OF z(1)])
  then have "cur_pcb_addr s = cur_pcb_addr z" using held_cur[of z s] by (simp add: kept_def)
  moreover have "2 \<le> nat fd" using assms(1) by simp
  ultimately show ?thesis using z(2) kept_trans[OF k kept_fd] by simp
qed

lemma kernel_read_kept:
  assumes s: "serves u t s" and fd: "2 \<le> fd" "fd < 8" "table_ptr (cur_fd fd s) = files_operations"
    and w: "kernel_read u evs fd buf n s = Done (r, buf', s')"
  shows "kept s s'"
proof -
  obtain x where x: "copy_out (buffer_at u) buf s = Done x" "trap u evs (word_of_int 3) (word_of_int fd) (at u) (word_of_int n) x = Done (r, s')"
    using w by (auto simp: kernel_read_def andthen_Done_iff)
  have c: "cur_fd fd (x\<lparr>if_flag := True\<rparr>) = cur_fd fd s" by (rule cur_side) (simp add: side_copy_out[OF x(1)])
  have f: "sint (word_of_int fd :: u32) = fd" by (rule sint_of_int) (use fd in simp_all)
  have "kept x s'"
  proof (rule trap_kept[OF _ _ x(2)])
    fix k y assume "do_syscall_in_C evs 3 (word_of_int fd) (at u) (word_of_int n) (user_esp u) (user_ebp u) (x\<lparr>if_flag := True\<rparr>) = Done (Return k, y)"
    then have "read_call evs fd (unat (at u)) (sint (word_of_int n :: u32)) (x\<lparr>if_flag := True\<rparr>) = Done (k, y)"
      by (simp add: do_syscall_in_C_def returns_Done f)
    then show "kept (x\<lparr>if_flag := True\<rparr>) y" using read_call_kept[OF fd(1,2)] c fd(3) by simp
  qed simp_all
  then show ?thesis by (rule kept_trans[OF kept_copy_out[OF x(1)]])
qed

lemma kernel_open_kept:
  assumes "kernel_open u name s = Done (r, s')"
  shows "kept s s'"
proof -
  obtain x where x: "copy_out (buffer_at u) name s = Done x" "trap u [] (word_of_int 5) (at u) 0 0 x = Done (r, s')"
    using assms by (auto simp: kernel_open_def andthen_Done_iff)
  have o: "kept y z" if "open_call f y = Done (k, z)" for f y k z
  proof -
    have "kept y (engage_fd i d y)" if "find (free_fd y) [2..<8] = Some i" for i d
    proof -
      have "2 \<le> i" using that by (simp only: fds_lowest)
      then show ?thesis unfolding engage_fd_def by (intro kept_fd) simp
    qed
    moreover have "z = y \<or> (\<exists>i d. find (free_fd y) [2..<8] = Some i \<and> z = engage_fd i d y)"
      using that by (cases f; cases "find (free_fd y) [2..<8]")
        (auto simp: open_call_def andthen_Done_iff simp del: upt_rec_numeral split: option.split_asm)
    ultimately show ?thesis by auto
  qed
  have "kept x s'"
    by (rule trap_kept[OF _ _ x(2)]) (auto simp: do_syscall_in_C_def returns_Done andthen_Done_iff o split: if_splits)
  then show ?thesis by (rule kept_trans[OF kept_copy_out[OF x(1)]])
qed

lemma kernel_getargs_kept:
  assumes "kernel_getargs u buf n s = Done (r, buf', s')"
  shows "kept s s'"
proof -
  obtain x where x: "copy_out (buffer_at u) buf s = Done x" "trap u [] (word_of_int 7) (at u) (word_of_int n) 0 x = Done (r, s')"
    using assms by (auto simp: kernel_getargs_def andthen_Done_iff)
  have "kept y z" if "getargs_call a k y = Done (v, z)" for a k y v z
    using that kept_trans[OF kept_copy_out kept_copy_out] by (auto simp: getargs_call_def andthen_Done_iff split: if_splits)
  then have "kept x s'"
    by (intro trap_kept[OF _ _ x(2)]) (auto simp: do_syscall_in_C_def returns_Done)
  then show ?thesis by (rule kept_trans[OF kept_copy_out[OF x(1)]])
qed

text \<open>A read of the directory moves the counter of the names besides.\<close>

definition kept_but_counter :: "kernel \<Rightarrow> kernel \<Rightarrow> bool" where
  "kept_but_counter s s' \<longleftrightarrow> kept s (s'\<lparr>internalCounter := internalCounter s\<rparr>)"

lemma cur_counter [simp]:
  "cur_pcb_addr (s\<lparr>internalCounter := n\<rparr>) = cur_pcb_addr s" "cur_fd fd (s\<lparr>internalCounter := n\<rparr>) = cur_fd fd s"
  by (simp_all add: cur_pcb_addr_def cur_fd_def)

lemma kept_but_counter_trans: "kept_but_counter s s1 \<Longrightarrow> kept_but_counter s1 s2 \<Longrightarrow> kept_but_counter s s2"
  using held_cur[of "s1\<lparr>internalCounter := internalCounter s\<rparr>" s]
  by (simp add: kept_but_counter_def kept_def) (simp add: held_def)

lemma kept_counter:
  "kept s s' \<Longrightarrow> kept_but_counter s s'" "kept_but_counter s (s\<lparr>internalCounter := n\<rparr>)"
  "kept_but_counter s s' \<Longrightarrow> internalCounter s' = internalCounter s \<Longrightarrow> kept s s'"
  by (simp_all add: kept_but_counter_def kept_def) (simp_all add: held_def)

lemma kernel_read_directory:
  assumes s: "serves u t s" and fd: "2 \<le> fd" "fd < 8" "table_ptr (cur_fd fd s) = directories_operations"
    and w: "kernel_read u evs fd buf n s = Done (r, buf', s')"
  shows "kept_but_counter s s'" "r = 0 \<Longrightarrow> internalCounter s' = 0"
proof -
  obtain x where x: "copy_out (buffer_at u) buf s = Done x" "trap u evs (word_of_int 3) (word_of_int fd) (at u) (word_of_int n) x = Done (r, s')"
    using w by (auto simp: kernel_read_def andthen_Done_iff)
  define y where "y = x\<lparr>if_flag := True\<rparr>"
  have ky: "kept s y" unfolding y_def by (rule kept_trans[OF kept_copy_out[OF x(1)] kept_if_flag])
  have c: "cur_fd fd y = cur_fd fd s" unfolding y_def by (rule cur_side) (simp add: side_copy_out[OF x(1)])
  have f: "sint (word_of_int fd :: u32) = fd" by (rule sint_of_int) (use fd in simp_all)
  obtain z where z: "do_syscall_in_C evs 3 (word_of_int fd) (at u) (word_of_int n) (user_esp u) (user_ebp u) y = Done (Return r, z)"
    "s' = z\<lparr>if_flag := True\<rparr>"
    using trap_step[OF _ _ x(2)] by (auto simp: y_def)
  then have rd: "read_call evs fd (unat (at u)) (sint (word_of_int n :: u32)) y = Done (r, z)"
    by (simp add: do_syscall_in_C_def returns_Done f)
  have "kept_but_counter y z \<and> (r = 0 \<longrightarrow> internalCounter z = 0)"
  proof (cases "unat (at u) = 0 \<or> sint (word_of_int n :: u32) \<le> 0 \<or> flags (cur_fd fd y) = NOT_ENGAGED")
    case True
    then show ?thesis using rd fd kept_counter(1)[of z z] by (auto simp: read_call_def c split: if_splits)
  next
    case False
    then obtain v where v: "read_from_directory fd (unat (at u)) (sint (word_of_int n :: u32)) y = Done (r, v)"
      "z = upd_pcb (cur_pcb_addr y) (upd_fd (nat fd) (\<lambda>d. d\<lparr>file_position := file_position d + word_of_int r\<rparr>)) v"
      using rd fd by (auto simp: read_call_def c Let_def andthen_Done_iff)
    have v1: "kept_but_counter y v" "r = 0 \<longrightarrow> internalCounter v = 0"
      using v(1) kept_counter(2) kept_but_counter_trans[OF kept_counter(1)[OF kept_copy_out] kept_counter(2)]
      by (auto simp: read_from_directory_def Let_def andthen_Done_iff split: if_splits)
    have "cur_pcb_addr v = cur_pcb_addr y"
      using held_cur[of "v\<lparr>internalCounter := internalCounter y\<rparr>" y] v1(1) by (simp add: kept_but_counter_def kept_def)
    moreover have "2 \<le> nat fd" using fd(1) by simp
    ultimately have "kept v z" using kept_fd[of "nat fd" _ v] by (simp add: v(2))
    then show ?thesis
      using kept_but_counter_trans[OF v1(1) kept_counter(1)] v1(2) by (auto simp: v(2) upd_pcb_def)
  qed
  then show "kept_but_counter s s'" "r = 0 \<Longrightarrow> internalCounter s' = 0"
    using kept_but_counter_trans[OF kept_counter(1)[OF ky] kept_but_counter_trans[OF _ kept_counter(1)[OF kept_if_flag]]]
    by (auto simp: z(2))
qed

section \<open>A pipe that keeps more\<close>

locale keeping_pipe = pipe sys ok view emit fine room fd size input
  for sys :: "'s sys" and ok :: "'s \<Rightarrow> bool" and view :: "'s \<Rightarrow> 'v" and emit :: "u8 \<Rightarrow> 'v \<Rightarrow> 'v"
    and fine :: "u8 \<Rightarrow> bool" and room :: nat and fd :: int and size :: nat and input :: "'s \<Rightarrow> u8 list list" +
  fixes more :: "'s \<Rightarrow> bool"
  assumes keep_write: "ok s \<Longrightarrow> more s \<Longrightarrow> swrite sys 1 buf n s = Done (r, s') \<Longrightarrow> more s'"
    and keep_read: "ok s \<Longrightarrow> more s \<Longrightarrow> sread sys fd buf n s = Done (r, buf', s') \<Longrightarrow> more s'"

sublocale keeping_pipe \<subseteq> keeps: pipe sys "\<lambda>s. ok s \<and> more s" view emit fine room fd size input
proof unfold_locales
  fix s n buf
  assume a: "ok s \<and> more s" "n \<le> length buf" "length buf \<le> room" "list_all fine (take n buf)"
  then show "\<exists>r s'. swrite sys 1 buf (int n) s = Done (r, s') \<and> (0 < n \<longrightarrow> r \<noteq> -1) \<and> (ok s' \<and> more s') \<and>
      view s' = fold emit (take n buf) (view s)"
    using write_out[of s n buf] keep_write by blast
  fix r s'
  show "swrite sys 1 buf (int n) s = Done (r, s') \<Longrightarrow> input s' = input s"
    using write_input[of s n buf] a by blast
next
  show "ok s \<and> more s \<Longrightarrow> c \<in> set (input s) \<Longrightarrow> c \<noteq> [] \<and> length c \<le> size" for s c using chunks by blast
next
  fix s c cs and buf :: "u8 list"
  assume "ok s \<and> more s" "input s = c # cs" "size \<le> length buf" "length buf \<le> room"
  then show "\<exists>rest s'. sread sys fd buf (int size) s = Done (int (length c), c @ rest, s') \<and>
      length (c @ rest) = length buf \<and> (ok s' \<and> more s') \<and> view s' = view s \<and> input s' = cs"
    using read_chunk[of s c cs buf] keep_read by blast
next
  fix s n and buf :: "u8 list"
  assume "ok s \<and> more s" "input s = []" "0 < n" "n \<le> length buf" "length buf \<le> room"
  then show "\<exists>buf' s'. sread sys fd buf (int n) s = Done (0, buf', s') \<and> length buf' = length buf \<and>
      (ok s' \<and> more s') \<and> view s' = view s"
    using read_end[of s n buf] keep_read by blast
qed

interpretation file_kept: keeping_pipe "kernel_sys u" "\<lambda>x. serves u t (fst x) \<and> reads_file fd inode n (fst x)"
    "\<lambda>x. screen_of t (fst x)" scr_putc "\<lambda>c. c \<noteq> BACKSPACE" 2048 fd n "\<lambda>x. chunks_left fd n (fst x)"
    "\<lambda>x. kept s0 (fst x)" for u t fd inode n s0
proof unfold_locales
  fix x y :: user_state and buf m r
  assume "serves u t (fst x) \<and> reads_file fd inode n (fst x)" "kept s0 (fst x)" "swrite (kernel_sys u) 1 buf m x = Done (r, y)"
  then show "kept s0 (fst y)"
    by (auto simp: with_events_def andthen_Done_iff intro: kept_trans[OF _ kernel_write_kept[of u t]])
next
  fix x y :: user_state and buf m r buf'
  assume "serves u t (fst x) \<and> reads_file fd inode n (fst x)" "kept s0 (fst x)" "sread (kernel_sys u) fd buf m x = Done (r, buf', y)"
  then show "kept s0 (fst y)"
    by (auto simp: andthen_Done_iff reads_file_def intro: kept_trans[OF _ kernel_read_kept[of u t]])
qed

interpretation dir_kept: keeping_pipe "kernel_sys u" "\<lambda>x. serves u t (fst x) \<and> reads_directory fd (fst x)"
    "\<lambda>x. screen_of t (fst x)" scr_putc "\<lambda>c. c \<noteq> BACKSPACE" 2048 fd 32 "\<lambda>x. names_left (fst x)"
    "\<lambda>x. kept_but_counter s0 (fst x)" for u t fd s0
proof unfold_locales
  fix x y :: user_state and buf m r
  assume "serves u t (fst x) \<and> reads_directory fd (fst x)" "kept_but_counter s0 (fst x)" "swrite (kernel_sys u) 1 buf m x = Done (r, y)"
  then show "kept_but_counter s0 (fst y)"
    by (auto simp: with_events_def andthen_Done_iff intro: kept_but_counter_trans[OF _ kept_counter(1)[OF kernel_write_kept[of u t]]])
next
  fix x y :: user_state and buf m r buf'
  assume "serves u t (fst x) \<and> reads_directory fd (fst x)" "kept_but_counter s0 (fst x)" "sread (kernel_sys u) fd buf m x = Done (r, buf', y)"
  then show "kept_but_counter s0 (fst y)"
    by (auto simp: andthen_Done_iff reads_directory_def intro: kept_but_counter_trans[OF _ kernel_read_directory(1)[of u t]])
qed

end
