(* ===== verification/User_Runs.thy ===== *)
theory User_Runs
  imports User_Kept User_Grep
begin

text \<open>
  Whole runs of the user programs on the kernel: cat and ls with their arguments, files and
  screens, the error tests, and what \<open>execute\<close> can return to the shell.
\<close>

section \<open>Arguments\<close>

lemma serves_copy_out:
  assumes "serves u t s" "copy_out va bs s = Done s'"
  shows "serves u t s'" "side s' = side s" "screen_of t s' = screen_of t s" "internalCounter s' = internalCounter s"
proof -
  obtain m where s': "s' = s\<lparr>phys := m\<rparr>" using copy_out_frame[OF assms(2)] by blast
  have t: "t < 3" "console_ok t s" using assms(1) by (simp_all add: serves_def)
  show "side s' = side s" by (rule side_copy_out[OF assms(2)])
  then show "serves u t s'" by (rule serves_side[OF assms(1)]) (use t(2) in \<open>simp add: s' console_ok_def\<close>)
  show "screen_of t s' = screen_of t s" by (rule screen_copy_out[OF assms t(1)])
  show "internalCounter s' = internalCounter s" by (simp add: s')
qed

definition args_of :: "kernel \<Rightarrow> u8 list" where
  "args_of s = cstr (terminal_cmd (pcbs s (cur_pcb_addr s)))"

lemma kernel_getargs_args:
  assumes s: "serves u t s" and a: "0 \<in> set (terminal_cmd (pcbs s (cur_pcb_addr s)))"
    and b: "length buf = n" "0 < n" "n \<le> 2048" "length (args_of s) < n"
  shows "\<exists>s'. kernel_getargs u buf (int n) s = Done (if args_of s = [] then -1 else 0,
      args_of s @ replicate (n - length (args_of s)) 0, s') \<and>
    serves u t s' \<and> side s' = side s \<and> screen_of t s' = screen_of t s \<and> internalCounter s' = internalCounter s"
proof -
  have lb: "length buf \<le> 2048" using b by simp
  obtain x y where x: "copy_out (buffer_at u) buf s = Done x" "y = x\<lparr>if_flag := True\<rparr>" and y: "side y = side s"
    "console_ok t y" "screen_of t y = screen_of t s" "internalCounter y = internalCounter s"
    "copy_in (buffer_at u) (length buf) y = Done buf" "serves u t y"
    by (rule read_begin[OF s lb])
  have p: "pcbs y (cur_pcb_addr y) = pcbs s (cur_pcb_addr s)"
    using y(1) cur_side(1)[OF y(1)] by (simp add: side_def)
  obtain z where z: "getargs_call (buffer_at u) (int n) y = Done (if args_of s = [] then -1 else 0, z)"
    "copy_in (buffer_at u) n z = Done (args_of s @ replicate (n - length (args_of s)) 0)"
    using getargs_correct[of "buffer_at u" "int n" y] unat_at[OF s] b serves_user[OF y(6) b(3)] a
    by (auto simp: p args_of_def)
  from z(1) obtain bs v where v: "copy_out (buffer_at u) (replicate n 0) y = Done v"
    "copy_out (buffer_at u) bs v = Done z"
    using unat_at[OF s] by (auto simp: getargs_call_def andthen_Done_iff)
  note v1 = serves_copy_out[OF y(6) v(1)]
  note v2 = serves_copy_out[OF v1(1) v(2)]
  have sn: "sint (of_nat n :: u32) = int n" by (rule sint_of_nat) (use b in simp)
  let ?s' = "z\<lparr>if_flag := True\<rparr>"
  have "copy_in (buffer_at u) (length buf) ?s' = Done (args_of s @ replicate (n - length (args_of s)) 0)"
    using z(2) copy_in_cong[of ?s' z] b(1) by simp
  then have "kernel_getargs u buf (int n) s = Done (if args_of s = [] then -1 else 0,
      args_of s @ replicate (n - length (args_of s)) 0, ?s')"
    using unat_at[OF s] z(1) sn
    by (simp add: kernel_getargs_def x(1) trap_calls(5) x(2)[symmetric] do_syscall_in_C_def returns_then)
  moreover have "serves u t ?s'" by (rule serves_side[OF v2(1)]) (use v2(1) in \<open>simp_all add: serves_def\<close>)
  ultimately show ?thesis using v1 v2 y(1,3,4) by auto
qed

section \<open>cat\<close>

definition names_file :: "kernel \<Rightarrow> u8 list \<Rightarrow> u32 \<Rightarrow> bool" where
  "names_file s name inode \<longleftrightarrow> has_file s name \<and> filetype (file_dentry s name) = 2 \<and>
     dentry_inode (file_dentry s name) = inode \<and> inode \<le> inodesCount s \<and> inode \<noteq> verylarge_inode s \<and>
     unat (inode_length (fs s) inode) < 2 ^ 30 \<and> readable s inode 0 (unat (inode_length (fs s) inode) + 1024)"

lemma names_file_cong:
  assumes "names_file s a inode" "cstr b = cstr a" "0 \<in> set b" "side s' = side s"
  shows "names_file s' b inode" "chunks_from s' inode n pos = chunks_from s inode n pos"
proof -
  note ff = file_facts_side[OF assms(4)]
  have "has_file s a" using assms(1) by (simp add: names_file_def)
  note hf = has_file_cong[OF assms(2,3) ff(4) this]
  show "names_file s' b inode" using assms(1) hf ff by (simp add: names_file_def readable_def)
  show "chunks_from s' inode n pos = chunks_from s inode n pos" by (rule chunks_from_cong) (simp_all add: ff)
qed

lemma open_readable:
  assumes s: "serves u t s" and f: "names_file s name inode" "length name \<le> 2048" and slot: "find (free_fd s) [2..<8] = Some i"
    and n: "0 < n" "n \<le> 1024"
  shows "\<exists>y. kernel_open u name s = Done (int i, y) \<and> serves u t y \<and> screen_of t y = screen_of t s \<and>
    reads_file (int i) inode n y \<and> chunks_left (int i) n y = chunks_from s inode n 0 \<and> others_kept i s y"
proof -
  have hf: "has_file s name" "filetype (file_dentry s name) = 2" "dentry_inode (file_dentry s name) = inode"
    "inode \<le> inodesCount s" "inode \<noteq> verylarge_inode s" "unat (inode_length (fs s) inode) < 2 ^ 30"
    "readable s inode 0 (unat (inode_length (fs s) inode) + 1024)" using f(1) by (simp_all add: names_file_def)
  have i: "2 \<le> i" "i < 8" using slot by (simp_all only: fds_lowest)
  obtain y where y: "kernel_open u name s = Done (int i, y)" "serves u t y" "screen_of t y = screen_of t s"
    "fs y = fs s" "inodesCount y = inodesCount s" "data_count_blk y = data_count_blk s" "stack_junk y = stack_junk s"
    "cur_fd (int i) y = \<lparr>table_ptr = files_operations, inode_num = inode, file_position = 0, flags = ENGAGED\<rparr>"
    "\<forall>j. j \<noteq> i \<longrightarrow> cur_fd (int j) y = cur_fd (int j) s"
    using kernel_open_file[OF s f(2) hf(1) slot] hf(2,3) by (auto simp: type_operations_def)
  have o: "others_kept i s y" by (simp add: others_kept_def y)
  note fb = others_keptD(1-3)[OF o]
  have "readable y inode 0 (unat (inode_length (fs s) inode) + n)" using hf(7) n fb(2) by (simp add: readable_def)
  then have "reads_file (int i) inode n y"
    using i y(8) hf(4,5,6) n by (simp add: reads_file_def y(4,5) fb(3))
  moreover have "chunks_left (int i) n y = chunks_from s inode n 0"
    using y(8) chunks_from_cong[OF y(4)] fb(1) by (simp add: chunks_left_def)
  ultimately show ?thesis using y(1,2,3) o by blast
qed

lemma open_ordinary:
  assumes "serves u t s" "names_file s name inode" "length name \<le> 2048" "find (free_fd s) [2..<8] = Some i"
  shows "\<exists>y. kernel_open u name s = Done (int i, y) \<and> serves u t y \<and> screen_of t y = screen_of t s \<and>
    reads_file (int i) inode 1024 y \<and> chunks_left (int i) 1024 y = chunks_from s inode 1024 0"
  using open_readable[OF assms, of 1024] by auto

text \<open>\<open>cat\<close> prints the chunks of the file that its argument names, and returns 0.\<close>

lemma cat_runs:
  assumes s: "serves u t s" and a: "0 \<in> set (terminal_cmd (pcbs s (cur_pcb_addr s)))" "length (args_of s) < 1024"
    and f: "names_file s (args_of s @ [0]) inode" and slot: "find (free_fd s) [2..<8] = Some i"
    and b: "length buf = 1024" and c: "BACKSPACE \<notin> set (concat (chunks_from s inode 1024 0))"
  shows "\<exists>s' w'. cat_main (kernel_sys u) buf (s, w) = Some (Done (0, (s', w'))) \<and> serves u t s' \<and>
    screen_of t s' = fold scr_putc (concat (chunks_from s inode 1024 0)) (screen_of t s) \<and> kept s s'"
proof -
  let ?n = "args_of s @ [0]" and ?buf = "args_of s @ replicate (1024 - length (args_of s)) 0"
  have nz: "0 \<notin> set (args_of s)" by (simp add: args_of_def cstr_no_nul)
  then have "cstr ?n = args_of s" using cstr_append_nul[of "args_of s" "[]"] by simp
  then have ne: "args_of s \<noteq> []" using f by (auto simp: names_file_def has_file_def)
  obtain x where x: "kernel_getargs u buf 1024 s = Done (0, ?buf, x)" "serves u t x" "side x = side s"
    "screen_of t x = screen_of t s"
    using kernel_getargs_args[OF s a(1) b] a(2) ne by auto
  have "?buf = args_of s @ 0 # replicate (1023 - length (args_of s)) 0"
    using a(2) by (simp add: Cons_replicate_eq replicate_Suc[symmetric] Suc_diff_le del: replicate_Suc)
  then have cb: "cstr ?buf = cstr ?n" "0 \<in> set ?buf"
    using cstr_append_nul[OF nz] by simp_all
  note fx = names_file_cong[OF f cb x(3)]
  have slx: "find (free_fd x) [2..<8] = Some i" using slot free_fd_side[OF x(3)] by simp
  have lb: "length ?buf \<le> 2048" using a(2) by simp
  obtain y where y: "kernel_open u ?buf x = Done (int i, y)" "serves u t y" "screen_of t y = screen_of t x"
    "reads_file (int i) inode 1024 y" "chunks_left (int i) 1024 y = chunks_from s inode 1024 0"
    using open_ordinary[OF x(2) fx(1) lb slx] fx(2) by auto
  have "list_all (\<lambda>c. c \<noteq> BACKSPACE) (concat (chunks_left (int i) 1024 (fst (y, w))))"
    using c by (auto simp: list_all_iff y(5))
  moreover have "kept s y"
    by (rule kept_trans[OF kernel_getargs_kept[OF x(1)] kernel_open_kept[OF y(1)]])
  ultimately obtain v where v: "cat_loop (kernel_sys u) (int i) ?buf (y, w) = Some (Done (0, v))" "serves u t (fst v)"
    "screen_of t (fst v) = fold scr_putc (concat (chunks_from s inode 1024 0)) (screen_of t y)" "kept s (fst v)"
    using file_kept.keeps.cat_prints[of 1024 u t "(y, w)" "int i" inode s ?buf] y(2,4,5) a(2) by auto
  have "cat_main (kernel_sys u) buf (s, w) = Some (Done (0, v))"
    using x(1) y(1) v(1) by (simp add: cat_main_def)
  then show ?thesis using v(2,3,4) y(3) x(4) by (metis prod.collapse)
qed

text \<open>How much that is: all of a file of up to 1024 bytes, whole blocks of 1024 bytes of a longer one.\<close>

lemma concat_chunks:
  assumes "0 < k" "k = min n (unat (inode_length (fs s) inode))"
  shows "\<exists>m. concat (chunks_from s inode n pos) = map (file_byte s inode) [pos..<pos + k * m] \<and>
    unat (inode_length (fs s) inode) \<le> pos + k * m \<and> (m = 0 \<or> pos + k * (m - 1) < unat (inode_length (fs s) inode))"
  using assms
proof (induction s inode n pos rule: chunks_from.induct)
  case (1 s inode n pos)
  let ?L = "unat (inode_length (fs s) inode)"
  show ?case
  proof (cases "?L \<le> pos \<or> n = 0")
    case True
    then show ?thesis using 1(2,3) by (intro exI[of _ 0]) (auto simp: chunks_from.simps)
  next
    case False
    then obtain m where m: "concat (chunks_from s inode n (pos + k)) = map (file_byte s inode) [pos + k..<pos + k + k * m]"
      "?L \<le> pos + k + k * m" "m = 0 \<or> pos + k + k * (m - 1) < ?L" using 1 by auto
    have "concat (chunks_from s inode n pos) = map (file_byte s inode) ([pos..<pos + k] @ [pos + k..<pos + k + k * m])"
      using False m(1) 1(3) by (subst chunks_from.simps) simp
    also have "[pos..<pos + k] @ [pos + k..<pos + k + k * m] = [pos..<pos + k * Suc m]"
      using upt_add_eq_append[of pos "pos + k" "k * m"] by (simp add: add.assoc)
    finally show ?thesis using m(2,3) False by (intro exI[of _ "Suc m"]) (cases m, auto simp: add.assoc)
  qed
qed

lemma long_file_chunks:
  assumes "1024 < unat (inode_length (fs s) inode)"
  shows "\<exists>m. concat (chunks_from s inode 1024 0) = map (file_byte s inode) [0..<1024 * m] \<and>
    unat (inode_length (fs s) inode) \<le> 1024 * m \<and> 1024 * m < unat (inode_length (fs s) inode) + 1024"
proof -
  obtain m where "concat (chunks_from s inode 1024 0) = map (file_byte s inode) [0..<1024 * m]"
    "unat (inode_length (fs s) inode) \<le> 1024 * m" "m = 0 \<or> 1024 * (m - 1) < unat (inode_length (fs s) inode)"
    using concat_chunks[of 1024 1024 s inode 0] assms by auto
  then show ?thesis using assms by (intro exI[of _ m]) (cases m, auto)
qed

section \<open>grep\<close>

lemma kernel_close_file:
  assumes s: "serves u t s" "reads_file fd inode n s"
  shows "\<exists>s'. trap u [] 6 (word_of_int fd) 0 0 s = Done (0, s') \<and> screen_of t s' = screen_of t s"
proof -
  obtain i where i: "fd = int i" "2 \<le> i" "i < 8" "flags (cur_fd (int i) s) = ENGAGED"
    "table_ptr (cur_fd (int i) s) = files_operations"
    using s(2) nonneg_int_cases[of fd] by (auto simp: reads_file_def)
  define y where "y = s\<lparr>if_flag := True\<rparr>"
  have y: "side y = side s" by (simp add: y_def)
  have "close_call fd y = Done (0, release_fd i y)"
    using close_call_eq[of fd y] i cur_side(2)[OF y] by (simp add: close_file_def)
  moreover have "sint (word_of_int fd :: u32) = fd" by (rule sint_of_int) (use i in simp_all)
  ultimately have "trap u [] 6 (word_of_int fd) 0 0 s = Done (0, (release_fd i y)\<lparr>if_flag := True\<rparr>)"
    by (simp add: trap_calls(4) y_def[symmetric] do_syscall_in_C_def returns_then)
  moreover have "screen_of t (release_fd i y) = screen_of t s"
    by (simp add: release_fd_def upd_pcb_def screen_of_def vid_base_def y_def)
  ultimately show ?thesis by auto
qed

interpretation file_grep: greppable "kernel_sys u" "\<lambda>x. serves u t (fst x) \<and> reads_file fd inode n (fst x)"
    "\<lambda>x. screen_of t (fst x)" scr_putc "\<lambda>c. c \<noteq> BACKSPACE" 2048 fd n "\<lambda>x. chunks_left fd n (fst x)"
  for u t fd inode n
proof unfold_locales
  fix x :: user_state
  assume "serves u t (fst x) \<and> reads_file fd inode n (fst x)"
  then obtain s' where "trap u [] 6 (word_of_int fd) 0 0 (fst x) = Done (0, s')" "screen_of t s' = screen_of t (fst x)"
    using kernel_close_file by blast
  then show "\<exists>r y. sclose (kernel_sys u) fd x = Done (r, y) \<and> r \<noteq> -1 \<and> screen_of t (fst y) = screen_of t (fst x)"
    by simp
qed

text \<open>\<open>grep\<close> on a file of at most 1024 bytes prints the lines that match, and nothing else.\<close>

lemma grep_runs:
  assumes s: "serves u t s" and f: "names_file s name inode" "length name \<le> 2048"
    and slot: "find (free_fd s) [2..<8] = Some i"
    and len: "inode_length (fs s) inode \<noteq> 0" "unat (inode_length (fs s) inode) \<le> 1024"
    and str: "0 \<in> set str" and d: "length data = 1025"
    and c: "0 \<notin> set (file_content s inode)" "BACKSPACE \<notin> set (file_content s inode)" "BACKSPACE \<notin> set (cstr name)"
  shows "\<exists>s' w'. do_one_file (kernel_sys u) str name data (s, w) = Some (Done (0, (s', w'))) \<and>
    screen_of t s' = fold scr_putc (grep_text (cstr str) (cstr name) (file_content s inode)) (screen_of t s)"
proof -
  obtain y where y: "kernel_open u name s = Done (int i, y)" "serves u t y" "screen_of t y = screen_of t s"
    "reads_file (int i) inode 1024 y" "chunks_left (int i) 1024 y = [file_content s inode]"
    using open_ordinary[OF s f slot] small_file_chunks[OF len(2,1)] by auto
  have z: "0 \<in> set name" using f(1) by (simp add: names_file_def has_file_def)
  have "list_all (\<lambda>c. c \<noteq> BACKSPACE) (cstr name @ chars '':'' @ file_content s inode @ [10])"
    using c by (auto simp: list_all_iff chars_def)
  then obtain v where v: "grep_loop (kernel_sys u) str (length (cstr str)) name (int i) data 0 (y, w) = Some (Done (0, v))"
    "screen_of t (fst v) = fold scr_putc (grep_text (cstr str) (cstr name) (file_content s inode)) (screen_of t y)"
    using file_grep.grep_prints[of 1024 u t "(y, w)" "int i" inode "file_content s inode" data name str] y(2,4,5) d f(2) str z c(1)
    by auto
  have "do_one_file (kernel_sys u) str name data (s, w) = Some (Done (0, v))"
    using y(1) v(1) str by (simp add: do_one_file_def ece391_strlen_cstr)
  then show ?thesis using v(2) y(3) by (metis prod.collapse)
qed

section \<open>ls\<close>

text \<open>\<open>ls\<close> prints the 17 names, 32 bytes and a newline each, and returns 0.\<close>

lemma ls_runs:
  assumes s: "serves u t s" and d: "has_file s (c_lit ''.'')" "filetype (file_dentry s (c_lit ''.'')) = 1"
    and slot: "find (free_fd s) [2..<8] = Some i" and z: "internalCounter s = 0" and b: "length buf = 33"
    and c: "\<And>j. j < 17 \<Longrightarrow> BACKSPACE \<notin> set (filename (dentry_at (fs s) j))"
  shows "\<exists>s' w'. ls_main (kernel_sys u) buf (s, w) = Some (Done (0, (s', w'))) \<and> serves u t s' \<and>
    screen_of t s' = fold scr_putc (concat (map (\<lambda>j. filename (dentry_at (fs s) j) @ [10]) [0..<17])) (screen_of t s) \<and> kept s s'"
proof -
  have l: "length (c_lit ''.'') \<le> 2048" by (simp add: c_lit_def chars_def)
  have i: "2 \<le> i" "i < 8" using slot by (simp_all only: fds_lowest)
  obtain y where y: "kernel_open u (c_lit ''.'') s = Done (int i, y)" "serves u t y" "screen_of t y = screen_of t s"
    "internalCounter y = internalCounter s" "fs y = fs s"
    "cur_fd (int i) y = \<lparr>table_ptr = directories_operations, inode_num = dentry_inode (file_dentry s (c_lit ''.'')),
       file_position = 0, flags = ENGAGED\<rparr>"
    using kernel_open_file[OF s l d(1) slot] d(2) by (auto simp: type_operations_def)
  have rd: "reads_directory (int i) y" using i y(4,6) z by (simp add: reads_directory_def)
  have nl: "names_left y = map (\<lambda>j. filename (dentry_at (fs s) j)) [0..<17]" using y(4,5) z by (simp add: names_left_def del: upt_rec_numeral)
  have "list_all (\<lambda>c. c \<noteq> BACKSPACE) (concat (names_left y))"
    unfolding list_all_iff nl using c by (auto simp del: upt_rec_numeral)
  moreover have "kept s y" by (rule kernel_open_kept[OF y(1)])
  ultimately obtain v x b1 b2 where v: "ls_loop (kernel_sys u) (int i) buf (y, w) = Some (Done (0, v))" "serves u t (fst v)"
    "screen_of t (fst v) = fold scr_putc (concat (map (\<lambda>c. c @ [10]) (names_left y))) (screen_of t y)"
    "kept_but_counter s (fst v)" "sread (kernel_sys u) (int i) b1 (int 32) x = Done (0, b2, v)"
    "serves u t (fst x)" "reads_directory (int i) (fst x)"
    using dir_kept.keeps.ls_prints[of u t "(y, w)" "int i" s buf] y(2) rd b kept_counter(1) by auto
  have "internalCounter (fst v) = 0"
    using v(5,7) kernel_read_directory(2)[OF v(6), of "int i"] by (auto simp: andthen_Done_iff reads_directory_def)
  then have kv: "kept s (fst v)" by (intro kept_counter(3)[OF v(4)]) (simp add: z)
  have "ls_main (kernel_sys u) buf (s, w) = Some (Done (0, v))"
    using y(1) v(1) by (simp add: ls_main_def)
  moreover have "screen_of t (fst v) =
      fold scr_putc (concat (map (\<lambda>j. filename (dentry_at (fs s) j) @ [10]) [0..<17])) (screen_of t s)"
    using v(3) y(3) by (simp add: nl comp_def del: upt_rec_numeral)
  ultimately show ?thesis using v(2) kv by (metis prod.collapse)
qed

section \<open>What execute returns\<close>

lemma execute_call_value: "execute_call command esp ebp s = Done (Return r, s') \<Longrightarrow> r = -1"
  by (auto simp: execute_call_unfold start_program_def Let_def andthen_Done_iff split: if_splits option.splits)

lemma execute_no_resume: "execute_call command esp ebp s \<noteq> Done (Resume r a b, s')"
  by (auto simp: execute_call_unfold start_program_def Let_def andthen_Done_iff split: if_splits option.splits)

lemma halt_shell_no_resume: "halt_shell esp ebp s \<noteq> Done (Resume r a b, s')"
  by (auto simp: halt_shell_def Let_def execute_no_resume dest!: void_call)

lemma halt_call_value: "halt_call status esp ebp s = Done (Resume r a b, s') \<Longrightarrow> r = ucast status"
  by (auto simp: halt_call_def halt_process_def Let_def halt_shell_no_resume split: if_splits)

lemma status_value: "sint (ucast (b :: u8) :: u32) = uint b"
proof -
  have u: "unat (ucast b :: u32) = unat b" by (simp add: unsigned_ucast_eq take_bit_nat_eq_self less_trans[OF unsigned_less])
  moreover have "unat b < 256" using unsigned_less[of b] by simp
  ultimately have "sint (ucast b :: u32) = int (unat b)" using sint_u32[of "ucast b"] u by simp
  then show ?thesis by simp
qed

lemma syscall_entry_control:
  assumes "syscall_entry evs eax b c d esp ebp s = Done (k, s')" "1 \<le> sint eax" "sint eax \<le> 10"
  shows "\<exists>x y. do_syscall_in_C evs (sint eax) b c d esp ebp x = Done (k, y)"
proof -
  obtain k0 y where y: "do_syscall_in_C evs (sint eax) b c d esp ebp (sti (cli s)) = Done (k0, y)"
    "(case k0 of Return r \<Rightarrow> Done (Return r, sti (cli y)) | _ \<Rightarrow> Done (k0, y)) = Done (k, s')"
    using assms by (auto simp: syscall_entry_def Let_def andthen_Done_iff)
  then have "k0 = k" by (cases k0) simp_all
  then show ?thesis using y(1) by blast
qed

text \<open>It is -1 or the status byte with which the program halted, so it is never 256.\<close>

lemma kernel_execute_value:
  assumes "kernel_execute u command s = Done (r, s')"
  shows "r = -1 \<or> (\<exists>start stack x y status. child u start stack x = Done (status, y) \<and> r = uint status)"
proof -
  obtain x c y where c: "syscall_entry [] 2 (at u) 0 0 (user_esp u) (user_ebp u) x = Done (c, y)"
    and r: "(case c of Return r \<Rightarrow> Done (r, y) | Enter_user start stack \<Rightarrow> run_child u start stack y | _ \<Rightarrow> Blocked) = Done (r, s')"
    using assms by (auto simp: kernel_execute_def andthen_Done_iff)
  show ?thesis
  proof (cases c)
    case (Return v)
    then have "v = -1"
      using syscall_entry_control[OF c] execute_call_value
      by (auto simp: do_syscall_in_C_def andthen_Done_iff)
    then show ?thesis using r Return by simp
  next
    case (Enter_user start stack)
    then obtain status z k w where ch: "child u start stack y = Done (status, z)"
      and z: "syscall_entry [] 1 (ucast (status :: u8)) 0 0 0 0 z = Done (k, w)"
      "(case k of Resume v a b \<Rightarrow> Done (sint v, w) | _ \<Rightarrow> Blocked) = Done (r, s')"
      using r by (auto simp: run_child_def andthen_Done_iff)
    then obtain v a b where k: "k = Resume v a b" "r = sint v" by (cases k) simp_all
    moreover have "(ucast (ucast status :: u32) :: u8) = status" by (intro bit_word_eqI) (simp add: bit_ucast_iff)
    ultimately have "v = ucast status"
      using syscall_entry_control[OF z(1)] k(1) by (auto simp: do_syscall_in_C_def dest!: halt_call_value)
    then show ?thesis using k(2) status_value[of status] ch by blast
  qed (use r in simp_all)
qed

text \<open>What \<open>cat\<close> prints: the file, and zeros or more behind a long one.\<close>

lemma cat_output:
  assumes "unat (inode_length (fs s) inode) = n"
  defines "out \<equiv> concat (chunks_from s inode 1024 0)"
  shows "take n out = file_content s inode" "length out < n + 1024" "n \<le> 1024 \<Longrightarrow> out = file_content s inode"
proof -
  show small: "out = file_content s inode" if "n \<le> 1024"
  proof (cases "inode_length (fs s) inode = 0")
    case True
    then show ?thesis by (simp add: out_def chunks_from.simps file_content_def)
  next
    case False
    then show ?thesis using small_file_chunks[of s inode 1024] assms(1) that by (simp add: out_def)
  qed
  have "take n out = file_content s inode \<and> length out < n + 1024"
  proof (cases "n \<le> 1024")
    case True
    then show ?thesis using small assms(1) by (simp add: file_content_def)
  next
    case False
    then obtain m where "out = map (file_byte s inode) [0..<1024 * m]" "n \<le> 1024 * m" "1024 * m < n + 1024"
      using long_file_chunks[of s inode] assms(1) by (auto simp: out_def)
    then show ?thesis using assms(1) by (simp add: take_map take_upt file_content_def)
  qed
  then show "take n out = file_content s inode" "length out < n + 1024" by simp_all
qed

end
