(* ===== verification/User_Shell.thy ===== *)
theory User_Shell
  imports User_Runs
begin

text \<open>
  One round of the shell on the kernel: the prompt, the keys, the line, and the command that
  \<open>execute\<close> is called with.
\<close>

section \<open>The line\<close>

text \<open>What the shell makes of a line that it has read: the newline becomes the end of the command.\<close>

lemma shell_line_newline:
  assumes "length l + 1 \<le> length buf" "take (length l + 1) buf = l @ [10]" "0 \<notin> set l"
  shows "\<exists>rest. shell_line (int (length l + 1)) buf = Done (l @ 0 # rest) \<and> length (l @ 0 # rest) = length buf"
proof -
  obtain rest where b: "buf = (l @ [10]) @ rest" using assms(2) by (metis append_take_drop_id)
  have "shell_line (int (length l + 1)) buf = Done (buf[length l := 0])"
    using assms(1) by (simp add: shell_line_def set_at_def b nth_append)
  moreover have "buf[length l := 0] = l @ 0 # rest" by (simp add: b list_update_append)
  ultimately show ?thesis using length_list_update[of buf "length l" 0] by metis
qed

lemma strcmp_literal:
  assumes "0 \<notin> set l"
  shows "\<exists>d. ece391_strcmp (l @ 0 # rest) (c_lit m) = Some d \<and> (0 \<notin> set (chars m) \<longrightarrow> (d = 0 \<longleftrightarrow> l = chars m))"
proof -
  have z: "0 \<in> set (l @ 0 # rest)" "0 \<in> set (c_lit m)" by (simp_all add: c_lit_def)
  have "cstr (l @ 0 # rest) = l" using assms by (simp add: cstr_append_nul)
  moreover have "0 \<notin> set (chars m) \<Longrightarrow> cstr (c_lit m) = chars m"
    using cstr_append_nul[of "chars m" "[]"] by (simp add: c_lit_def)
  ultimately show ?thesis
    using ece391_strcmp_returns[OF z] ece391_strcmp_zero[OF z] by auto
qed

text \<open>One round, for any system calls.\<close>

lemma shell_round:
  fixes S :: "'s sys"
  assumes p: "ece391_fdputs S 1 (c_lit ''391OS> '') s = Done s1"
    and r: "sread S 0 buf 1023 s1 = Done (int (length l + 1), buf', s2)"
    and b: "length l + 1 \<le> length buf'" "take (length l + 1) buf' = l @ [10]" "0 \<notin> set l"
  shows "\<exists>rest. length (l @ 0 # rest) = length buf' \<and> shell_loop S buf s =
    (if l = chars ''exit'' then Some (Done (0, s2))
     else if l = [] then shell_loop S (l @ 0 # rest) s2
     else upon (sexecute S (l @ 0 # rest) s2) (\<lambda>(rval, s3).
            upon (shell_report S rval s3) (shell_loop S (l @ 0 # rest))))"
proof -
  obtain rest where rest: "shell_line (int (length l + 1)) buf' = Done (l @ 0 # rest)" "length (l @ 0 # rest) = length buf'"
    using shell_line_newline[OF b] by blast
  have "0 \<notin> set (chars ''exit'')" by (simp add: chars_def)
  then obtain d where d: "ece391_strcmp (l @ 0 # rest) (c_lit ''exit'') = Some d" "d = 0 \<longleftrightarrow> l = chars ''exit''"
    using strcmp_literal[OF b(3), of rest "''exit''"] by blast
  have z: "(l @ 0 # rest) ! 0 = 0 \<longleftrightarrow> l = []" using b(3) by (cases l) auto
  have m: "int (length l + 1) \<noteq> -1" by simp
  show ?thesis
    using p r rest d z m by (intro exI[of _ rest], subst shell_loop.simps) simp
qed

section \<open>The round on the kernel\<close>

definition shell_ready :: "user_side \<Rightarrow> nat \<Rightarrow> kernel \<Rightarrow> bool" where
  "shell_ready u t s \<longleftrightarrow> serves u t s \<and> displayed_terminal s = t \<and> no_command s \<and>
     length (tempbuf (terminal s t)) = 128 \<and> flags (cur_fd 0 s) = ENGAGED \<and> table_ptr (cur_fd 0 s) = stdin_operations"

lemma fold_putc_keys: "same_keys s (fold (\<lambda>c. terminal_putc c t) cs s)"
proof (induction cs arbitrary: s)
  case Nil
  then show ?case by (simp add: same_keys_def)
next
  case (Cons c cs)
  show ?case unfolding fold_simps by (rule same_keys_trans[OF putc_keys Cons])
qed

lemma fold_putc_temp: "tempbuf (terminal (fold (\<lambda>c. terminal_putc c t) cs s) v) = tempbuf (terminal s v)"
  by (induction cs arbitrary: s) (simp_all add: no_console_eqD(8)[OF terminal_putc_frame])

text \<open>After the prompt the line is empty.\<close>

lemma prompt_ready:
  assumes s: "shell_ready u t (fst x)"
  shows "\<exists>y. ece391_fdputs (kernel_sys u) 1 (c_lit ''391OS> '') x = Done y \<and> snd y = snd x \<and> shell_ready u t (fst y) \<and>
    typing (fst y) [] \<and> key_char (fst y) = key_char (fst x) \<and>
    screen_of t (fst y) = fold scr_putc (chars ''391OS> '') (screen_of t (fst x))"
proof -
  let ?m = "c_lit ''391OS> ''"
  have sv: "serves u t (fst x)" using s by (simp add: shell_ready_def)
  have tk: "take 7 ?m = chars ''391OS> ''" "ece391_strlen ?m = Some 7" "length ?m = 8" "BACKSPACE \<notin> set (chars ''391OS> '')"
    by (simp_all add: c_lit_def chars_def)
  obtain r z m where z: "kernel_write u 1 ?m (int 7) (fst x) = Done (r, z)" "serves u t z" "side z = side (fst x)"
    "screen_of t z = fold scr_putc (chars ''391OS> '') (screen_of t (fst x))"
    "z = (upd_term t (\<lambda>t. t\<lparr>line_length := 0\<rparr>)
      (fold (\<lambda>c. terminal_putc c t) (chars ''391OS> '') ((fst x)\<lparr>phys := m, if_flag := True\<rparr>)))\<lparr>if_flag := True\<rparr>"
    using kernel_write_prints[OF sv, of 7 ?m] tk by auto
  define f where "f = fold (\<lambda>c. terminal_putc c t) (chars ''391OS> '') ((fst x)\<lparr>phys := m, if_flag := True\<rparr>)"
  have zf: "z = (upd_term t (\<lambda>t. t\<lparr>line_length := 0\<rparr>) f)\<lparr>if_flag := True\<rparr>" using z(5) by (simp add: f_def)
  have "same_keys ((fst x)\<lparr>phys := m, if_flag := True\<rparr>) f" unfolding f_def by (rule fold_putc_keys)
  then have k: "same_keys (fst x) z" by (simp add: same_keys_def zf upd_term_def)
  have tb: "tempbuf (terminal z t) = tempbuf (terminal (fst x) t)" "line_length (terminal z t) = 0"
    by (simp_all add: zf upd_term_def f_def fold_putc_temp)
  have nc: "no_command z" using s no_command_keys[OF k] by (simp add: shell_ready_def)
  have d: "displayed_terminal z = t" "active_terminal z = t" using s k z(2) by (simp_all add: shell_ready_def same_keys_def serves_def)
  have "typing z []" using nc d tb s by (simp add: typing_def line_rel_def Let_def shell_ready_def)
  moreover have "shell_ready u t z" using s z(2) d nc tb cur_side(2)[OF z(3)] by (simp add: shell_ready_def)
  moreover have "ece391_fdputs (kernel_sys u) 1 ?m x = Done (z, snd x)"
    using z(1) tk by (simp add: ece391_fdputs_def)
  ultimately show ?thesis using key_char_keys[OF k] z(4) by (intro exI[of _ "(z, snd x)"]) (simp add: fun_eq_iff)
qed

lemma edit_no_nul: "0 \<notin> set l \<Longrightarrow> 0 \<notin> set (fold edit cs l)"
proof (induction cs arbitrary: l)
  case (Cons c cs)
  have "0 \<notin> set (edit c l)" using Cons.prems by (auto simp: edit_def dest: in_set_butlastD)
  then show ?case using Cons.IH by simp
qed simp

lemma edits_bound: "length l \<le> 127 \<Longrightarrow> length (fold edit cs l) \<le> 127"
  by (induction cs arbitrary: l) (simp_all add: edit_bound)

text \<open>The keys that are pressed while the shell waits are the line it gets.\<close>

lemma shell_reads_keys:
  assumes s: "shell_ready u t s" "typing s []" and b: "length buf = 1024"
    and ks: "list_all plain ks" "ENT \<notin> key_char s ` set ks" "plain e" "key_char s e = ENT"
  defines "text \<equiv> fold edit (map (key_char s) ks) []"
  shows "\<exists>buf' s'. kernel_read u (map (press beyond) (ks @ [e])) 0 buf 1023 s = Done (int (length text + 1), buf', s') \<and>
    length buf' = 1024 \<and> take (length text + 1) buf' = text @ [10]"
proof -
  have sv: "serves u t s" using s(1) by (simp add: shell_ready_def)
  have lb: "length buf \<le> 2048" using b by simp
  obtain x y where x: "copy_out (buffer_at u) buf s = Done x" "y = x\<lparr>if_flag := True\<rparr>" and y: "side y = side s"
    "console_ok t y" "screen_of t y = screen_of t s" "internalCounter y = internalCounter s"
    "copy_in (buffer_at u) (length buf) y = Done buf" "serves u t y"
    by (rule read_begin[OF sv lb])
  obtain m where xm: "x = s\<lparr>phys := m\<rparr>" using copy_out_frame[OF x(1)] by blast
  have sk: "same_keys s y" by (simp add: x(2) xm same_keys_def)
  have "no_command s" "line_rel s []" "displayed_terminal s = active_terminal s" using s(2) by (simp_all only: typing_def)
  moreover from this(2) have "line_rel y []" by (simp add: line_rel_def x(2) xm Let_def)
  ultimately have ty: "typing y []" by (simp add: typing_def no_command_def x(2) xm)
  have kc: "key_char y = key_char s" using key_char_keys[OF sk] by (intro ext)
  obtain z where z: "terminal_read (map (press beyond) (ks @ [e])) 0 (buffer_at u) (int 1023) y = Done (int (length text + 1), z)"
    "copy_in (buffer_at u) (length text + 1) z = Done (text @ [ENT])"
    using read_typed_line[OF ty, of ks e "buffer_at u" beyond 0 "int 1023"] ks kc unat_at[OF sv] serves_user[OF y(6), of 128]
    by (auto simp: text_def)
  have lt: "length text \<le> 127" unfolding text_def by (rule edits_bound) simp
  have "in_user z (buffer_at u) (length text + 1)" using z(2) by (simp add: copy_in_def split: if_splits)
  then have iu: "in_user z (buffer_at u) 1024" using sv by (simp add: in_user_def serves_def)
  then obtain buf' where buf': "copy_in (buffer_at u) 1024 z = Done buf'" "length buf' = 1024" by (simp add: copy_in_def)
  have "take (length text + 1) buf' = text @ [10]"
    using copy_in_prefix[of "buffer_at u" buf' z "length text + 1"] buf' lt z(2) by simp
  moreover have "kernel_read u (map (press beyond) (ks @ [e])) 0 buf (int 1023) s =
      Done (int (length text + 1), buf', (advance_fd 0 (int (length text + 1)) (cur_pcb_addr s) z)\<lparr>if_flag := True\<rparr>)"
    by (rule kernel_read_call[OF sv _ _ _ _ _ x(1)]) (use s(1) z(1) buf' b x(2) in \<open>simp_all add: shell_ready_def\<close>)
  ultimately show ?thesis using buf'(2) by auto
qed

text \<open>A typed command is executed.\<close>

lemma shell_executes:
  assumes s: "shell_ready u t s" and b: "length buf = 1024"
    and ks: "list_all plain ks" "ENT \<notin> key_char s ` set ks" "plain e" "key_char s e = ENT"
  defines "text \<equiv> fold edit (map (key_char s) ks) []"
  shows "\<exists>x rest. shell_loop (kernel_sys u) buf (s, map (press beyond) (ks @ [e]) # w) =
    (if text = chars ''exit'' then Some (Done (0, (x, w)))
     else if text = [] then shell_loop (kernel_sys u) (text @ 0 # rest) (x, w)
     else upon (with_events w (kernel_execute u (text @ 0 # rest) x)) (\<lambda>(rval, y).
            upon (shell_report (kernel_sys u) rval y) (shell_loop (kernel_sys u) (text @ 0 # rest))))"
proof -
  let ?ev = "map (press beyond) (ks @ [e])"
  obtain y where y: "ece391_fdputs (kernel_sys u) 1 (c_lit ''391OS> '') (s, ?ev # w) = Done y" "snd y = ?ev # w"
    "shell_ready u t (fst y)" "typing (fst y) []" "key_char (fst y) = key_char s"
    using prompt_ready[of u t "(s, ?ev # w)"] s by auto
  obtain buf' x where x: "kernel_read u ?ev 0 buf 1023 (fst y) = Done (int (length text + 1), buf', x)"
    "length buf' = 1024" "take (length text + 1) buf' = text @ [10]"
    using shell_reads_keys[OF y(3,4) b, of ks e beyond] ks y(5) unfolding text_def by auto
  have rd: "sread (kernel_sys u) 0 buf 1023 y = Done (int (length text + 1), buf', (x, w))"
    using x(1) y(2) by (simp add: next_events_def)
  have "length text \<le> 127" unfolding text_def by (rule edits_bound) simp
  then have l: "length text + 1 \<le> length buf'" using x(2) by simp
  have nz: "0 \<notin> set text" unfolding text_def by (rule edit_no_nul) simp
  obtain rest where "shell_loop (kernel_sys u) buf (s, ?ev # w) =
    (if text = chars ''exit'' then Some (Done (0, (x, w)))
     else if text = [] then shell_loop (kernel_sys u) (text @ 0 # rest) (x, w)
     else upon (sexecute (kernel_sys u) (text @ 0 # rest) (x, w)) (\<lambda>(rval, s3).
            upon (shell_report (kernel_sys u) rval s3) (shell_loop (kernel_sys u) (text @ 0 # rest))))"
    using shell_round[OF y(1) rd l x(3) nz] by blast
  then show ?thesis by (intro exI[of _ x] exI[of _ rest]) simp
qed

end
