(* ===== verification/User_Child.thy ===== *)
theory User_Child
  imports User_Runs
begin

text \<open>
  A program between its \<open>execute\<close> and its \<open>halt\<close>: the state in which it starts, and what its parent
  finds when it goes on.
\<close>

section \<open>What starting and ending a process shows\<close>

text \<open>The screens, the keyboard and the lines, which neither \<open>execute\<close> nor \<open>halt\<close> changes.\<close>

definition same_view :: "kernel \<Rightarrow> kernel \<Rightarrow> bool" where
  "same_view s s' \<longleftrightarrow> active_terminal s' = active_terminal s \<and> displayed_terminal s' = displayed_terminal s \<and>
     done_init_terminal s' = done_init_terminal s \<and>
     (\<forall>v. cur_x (terminal s' v) = cur_x (terminal s v) \<and> cur_y (terminal s' v) = cur_y (terminal s v) \<and>
        shift_up_one_flag (terminal s' v) = shift_up_one_flag (terminal s v) \<and>
        length (tempbuf (terminal s' v)) = length (tempbuf (terminal s v))) \<and>
     internalCounter s' = internalCounter s \<and> caps s' = caps s \<and> shift_key s' = shift_key s \<and> control_key s' = control_key s \<and> alt_key s' = alt_key s \<and>
     (\<forall>a<0x800000. phys s' a = phys s a)"

lemma same_view_refl [simp]: "same_view s s"
  by (simp add: same_view_def)

lemma same_view_trans: "same_view s s1 \<Longrightarrow> same_view s1 s2 \<Longrightarrow> same_view s s2"
  by (simp add: same_view_def)

lemma same_view_console:
  assumes "same_view s s'"
  shows "console_ok t s' = console_ok t s" "t < 3 \<Longrightarrow> screen_of t s' = screen_of t s"
    "no_command s' = no_command s" "key_char s' = key_char s"
proof -
  show "console_ok t s' = console_ok t s" "no_command s' = no_command s" "key_char s' = key_char s"
    using assms by (simp_all add: same_view_def console_ok_def no_command_def key_char_def fun_eq_iff)
  assume t: "t < 3"
  have v: "vid_base t s' = vid_base t s" using assms by (simp add: vid_base_def same_view_def)
  have "page_chars (vid_base t s) (phys s') = page_chars (vid_base t s) (phys s)"
    by (rule page_chars_cong) (use assms t in \<open>simp add: same_view_def vid_base_def split: if_splits\<close>)
  then show "screen_of t s' = screen_of t s" using assms by (simp add: screen_of_def v same_view_def)
qed

lemma same_view_upd:
  "same_view s (cli s)" "same_view s (s\<lparr>curr_pid := p\<rparr>)" "same_view s (s\<lparr>str_len := n\<rparr>)"
  "same_view s (s\<lparr>save_parent_pid := p\<rparr>)" "same_view s (s\<lparr>if_flag := b\<rparr>)" "same_view s (note_verylarge inode s)"
  "same_view s (upd_pcb a g s)" "same_view s (take_pid i s)" "same_view s (release_pid i s)"
  "same_view s (virt_to_phys_user q s)" "same_view s (set_tss p s)"
  by (simp_all add: same_view_def cli_def note_verylarge_def upd_pcb_def take_pid_def release_pid_def
      virt_to_phys_user_eq set_tss_def)

lemma same_view_term:
  "(\<And>x. cur_x (f x) = cur_x x \<and> cur_y (f x) = cur_y x \<and> shift_up_one_flag (f x) = shift_up_one_flag x \<and>
     length (tempbuf (f x)) = length (tempbuf x)) \<Longrightarrow> same_view s (upd_term t f s)"
  by (simp add: same_view_def upd_term_def)

lemma same_view_clear: "same_view s (clear_temp_buff s)"
proof -
  have "same_view s (fold (\<lambda>j. upd_term d (\<lambda>t. t\<lparr>tempbuf := (tempbuf t)[j := 0]\<rparr>)) js s)" for d js s
  proof (induction js arbitrary: s)
    case (Cons j js)
    show ?case unfolding fold_simps by (rule same_view_trans[OF same_view_term Cons.IH]) simp
  qed simp
  then show ?thesis unfolding clear_temp_buff_def by (rule same_view_trans) (rule same_view_upd(3))
qed

lemma same_view_begin: "same_view s (exec_begin s)"
proof -
  define c where "c = (if displayed_terminal (cli s) = active_terminal (cli s)
    then clear_temp_buff (cli s) else cli s)"
  have "same_view s c"
    using same_view_trans[OF same_view_upd(1) same_view_clear] same_view_upd(1) by (simp add: c_def)
  moreover have "exec_begin s = c\<lparr>curr_pid := pid (active_term c)\<rparr>"
    by (simp add: exec_begin_def Let_def c_def)
  ultimately show ?thesis using same_view_trans[OF _ same_view_upd(2)] by simp
qed

lemma read_data_view: "read_data inode off False len s = Done (r, bs, s') \<Longrightarrow> same_view s s' \<and> page_directory s' = page_directory s"
  by (auto simp: read_data_def Let_def andthen_Done_iff same_view_def note_verylarge_def split: if_splits prod.splits)

lemma find_program_view: "find_program c s = Done (r, s') \<Longrightarrow> same_view s s'"
  by (auto simp: find_program_def Let_def andthen_Done_iff split: option.splits if_splits dest: read_data_view)

lemma entry_point_view: "entry_point inode s = Done (r, s') \<Longrightarrow> same_view s s'"
  by (auto simp: entry_point_def Let_def andthen_Done_iff dest: read_data_view)

lemma load_program_view:
  assumes "load_program inode s = Done (r, s')" "page_directory s 32 = user_pde p" "p < 6"
  shows "same_view s s'"
proof -
  obtain bs s1 where r: "read_data inode 0 False (inode_length (fs s) inode) s = Done (r, bs, s1)"
    and c: "copy_out PROGRAM_ADDR bs s1 = Done s'"
    using assms(1) by (auto simp: load_program_def andthen_Done_iff)
  note v = read_data_view[OF r]
  obtain m where m: "s' = s1\<lparr>phys := m\<rparr>" using copy_out_frame[OF c] by blast
  have "phys s' a = phys s1 a" if "a < 0x800000" for a
    by (rule copy_out_other[OF c _ assms(3)]) (use v assms(2) that in simp_all)
  then have "same_view s1 s'" by (simp add: same_view_def m)
  then show ?thesis using v same_view_trans by blast
qed

lemma start_program_view:
  assumes "start_program inode arg old esp ebp s = Done (Enter_user e u, s')" "curr_pid s = int i" "i < 6"
  shows "same_view s s'"
proof -
  define s1 where "s1 = virt_to_phys_user (word_of_int (curr_pid s))
    (upd_term (active_terminal s) (\<lambda>t. if init_flag t = 1 then t\<lparr>pid := curr_pid s\<rparr> else t) s)"
  obtain v s2 s3 s4 where l: "load_program inode s1 = Done (v, s2)"
    and c: "setup_pcb arg (set_parent old s2) = Done s3"
    and en: "entry_point inode s3 = Done (e, s4)"
    and s': "s' = upd_pcb (get_pcb_addr (word_of_int (curr_pid s4)))
        (\<lambda>p. p\<lparr>task_esp := esp, task_ebp := ebp\<rparr>) (set_tss (curr_pid s4) s4)"
    using assms(1) s1_def
    by (auto simp: start_program_def Let_def andthen_Done_iff set_tss_def upd_term_def virt_to_phys_user_eq
        split: if_splits)
  have "same_view s s1" unfolding s1_def by (rule same_view_trans[OF same_view_term same_view_upd(10)]) simp
  moreover have "page_directory s1 32 = user_pde (of_nat i)"
    by (simp add: s1_def assms(2) virt_to_phys_user_eq user_pde_def)
  then have "same_view s1 s2" by (rule load_program_view[OF l]) (use assms(3) in \<open>simp add: word_less_nat_alt unat_of_nat\<close>)
  moreover have "same_view s2 s3"
    using c by (auto simp: setup_pcb_def set_parent_def Let_def same_view_def upd_pcb_def upd_term_def split: if_splits)
  moreover have "same_view s3 s'"
    unfolding s' by (rule same_view_trans[OF entry_point_view[OF en] same_view_trans[OF same_view_upd(11) same_view_upd(7)]])
  ultimately show ?thesis using same_view_trans by blast
qed

lemma execute_view:
  assumes "execute_call command esp ebp s = Done (Enter_user e u, s')" "init_flag (active_term s) = 1"
  shows "same_view s s'"
proof -
  obtain inode s1 s2 where f: "find_program (skip_spaces command) (exec_begin s) = Done (Some inode, s1)"
    and ch: "choose_pid s1 = Some s2"
    and st: "start_program inode (arg_text (skip_spaces command)) (curr_pid s1) esp ebp s2 = Done (Enter_user e u, s')"
    using assms(1) by (auto simp: execute_call_unfold andthen_Done_iff split: if_splits option.splits)
  have "same_procs s s1"
    using find_program_procs[OF f] exec_begin_procs[of s] by (auto intro: same_procs_trans)
  then have "init_flag (active_term s1) = 1" using assms(2) by (simp add: same_procs_def)
  then obtain i where i: "find (free_pid s1) [3..<6] = Some i" "s2 = (take_pid i s1)\<lparr>curr_pid := int i\<rparr>"
    using ch by (auto simp: choose_pid_def simp del: upt_rec_numeral split: option.splits)
  have "i < 6" using i(1) by (simp add: pids_lowest del: upt_rec_numeral)
  then have "same_view s2 s'" by (intro start_program_view[OF st]) (simp_all add: i(2))
  moreover have "same_view s s2"
    unfolding i(2) by (rule same_view_trans[OF same_view_trans[OF same_view_begin find_program_view[OF f]]
        same_view_trans[OF same_view_upd(8,2)]])
  ultimately show ?thesis using same_view_trans by blast
qed

lemma halt_view:
  assumes "halt_process status s = Done (c, s')"
  shows "same_view s s'" "same_image s s'"
proof -
  define s0 where "s0 = (if displayed_terminal s = active_terminal s then clear_temp_buff s else s)"
  have "same_view s s0" "same_image s s0" using same_view_clear same_image_clear by (simp_all add: s0_def same_image_def)
  moreover have "same_view s0 s' \<and> same_image s0 s'"
    using assms unfolding halt_process_def Let_def s0_def[symmetric]
    by (auto simp: same_view_def same_image_def upd_pcb_def upd_term_def release_pid_def set_tss_def
        virt_to_phys_user_eq split: if_splits)
  ultimately show "same_view s s'" "same_image s s'" using same_view_trans same_image_trans by blast+
qed

section \<open>The program starts\<close>

text \<open>
  What a program finds when \<open>execute\<close> enters it from \<open>s\<close>: the standard descriptors alone are engaged,
  the argument is in the control block, and the screen and the files are those of \<open>s\<close>.
\<close>

definition started :: "nat \<Rightarrow> u8 list \<Rightarrow> kernel \<Rightarrow> kernel \<Rightarrow> bool" where
  "started t arg s e \<longleftrightarrow> active_terminal e = t \<and> (\<exists>p<6. page_directory e 32 = user_pde p) \<and>
     terminal_on (pcbs e (cur_pcb_addr e)) = int t \<and> curr_pid e = pid (active_term e) \<and>
     (\<forall>i<8. \<exists>d. cur_fd (int i) e = fresh_files i d) \<and>
     (\<exists>rest. terminal_cmd (pcbs e (cur_pcb_addr e)) = arg @ 0 # rest) \<and> same_view s e \<and> same_image s e"

lemma cur_pcb_of: "cur_pcb_addr s = pcb_of (pid (active_term s))"
  by (simp add: cur_pcb_addr_def pcb_of_def get_pcb_blk_addr)

lemma entered_started:
  assumes "entered s (int i) parent arg esp ebp e" "i < 6" "same_view s e" "same_image s e" "active_terminal s = t"
  shows "started t arg s e"
proof -
  have i: "(of_nat i :: u32) < 6" using assms(2) by (simp add: word_less_nat_alt unat_of_nat)
  have p: "pcbs e (cur_pcb_addr e) = started_pcb arg (int i) parent t esp ebp (pcbs s (pcb_of (int i)))"
    "pid (active_term e) = int i"
    using assms(1,5) by (simp_all add: entered_def cur_pcb_of)
  have "cur_fd (int j) e = fresh_files j (file_desc_array (pcbs s (pcb_of (int i))) j)" for j
    by (simp add: cur_fd_def p started_pcb_def)
  moreover have "page_directory e 32 = user_pde (of_nat i)" using assms(1) by (simp add: entered_def)
  ultimately show ?thesis
    using assms i p unfolding started_def by (auto simp: entered_def started_pcb_def)
qed

lemma started_serves:
  assumes "started t arg s e" "console_ok t s" "t < 3" "0x8000000 \<le> buffer_at v" "buffer_at v + 2048 \<le> 0x8400000"
  shows "serves v t e" "find (free_fd e) [2..<8] = Some 2" "screen_of t e = screen_of t s"
proof -
  have f: "\<exists>d. cur_fd (int i) e = fresh_files i d" if "i < 8" for i using assms(1) that by (simp add: started_def)
  have v: "same_view s e" using assms(1) by (simp add: started_def)
  show "screen_of t e = screen_of t s" by (rule same_view_console(2)[OF v assms(3)])
  have "free_fd e i" if "2 \<le> i" "i < 8" for i
    using f[OF that(2)] that by (auto simp: free_fd_def fresh_files_def)
  then show "find (free_fd e) [2..<8] = Some 2" by (simp only: fds_lowest) simp
  show "serves v t e"
    using assms f[of 1] same_view_console(1)[OF v] by (auto simp: started_def serves_def fresh_files_def)
qed

lemma started_args:
  assumes "started t arg s e" "0 \<notin> set arg"
  shows "args_of e = arg" "0 \<in> set (terminal_cmd (pcbs e (cur_pcb_addr e)))"
  using assms by (auto simp: started_def args_of_def cstr_append_nul)

section \<open>The program ends\<close>

lemma halt_leaves:
  assumes rel: "proc_rel s st" and a: "active_terminal s < 3"
    and top: "st (active_terminal s) = (i, esp, ebp) # (p, r) # below"
  shows "\<exists>s'. halt_call status x y s = Done (Resume (ucast status) esp ebp, s') \<and>
    proc_rel s' (st(active_terminal s := (p, r) # below)) \<and> same_view s s' \<and> same_image s s' \<and>
    (\<forall>q. q \<noteq> pcb_of (int i) \<longrightarrow> pcbs s' q = pcbs s q) \<and> pid_array s' = (pid_array s)(i := 0) \<and>
    curr_pid s' = int p \<and> page_directory s' 32 = user_pde (of_nat p)"
proof -
  let ?a = "active_terminal s"
  have fr: "frames_ok s ?a (st ?a)" and tm: "term_ok (active_term s) ?a (st ?a)"
    using proc_relD[OF rel a] by simp_all
  have i: "process_id (pcbs s (pcb_of (int i))) = of_nat i" "3 \<le> i" "i < 6" "pid (active_term s) = int i"
    using fr tm top by (simp_all add: frame_ok_def Let_def term_ok_def)
  obtain s' where s': "halt_call status x y s = Done (Resume (ucast status) esp ebp, s')"
    "proc_rel s' (st(?a := (p, r) # below))" "curr_pid s' = int p" "page_directory s' 32 = user_pde (of_nat p)"
    using halt_pops[OF rel a top] by blast
  define s1 where "s1 = upd_term ?a (\<lambda>t. t\<lparr>rtc_counter := DEFAULT_COUNTER, rtc_target := DEFAULT_TARGET\<rparr>)
    (s\<lparr>curr_pid := pid (active_term s)\<rparr>)"
  have s1: "pcbs s1 = pcbs s" "pid_array s1 = pid_array s" "curr_pid s1 = int i"
    by (simp_all add: s1_def upd_term_def i(4))
  have "same_view s s1" unfolding s1_def by (rule same_view_trans[OF same_view_upd(2) same_view_term]) simp
  moreover have "same_image s s1" by (simp add: s1_def same_image_def upd_term_def)
  moreover have h: "halt_process status s1 = Done (Resume (ucast status) esp ebp, s')"
    using s'(1) i(2,4) by (simp add: halt_call_def Let_def s1_def upd_term_def)
  moreover have "pcbs s' = (pcbs s)(pcb_of (int i) := closed_pcb (pcbs s (pcb_of (int i)))) \<and>
      pid_array s' = (pid_array s)(i := 0)"
    using halt_process_eq[of s1 i status] h i(1,3) by (auto simp: s1)
  ultimately show ?thesis
    using s' halt_view[OF h] by (auto intro: same_view_trans same_image_trans)
qed

section \<open>The command that names it\<close>

lemma command_split: "0 \<in> set c \<Longrightarrow> \<exists>rest. c = cstr c @ 0 # rest"
  by (induction c) (auto simp: cstr_def)

lemma words_of_command:
  "first_word (skip_spaces (l @ 0 # rest)) = first_word (skip_spaces l)"
  "arg_text (skip_spaces (l @ 0 # rest)) = arg_text (skip_spaces l)"
proof -
  have s: "skip_spaces (xs @ 0 # rest) = skip_spaces xs @ 0 # rest" for xs
    by (simp add: skip_spaces_def dropWhile_append3)
  have d: "dropWhile (\<lambda>c. c \<noteq> SPACE \<and> c \<noteq> 0 \<and> c \<noteq> NEWLINE) (xs @ 0 # rest) =
      dropWhile (\<lambda>c. c \<noteq> SPACE \<and> c \<noteq> 0 \<and> c \<noteq> NEWLINE) xs @ 0 # rest" for xs
    by (rule dropWhile_append3) simp
  show "first_word (skip_spaces (l @ 0 # rest)) = first_word (skip_spaces l)"
    unfolding s first_word_def by (rule takeWhile_tail) simp
  show "arg_text (skip_spaces (l @ 0 # rest)) = arg_text (skip_spaces l)"
    unfolding s arg_text_def d by (rule takeWhile_tail) simp
qed

lemma command_cong:
  assumes "cstr c' = cstr c" "0 \<in> set c" "0 \<in> set c'"
  shows "first_word (skip_spaces c') = first_word (skip_spaces c)" "arg_text (skip_spaces c') = arg_text (skip_spaces c)"
    "names_program s c' inode = names_program s c inode"
proof -
  obtain r r' where c: "c = cstr c @ 0 # r" "c' = cstr c @ 0 # r'"
    using command_split[OF assms(2)] command_split[OF assms(3)] assms(1) by auto
  show w: "first_word (skip_spaces c') = first_word (skip_spaces c)" "arg_text (skip_spaces c') = arg_text (skip_spaces c)"
    by (subst (1) c(2), subst (2) c(1), simp add: words_of_command)+
  show "names_program s c' inode = names_program s c inode"
    using assms by (simp add: names_program_def w strlen_cstr)
qed

section \<open>The whole of it\<close>

text \<open>
  A program as its parent sees it: entered with its argument, it prints a text and halts with a
  status, and it keeps what is not its own.
\<close>

locale program =
  fixes body :: "kernel \<Rightarrow> (u8 \<times> kernel) outcome" and able :: "u8 list \<Rightarrow> kernel \<Rightarrow> bool"
    and out_text :: "u8 list \<Rightarrow> kernel \<Rightarrow> u8 list" and result :: "u8 list \<Rightarrow> kernel \<Rightarrow> u8"
  assumes runs: "started t arg s e \<Longrightarrow> t < 3 \<Longrightarrow> console_ok t s \<Longrightarrow> 0 \<notin> set arg \<Longrightarrow> length arg < 128 \<Longrightarrow> able arg s \<Longrightarrow>
    \<exists>z. body e = Done (result arg s, z) \<and> kept e z \<and> console_ok t z \<and>
      screen_of t z = fold scr_putc (out_text arg s) (screen_of t e)"
    and image: "same_image s s' \<Longrightarrow> internalCounter s' = internalCounter s \<Longrightarrow> able arg s' = able arg s \<and>
      out_text arg s' = out_text arg s \<and> result arg s' = result arg s"

lemma kept_rel: "kept s s' \<Longrightarrow> proc_rel s' st = proc_rel s st"
  by (rule proc_rel_core) (simp_all add: kept_def held_def fun_eq_iff)

lemma kept_image: "kept s s' \<Longrightarrow> same_image s s'" "kept s s' \<Longrightarrow> internalCounter s' = internalCounter s"
  by (simp_all add: kept_def held_def same_image_def)

lemma kept_keys:
  assumes "kept s s'"
  shows "active_terminal s' = active_terminal s" "displayed_terminal s' = displayed_terminal s"
    "no_command s' = no_command s" "key_char s' = key_char s" "pid_array s' = pid_array s"
    "length (tempbuf (terminal s' t)) = length (tempbuf (terminal s t))"
  using assms by (simp_all add: kept_def held_def no_command_def key_char_def fun_eq_iff)

text \<open>What a process finds when the program that it executed has halted.\<close>

definition resumed :: "nat \<Rightarrow> kernel \<Rightarrow> kernel \<Rightarrow> bool" where
  "resumed t s s' \<longleftrightarrow> active_terminal s' = active_terminal s \<and> displayed_terminal s' = displayed_terminal s \<and>
     no_command s' = no_command s \<and> key_char s' = key_char s \<and> pid_array s' = pid_array s \<and>
     length (tempbuf (terminal s' t)) = length (tempbuf (terminal s t)) \<and> same_image s s' \<and>
     internalCounter s' = internalCounter s \<and> pid (active_term s') = pid (active_term s) \<and> curr_pid s' = pid (active_term s) \<and>
     pcbs s' (cur_pcb_addr s) = pcbs s (cur_pcb_addr s) \<and> (\<exists>p<6. page_directory s' 32 = user_pde p) \<and> console_ok t s'"

lemma resumed_serves:
  assumes "serves u t s" "resumed t s s'"
  shows "serves u t s'" "cur_fd fd s' = cur_fd fd s"
proof -
  have p: "active_terminal s' = active_terminal s" "pid (active_term s') = pid (active_term s)"
    using assms(2) unfolding resumed_def by blast+
  then have "cur_pcb_addr s' = cur_pcb_addr s" by (simp only: cur_pcb_of)
  then have c: "pcbs s' (cur_pcb_addr s') = pcbs s (cur_pcb_addr s)" using assms(2) by (simp add: resumed_def)
  then show fd: "cur_fd fd s' = cur_fd fd s" for fd by (simp add: cur_fd_def)
  show "serves u t s'" using assms c fd[of 1] p(2)[unfolded p(1)] by (simp add: serves_def resumed_def)
qed

lemma enter_call:
  assumes "user_string (unat b) (x\<lparr>if_flag := True\<rparr>) = Done command"
    "execute_call command esp ebp (x\<lparr>if_flag := True\<rparr>) = Done (Enter_user e v, y)"
  shows "syscall_entry [] 2 b c d esp ebp x = Done (Enter_user e v, y)"
  using assms by (simp add: syscall_entry_def do_syscall_in_C_def cli_def sti_def)

lemma run_child_halts:
  assumes "child u start stack s = Done (status, z)"
    and "halt_call status 0 0 (z\<lparr>if_flag := True\<rparr>) = Done (Resume (ucast status) esp ebp, s')"
  shows "run_child u start stack s = Done (uint status, s')"
proof -
  have "(ucast (ucast status :: u32) :: u8) = status" by (intro bit_word_eqI) (simp add: bit_ucast_iff)
  then show ?thesis
    using assms by (simp add: run_child_def syscall_entry_def do_syscall_in_C_def cli_def sti_def status_value)
qed

lemma copy_out_view:
  assumes "serves u t s" "copy_out va bs s = Done s'"
  shows "same_view s s'" "same_image s s'"
proof -
  obtain p where p: "p < 6" "page_directory s 32 = user_pde p" using assms(1) by (auto simp: serves_def)
  obtain m where m: "s' = s\<lparr>phys := m\<rparr>" using copy_out_frame[OF assms(2)] by blast
  have "phys s' a = phys s a" if "a < 0x800000" for a by (rule copy_out_other[OF assms(2) p(2,1)]) (use that in simp)
  then show "same_view s s'" by (simp add: same_view_def m)
  show "same_image s s'" by (simp add: same_image_def m)
qed

context program
begin

text \<open>\<open>execute\<close> runs the program to its end, and the caller goes on as it was.\<close>

lemma executes:
  assumes s: "serves u t s" and rel: "proc_rel s st" and top: "st t \<noteq> []"
    and np: "names_program s command inode" "0 \<in> set command" "length command \<le> 2048"
    and fp: "\<exists>i. 3 \<le> i \<and> i < 6 \<and> free_pid s i"
    and ch: "child u (elf_entry (file_content s inode)) USER_STACK = body"
    and ab: "able (arg_text (skip_spaces command)) s"
  shows "\<exists>s'. kernel_execute u command s = Done (uint (result (arg_text (skip_spaces command)) s), s') \<and>
    proc_rel s' st \<and> resumed t s s' \<and>
    screen_of t s' = fold scr_putc (out_text (arg_text (skip_spaces command)) s) (screen_of t s)"
proof -
  let ?arg = "arg_text (skip_spaces command)"
  have t: "t < 3" "active_terminal s = t" "console_ok t s" using s by (simp_all add: serves_def)
  obtain p r below where pr: "st t = (p, r) # below" using top by (cases "st t") auto
  obtain x y name where x: "copy_out (buffer_at u) command s = Done x" "y = x\<lparr>if_flag := True\<rparr>"
    and us: "user_string (buffer_at u) y = Done name" and c: "cstr name = cstr command" "0 \<in> set name" "serves u t y"
    "side y = side s"
    by (rule string_argument[OF s np(2,3)]) blast
  note x1 = copy_out_view[OF s x(1)]
  have vy: "same_view s y" "same_image s y"
    using same_view_trans[OF x1(1) same_view_upd(5)] x1(2) by (simp_all add: x(2) same_image_def)
  obtain m where m: "x = s\<lparr>phys := m\<rparr>" using copy_out_frame[OF x(1)] by blast
  have yk: "pid_array y = pid_array s" "terminal y = terminal s" "active_terminal y = t" "free_pid y = free_pid s"
    "pcbs y = pcbs s"
    using t(2) by (simp_all add: x(2) m free_pid_def fun_eq_iff)
  have rel_y: "proc_rel y st" using proc_rel_core[of y s st] rel yk by simp
  note cc = command_cong[OF c(1) np(2) c(2)]
  have "names_program y name inode"
    unfolding cc(3) using np(1) by (simp add: names_program_def image_facts[OF vy(2)])
  moreover have "has_pid y" using fp by (simp add: has_pid_def yk)
  ultimately obtain e where e: "execute_call name (user_esp u) (user_ebp u) y =
      Done (Enter_user (elf_entry (file_content s inode)) USER_STACK, e)" "same_image y e"
    using execute_loads[of y name inode] image_facts(2)[OF vy(2)] by metis
  have up: "init_flag (active_term y) = 1" "pid (active_term y) = int p"
    using proc_relD(2)[OF rel_y t(1)] pr yk(3) by (simp_all add: term_ok_def)
  obtain i where i: "find (free_pid y) [3..<6] = Some i"
    "proc_rel e (st(t := (i, user_esp u, user_ebp u) # st t))"
    using execute_pushes[OF rel_y _ _ e(1)] t(1) top by (auto simp: yk(3) simp del: upt_rec_numeral)
  have en: "entered y (int i) (int p) ?arg (user_esp u) (user_ebp u) e" "pid_array e = (pid_array s)(i := 1)"
    "length ?arg < 128"
    using execute_call_enters[OF e(1)] up i(1) by (auto simp: runs_shell_def cc(2) yk(1) simp del: upt_rec_numeral)
  have i36: "3 \<le> i" "i < 6" "free_pid s i" using i(1) by (simp_all only: pids_lowest yk(4))
  have ve: "same_view s e" "same_image s e"
    using same_view_trans[OF vy(1) execute_view[OF e(1) up(1)]] same_image_trans[OF vy(2) e(2)] .
  have "started t ?arg y e"
    by (rule entered_started[OF en(1) i36(2) execute_view[OF e(1) up(1)] e(2) yk(3)])
  then have st: "started t ?arg s e" using ve by (simp add: started_def)
  have nz: "0 \<notin> set ?arg" by (auto simp: arg_text_def dest: set_takeWhileD)
  obtain z where z: "body e = Done (result ?arg s, z)" "kept e z" "console_ok t z"
    "screen_of t z = fold scr_putc (out_text ?arg s) (screen_of t e)"
    using runs[OF st t(1,3) nz en(3) ab] by blast
  define z1 where "z1 = z\<lparr>if_flag := True\<rparr>"
  have kz: "kept e z1" unfolding z1_def by (rule kept_trans[OF z(2) kept_if_flag])
  have az: "active_terminal z1 = t" using kept_keys(1)[OF kz] ve(1) t(2) by (simp add: same_view_def)
  have rel_z: "proc_rel z1 (st(t := (i, user_esp u, user_ebp u) # (p, r) # below))"
    using i(2) pr kept_rel[OF kz] by simp
  obtain s' where s': "halt_call (result ?arg s) 0 0 z1 = Done (Resume (ucast (result ?arg s)) (user_esp u) (user_ebp u), s')"
    "proc_rel s' st" "same_view z1 s'" "same_image z1 s'" "\<forall>q. q \<noteq> pcb_of (int i) \<longrightarrow> pcbs s' q = pcbs z1 q"
    "pid_array s' = (pid_array z1)(i := 0)" "curr_pid s' = int p" "page_directory s' 32 = user_pde (of_nat p)"
  proof -
    have "st(t := (p, r) # below) = st" using pr by auto
    then show thesis
      using halt_leaves[OF rel_z, of i "user_esp u" "user_ebp u" p r below "result ?arg s" 0 0] az t(1) that by auto
  qed
  have "kernel_execute u command s = Done (uint (result ?arg s), s')"
    using x(1) enter_call[of "at u" x name "user_esp u" "user_ebp u"] us e(1) unat_at[OF s]
      run_child_halts[of u "elf_entry (file_content s inode)" USER_STACK e "result ?arg s" z] ch z(1) s'(1)
    by (simp add: kernel_execute_def x(2)[symmetric] z1_def)
  moreover have "screen_of t s' = fold scr_putc (out_text ?arg s) (screen_of t s)"
    using same_view_console(2)[OF s'(3) t(1)] same_view_console(2)[OF ve(1) t(1)] z(4) by (simp add: z1_def)
  moreover have "resumed t s s'"
  proof -
    have p6: "p < 6" "p \<noteq> i" "(of_nat p :: u32) < 6"
    proof -
      have fr: "frames_ok z1 t ((i, user_esp u, user_ebp u) # (p, r) # below)" using proc_relD(1)[OF rel_z t(1)] by simp
      then show "p < 6" "p \<noteq> i" by (auto simp: frame_ok_def Let_def split: prod.splits)
      then show "(of_nat p :: u32) < 6" by (simp add: word_less_nat_alt unat_of_nat)
    qed
    have ne: "pcb_of (int p) \<noteq> pcb_of (int i)"
      using get_pcb_blk_inj[of "int p" "int i"] p6 i36 unfolding pcb_of_def get_pcb_blk_addr by simp
    have ad: "cur_pcb_addr s = pcb_of (int p)" "cur_pcb_addr e = pcb_of (int i)"
      using up(2) yk t(2) en(1) by (simp_all add: cur_pcb_of entered_def)
    have "pcbs s' (pcb_of (int p)) = pcbs z1 (pcb_of (int p))" using s'(5) ne by simp
    also have "\<dots> = pcbs e (pcb_of (int p))" using kz ne ad(2) by (simp add: kept_def)
    also have "\<dots> = pcbs s (pcb_of (int p))" using en(1) ne yk(5) by (simp add: entered_def)
    finally have pc: "pcbs s' (cur_pcb_addr s) = pcbs s (cur_pcb_addr s)" by (simp add: ad(1))
    have pa: "pid_array s' = pid_array s"
      using s'(6) kept_keys(5)[OF kz] en(2) i36(3) by (auto simp: free_pid_def)
    have act: "active_terminal s' = t" using s'(3) az by (simp add: same_view_def)
    have "pid (active_term s') = int p"
      using proc_relD(2)[OF s'(2) t(1)] pr by (simp add: act term_ok_def)
    then have pd: "pid (active_term s') = pid (active_term s)" "pid (active_term s) = int p"
      using up(2) by (simp_all add: yk t(2))
    note vz = same_view_console[OF s'(3)] and vs = same_view_console[OF ve(1)]
    have im: "same_image s s'"
      using same_image_trans[OF ve(2) same_image_trans[OF kept_image(1)[OF kz] s'(4)]] .
    have ic: "internalCounter s' = internalCounter s"
      using kept_image(2)[OF kz] ve(1) s'(3) by (simp add: same_view_def)
    have cz: "console_ok t z1" using z(3) by (simp add: z1_def)
    have disp: "displayed_terminal s' = displayed_terminal s"
      "length (tempbuf (terminal s' t)) = length (tempbuf (terminal s t))"
      using s'(3) ve(1) kept_keys(2,6)[OF kz] by (simp_all add: same_view_def)
    show ?thesis
      unfolding resumed_def
      using act t(2) disp vz(1,3,4) vs(3,4) kept_keys(3,4)[OF kz] pa im ic pd s'(7,8) pc p6(3) cz by auto
  qed
  ultimately show ?thesis using s'(2) by blast
qed

end

section \<open>A command that is no program\<close>

text \<open>
  Its first word names nothing, or a file of at least four bytes that does not begin like an
  executable.
\<close>

definition not_executable :: "kernel \<Rightarrow> u32 \<Rightarrow> bool" where
  "not_executable s inode \<longleftrightarrow> unat inode < 128 \<and> inode \<le> inodesCount s \<and> inode \<noteq> verylarge_inode s \<and>
     4 \<le> unat (inode_length (fs s) inode) \<and> unat (inode_length (fs s) inode) < 2 ^ 31 \<and> readable s inode 0 4 \<and>
     map (file_byte s inode) [0..<4] \<noteq> elf_magic"

definition no_program :: "kernel \<Rightarrow> u8 list \<Rightarrow> bool" where
  "no_program s command \<longleftrightarrow> (\<exists>n\<le>1023. strlen command = Some n) \<and>
     (let name = zero_buffer (first_word (skip_spaces command)) in
      has_file s name \<longrightarrow> not_executable s (dentry_inode (file_dentry s name)))"

lemma no_program_cong:
  assumes "cstr c' = cstr c" "0 \<in> set c" "0 \<in> set c'"
  shows "no_program s c' = no_program s c"
  using assms command_cong(1)[OF assms] by (simp add: no_program_def strlen_cstr)

lemma no_program_image:
  assumes "same_image s s'"
  shows "no_program s' command = no_program s command"
proof -
  have n: "inodesCount s' = inodesCount s" using assms by (simp add: same_image_def)
  show ?thesis
    by (simp add: no_program_def not_executable_def image_facts[OF assms] verylarge_image[OF assms] n del: upt_rec_numeral)
qed

lemma find_no_program:
  assumes "no_program s command"
  shows "\<exists>x. find_program (skip_spaces command) s = Done (None, x) \<and> (x = s \<or> (\<exists>inode. x = note_verylarge inode s))"
proof -
  let ?name = "zero_buffer (first_word (skip_spaces command))"
  obtain n where n: "strlen command = Some n" "n \<le> 1023" using assms by (auto simp: no_program_def)
  note buf = first_word_buffer[OF n]
  show ?thesis
  proof (cases "has_file s ?name")
    case False
    then have "read_dentry_by_name s ?name False = Done (-1, None)"
      using read_dentry_by_name_eq[OF buf(1), of s] buf(1) by (auto simp: has_file_def)
    then show ?thesis by (simp add: find_program_def)
  next
    case True
    let ?i = "dentry_inode (file_dentry s ?name)"
    have f: "not_executable s ?i" using assms True by (simp add: no_program_def Let_def)
    have rd: "read_dentry_by_name s ?name False = Done (0, Some (file_dentry s ?name))"
      using True read_dentry_by_name_eq[of ?name s] by (auto simp: has_file_def file_dentry_def)
    have i: "unat ?i < 128" "?i \<le> inodesCount s" "?i \<noteq> verylarge_inode s" "unat (inode_length (fs s) ?i) < 2 ^ 31"
      "readable s ?i 0 4" "4 \<le> unat (inode_length (fs s) ?i)" "map (file_byte s ?i) [0..<4] \<noteq> elf_magic"
      using f by (simp_all add: not_executable_def del: upt_rec_numeral)
    have "(0 :: u32) < inode_length (fs s) ?i" using i(6) by (simp add: word_less_nat_alt)
    with read_data_readable[OF i(2), of 4 0] i(5)
    have "read_data ?i 0 False 4 s = Done (4, map (file_byte s ?i) [0..<4], note_verylarge ?i s)"
      using read_result_ordinary[OF i(3,4), of 4] i(6) by (simp del: upt_rec_numeral)
    then show ?thesis
      using rd int8_inode[OF i(1)] i(7) by (auto simp: find_program_def Let_def elf_magic_def simp del: upt_rec_numeral)
  qed
qed

lemma execute_refuses:
  assumes s: "serves u t s" and rel: "proc_rel s st" and np: "no_program s command" "0 \<in> set command" "length command \<le> 2048"
  shows "\<exists>s'. kernel_execute u command s = Done (-1, s') \<and> proc_rel s' st \<and> resumed t s s' \<and> screen_of t s' = screen_of t s"
proof -
  have t: "t < 3" "active_terminal s = t" "console_ok t s" "\<exists>p<6. page_directory s 32 = user_pde p"
    using s by (simp_all add: serves_def)
  obtain x y name where x: "copy_out (buffer_at u) command s = Done x" "y = x\<lparr>if_flag := True\<rparr>"
    and us: "user_string (buffer_at u) y = Done name" and c: "cstr name = cstr command" "0 \<in> set name"
    by (rule string_argument[OF s np(2,3)]) blast
  note x1 = copy_out_view[OF s x(1)]
  obtain m where m: "x = s\<lparr>phys := m\<rparr>" using copy_out_frame[OF x(1)] by blast
  define b where "b = exec_begin y"
  have vb: "same_view s b" "same_image s b"
    using same_view_trans[OF x1(1) same_view_trans[OF same_view_upd(5) same_view_begin]]
      same_image_trans[OF x1(2) same_image_trans[OF _ same_image_begin], of "x\<lparr>if_flag := True\<rparr>"]
    by (simp_all add: b_def x(2) same_image_def)
  have sp: "same_procs s b"
    using exec_begin_procs[of y] by (simp add: b_def x(2) m same_procs_def)
  have cb: "curr_pid b = pid (active_term s)" using exec_begin_pid[of y] by (simp add: b_def x(2) m)
  have "no_program b name" using np(1) no_program_cong[OF c(1) np(2) c(2)] no_program_image[OF vb(2)] by simp
  then obtain z where z: "find_program (skip_spaces name) b = Done (None, z)" "z = b \<or> (\<exists>inode. z = note_verylarge inode b)"
    using find_no_program by blast
  obtain n where n: "strlen name = Some n" "n \<le> 1023"
    using np(1,2) c by (auto simp: no_program_def strlen_cstr)
  have zk: "same_view s z" "same_image s z" "same_procs s z" "curr_pid z = pid (active_term s)"
    using z(2) vb sp cb same_view_trans[OF vb(1) same_view_upd(6)] same_image_trans[OF vb(2) same_image_upd(11)]
      same_procs_trans[OF sp same_procs_upd(5)] by (auto simp: note_verylarge_def)
  define s' where "s' = z\<lparr>if_flag := True\<rparr>"
  have ex: "execute_call name a e y = Done (Return (-1), z)" for a e
    using n z(1) by (simp add: execute_call_unfold b_def)
  have "kernel_execute u command s = Done (-1, s')"
    using us unat_at[OF s] ex
    by (simp add: kernel_execute_def x(1) syscall_entry_def cli_def sti_def x(2)[symmetric] do_syscall_in_C_def s'_def)
  moreover have v: "same_view s s'" "same_image s s'" "same_procs s s'"
    using zk same_view_trans[OF zk(1) same_view_upd(5)] by (simp_all add: s'_def same_image_def same_procs_def)
  moreover have "proc_rel s' st" using proc_rel_same[OF v(3) rel] .
  moreover have "resumed t s s'"
    using v zk(4) same_view_console[OF v(1)] t by (simp add: resumed_def same_view_def same_procs_def) (simp add: s'_def)
  ultimately show ?thesis using same_view_console(2)[OF v(1) t(1)] by blast
qed

end
