(* ===== verification/User_Round.thy ===== *)
theory User_Round
  imports User_Shell User_Child
begin

text \<open>
  A whole round of the shell on the kernel: a command is typed, the program that it names runs to
  its end, and the shell is back where it was, with the program's output on the screen.
\<close>

section \<open>States that differ in what a process may change\<close>

lemma side_held: "held s' = held s \<Longrightarrow> pcbs s' = pcbs s \<Longrightarrow> side s' = side s"
  by (simp add: held_def side_def term_core_def fun_eq_iff)

lemma std_fds_cong:
  assumes "std_fds p' = std_fds p" "i < 2"
  shows "flags (file_desc_array p' i) = flags (file_desc_array p i)"
    and "table_ptr (file_desc_array p' i) = table_ptr (file_desc_array p i)"
proof -
  have "i = 0 \<or> i = 1" using assms(2) by linarith
  then show "flags (file_desc_array p' i) = flags (file_desc_array p i)"
    "table_ptr (file_desc_array p' i) = table_ptr (file_desc_array p i)"
    using assms(1) by (auto simp: std_fds_def)
qed

lemma kept_std_fd:
  assumes "kept s s'" "0 \<le> fd" "fd < 2"
  shows "flags (cur_fd fd s') = flags (cur_fd fd s)" "table_ptr (cur_fd fd s') = table_ptr (cur_fd fd s)"
  using assms held_cur[of s' s] std_fds_cong[of "pcbs s' (cur_pcb_addr s)" "pcbs s (cur_pcb_addr s)" "nat fd"]
  by (simp_all add: kept_def cur_fd_def)

lemma kept_parts:
  assumes "kept s s'"
  shows "active_terminal s' = active_terminal s" "displayed_terminal s' = displayed_terminal s"
    "page_directory s' = page_directory s" "curr_pid s' = curr_pid s" "pid (terminal s' v) = pid (terminal s v)"
    "length (tempbuf (terminal s' v)) = length (tempbuf (terminal s v))" "no_command s' = no_command s"
    "key_char s' = key_char s" "same_image s s'" "terminal_on (pcbs s' a) = terminal_on (pcbs s a)"
    "pid_array s' = pid_array s"
  using assms
  by (auto simp: kept_def held_def term_core_def pcb_core_def no_command_def key_char_def same_image_def fun_eq_iff)

lemma serves_kept: "serves u t s \<Longrightarrow> kept s s' \<Longrightarrow> console_ok t s' \<Longrightarrow> serves u t s'"
  using kept_parts[of s s'] kept_std_fd[of s s' 1] held_cur[of s' s] by (simp add: serves_def kept_def)

lemma shell_ready_kept: "shell_ready u t s \<Longrightarrow> kept s s' \<Longrightarrow> console_ok t s' \<Longrightarrow> shell_ready u t s'"
  using serves_kept[of u t s s'] kept_parts[of s s'] kept_std_fd[of s s' 0] by (simp add: shell_ready_def)

lemma held_eoi [simp]: "held (eoi_sti s) = held s" "pcbs (eoi_sti s) = pcbs s"
  by (simp_all add: eoi_sti_eq)

lemma pcbs_upd [simp]: "pcbs (upd_term t f s) = pcbs s" "pcbs (terminal_putc c tid s) = pcbs s"
  using no_console_eqD(3)[OF terminal_putc_frame[of tid c s]] by (simp_all add: upd_term_def)

section \<open>The echo of the keys\<close>

lemma press_echoed:
  assumes "typing s l" "plain k" "echoes (key_char s k) l"
  obtains n where "press beyond k s = eoi_sti (terminal_putc (key_char s k) (displayed_terminal s)
    (upd_term (displayed_terminal s) (typed (key_char s k) l) (s\<lparr>if_flag := False, str_len := n\<rparr>)))"
proof -
  define s0 where "s0 = s\<lparr>if_flag := False, str_len := line_length (displayed_term s)\<rparr>"
  have s0: "line_rel s0 l" "str_len s0 = length l" "displayed_terminal s0 = displayed_terminal s"
    using assms(1) by (auto simp: typing_def s0_def line_rel_def Let_def)
  have nc: "no_command s" using assms(1) by (simp add: typing_def)
  from type_key_eq[OF s0(1,2), of "key_char s k"] assms(3) obtain n where
    "type_key (key_char s k) s0 = Done (eoi_sti (terminal_putc (key_char s k) (displayed_terminal s)
      (upd_term (displayed_terminal s) (typed (key_char s k) l) (s0\<lparr>str_len := n\<rparr>))))"
    by (auto simp: s0(3))
  then have "print_keycode 1 k beyond 0 0 s = Done (Return 0, eoi_sti (terminal_putc (key_char s k) (displayed_terminal s)
      (upd_term (displayed_terminal s) (typed (key_char s k) l) (s\<lparr>if_flag := False, str_len := n\<rparr>))))"
    using print_keycode_plain[OF assms(2) nc, of beyond 0 0] by (simp add: s0_def)
  then show thesis using that[of n] by (simp add: press_def)
qed

lemma press_shows:
  assumes "typing s l" "plain k" "echoes (key_char s k) l" "key_char s k \<noteq> BKSP" "console_ok (displayed_terminal s) s"
  shows "held (press beyond k s) = held s" "pcbs (press beyond k s) = pcbs s"
    "console_ok (displayed_terminal s) (press beyond k s)"
    "screen_of (displayed_terminal s) (press beyond k s) = scr_putc (key_char s k) (screen_of (displayed_terminal s) s)"
proof -
  let ?c = "key_char s k" and ?d = "displayed_terminal s"
  obtain n where p: "press beyond k s = eoi_sti (terminal_putc ?c ?d
    (upd_term ?d (typed ?c l) (s\<lparr>if_flag := False, str_len := n\<rparr>)))" by (rule press_echoed[OF assms(1-3)])
  define s1 where "s1 = upd_term ?d (typed ?c l) (s\<lparr>if_flag := False, str_len := n\<rparr>)"
  have "held s1 = held s"
    unfolding s1_def by (subst held_upd_term) (simp_all add: typed_def term_core_def)
  then show "held (press beyond k s) = held s" by (simp add: p s1_def[symmetric])
  show "pcbs (press beyond k s) = pcbs s" by (simp add: p)
  have "cur_x (terminal s1 ?d) = cur_x (terminal s ?d)" "cur_y (terminal s1 ?d) = cur_y (terminal s ?d)"
    "shift_up_one_flag (terminal s1 ?d) = shift_up_one_flag (terminal s ?d)"
    "phys s1 = phys s" "displayed_terminal s1 = ?d"
    by (simp_all add: s1_def upd_term_def typed_def)
  then have "screen_of ?d s1 = screen_of ?d s" "console_ok ?d s1 = console_ok ?d s"
    by (simp_all only: screen_of_def console_ok_def vid_base_def)
  then show "console_ok ?d (press beyond k s)"
    "screen_of ?d (press beyond k s) = scr_putc ?c (screen_of ?d s)"
    using terminal_putc_refines[of ?d s1 ?c] assms(4,5) by (simp_all add: p s1_def[symmetric] frame)
qed

text \<open>A text that the keys \<open>ks\<close> type without editing.\<close>

definition types :: "kernel \<Rightarrow> u8 list \<Rightarrow> u8 list \<Rightarrow> bool" where
  "types s ks cs \<longleftrightarrow> list_all plain ks \<and> map (key_char s) ks = cs \<and> length cs \<le> 127 \<and>
     list_all (\<lambda>c. c \<noteq> 0 \<and> c \<noteq> ENT \<and> c \<noteq> BKSP) cs"

lemma types_edit: "types s ks cs \<Longrightarrow> fold edit (map (key_char s) ks) [] = cs"
proof -
  have "list_all (\<lambda>c. c \<noteq> 0 \<and> c \<noteq> ENT \<and> c \<noteq> BKSP) cs \<Longrightarrow> length l + length cs \<le> 127 \<Longrightarrow> fold edit cs l = l @ cs" for l
    by (induction cs arbitrary: l) (simp_all add: edit_def)
  from this[of "[]"] show "types s ks cs \<Longrightarrow> fold edit (map (key_char s) ks) [] = cs" by (simp add: types_def)
qed

lemma presses_show:
  fixes beyond :: "nat \<Rightarrow> u8"
  assumes "typing s l" "list_all plain ks" "list_all (\<lambda>c. c \<noteq> 0 \<and> c \<noteq> ENT \<and> c \<noteq> BKSP) (map (key_char s) ks)"
    and "length l + length ks \<le> 127" "console_ok (displayed_terminal s) s"
  defines "s' \<equiv> fold (press beyond) ks s"
  shows "held s' = held s \<and> pcbs s' = pcbs s \<and> console_ok (displayed_terminal s) s' \<and>
    screen_of (displayed_terminal s) s' = fold scr_putc (map (key_char s) ks) (screen_of (displayed_terminal s) s)"
  using assms(1-5) unfolding s'_def
proof (induction ks arbitrary: s l)
  case (Cons k ks)
  let ?c = "key_char s k" and ?s1 = "press beyond k s"
  have c: "?c \<noteq> 0" "?c \<noteq> ENT" "?c \<noteq> BKSP" "plain k" using Cons.prems(2,3) by simp_all
  have e: "echoes ?c l" using c Cons.prems(4) by (simp add: echoes_def)
  note p = press_shows[OF Cons.prems(1) c(4) e c(3) Cons.prems(5), of beyond]
  note st = press_step[OF Cons.prems(1) c(4), of beyond]
  have kc: "key_char ?s1 = key_char s" using key_char_keys[OF st(3)] by (simp add: fun_eq_iff)
  have d: "displayed_terminal ?s1 = displayed_terminal s" using st(3) by (simp add: same_keys_def)
  have ed: "edit ?c l = l @ [?c]" using c Cons.prems(4) by (simp add: edit_def)
  show ?case
    using Cons.IH[OF st(1)] Cons.prems(2-4) p by (simp add: kc d ed)
qed simp

lemma wait_one: "wait_until c [f] s = Done x \<Longrightarrow> \<not> c s \<Longrightarrow> x = f s"
  by (simp add: wait_until.simps split: if_splits)

text \<open>The state that a read leaves: nothing but the console and the line have changed.\<close>

lemma terminal_read_leaves:
  assumes s: "serves u t s" "typing s []" and ks: "types s ks cs" "plain e" "key_char s e = ENT"
    and r: "terminal_read (map (press beyond) (ks @ [e])) fd buf n s = Done (r, s')"
    and nz: "buf \<noteq> 0"
  shows "held s' = held s \<and> pcbs s' = pcbs s \<and> console_ok t s' \<and>
    screen_of t s' = fold scr_putc (cs @ [ENT]) (screen_of t s)"
proof -
  have d: "displayed_terminal s = t" "console_ok t s" using s by (simp_all add: typing_def serves_def)
  define s1 where "s1 = sti (upd_term (active_terminal (cli s)) (\<lambda>t. t\<lparr>enter_flag := 0\<rparr>) (cli s))"
  have k1: "same_keys s s1" "typing s1 []" "get_flag s1 = 0"
    using s(2) by (auto simp: s1_def same_keys_def sti_def cli_def upd_term_def typing_def
        no_command_def line_rel_def Let_def get_flag_def)
  have h1: "held s1 = held s" "pcbs s1 = pcbs s" "console_ok t s1" "screen_of t s1 = screen_of t s"
    using d by (auto simp: s1_def sti_def cli_def held_def term_core_def upd_term_def console_ok_def screen_of_def vid_base_def)
  have kc: "key_char s1 = key_char s" using key_char_keys[OF k1(1)] by (simp add: fun_eq_iff)
  have d1: "displayed_terminal s1 = t" using k1(1) d by (simp add: same_keys_def)
  have ks': "list_all plain ks" "list_all (\<lambda>c. c \<noteq> 0 \<and> c \<noteq> ENT \<and> c \<noteq> BKSP) (map (key_char s1) ks)"
    "length ks \<le> 127" "map (key_char s1) ks = cs" using ks(1) by (auto simp: types_def kc)
  define s2 where "s2 = fold (press beyond) ks s1"
  have h2: "held s2 = held s" "pcbs s2 = pcbs s" "console_ok t s2" "screen_of t s2 = fold scr_putc cs (screen_of t s)"
    using presses_show[OF k1(2) ks'(1,2), of beyond] ks'(3,4) h1 by (simp_all add: d1 s2_def)
  have ne: "ENT \<notin> key_char s1 ` set ks" using ks'(2) by (auto simp: list_all_iff)
  have f: "typing s2 (fold edit (map (key_char s1) ks) [])" "same_keys s1 s2" "get_flag s2 = 0"
    "wait_until (\<lambda>s. get_flag s \<noteq> 0) (map (press beyond) ks @ es) s1 = wait_until (\<lambda>s. get_flag s \<noteq> 0) es s2" for es
    using fold_press[OF k1(2) ks'(1) ne k1(3), of beyond] by (simp_all add: s2_def)
  have e2: "key_char s2 e = ENT" "displayed_terminal s2 = t"
    using key_char_keys[OF f(2)] ks(3) kc d1 f(2) by (simp_all add: same_keys_def)
  define s3 where "s3 = press beyond e s2"
  have ee: "echoes (key_char s2 e) (fold edit (map (key_char s1) ks) [])" by (simp add: e2 echoes_def)
  have h3: "held s3 = held s" "pcbs s3 = pcbs s" "console_ok t s3" "screen_of t s3 = fold scr_putc (cs @ [ENT]) (screen_of t s)"
    using press_shows[OF f(1) ks(2) ee, of beyond] h2 by (simp_all add: e2 s3_def)
  obtain x where x: "wait_until (\<lambda>s. get_flag s \<noteq> 0) (map (press beyond) ks @ [press beyond e]) s1 = Done x" "read_line buf x = Done (r, s')"
    using r nz by (auto simp: terminal_read_def Let_def s1_def[symmetric] andthen_Done_iff)
  have xs: "x = s3"
    using wait_one[OF x(1)[unfolded f(4)]] f(3) by (simp add: s3_def)
  obtain z bs where z: "copy_out buf bs (cli s3) = Done z" "s' = sti z"
    using x(2) by (auto simp: xs read_line_def Let_def andthen_Done_iff split: if_splits)
  have s3: "serves u t s3" by (rule serves_side[OF s(1) side_held[OF h3(1,2)] h3(3)])
  have "serves u t (cli s3)" by (rule serves_side[OF s3]) (use h3(3) in \<open>simp_all add: cli_def\<close>)
  note c = screen_copy_out[OF this z(1)] held_copy_out[OF z(1)]
  obtain m where m: "z = (cli s3)\<lparr>phys := m\<rparr>" using copy_out_frame[OF z(1)] by blast
  have t: "t < 3" using s(1) by (simp add: serves_def)
  show ?thesis
    using c(1)[OF t] c(2) h3 by (simp add: z(2) sti_def cli_def) (simp add: m cli_def console_ok_def)
qed

lemma shell_reads_typed:
  assumes s: "shell_ready u t s" "typing s []" and b: "length buf = 1024"
    and ks: "types s ks cs" "plain e" "key_char s e = ENT"
  shows "\<exists>buf' s'. kernel_read u (map (press beyond) (ks @ [e])) 0 buf 1023 s = Done (int (length cs + 1), buf', s') \<and>
    length buf' = 1024 \<and> take (length cs + 1) buf' = cs @ [10] \<and> kept s s' \<and> shell_ready u t s' \<and>
    screen_of t s' = fold scr_putc (cs @ [10]) (screen_of t s)"
proof -
  let ?ev = "map (press beyond) (ks @ [e])"
  have "list_all plain ks" "ENT \<notin> key_char s ` set ks" using ks(1) by (auto simp: types_def list_all_iff)
  from shell_reads_keys[OF s b this ks(2,3), of beyond] obtain buf' s' where
    r: "kernel_read u ?ev 0 buf 1023 s = Done (int (length cs + 1), buf', s')" "length buf' = 1024"
      "take (length cs + 1) buf' = cs @ [10]"
    by (auto simp: types_edit[OF ks(1)])
  obtain x where x: "copy_out (buffer_at u) buf s = Done x"
    "trap u ?ev (word_of_int 3) (word_of_int 0) (at u) (word_of_int 1023) x = Done (int (length cs + 1), s')"
    using r(1) by (auto simp: kernel_read_def andthen_Done_iff)
  have sv: "serves u t s" using s(1) by (simp add: shell_ready_def)
  define y where "y = x\<lparr>if_flag := True\<rparr>"
  have hy: "held y = held s" "pcbs y = pcbs s" using held_copy_out[OF x(1)] by (simp_all add: y_def)
  note x2 = serves_copy_out[OF sv x(1)]
  have cy: "console_ok t y" "screen_of t y = screen_of t s" using x2 by (simp_all add: y_def serves_def)
  have ky: "kept s y" by (rule kept_same[OF hy])
  have svy: "serves u t y" by (rule serves_kept[OF sv ky cy(1)])
  obtain m where xm: "x = s\<lparr>phys := m\<rparr>" using copy_out_frame[OF x(1)] by blast
  have ty: "typing y []" using s(2) by (auto simp: typing_def line_rel_def Let_def no_command_def y_def xm)
  have ky': "key_char y = key_char s" "types y ks cs" using kept_parts(8)[OF ky] ks(1) by (simp_all add: types_def)
  have fd: "flags (cur_fd 0 y) = ENGAGED" "table_ptr (cur_fd 0 y) = stdin_operations"
    using kept_std_fd[OF ky, of 0] s(1) by (simp_all add: shell_ready_def)
  obtain k z where "trap u ?ev (word_of_int 3) (word_of_int 0) (at u) (word_of_int 1023) x = Done (k, z\<lparr>if_flag := True\<rparr>)"
    "read_call ?ev 0 (unat (at u)) 1023 y = Done (k, z)"
    using x(2) by (auto simp: trap_calls(1) y_def[symmetric] do_syscall_in_C_def returns_then andthen_Done_iff)
  then have s': "s' = z\<lparr>if_flag := True\<rparr>" "read_call ?ev 0 (unat (at u)) 1023 y = Done (k, z)" using x(2) by auto
  then obtain v where v: "terminal_read ?ev 0 (unat (at u)) 1023 y = Done (k, v)"
    "z = upd_pcb (cur_pcb_addr y) (upd_fd 0 (\<lambda>d. d\<lparr>file_position := file_position d + word_of_int k\<rparr>)) v"
    using fd unat_at[OF svy] by (auto simp: read_call_def Let_def andthen_Done_iff)
  have tl: "held v = held y" "pcbs v = pcbs y" "console_ok t v" "screen_of t v = fold scr_putc (cs @ [10]) (screen_of t y)"
    using terminal_read_leaves[OF svy ty ky'(2) ks(2) _ v(1)] ks(3) ky'(1) unat_at[OF svy] by simp_all
  have "cur_pcb_addr y = cur_pcb_addr v" using held_cur[OF tl(1)] by simp
  then have kz: "kept y z" unfolding v(2) using kept_trans[OF kept_same[OF tl(1,2)] kept_fd] by simp
  have ks': "kept s s'" unfolding s'(1) by (rule kept_trans[OF ky kept_trans[OF kz kept_if_flag]])
  have cz: "console_ok t s' = console_ok t v" "screen_of t s' = screen_of t v"
    by (simp_all add: s'(1) v(2) upd_pcb_def console_ok_def screen_of_def vid_base_def)
  have "shell_ready u t s'" by (rule shell_ready_kept[OF s(1) ks']) (simp add: cz tl(3))
  then show ?thesis using r ks' cz tl(4) cy(2) by auto
qed

section \<open>The prompt and the report\<close>

lemma fdputs_kept:
  assumes "serves u t (fst x)" "ece391_fdputs (kernel_sys u) 1 str x = Done y"
  shows "kept (fst x) (fst y)"
  using assms kernel_write_kept[OF assms(1)] by (auto simp: ece391_fdputs_def andthen_Done_iff with_events_def)

lemma fdputs_shows:
  assumes s: "serves u t (fst x)" and m: "0 \<in> set m" "length m \<le> 2048" "BACKSPACE \<notin> set m"
  shows "\<exists>y. ece391_fdputs (kernel_sys u) 1 m x = Done y \<and> snd y = snd x \<and> serves u t (fst y) \<and> kept (fst x) (fst y) \<and>
    screen_of t (fst y) = fold scr_putc (cstr m) (screen_of t (fst x))"
proof -
  have "list_all (\<lambda>c. c \<noteq> BACKSPACE) (cstr m)"
    using m(3) set_takeWhileD unfolding cstr_def by (fastforce simp: list_all_iff)
  with screen.fdputs[OF s m(1,2)] obtain y where y: "ece391_fdputs (kernel_sys u) 1 m x = Done y"
    "serves u t (fst y)" "screen_of t (fst y) = fold scr_putc (cstr m) (screen_of t (fst x))" by blast
  moreover have "snd y = snd x" using y(1) by (auto simp: ece391_fdputs_def andthen_Done_iff with_events_def)
  ultimately show ?thesis using fdputs_kept[OF s y(1)] by blast
qed

text \<open>The line by which the shell reports a status.\<close>

definition report_line :: "u8 \<Rightarrow> u8 list" where
  "report_line result = (if result = 0 then [] else chars ''program terminated abnormally'' @ [10])"

lemma line_shown:
  assumes s: "shell_ready u t (fst x)" and m: "0 \<notin> set (chars m)" "length m \<le> 1024" "BACKSPACE \<notin> set (chars m)"
  shows "\<exists>y. ece391_fdputs (kernel_sys u) 1 (c_line m) x = Done y \<and> snd y = snd x \<and> shell_ready u t (fst y) \<and>
    kept (fst x) (fst y) \<and> screen_of t (fst y) = fold scr_putc (chars m @ [10]) (screen_of t (fst x))"
proof -
  have sv: "serves u t (fst x)" using s by (simp add: shell_ready_def)
  have "length (c_line m) \<le> 2048" "BACKSPACE \<notin> set (c_line m)" using m by (simp_all add: c_line_def chars_def)
  from fdputs_shows[OF sv _ this] obtain y where y: "ece391_fdputs (kernel_sys u) 1 (c_line m) x = Done y" "snd y = snd x"
    "serves u t (fst y)" "kept (fst x) (fst y)" "screen_of t (fst y) = fold scr_putc (chars m @ [10]) (screen_of t (fst x))"
    using m(1) by auto
  then show ?thesis using shell_ready_kept[OF s y(4)] by (auto simp: serves_def)
qed

lemma report_shown:
  assumes s: "shell_ready u t (fst x)"
  shows "\<exists>y. shell_report (kernel_sys u) (uint (result :: u8)) x = Done y \<and> snd y = snd x \<and> shell_ready u t (fst y) \<and>
    kept (fst x) (fst y) \<and> screen_of t (fst y) = fold scr_putc (report_line result) (screen_of t (fst x))"
proof (cases "result = 0")
  case True
  then show ?thesis using s by (simp add: shell_report_def report_line_def)
next
  case False
  have "uint result \<noteq> -1" "uint result \<noteq> 256" "uint result \<noteq> 0"
  proof -
    show "uint result \<noteq> -1" using unsigned_greater_eq[of result, where ?'a = int] by linarith
    show "uint result \<noteq> 256" using unsigned_less[of result, where ?'a = int] by simp
    show "uint result \<noteq> 0" using False by (simp add: unsigned_eq_0_iff)
  qed
  then show ?thesis
    using line_shown[OF s, of "''program terminated abnormally''"] False
    by (simp add: shell_report_def report_line_def) (simp add: chars_def)
qed

lemma greeting_shown:
  assumes s: "shell_ready u t (fst x)"
  shows "\<exists>y. ece391_fdputs (kernel_sys u) 1 (c_line ''Starting 391 Shell'') x = Done (y, snd x) \<and> shell_ready u t y \<and>
    kept (fst x) y \<and> screen_of t y = fold scr_putc (chars ''Starting 391 Shell'' @ [10]) (screen_of t (fst x))"
  using line_shown[OF s, of "''Starting 391 Shell''"] by (auto simp: chars_def)

section \<open>A command, from the keys to the prompt\<close>

lemma shell_ready_resumed:
  assumes "shell_ready u t s" "resumed t s s'"
  shows "shell_ready u t s'"
proof -
  have sv: "serves u t s" using assms(1) by (simp add: shell_ready_def)
  show ?thesis
    using assms resumed_serves(1)[OF sv assms(2)] resumed_serves(2)[OF sv assms(2), of 0]
    by (simp add: shell_ready_def resumed_def)
qed

text \<open>What the next round relies on.\<close>

definition same_session :: "kernel \<Rightarrow> kernel \<Rightarrow> bool" where
  "same_session s s' \<longleftrightarrow> key_char s' = key_char s \<and> pid_array s' = pid_array s \<and> same_image s s' \<and>
     internalCounter s' = internalCounter s"

lemma same_session_trans: "same_session s s1 \<Longrightarrow> same_session s1 s2 \<Longrightarrow> same_session s s2"
  by (simp add: same_session_def same_image_def)

lemma same_session_kept: "kept s s' \<Longrightarrow> same_session s s'"
  by (simp add: same_session_def kept_keys kept_image)

lemma same_session_resumed: "resumed t s s' \<Longrightarrow> same_session s s'"
  by (simp add: same_session_def resumed_def)

lemma same_session_facts:
  assumes "same_session s s'"
  shows "types s' ks cs = types s ks cs" "free_pid s' = free_pid s"
    "names_program s' command inode = names_program s command inode"
    "file_content s' inode = file_content s inode"
proof -
  have im: "same_image s s'" using assms by (simp add: same_session_def)
  show "types s' ks cs = types s ks cs" "free_pid s' = free_pid s"
    using assms by (simp_all add: same_session_def types_def free_pid_def[abs_def])
  show "names_program s' command inode = names_program s command inode"
    "file_content s' inode = file_content s inode"
    by (simp_all add: names_program_def image_facts[OF im])
qed

lemma prompt_kept:
  assumes "shell_ready u t (fst x)" "ece391_fdputs (kernel_sys u) 1 (c_lit ''391OS> '') x = Done y"
  shows "kept (fst x) (fst y)"
  using fdputs_kept[of u t x] assms by (simp add: shell_ready_def)

text \<open>The prompt and the line of a round, whatever the line is.\<close>

lemma round_line:
  assumes s: "shell_ready u t s" "length buf = 1024" "types s ks cs" "plain e" "key_char s e = ENT"
  shows "\<exists>x rest. shell_ready u t x \<and> kept s x \<and> length (cs @ 0 # rest) = 1024 \<and>
    screen_of t x = fold scr_putc (chars ''391OS> '' @ cs @ [10]) (screen_of t s) \<and>
    shell_loop (kernel_sys u) buf (s, map (press beyond) (ks @ [e]) # w) =
      (if cs = chars ''exit'' then Some (Done (0, (x, w)))
       else if cs = [] then shell_loop (kernel_sys u) (cs @ 0 # rest) (x, w)
       else upon (with_events w (kernel_execute u (cs @ 0 # rest) x)) (\<lambda>(rval, y).
              upon (shell_report (kernel_sys u) rval y) (shell_loop (kernel_sys u) (cs @ 0 # rest))))"
proof -
  let ?ev = "map (press beyond) (ks @ [e])"
  obtain y where y: "ece391_fdputs (kernel_sys u) 1 (c_lit ''391OS> '') (s, ?ev # w) = Done y" "snd y = ?ev # w"
    "shell_ready u t (fst y)" "typing (fst y) []" "key_char (fst y) = key_char s"
    "screen_of t (fst y) = fold scr_putc (chars ''391OS> '') (screen_of t s)"
    using prompt_ready[of u t "(s, ?ev # w)"] s(1) by auto
  have ky: "kept s (fst y)" using prompt_kept[OF _ y(1)] s(1) by simp
  have ty: "types (fst y) ks cs" using s(3) same_session_facts(1)[OF same_session_kept[OF ky]] by simp
  have e: "key_char (fst y) e = ENT" using s(5) y(5) by simp
  obtain buf' x where x: "kernel_read u ?ev 0 buf 1023 (fst y) = Done (int (length cs + 1), buf', x)"
    "length buf' = 1024" "take (length cs + 1) buf' = cs @ [10]" "kept (fst y) x" "shell_ready u t x"
    "screen_of t x = fold scr_putc (cs @ [10]) (screen_of t (fst y))"
    using shell_reads_typed[OF y(3,4) s(2) ty s(4) e, of beyond] by blast
  have rd: "sread (kernel_sys u) 0 buf 1023 y = Done (int (length cs + 1), buf', (x, w))"
    using x(1) y(2) by (simp add: next_events_def)
  have nz: "0 \<notin> set cs" "length cs + 1 \<le> length buf'" using s(3) x(2) by (auto simp: types_def list_all_iff)
  obtain rest where rest: "length (cs @ 0 # rest) = length buf'" "shell_loop (kernel_sys u) buf (s, ?ev # w) =
    (if cs = chars ''exit'' then Some (Done (0, (x, w)))
     else if cs = [] then shell_loop (kernel_sys u) (cs @ 0 # rest) (x, w)
     else upon (sexecute (kernel_sys u) (cs @ 0 # rest) (x, w)) (\<lambda>(rval, s3).
            upon (shell_report (kernel_sys u) rval s3) (shell_loop (kernel_sys u) (cs @ 0 # rest))))"
    using shell_round[OF y(1) rd nz(2) x(3) nz(1)] by blast
  have "kept s x" by (rule kept_trans[OF ky x(4)])
  moreover have "screen_of t x = fold scr_putc (chars ''391OS> '' @ cs @ [10]) (screen_of t s)"
    using x(6) y(6) by simp
  ultimately show ?thesis using rest x(2,5) by (intro exI[of _ x] exI[of _ rest]) simp
qed

context program
begin

text \<open>A typed command runs the program, and the shell is ready for the next one.\<close>

lemma command_round:
  assumes s: "shell_ready u t s" "length buf = 1024" "types s ks cs" "plain e" "key_char s e = ENT"
    and rel: "proc_rel s st" "st t \<noteq> []" and fp: "\<exists>i. 3 \<le> i \<and> i < 6 \<and> free_pid s i"
    and np: "names_program s (cs @ [0]) inode" and ne: "cs \<noteq> chars ''exit''"
    and ch: "child u (elf_entry (file_content s inode)) USER_STACK = body"
    and ab: "able (arg_text (skip_spaces cs)) s"
  shows "\<exists>s' buf'. shell_loop (kernel_sys u) buf (s, map (press beyond) (ks @ [e]) # w) = shell_loop (kernel_sys u) buf' (s', w) \<and>
    length buf' = 1024 \<and> shell_ready u t s' \<and> proc_rel s' st \<and> same_session s s' \<and>
    screen_of t s' = fold scr_putc (chars ''391OS> '' @ cs @ [10] @ out_text (arg_text (skip_spaces cs)) s @
      report_line (result (arg_text (skip_spaces cs)) s))
      (screen_of t s)"
proof -
  obtain x rest where x: "shell_ready u t x" "kept s x" "length (cs @ 0 # rest) = 1024"
    "screen_of t x = fold scr_putc (chars ''391OS> '' @ cs @ [10]) (screen_of t s)"
    and l: "shell_loop (kernel_sys u) buf (s, map (press beyond) (ks @ [e]) # w) =
      (if cs = chars ''exit'' then Some (Done (0, (x, w)))
       else if cs = [] then shell_loop (kernel_sys u) (cs @ 0 # rest) (x, w)
       else upon (with_events w (kernel_execute u (cs @ 0 # rest) x)) (\<lambda>(rval, y).
              upon (shell_report (kernel_sys u) rval y) (shell_loop (kernel_sys u) (cs @ 0 # rest))))"
    using round_line[OF s, of beyond w] by metis
  let ?c = "cs @ 0 # rest" and ?r = "result (arg_text (skip_spaces cs)) s"
  note f = same_session_facts[OF same_session_kept[OF x(2)]]
  have nz: "0 \<notin> set cs" using s(3) by (auto simp: types_def list_all_iff)
  have c: "cstr ?c = cstr (cs @ [0])" using cstr_append_nul[OF nz] by simp
  have np': "names_program x ?c inode" using command_cong(3)[OF c] np by (simp add: f)
  have arg: "arg_text (skip_spaces ?c) = arg_text (skip_spaces cs)" by (rule words_of_command(2))
  have ab': "able (arg_text (skip_spaces ?c)) x" "out_text (arg_text (skip_spaces cs)) x = out_text (arg_text (skip_spaces cs)) s"
    "result (arg_text (skip_spaces cs)) x = ?r"
    using image[OF kept_image[OF x(2)]] ab by (simp_all add: arg)
  have sx: "serves u t x" using x(1) by (simp add: shell_ready_def)
  have rel_x: "proc_rel x st" using rel(1) kept_rel[OF x(2)] by simp
  obtain y where y: "kernel_execute u ?c x = Done (uint ?r, y)" "proc_rel y st" "resumed t x y"
    "screen_of t y = fold scr_putc (out_text (arg_text (skip_spaces cs)) s) (screen_of t x)"
    using executes[OF sx rel_x rel(2) np' _ _ _ _ ab'(1)] x(3) fp ch f(2,4) by (auto simp: arg ab'(2,3))
  have ry: "shell_ready u t (fst (y, w))" using shell_ready_resumed[OF x(1) y(3)] by simp
  obtain z where z: "shell_report (kernel_sys u) (uint ?r) (y, w) = Done (z, w)" "shell_ready u t z" "kept y z"
    "screen_of t z = fold scr_putc (report_line ?r) (screen_of t y)"
    using report_shown[OF ry, of ?r] by (metis fst_conv prod.collapse snd_conv)
  have "cs \<noteq> []"
  proof
    assume "cs = []"
    then have "first_word (skip_spaces (cs @ [0])) = []" by (simp add: skip_spaces_def first_word_def)
    then have "has_file s (zero_buffer [])" using np by (simp add: names_program_def Let_def)
    then show False by (simp add: has_file_def zero_buffer_def cstr_def)
  qed
  then have "shell_loop (kernel_sys u) buf (s, map (press beyond) (ks @ [e]) # w) = shell_loop (kernel_sys u) ?c (z, w)"
    using l ne y(1) z(1) by simp
  moreover have "proc_rel z st" using y(2) kept_rel[OF z(3)] by simp
  moreover have "same_session s z"
    using same_session_trans[OF same_session_kept[OF x(2)] same_session_trans[OF same_session_resumed[OF y(3)] same_session_kept[OF z(3)]]] .
  moreover have "screen_of t z = fold scr_putc (chars ''391OS> '' @ cs @ [10] @ out_text (arg_text (skip_spaces cs)) s @
      report_line ?r) (screen_of t s)" using z(4) y(4) x(4) by simp
  ultimately show ?thesis using z(2) x(3) by (intro exI[of _ z] exI[of _ ?c]) simp
qed

end

end
