(* ===== verification/User_Session.thy ===== *)
theory User_Session
  imports User_Round
begin

text \<open>
  Sessions of the shell: \<open>cat\<close> and \<open>ls\<close> as programs that a shell executes, and the lines of a session
  one after the other, until \<open>exit\<close>.
\<close>

section \<open>cat as a program\<close>

text \<open>
  \<open>_start\<close> calls \<open>main\<close> and halts with the low byte of what it returns; a \<open>main\<close> that does not return
  does not halt.
\<close>

definition start_main :: "(user_state \<Rightarrow> (int \<times> user_state) outcome option) \<Rightarrow> kernel \<Rightarrow> (u8 \<times> kernel) outcome" where
  "start_main main s =
     (case main (s, []) of None \<Rightarrow> Blocked
      | Some m \<Rightarrow> andthen m (\<lambda>(r, s). Done (ucast (word_of_int r :: u32), fst s)))"

definition array_fits :: "user_side \<Rightarrow> bool" where
  "array_fits v \<longleftrightarrow> 0x8000000 \<le> buffer_at v \<and> buffer_at v + 2048 \<le> 0x8400000"

definition missing_file :: "u8 list \<Rightarrow> kernel \<Rightarrow> bool" where
  "missing_file name s \<longleftrightarrow> length name > 32 \<or> dentries_named (fs s) (name @ [0]) = []"

definition cat_result :: "u8 list \<Rightarrow> kernel \<Rightarrow> u8" where
  "cat_result name s = (if name = [] then 3 else if missing_file name s then 2 else 0)"

definition cat_text :: "u8 list \<Rightarrow> kernel \<Rightarrow> u8 list" where
  "cat_text name s =
     (if name = [] then chars ''could not read arguments'' @ [10]
      else if missing_file name s then chars ''file not found'' @ [10]
      else concat (chunks_from s (dentry_inode (file_dentry s (name @ [0]))) 1024 0))"

definition cat_able :: "user_side \<Rightarrow> u8 list \<Rightarrow> u8 list \<Rightarrow> kernel \<Rightarrow> bool" where
  "cat_able v buf name s \<longleftrightarrow> array_fits v \<and> length buf = 1024 \<and>
     (name = [] \<or> missing_file name s \<or>
      names_file s (name @ [0]) (dentry_inode (file_dentry s (name @ [0]))) \<and> BACKSPACE \<notin> set (cat_text name s))"

lemma names_file_image: "same_image s s' \<Longrightarrow> names_file s' name inode = names_file s name inode"
  using image_facts[of s s'] verylarge_image[of s s']
  by (simp add: names_file_def) (simp add: same_image_def)

lemma chunks_image: "same_image s s' \<Longrightarrow> chunks_from s' inode n pos = chunks_from s inode n pos"
  by (rule chunks_from_cong) (simp_all add: same_image_def file_byte_def[abs_def])

lemma puts_return_shows:
  assumes s: "serves u t (fst x)" and m: "0 \<in> set m" "length m \<le> 2048" "BACKSPACE \<notin> set m"
  shows "\<exists>y. puts_return (kernel_sys u) m r x = Some (Done (r, y)) \<and> serves u t (fst y) \<and> kept (fst x) (fst y) \<and>
    screen_of t (fst y) = fold scr_putc (cstr m) (screen_of t (fst x))"
  using fdputs_shows[OF assms] by (auto simp: puts_return_def)

text \<open>Without an argument or without the file, \<open>cat\<close> says so.\<close>

lemma cat_refuses:
  assumes s: "serves u t s" and a: "0 \<in> set (terminal_cmd (pcbs s (cur_pcb_addr s)))" "length (args_of s) < 128"
    and f: "args_of s = [] \<or> missing_file (args_of s) s" and b: "length buf = 1024"
  shows "\<exists>y. cat_main (kernel_sys u) buf (s, w) = Some (Done (if args_of s = [] then 3 else 2, y)) \<and> serves u t (fst y) \<and>
    kept s (fst y) \<and> screen_of t (fst y) = fold scr_putc (cat_text (args_of s) s) (screen_of t s)"
proof -
  let ?buf = "args_of s @ replicate (1024 - length (args_of s)) 0"
  have nz: "0 \<notin> set (args_of s)" by (simp add: args_of_def cstr_no_nul)
  obtain x where x: "kernel_getargs u buf 1024 s = Done (if args_of s = [] then -1 else 0, ?buf, x)" "serves u t x"
    "side x = side s" "screen_of t x = screen_of t s"
    using kernel_getargs_args[OF s a(1) b] a(2) by auto
  have kx: "kept s x" by (rule kernel_getargs_kept[OF x(1)])
  show ?thesis
  proof (cases "args_of s = []")
    case True
    let ?m = "c_line ''could not read arguments''"
    have "0 \<in> set ?m" "length ?m \<le> 2048" "BACKSPACE \<notin> set ?m" "cstr ?m = chars ''could not read arguments'' @ [10]"
      by (simp_all add: c_line_def chars_def)
    with puts_return_shows[of u t "(x, w)" ?m 3] x(2) obtain y where
      "puts_return (kernel_sys u) ?m 3 (x, w) = Some (Done (3, y))" "serves u t (fst y)" "kept x (fst y)"
      "screen_of t (fst y) = fold scr_putc (chars ''could not read arguments'' @ [10]) (screen_of t x)" by auto
    then show ?thesis using x(1,4) kept_trans[OF kx] True by (simp add: cat_main_def cat_text_def)
  next
    case False
    let ?m = "c_line ''file not found''"
    have "?buf = args_of s @ 0 # replicate (1023 - length (args_of s)) 0"
      using a(2) by (simp add: Cons_replicate_eq replicate_Suc[symmetric] Suc_diff_le del: replicate_Suc)
    then have cb: "cstr ?buf = args_of s" "0 \<in> set ?buf" using cstr_append_nul[OF nz] by simp_all
    have "cstr ?buf = cstr (args_of s @ [0])" using cb(1) cstr_append_nul[OF nz, of "[]"] by simp
    then have "cstr ?buf = [] \<or> length (cstr ?buf) > 32 \<or> dentries_named (fs x) ?buf = [] \<or> find (free_fd x) [2..<8] = None"
      using f False cb(1) named_cong[of ?buf "args_of s @ [0]"] file_facts_side(4)[OF x(3)] by (auto simp: missing_file_def)
    moreover have "length ?buf \<le> 2048" using a(2) by simp
    ultimately obtain y where y: "kernel_open u ?buf x = Done (-1, y)" "serves u t y" "screen_of t y = screen_of t x"
      using kernel_open_missing[OF x(2) cb(2)] by blast
    have ky: "kept s y" by (rule kept_trans[OF kx kernel_open_kept[OF y(1)]])
    have "0 \<in> set ?m" "length ?m \<le> 2048" "BACKSPACE \<notin> set ?m" "cstr ?m = chars ''file not found'' @ [10]"
      by (simp_all add: c_line_def chars_def)
    with puts_return_shows[of u t "(y, w)" ?m 2] y(2) obtain z where
      "puts_return (kernel_sys u) ?m 2 (y, w) = Some (Done (2, z))" "serves u t (fst z)" "kept y (fst z)"
      "screen_of t (fst z) = fold scr_putc (chars ''file not found'' @ [10]) (screen_of t y)" by auto
    then show ?thesis using x(1,4) y(1,3) kept_trans[OF ky] False f by (simp add: cat_main_def cat_text_def)
  qed
qed

lemma missing_image: "same_image s s' \<Longrightarrow> missing_file name s' = missing_file name s"
  by (simp add: missing_file_def same_image_def)

lemma cat_image:
  assumes "same_image s s'"
  shows "cat_text name s' = cat_text name s" "cat_result name s' = cat_result name s"
  using assms by (simp_all add: cat_text_def cat_result_def chunks_image image_facts missing_image)

interpretation cat_program: program "start_main (cat_main (kernel_sys v) buf)" "cat_able v buf" cat_text cat_result for v buf
proof unfold_locales
  fix t arg s e
  assume st: "started t arg s e" and t: "t < 3" "console_ok t s" and a: "0 \<notin> set arg" "length arg < 128"
    and ab: "cat_able v buf arg s"
  have im: "same_image s e" using st by (simp add: started_def)
  have v: "0x8000000 \<le> buffer_at v" "buffer_at v + 2048 \<le> 0x8400000" "length buf = 1024"
    using ab by (simp_all add: cat_able_def array_fits_def)
  note se = started_serves[OF st t(2,1) v(1,2)] and ar = started_args[OF st a(1)]
  have "\<exists>r z. cat_main (kernel_sys v) buf (e, []) = Some (Done (r, z)) \<and> ucast (word_of_int r :: u32) = cat_result arg s \<and>
      serves v t (fst z) \<and> kept e (fst z) \<and> screen_of t (fst z) = fold scr_putc (cat_text arg s) (screen_of t e)"
  proof (cases "arg = [] \<or> missing_file arg s")
    case True
    then show ?thesis
      using cat_refuses[OF se(1) ar(2) _ _ v(3), of "[]"] a(2) by (auto simp: ar missing_image[OF im] cat_image[OF im] cat_result_def)
  next
    case False
    let ?i = "dentry_inode (file_dentry s (arg @ [0]))"
    have f: "names_file e (args_of e @ [0]) ?i" "BACKSPACE \<notin> set (concat (chunks_from e ?i 1024 0))"
      using ab False by (simp_all add: cat_able_def cat_text_def ar names_file_image[OF im] chunks_image[OF im])
    obtain z w where "cat_main (kernel_sys v) buf (e, []) = Some (Done (0, (z, w)))" "serves v t z"
      "screen_of t z = fold scr_putc (concat (chunks_from e ?i 1024 0)) (screen_of t e)" "kept e z"
      using cat_runs[OF se(1) ar(2) _ f(1) se(2) v(3) f(2), of "[]"] a(2) by (auto simp: ar)
    then show ?thesis using False by (simp add: cat_result_def cat_text_def chunks_image[OF im])
  qed
  then obtain r z where z: "cat_main (kernel_sys v) buf (e, []) = Some (Done (r, z))"
    "ucast (word_of_int r :: u32) = cat_result arg s" "serves v t (fst z)" "kept e (fst z)"
    "screen_of t (fst z) = fold scr_putc (cat_text arg s) (screen_of t e)" by blast
  have "start_main (cat_main (kernel_sys v) buf) e = Done (cat_result arg s, fst z)"
    using z(2) by (simp add: start_main_def z(1) split: prod.splits)
  then show "\<exists>z. start_main (cat_main (kernel_sys v) buf) e = Done (cat_result arg s, z) \<and> kept e z \<and> console_ok t z \<and>
      screen_of t z = fold scr_putc (cat_text arg s) (screen_of t e)"
    using z(3-5) by (auto simp: serves_def)
next
  fix s s' arg
  assume im: "same_image s s'"
  then show "cat_able v buf arg s' = cat_able v buf arg s \<and> cat_text arg s' = cat_text arg s \<and> cat_result arg s' = cat_result arg s"
    by (simp add: cat_able_def names_file_image image_facts missing_image cat_image)
qed

section \<open>ls as a program\<close>

definition ls_text :: "u8 list \<Rightarrow> kernel \<Rightarrow> u8 list" where
  "ls_text arg s = concat (map (\<lambda>j. filename (dentry_at (fs s) j) @ [10]) [0..<17])"

definition ls_able :: "user_side \<Rightarrow> u8 list \<Rightarrow> u8 list \<Rightarrow> kernel \<Rightarrow> bool" where
  "ls_able v buf arg s \<longleftrightarrow> array_fits v \<and> length buf = 33 \<and> has_file s (c_lit ''.'') \<and>
     filetype (file_dentry s (c_lit ''.'')) = 1 \<and> internalCounter s = 0 \<and>
     (\<forall>j<17. BACKSPACE \<notin> set (filename (dentry_at (fs s) j)))"

interpretation ls_program: program "start_main (ls_main (kernel_sys v) buf)" "ls_able v buf" ls_text "\<lambda>_ _. 0" for v buf
proof unfold_locales
  fix t arg s e
  assume st: "started t arg s e" and t: "t < 3" "console_ok t s" and ab: "ls_able v buf arg s"
  have im: "same_image s e" "internalCounter e = internalCounter s" using st by (simp_all add: started_def same_view_def)
  then have fs: "fs e = fs s" by (simp add: same_image_def)
  have v: "0x8000000 \<le> buffer_at v" "buffer_at v + 2048 \<le> 0x8400000" "length buf = 33"
    and d: "has_file e (c_lit ''.'')" "filetype (file_dentry e (c_lit ''.'')) = 1" "internalCounter e = 0"
    and n: "\<And>j. j < 17 \<Longrightarrow> BACKSPACE \<notin> set (filename (dentry_at (fs e) j))"
    using ab im(2) by (simp_all add: ls_able_def array_fits_def image_facts[OF im(1)] fs)
  note se = started_serves[OF st t(2,1) v(1,2)]
  obtain z w where z: "ls_main (kernel_sys v) buf (e, []) = Some (Done (0, (z, w)))" "serves v t z"
    "screen_of t z = fold scr_putc (ls_text arg e) (screen_of t e)" "kept e z"
    using ls_runs[OF se(1) d(1,2) se(2) d(3) v(3) n, of "[]"] by (auto simp: ls_text_def simp del: upt_rec_numeral)
  have "start_main (ls_main (kernel_sys v) buf) e = Done (0, z)" by (simp add: start_main_def z(1))
  then show "\<exists>z. start_main (ls_main (kernel_sys v) buf) e = Done (0, z) \<and> kept e z \<and> console_ok t z \<and>
      screen_of t z = fold scr_putc (ls_text arg s) (screen_of t e)"
    using z(2,3,4) by (auto simp: ls_text_def fs serves_def simp del: upt_rec_numeral)
next
  fix s s' arg
  assume im: "same_image s s'" "internalCounter s' = internalCounter s"
  then have "fs s' = fs s" by (simp add: same_image_def)
  then show "ls_able v buf arg s' = ls_able v buf arg s \<and> ls_text arg s' = ls_text arg s \<and> (0 :: u8) = 0"
    using im(2) by (simp add: ls_able_def ls_text_def image_facts[OF im(1)] del: upt_rec_numeral)
qed

section \<open>A session\<close>

text \<open>
  The line with the keys \<open>ks\<close> in any state of the session of \<open>s\<close>: the shell comes to its next prompt and
  \<open>out\<close> is on the screen.
\<close>

definition line_runs :: "user_side \<Rightarrow> nat \<Rightarrow> (nat \<Rightarrow> frame list) \<Rightarrow> (nat \<Rightarrow> u8) \<Rightarrow> u8 \<Rightarrow> kernel \<Rightarrow> u8 list \<Rightarrow> u8 list \<Rightarrow> bool" where
  "line_runs u t st beyond e s ks out \<longleftrightarrow>
     (\<forall>x buf w. shell_ready u t x \<and> length buf = 1024 \<and> proc_rel x st \<and> same_session s x \<longrightarrow>
       (\<exists>s' buf'. shell_loop (kernel_sys u) buf (x, map (press beyond) (ks @ [e]) # w) = shell_loop (kernel_sys u) buf' (s', w) \<and>
         length buf' = 1024 \<and> shell_ready u t s' \<and> proc_rel s' st \<and> same_session s s' \<and>
         screen_of t s' = fold scr_putc out (screen_of t x)))"

lemma same_session_key: "same_session s s' \<Longrightarrow> key_char s' e = key_char s e"
  by (simp add: same_session_def)

text \<open>A line that names a program.\<close>

lemma program_line:
  assumes p: "program body able out_text result"
    and l: "types s ks cs" "plain e" "key_char s e = ENT" "st t \<noteq> []" "\<exists>i. 3 \<le> i \<and> i < 6 \<and> free_pid s i"
    and np: "names_program s (cs @ [0]) inode" "cs \<noteq> chars ''exit''"
    and ch: "child u (elf_entry (file_content s inode)) USER_STACK = body"
    and ab: "able (arg_text (skip_spaces cs)) s"
  shows "line_runs u t st beyond e s ks (chars ''391OS> '' @ cs @ [10] @ out_text (arg_text (skip_spaces cs)) s @
    report_line (result (arg_text (skip_spaces cs)) s))"
  unfolding line_runs_def
proof (intro allI impI, elim conjE)
  fix x buf w
  assume x: "shell_ready u t x" "length (buf :: u8 list) = 1024" "proc_rel x st" "same_session s x"
  have im: "same_image s x" "internalCounter x = internalCounter s" using x(4) by (simp_all add: same_session_def)
  note f = same_session_facts[OF x(4)] and i = program.image[OF p im]
  show "\<exists>s' buf'. shell_loop (kernel_sys u) buf (x, map (press beyond) (ks @ [e]) # w) = shell_loop (kernel_sys u) buf' (s', w) \<and>
      length buf' = 1024 \<and> shell_ready u t s' \<and> proc_rel s' st \<and> same_session s s' \<and>
      screen_of t s' = fold scr_putc (chars ''391OS> '' @ cs @ [10] @ out_text (arg_text (skip_spaces cs)) s @
        report_line (result (arg_text (skip_spaces cs)) s)) (screen_of t x)"
    using program.command_round[OF p x(1,2), of ks cs e st inode beyond w] l np ch ab x(3) same_session_key[OF x(4)]
      same_session_trans[OF x(4)] by (simp add: f i) blast
qed

text \<open>An empty line, and a line that names no program.\<close>

lemma empty_line:
  assumes l: "types s ks []" "plain e" "key_char s e = ENT"
  shows "line_runs u t st beyond e s ks (chars ''391OS> '' @ [10])"
  unfolding line_runs_def
proof (intro allI impI, elim conjE)
  fix x buf w
  assume x: "shell_ready u t x" "length (buf :: u8 list) = 1024" "proc_rel x st" "same_session s x"
  have ne: "[] \<noteq> chars ''exit''" by (simp add: chars_def)
  obtain y rest where y: "shell_ready u t y" "kept x y" "length ([] @ 0 # rest :: u8 list) = 1024"
    "screen_of t y = fold scr_putc (chars ''391OS> '' @ [] @ [10]) (screen_of t x)"
    "shell_loop (kernel_sys u) buf (x, map (press beyond) (ks @ [e]) # w) = shell_loop (kernel_sys u) ([] @ 0 # rest) (y, w)"
    using round_line[OF x(1,2), of ks "[]" e beyond w] l same_session_facts(1)[OF x(4)] same_session_key[OF x(4)] ne by auto
  then show "\<exists>s' buf'. shell_loop (kernel_sys u) buf (x, map (press beyond) (ks @ [e]) # w) = shell_loop (kernel_sys u) buf' (s', w) \<and>
      length buf' = 1024 \<and> shell_ready u t s' \<and> proc_rel s' st \<and> same_session s s' \<and>
      screen_of t s' = fold scr_putc (chars ''391OS> '' @ [10]) (screen_of t x)"
    using kept_rel[OF y(2)] x(3) same_session_trans[OF x(4) same_session_kept[OF y(2)]]
    by (intro exI[of _ y] exI[of _ "[] @ 0 # rest"]) simp
qed

lemma unknown_line:
  assumes l: "types s ks cs" "plain e" "key_char s e = ENT" "cs \<noteq> chars ''exit''" "cs \<noteq> []" and np: "no_program s (cs @ [0])"
  shows "line_runs u t st beyond e s ks (chars ''391OS> '' @ cs @ [10] @ chars ''no such command'' @ [10])"
  unfolding line_runs_def
proof (intro allI impI, elim conjE)
  fix v buf w
  assume v: "shell_ready u t v" "length (buf :: u8 list) = 1024" "proc_rel v st" "same_session s v"
  obtain x rest where x: "shell_ready u t x" "kept v x" "length (cs @ 0 # rest) = 1024"
    "screen_of t x = fold scr_putc (chars ''391OS> '' @ cs @ [10]) (screen_of t v)"
    and r: "shell_loop (kernel_sys u) buf (v, map (press beyond) (ks @ [e]) # w) =
       upon (with_events w (kernel_execute u (cs @ 0 # rest) x)) (\<lambda>(rval, y).
              upon (shell_report (kernel_sys u) rval y) (shell_loop (kernel_sys u) (cs @ 0 # rest)))"
    using round_line[OF v(1,2), of ks cs e beyond w] l same_session_facts(1)[OF v(4)] same_session_key[OF v(4)] by auto
  let ?c = "cs @ 0 # rest"
  have nz: "0 \<notin> set cs" using l(1) by (auto simp: types_def list_all_iff)
  have c: "cstr ?c = cstr (cs @ [0])" using cstr_append_nul[OF nz] by simp
  have sx: "same_session s x" by (rule same_session_trans[OF v(4) same_session_kept[OF x(2)]])
  have "no_program x ?c"
    using np no_program_cong[OF c] no_program_image[of s x] sx by (simp add: same_session_def)
  moreover have "serves u t x" using x(1) by (simp add: shell_ready_def)
  moreover have "proc_rel x st" using v(3) kept_rel[OF x(2)] by simp
  ultimately obtain y where y: "kernel_execute u ?c x = Done (-1, y)" "proc_rel y st" "resumed t x y" "screen_of t y = screen_of t x"
    using execute_refuses[of u t x st ?c] x(3) by auto
  have ry: "shell_ready u t (fst (y, w))" using shell_ready_resumed[OF x(1) y(3)] by simp
  obtain z where z: "ece391_fdputs (kernel_sys u) 1 (c_line ''no such command'') (y, w) = Done (z, w)" "shell_ready u t z" "kept y z"
    "screen_of t z = fold scr_putc (chars ''no such command'' @ [10]) (screen_of t y)"
    using line_shown[OF ry, of "''no such command''"] by (auto simp: chars_def)
  have "shell_loop (kernel_sys u) buf (v, map (press beyond) (ks @ [e]) # w) = shell_loop (kernel_sys u) ?c (z, w)"
    using r y(1) z(1) by (simp add: shell_report_def)
  moreover have "same_session s z"
    using same_session_trans[OF sx same_session_trans[OF same_session_resumed[OF y(3)] same_session_kept[OF z(3)]]] .
  moreover have "proc_rel z st" using y(2) kept_rel[OF z(3)] by simp
  ultimately show "\<exists>s' buf'. shell_loop (kernel_sys u) buf (v, map (press beyond) (ks @ [e]) # w) = shell_loop (kernel_sys u) buf' (s', w) \<and>
      length buf' = 1024 \<and> shell_ready u t s' \<and> proc_rel s' st \<and> same_session s s' \<and>
      screen_of t s' = fold scr_putc (chars ''391OS> '' @ cs @ [10] @ chars ''no such command'' @ [10]) (screen_of t v)"
    using z x(3,4) y(4) by (intro exI[of _ z] exI[of _ ?c]) simp
qed

text \<open>One line after the other, and \<open>exit\<close> at the end.\<close>

lemma lines_run:
  assumes "shell_ready u t x" "length buf = 1024" "proc_rel x st" "same_session s x"
    and "\<And>c. c \<in> set cmds \<Longrightarrow> line_runs u t st beyond e s (keys c) (out c)"
  shows "\<exists>s' buf'. shell_loop (kernel_sys u) buf (x, map (\<lambda>c. map (press beyond) (keys c @ [e])) cmds @ w) =
      shell_loop (kernel_sys u) buf' (s', w) \<and>
    length buf' = 1024 \<and> shell_ready u t s' \<and> proc_rel s' st \<and> same_session s s' \<and>
    screen_of t s' = fold scr_putc (concat (map out cmds)) (screen_of t x)"
  using assms
proof (induction cmds arbitrary: x buf)
  case Nil
  then show ?case by auto
next
  case (Cons c cmds)
  let ?w = "map (\<lambda>c. map (press beyond) (keys c @ [e])) cmds @ w"
  have "line_runs u t st beyond e s (keys c) (out c)" using Cons.prems(5) by simp
  then obtain y buf1 where y: "shell_loop (kernel_sys u) buf (x, map (press beyond) (keys c @ [e]) # ?w) = shell_loop (kernel_sys u) buf1 (y, ?w)"
    "length buf1 = 1024" "shell_ready u t y" "proc_rel y st" "same_session s y" "screen_of t y = fold scr_putc (out c) (screen_of t x)"
    using Cons.prems(1-4) unfolding line_runs_def by meson
  obtain s' buf' where "shell_loop (kernel_sys u) buf1 (y, ?w) = shell_loop (kernel_sys u) buf' (s', w)" "length buf' = 1024"
    "shell_ready u t s'" "proc_rel s' st" "same_session s s'" "screen_of t s' = fold scr_putc (concat (map out cmds)) (screen_of t y)"
    using Cons.IH[OF y(3,2,4,5)] Cons.prems(5) by auto
  then show ?case using y(1,6) by (intro exI[of _ s'] exI[of _ buf']) simp
qed

lemma session_ends:
  assumes "shell_ready u t x" "length buf = 1024" "proc_rel x st" "same_session s x"
    and "\<And>c. c \<in> set cmds \<Longrightarrow> line_runs u t st beyond e s (keys c) (out c)"
    and "types s ks (chars ''exit'')" "plain e" "key_char s e = ENT"
  shows "\<exists>s'. shell_loop (kernel_sys u) buf
      (x, map (\<lambda>c. map (press beyond) (keys c @ [e])) cmds @ map (press beyond) (ks @ [e]) # w) = Some (Done (0, (s', w))) \<and>
    proc_rel s' st \<and> shell_ready u t s' \<and>
    screen_of t s' = fold scr_putc (concat (map out cmds) @ chars ''391OS> exit'' @ [10]) (screen_of t x)"
proof -
  obtain y buf1 where y: "shell_loop (kernel_sys u) buf
      (x, map (\<lambda>c. map (press beyond) (keys c @ [e])) cmds @ map (press beyond) (ks @ [e]) # w) =
      shell_loop (kernel_sys u) buf1 (y, map (press beyond) (ks @ [e]) # w)" "length buf1 = 1024" "shell_ready u t y"
    "proc_rel y st" "same_session s y" "screen_of t y = fold scr_putc (concat (map out cmds)) (screen_of t x)"
    using lines_run[OF assms(1-4), of cmds beyond e keys out "map (press beyond) (ks @ [e]) # w"] assms(5) by blast
  have k: "types y ks (chars ''exit'')" "key_char y e = ENT"
    using assms(6,8) same_session_facts(1)[OF y(5)] same_session_key[OF y(5)] by simp_all
  obtain z where z: "shell_ready u t z" "kept y z"
    "screen_of t z = fold scr_putc (chars ''391OS> '' @ chars ''exit'' @ [10]) (screen_of t y)"
    "shell_loop (kernel_sys u) buf1 (y, map (press beyond) (ks @ [e]) # w) = Some (Done (0, (z, w)))"
    using round_line[OF y(3,2) k(1) assms(7) k(2), of beyond w] by auto
  have "chars ''391OS> exit'' = chars ''391OS> '' @ chars ''exit''" by (simp add: chars_def)
  then show ?thesis using z y kept_rel[OF z(2)] by (intro exI[of _ z]) simp
qed

section \<open>The shell with two programs\<close>

text \<open>
  The lines of a session in which \<open>ci\<close> is the executable of \<open>cat\<close> and \<open>li\<close> that of \<open>ls\<close>, and what the
  line \<open>cs\<close> puts on the screen.
\<close>

definition good_line :: "user_side \<Rightarrow> u8 list \<Rightarrow> u8 list \<Rightarrow> kernel \<Rightarrow> u32 \<Rightarrow> u32 \<Rightarrow> u8 list \<Rightarrow> bool" where
  "good_line v cbuf lbuf s ci li cs \<longleftrightarrow> cs \<noteq> chars ''exit'' \<and>
     (cs = [] \<or> no_program s (cs @ [0]) \<or>
      names_program s (cs @ [0]) ci \<and> cat_able v cbuf (arg_text (skip_spaces cs)) s \<or>
      names_program s (cs @ [0]) li \<and> li \<noteq> ci \<and> ls_able v lbuf (arg_text (skip_spaces cs)) s)"

definition line_text :: "kernel \<Rightarrow> u32 \<Rightarrow> u32 \<Rightarrow> u8 list \<Rightarrow> u8 list" where
  "line_text s ci li cs = chars ''391OS> '' @ cs @ [10] @
     (let arg = arg_text (skip_spaces cs) in
      if cs = [] then []
      else if names_program s (cs @ [0]) ci then cat_text arg s @ report_line (cat_result arg s)
      else if names_program s (cs @ [0]) li then ls_text arg s
      else chars ''no such command'' @ [10])"

lemma no_program_names:
  assumes "no_program s command" "0 \<in> set command"
  shows "\<not> names_program s command inode"
proof
  assume n: "names_program s command inode"
  then have "loadable s inode" "take 4 (file_content s inode) = elf_magic" "not_executable s inode"
    using assms by (auto simp: no_program_def names_program_def Let_def)
  moreover have "map (file_byte s inode) [0..<4] = take 4 (file_content s inode)" if "28 \<le> unat (inode_length (fs s) inode)"
    using that by (simp add: file_content_def take_map take_upt del: upt_rec_numeral)
  ultimately show False by (simp add: loadable_def not_executable_def del: upt_rec_numeral)
qed

lemma names_program_empty: "\<not> names_program s [0] inode"
  by (simp add: names_program_def Let_def has_file_def zero_buffer_def cstr_def skip_spaces_def first_word_def)

lemma good_line_runs:
  assumes "child u (elf_entry (file_content s ci)) USER_STACK = start_main (cat_main (kernel_sys v) cbuf)"
    "child u (elf_entry (file_content s li)) USER_STACK = start_main (ls_main (kernel_sys v) lbuf)"
    and g: "types s ks cs" "good_line v cbuf lbuf s ci li cs" and e: "plain e" "key_char s e = ENT"
    and r: "st t \<noteq> []" "\<exists>i. 3 \<le> i \<and> i < 6 \<and> free_pid s i"
  shows "line_runs u t st beyond e s ks (line_text s ci li cs)"
proof -
  have one: "\<not> (names_program s (cs @ [0]) ci \<and> names_program s (cs @ [0]) li \<and> li \<noteq> ci)"
    by (auto simp: names_program_def Let_def)
  have ne: "cs \<noteq> chars ''exit''" using g(2) by (simp add: good_line_def)
  consider "cs = []" | "cs \<noteq> []" "no_program s (cs @ [0])"
    | "names_program s (cs @ [0]) ci" "cat_able v cbuf (arg_text (skip_spaces cs)) s"
    | "names_program s (cs @ [0]) li" "li \<noteq> ci" "ls_able v lbuf (arg_text (skip_spaces cs)) s"
    using g(2) by (auto simp: good_line_def)
  then show ?thesis
  proof cases
    case 1
    then show ?thesis using empty_line g(1) e by (simp add: line_text_def)
  next
    case 2
    then have "\<not> names_program s (cs @ [0]) i" for i by (intro no_program_names) simp_all
    then show ?thesis using unknown_line[OF g(1) e ne 2] 2(1) by (simp add: line_text_def)
  next
    case 3
    then have "cs \<noteq> []" using names_program_empty by auto
    then show ?thesis
      using program_line[where st = st and t = t, OF cat_program.program_axioms[of v cbuf], OF g(1) e r 3(1) ne assms(1) 3(2)] 3(1) by (simp add: line_text_def Let_def)
  next
    case 4
    then have "cs \<noteq> []" "\<not> names_program s (cs @ [0]) ci" using names_program_empty one by auto
    then show ?thesis
      using program_line[where st = st and t = t, OF ls_program.program_axioms[of v lbuf], OF g(1) e r 4(1) ne assms(2) 4(3)] 4(1)
      by (simp add: line_text_def Let_def report_line_def)
  qed
qed

end
