(* ===== verification/User_Clock.thy ===== *)
theory User_Clock
  imports User_Kept
begin

text \<open>
  pingpong on the kernel: a frame of the screen per tick of the clock that it has set to 32 Hz, for
  as long as the clock ticks.
\<close>

section \<open>Frames and ticks\<close>

text \<open>A screen and a descriptor whose reads come back one by one, each at its \<open>beat\<close>.\<close>

locale ticking = stdout sys ok view emit fine room
  for sys :: "'s sys" and ok :: "'s \<Rightarrow> bool" and view :: "'s \<Rightarrow> 'v" and emit :: "u8 \<Rightarrow> 'v \<Rightarrow> 'v"
    and fine :: "u8 \<Rightarrow> bool" and room :: nat +
  fixes fd :: int and pending :: "'s \<Rightarrow> 'e list" and beat :: 'e
  assumes tick: "ok s \<Longrightarrow> pending s = beat # es \<Longrightarrow> length buf = 4 \<Longrightarrow>
      \<exists>s'. sread sys fd buf 4 s = Done (0, buf, s') \<and> ok s' \<and> pending s' = es \<and> view s' = view s"
    and write_pending: "ok s \<Longrightarrow> swrite sys 1 buf n s = Done (r, s') \<Longrightarrow> pending s' = pending s"
    and walls_fine: "fine 32" "fine 124" "fine 10"
begin

lemma frame_bounces:
  assumes s: "ok s" "pending s = beat # es" and b: "walls buf" "length g = 4" and j: "2 \<le> j" "j < 78"
    and c: "fine c" "c \<noteq> 0" "81 \<le> room"
  shows "\<exists>s'. pingpong_frame sys fd c j (buf, g, s) = Done (frame_text c j @ [0], g, s') \<and> ok s' \<and> pending s' = es \<and>
    view s' = fold emit (frame_text c j) (view s)"
proof -
  have f: "0 \<notin> set (frame_text c j)" "list_all fine (frame_text c j)" "length (frame_text c j) = 80"
    using c(1,2) walls_fine set_update_subset_insert[of "replicate 76 32" "j - 2" c]
    by (auto simp: frame_text_def list_all_iff)
  have m: "cstr (frame_text c j @ [0]) = frame_text c j" using cstr_append_nul[OF f(1), of "[]"] by simp
  obtain x where x: "ece391_fdputs sys 1 (frame_text c j @ [0]) s = Done x" "ok x" "view x = fold emit (frame_text c j) (view s)"
    using fdputs[OF s(1), of "frame_text c j @ [0]"] f(2,3) c(3) m by auto
  have "pending x = beat # es"
    using x(1) write_pending[OF s(1)] s(2) by (auto simp: ece391_fdputs_def andthen_Done_iff)
  then obtain y where "sread sys fd g 4 x = Done (0, g, y)" "ok y" "pending y = es" "view y = view x"
    using tick[OF x(2) _ b(2)] by blast
  then show ?thesis using x(1,3) by (simp add: pingpong_frame_def frame_is[OF b(1) j])
qed

lemma frames_bounce:
  assumes "ok s" "pending s = replicate (length js) beat @ es" "walls buf" "length g = 4" "\<forall>j\<in>set js. 2 \<le> j \<and> j < 78"
    and "fine c" "c \<noteq> 0" "81 \<le> room"
  shows "\<exists>buf' s'. each (pingpong_frame sys fd c) js (buf, g, s) = Done (buf', g, s') \<and> walls buf' \<and> ok s' \<and> pending s' = es \<and>
    view s' = fold emit (concat (map (frame_text c) js)) (view s)"
  using assms(1-5)
proof (induction js arbitrary: buf s)
  case (Cons j js)
  obtain x where x: "pingpong_frame sys fd c j (buf, g, s) = Done (frame_text c j @ [0], g, x)" "ok x"
    "pending x = replicate (length js) beat @ es" "view x = fold emit (frame_text c j) (view s)"
    using frame_bounces[OF Cons.prems(1) _ Cons.prems(3,4) _ _ assms(6-8), of _ j] Cons.prems(2,5) by auto
  have w: "walls (frame_text c j @ [0])" using Cons.prems(5) by (intro frame_walls) simp_all
  from Cons.IH[OF x(2,3) w Cons.prems(4)] Cons.prems(5) obtain buf' y where
    "each (pingpong_frame sys fd c) js (frame_text c j @ [0], g, x) = Done (buf', g, y)" "walls buf'" "ok y" "pending y = es"
    "view y = fold emit (concat (map (frame_text c) js)) (view x)" by auto
  then show ?case using x(1,4) by auto
qed simp

text \<open>Round after round, with one letter after the other.\<close>

lemma rounds_bounce:
  assumes "ok s" "pending s = replicate (152 * n) beat @ es" "walls buf" "length g = 4"
    and "\<And>k. k < n \<Longrightarrow> fine ((pingpong_next ^^ k) c) \<and> (pingpong_next ^^ k) c \<noteq> 0" "81 \<le> room"
  shows "\<exists>buf' s'. pingpong_loop sys fd c (buf, g, s) = pingpong_loop sys fd ((pingpong_next ^^ n) c) (buf', g, s') \<and>
    walls buf' \<and> ok s' \<and> pending s' = es \<and>
    view s' = fold emit (concat (map (\<lambda>k. concat (map (frame_text ((pingpong_next ^^ k) c)) pingpong_positions)) [0..<n])) (view s)"
  using assms(1-3,5)
proof (induction n arbitrary: buf s c)
  case 0
  then show ?case by auto
next
  case (Suc n)
  have p: "length pingpong_positions = 152" "\<forall>j\<in>set pingpong_positions. 2 \<le> j \<and> j < 78"
    by (auto simp: pingpong_positions_def)
  have ev: "pending s = replicate (length pingpong_positions) beat @ (replicate (152 * n) beat @ es)"
    using Suc.prems(2) by (simp add: p(1) replicate_add)
  have c: "fine c" "c \<noteq> 0" using Suc.prems(4)[of 0] by simp_all
  obtain buf1 s1 where r: "each (pingpong_frame sys fd c) pingpong_positions (buf, g, s) = Done (buf1, g, s1)" "walls buf1" "ok s1"
    "pending s1 = replicate (152 * n) beat @ es"
    "view s1 = fold emit (concat (map (frame_text c) pingpong_positions)) (view s)"
    using frames_bounce[OF Suc.prems(1) ev Suc.prems(3) assms(4) p(2) c assms(6)] by blast
  have step: "pingpong_loop sys fd c (buf, g, s) = pingpong_loop sys fd (pingpong_next c) (buf1, g, s1)"
    by (subst pingpong_loop.simps) (simp add: r(1))
  have next_fine: "fine ((pingpong_next ^^ k) (pingpong_next c)) \<and> (pingpong_next ^^ k) (pingpong_next c) \<noteq> 0" if "k < n" for k
    using Suc.prems(4)[of "Suc k"] that by (simp add: funpow_swap1)
  obtain buf' s' where "pingpong_loop sys fd (pingpong_next c) (buf1, g, s1) =
      pingpong_loop sys fd ((pingpong_next ^^ n) (pingpong_next c)) (buf', g, s')" "walls buf'" "ok s'" "pending s' = es"
    "view s' = fold emit (concat (map (\<lambda>k. concat (map (frame_text ((pingpong_next ^^ k) (pingpong_next c))) pingpong_positions)) [0..<n])) (view s1)"
    using Suc.IH[OF r(3,4,2) next_fine] by blast
  moreover have "map (\<lambda>k. concat (map (frame_text ((pingpong_next ^^ k) c)) pingpong_positions)) [0..<Suc n] =
      concat (map (frame_text c) pingpong_positions) #
      map (\<lambda>k. concat (map (frame_text ((pingpong_next ^^ k) (pingpong_next c))) pingpong_positions)) [0..<n]"
    by (simp add: upt_conv_Cons map_Suc_upt[symmetric] funpow_swap1 comp_def del: upt_Suc)
  ultimately show ?case using step r(5) by (auto simp: funpow_swap1)
qed

end

text \<open>The letters go round the alphabet.\<close>

lemma next_letter: "65 \<le> c \<Longrightarrow> c \<le> 90 \<Longrightarrow> 65 \<le> pingpong_next c \<and> pingpong_next c \<le> 90"
  by (auto simp: pingpong_next_def word_le_nat_alt unat_word_ariths word_unat_eq_iff)

lemma letters: "65 \<le> (pingpong_next ^^ k) STARTCHAR \<and> (pingpong_next ^^ k) STARTCHAR \<le> 90"
  by (induction k) (simp_all add: next_letter)

section \<open>The clock of the kernel\<close>

definition clocked :: "user_side \<Rightarrow> nat \<Rightarrow> nat \<Rightarrow> kernel \<Rightarrow> bool" where
  "clocked u t i s \<longleftrightarrow> serves u t s \<and> 2 \<le> i \<and> i < 8 \<and> flags (cur_fd (int i) s) = ENGAGED \<and>
     table_ptr (cur_fd (int i) s) = rtc_operations \<and> init_flag (terminal s t) = 1 \<and>
     rtc_counter (terminal s t) = 32 \<and> rtc_target (terminal s t) = 32"

definition clock_of :: "terminal_t \<Rightarrow> int \<times> u32 \<times> u32" where
  "clock_of t = (init_flag t, rtc_counter t, rtc_target t)"

lemma clocked_side:
  assumes "clocked u t i s" "side s' = side s" "console_ok t s'" "clock_of (terminal s' t) = clock_of (terminal s t)"
  shows "clocked u t i s'"
  using assms serves_side[OF _ assms(2,3)] cur_side(2)[OF assms(2)] by (simp add: clocked_def clock_of_def)

lemma clock_putc [simp]: "clock_of (terminal (terminal_putc c v s) t) = clock_of (terminal s t)"
  by (rule putc_keeps) (simp add: no_console_def clock_of_def)

lemma clock_fold_putc [simp]: "clock_of (terminal (fold (\<lambda>c. terminal_putc c v) cs s) t) = clock_of (terminal s t)"
  by (induction cs arbitrary: s) simp_all

text \<open>Interrupts of the clock change nothing that a program sees but the clocks.\<close>

lemma rtc_intr_same:
  "side (rtc_intr s) = side s" "screen_of t (rtc_intr s) = screen_of t s" "console_ok t (rtc_intr s) = console_ok t s"
proof -
  have t: "pid (rtc_tick x) = pid x" "cur_x (rtc_tick x) = cur_x x" "cur_y (rtc_tick x) = cur_y x"
    "shift_up_one_flag (rtc_tick x) = shift_up_one_flag x" for x by (simp_all add: rtc_tick_def Let_def)
  obtain l where r: "rtc_intr s = s\<lparr>if_flag := True, outs := l,
      terminal := (\<lambda>t. if t < 3 then rtc_tick (terminal s t) else terminal s t)\<rparr>"
    using rtc_intr_eq by blast
  show "side (rtc_intr s) = side s" "screen_of t (rtc_intr s) = screen_of t s" "console_ok t (rtc_intr s) = console_ok t s"
    unfolding r by (auto simp: side_def screen_of_def vid_base_def console_ok_def t fun_eq_iff)
qed

lemma ticks_same:
  "side ((rtc_intr ^^ k) s) = side s" "screen_of t ((rtc_intr ^^ k) s) = screen_of t s"
  "console_ok t ((rtc_intr ^^ k) s) = console_ok t s" "phys ((rtc_intr ^^ k) s) = phys s"
  by (induction k) (simp_all add: rtc_intr_same rtc_intr_frame)

lemma clocked_read:
  assumes c: "clocked u t i s" and b: "length buf = 4"
  shows "\<exists>s'. kernel_read u (replicate 32 rtc_intr) (int i) buf 4 s = Done (0, buf, s') \<and> clocked u t i s' \<and>
    screen_of t s' = screen_of t s"
proof -
  have s: "serves u t s" and t: "t < 3" "active_terminal s = t" using c by (auto simp: clocked_def serves_def)
  have f: "2 \<le> i" "i < 8" "flags (cur_fd (int i) s) = ENGAGED" "table_ptr (cur_fd (int i) s) = rtc_operations"
    "init_flag (terminal s t) = 1" "rtc_counter (terminal s t) = 32" "rtc_target (terminal s t) = 32"
    using c by (simp_all add: clocked_def)
  have lb: "length buf \<le> 2048" using b by simp
  obtain x y where x: "copy_out (buffer_at u) buf s = Done x" "y = x\<lparr>if_flag := True\<rparr>" and y: "side y = side s"
    "console_ok t y" "screen_of t y = screen_of t s" "internalCounter y = internalCounter s"
    "copy_in (buffer_at u) (length buf) y = Done buf" "serves u t y"
    by (rule read_begin[OF s lb])
  obtain m where "x = s\<lparr>phys := m\<rparr>" using copy_out_frame[OF x(1)] by blast
  then have ty: "terminal y = terminal s" "active_terminal y = t" by (simp_all add: x(2) t)
  define y1 where "y1 = upd_term t (\<lambda>t. t\<lparr>rtc_flag := 1\<rparr>) y"
  define z where "z = (rtc_intr ^^ 32) y1"
  have y1: "side y1 = side y" "console_ok t y1 = console_ok t y" "screen_of t y1 = screen_of t y" "phys y1 = phys y"
    by (auto simp: y1_def upd_term_def side_def console_ok_def screen_of_def vid_base_def)
  have rd: "rtc_read (replicate 32 rtc_intr) (int i) (buffer_at u) 4 y = Done (0, z)"
    using rtc_read_ticks[of y 32 "int i" "buffer_at u" 4] f t by (simp add: rtc_ready_def ty z_def y1_def)
  have live: "t < 3 \<and> init_flag (terminal y1 t) = 1" using t(1) f(5) by (simp add: y1_def upd_term_def ty)
  have cnt: "unat (rtc_counter (terminal y1 t)) = 32" "unat (rtc_target (terminal y1 t)) = 32"
    using f(6,7) by (simp_all add: y1_def upd_term_def ty)
  have cz: "init_flag (terminal z t) = 1" "unat (rtc_counter (terminal z t)) = 32" "unat (rtc_target (terminal z t)) = 32"
    using rtc.ticks_live[OF live, of 32] rtc.ticks_fire(2)[OF live] rtc.ticks_period[OF live, of 32] cnt by (simp_all add: z_def)
  have clock_z: "clock_of (terminal z t) = clock_of (terminal s t)"
  proof -
    have "rtc_counter (terminal z t) = 32" "rtc_target (terminal z t) = 32" using cz by (simp_all add: word_unat_eq_iff)
    then show ?thesis using cz(1) f by (simp add: clock_of_def)
  qed
  have z: "side z = side s" "console_ok t z" "screen_of t z = screen_of t s" "phys z = phys y"
    using y y1 by (simp_all add: z_def ticks_same)
  have "page_directory z = page_directory y" using z(1) y(1) by (simp add: side_def)
  then have out: "copy_in (buffer_at u) (length buf) z = Done buf" using y(5) copy_in_cong[of z y] z(4) by simp
  have entry: "read_call_entry (table_ptr (cur_fd (int i) s)) (replicate 32 rtc_intr) (int i) (buffer_at u) (int 4) (x\<lparr>if_flag := True\<rparr>) = Done (0, z)"
    using rd f(4) by (simp add: x(2)[symmetric])
  let ?s' = "(advance_fd (int i) 0 (cur_pcb_addr s) z)\<lparr>if_flag := True\<rparr>"
  have "kernel_read u (replicate 32 rtc_intr) (int i) buf (int 4) s = Done (0, buf, ?s')"
    by (rule kernel_read_call[OF s _ _ f(3) _ _ x(1) entry out]) (use f in simp_all)
  moreover note rdone = read_done[OF s z(1,2), where r = 0 and i = i]
  have "clocked u t i ?s'"
    using rdone(1,7) f clock_z by (simp add: clocked_def clock_of_def advance_fd_def upd_pcb_def)
  ultimately show ?thesis using rdone(2) z(3) by auto
qed

lemma terminal_write_clock:
  assumes "terminal_write fd buf n s = Done (r, s')"
  shows "clock_of (terminal s' t) = clock_of (terminal s t)"
proof -
  have "clock_of (terminal (upd_term a (\<lambda>t. t\<lparr>line_length := 0\<rparr>) (fold (\<lambda>c. terminal_putc c tid) cs s)) t) =
      clock_of (terminal s t)" for a tid cs
  proof -
    have "clock_of (x\<lparr>line_length := 0\<rparr>) = clock_of x" for x by (simp add: clock_of_def)
    then show ?thesis by (simp add: upd_term_def)
  qed
  then show ?thesis
    using assms by (auto simp: terminal_write_def Let_def andthen_Done_iff split: if_splits)
qed

lemma kernel_write_clock:
  assumes s: "serves u t s" and w: "kernel_write u 1 buf n s = Done (r, s')"
  shows "clock_of (terminal s' v) = clock_of (terminal s v)"
proof -
  obtain x where x: "copy_out (buffer_at u) buf s = Done x" "trap u [] (word_of_int 4) (word_of_int 1) (at u) (word_of_int n) x = Done (r, s')"
    using w by (auto simp: kernel_write_def andthen_Done_iff)
  have c: "cur_fd 1 (x\<lparr>if_flag := True\<rparr>) = cur_fd 1 s" by (rule cur_side) (simp add: side_copy_out[OF x(1)])
  obtain m where m: "x = s\<lparr>phys := m\<rparr>" using copy_out_frame[OF x(1)] by blast
  obtain y where "do_syscall_in_C [] 4 (word_of_int 1) (at u) (word_of_int n) (user_esp u) (user_ebp u) (x\<lparr>if_flag := True\<rparr>) = Done (Return r, y)"
    "s' = y\<lparr>if_flag := True\<rparr>"
    using trap_step[OF _ _ x(2)] by auto
  then have "write_call 1 (unat (at u)) (sint (word_of_int n :: u32)) (x\<lparr>if_flag := True\<rparr>) = Done (r, y)" "terminal s' = terminal y"
    by (auto simp: do_syscall_in_C_def returns_Done)
  then have "clock_of (terminal s' v) = clock_of (terminal (x\<lparr>if_flag := True\<rparr>) v)"
    using s terminal_write_clock[of 1 "unat (at u)" "sint (word_of_int n :: u32)" "x\<lparr>if_flag := True\<rparr>" r y v]
    by (auto simp: write_call_def c serves_def split: if_splits)
  then show ?thesis by (simp add: m)
qed

interpretation clock_frames: ticking "kernel_sys u" "\<lambda>x. clocked u t i (fst x)" "\<lambda>x. screen_of t (fst x)" scr_putc
    "\<lambda>c. c \<noteq> BACKSPACE" 2048 "int i" snd "replicate 32 rtc_intr" for u t i
proof unfold_locales
  fix x :: user_state and n and buf :: "u8 list"
  assume a: "clocked u t i (fst x)" "n \<le> length buf" "length buf \<le> 2048" "list_all (\<lambda>c. c \<noteq> BACKSPACE) (take n buf)"
  have s: "serves u t (fst x)" using a(1) by (simp add: clocked_def)
  obtain r y where y: "swrite (kernel_sys u) 1 buf (int n) x = Done (r, y)" "0 < n \<longrightarrow> r \<noteq> -1" "serves u t (fst y)"
    "screen_of t (fst y) = fold scr_putc (take n buf) (screen_of t (fst x))" "side (fst y) = side (fst x)"
    using kernel_stdout[OF s a(2-4)] by blast
  have "clock_of (terminal (fst y) t) = clock_of (terminal (fst x) t)"
    using y(1) kernel_write_clock[OF s] by (auto simp: with_events_def andthen_Done_iff)
  then have "clocked u t i (fst y)" using clocked_side[OF a(1) y(5)] y(3) by (simp add: serves_def)
  then show "\<exists>r s'. swrite (kernel_sys u) 1 buf (int n) x = Done (r, s') \<and> (0 < n \<longrightarrow> r \<noteq> -1) \<and> clocked u t i (fst s') \<and>
      screen_of t (fst s') = fold scr_putc (take n buf) (screen_of t (fst x))"
    using y(1,2,4) by blast
next
  fix x :: user_state and es and buf :: "u8 list"
  assume a: "clocked u t i (fst x)" "snd x = replicate 32 rtc_intr # es" "length buf = 4"
  obtain s' where s': "kernel_read u (replicate 32 rtc_intr) (int i) buf 4 (fst x) = Done (0, buf, s')" "clocked u t i s'"
    "screen_of t s' = screen_of t (fst x)" using clocked_read[OF a(1,3)] by blast
  then show "\<exists>s'. sread (kernel_sys u) (int i) buf 4 x = Done (0, buf, s') \<and> clocked u t i (fst s') \<and> snd s' = es \<and>
      screen_of t (fst s') = screen_of t (fst x)"
    using a(2) by (intro exI[of _ "(s', es)"]) (simp add: next_events_def)
qed (auto simp: with_events_def andthen_Done_iff)

section \<open>The program\<close>

lemma set_rate:
  assumes s: "serves u t s" and f: "2 \<le> i" "i < 8" "flags (cur_fd (int i) s) = ENGAGED"
    "table_ptr (cur_fd (int i) s) = rtc_operations" "init_flag (terminal s t) = 1"
  shows "\<exists>s'. kernel_write u (int i) (le32 32) 4 s = Done (4, s') \<and> clocked u t i s' \<and> screen_of t s' = screen_of t s"
proof -
  have lb: "length (le32 32) \<le> 2048" by simp
  obtain x y where x: "copy_out (buffer_at u) (le32 32) s = Done x" "y = x\<lparr>if_flag := True\<rparr>" and y: "side y = side s"
    "console_ok t y" "screen_of t y = screen_of t s" "copy_in (buffer_at u) (length (le32 32)) y = Done (le32 32)" "serves u t y"
    by (rule read_begin[OF s lb])
  obtain m where "x = s\<lparr>phys := m\<rparr>" using copy_out_frame[OF x(1)] by blast
  then have ty: "terminal y = terminal s" "active_terminal y = t" using s by (simp_all add: x(2) serves_def)
  have "copy_in (buffer_at u) 4 y = Done (le32 32)" using y(4) by simp
  moreover have "sint (rd32 (\<lambda>k. le32 32 ! k) 0) = 32" by (simp add: le32_def rd32_def)
  ultimately have w: "rtc_write (int i) (buffer_at u) 4 y = Done (4, change_freq_virt 32 y)"
    using rtc_write_ok[of "buffer_at u" y "le32 32" "int i" 4] unat_at[OF s] by (simp add: valid_freq_def)
  let ?z = "change_freq_virt 32 y" and ?s' = "(change_freq_virt 32 y)\<lparr>if_flag := True\<rparr>"
  have z: "?z = upd_term t (\<lambda>t. t\<lparr>rtc_counter := 32, rtc_target := 32\<rparr>) y"
    by (simp add: change_freq_virt_def hz_to_bin_def ty)
  have c: "cur_fd (int i) y = cur_fd (int i) s" by (rule cur_side(2)[OF y(1)])
  have k: "sint (word_of_int (int i) :: u32) = int i" by (rule sint_of_int) (use f in simp_all)
  have call: "kernel_write u (int i) (le32 32) 4 s = Done (4, ?s')"
    using f unat_at[OF s] w k c
    by (simp add: kernel_write_def x(1) trap_calls(2) x(2)[symmetric] do_syscall_in_C_def returns_then write_call_def)
  have "side ?s' = side y" "console_ok t ?s' = console_ok t y" "screen_of t ?s' = screen_of t y"
    by (auto simp: z side_def upd_term_def console_ok_def screen_of_def vid_base_def)
  then have zz: "side ?s' = side s" "console_ok t ?s'" "screen_of t ?s' = screen_of t s" using y(1-3) by simp_all
  moreover have "clocked u t i ?s'"
    using serves_side[OF s zz(1,2)] cur_side(2)[OF zz(1)] f by (simp add: clocked_def z upd_term_def ty)
  ultimately show ?thesis using call by blast
qed

text \<open>Round after round on the screen, one frame in 32 ticks of the hardware clock.\<close>

lemma pingpong_runs:
  assumes s: "serves u t s" "init_flag (terminal s t) = 1" and d: "has_file s (c_lit ''rtc'')" "filetype (file_dentry s (c_lit ''rtc'')) = 0"
    and slot: "find (free_fd s) [2..<8] = Some i" and g: "length g = 4"
  shows "\<exists>s' buf'. pingpong_main (kernel_sys u) g (s, replicate (152 * n) (replicate 32 rtc_intr) @ w) =
      pingpong_loop (kernel_sys u) (int i) ((pingpong_next ^^ n) STARTCHAR) (buf', g, (s', w)) \<and>
    walls buf' \<and> clocked u t i s' \<and> screen_of t s' = fold scr_putc
      (concat (map (\<lambda>k. concat (map (frame_text ((pingpong_next ^^ k) STARTCHAR)) pingpong_positions)) [0..<n])) (screen_of t s)"
proof -
  have l: "length (c_lit ''rtc'') \<le> 2048" by (simp add: c_lit_def chars_def)
  have i: "2 \<le> i" "i < 8" using slot by (simp_all only: fds_lowest)
  obtain y where y: "kernel_open u (c_lit ''rtc'') s = Done (int i, y)" "serves u t y" "screen_of t y = screen_of t s"
    "cur_fd (int i) y = \<lparr>table_ptr = rtc_operations, inode_num = dentry_inode (file_dentry s (c_lit ''rtc'')),
       file_position = 0, flags = ENGAGED\<rparr>"
    using kernel_open_file[OF s(1) l d(1) slot] d(2) by (auto simp: type_operations_def)
  have "init_flag (terminal y t) = 1"
    using kernel_open_kept[OF y(1)] s(2) by (simp add: kept_def held_def term_core_def fun_eq_iff)
  then obtain z where z: "kernel_write u (int i) (le32 32) 4 y = Done (4, z)" "clocked u t i z" "screen_of t z = screen_of t y"
    using set_rate[OF y(2) i] y(4) by auto
  have c: "(pingpong_next ^^ k) STARTCHAR \<noteq> BACKSPACE \<and> (pingpong_next ^^ k) STARTCHAR \<noteq> 0" for k
    using letters[of k] by auto
  obtain buf' v where v: "pingpong_loop (kernel_sys u) (int i) STARTCHAR (pingpong_buffer, g, (z, replicate (152 * n) (replicate 32 rtc_intr) @ w)) =
      pingpong_loop (kernel_sys u) (int i) ((pingpong_next ^^ n) STARTCHAR) (buf', g, v)" "clocked u t i (fst v)" "snd v = w" "walls buf'"
    "screen_of t (fst v) = fold scr_putc
      (concat (map (\<lambda>k. concat (map (frame_text ((pingpong_next ^^ k) STARTCHAR)) pingpong_positions)) [0..<n])) (screen_of t z)"
    using clock_frames.rounds_bounce[of u t i "(z, replicate (152 * n) (replicate 32 rtc_intr) @ w)" n w pingpong_buffer g STARTCHAR]
      z(2) walls_start g c by auto
  have "pingpong_main (kernel_sys u) g (s, replicate (152 * n) (replicate 32 rtc_intr) @ w) =
      pingpong_loop (kernel_sys u) (int i) ((pingpong_next ^^ n) STARTCHAR) (buf', g, v)"
    using y(1) z(1) v(1) by (simp add: pingpong_main_def)
  then show ?thesis using v(2-5) z(3) y(3) by (metis prod.collapse)
qed

text \<open>With less than 32 ticks a frame is the last.\<close>

lemma clocked_waits:
  assumes c: "clocked u t i s" and b: "length buf = 4" and k: "k < 32"
  shows "kernel_read u (replicate k rtc_intr) (int i) buf 4 s = Blocked"
proof -
  have s: "serves u t s" and t: "t < 3" "active_terminal s = t" using c by (auto simp: clocked_def serves_def)
  have f: "i < 8" "flags (cur_fd (int i) s) = ENGAGED" "table_ptr (cur_fd (int i) s) = rtc_operations"
    "init_flag (terminal s t) = 1" "rtc_counter (terminal s t) = 32"
    using c by (simp_all add: clocked_def)
  have lb: "length buf \<le> 2048" using b by simp
  obtain x y where x: "copy_out (buffer_at u) buf s = Done x" "y = x\<lparr>if_flag := True\<rparr>" and y: "side y = side s"
    by (rule read_begin[OF s lb]) blast
  obtain m where "x = s\<lparr>phys := m\<rparr>" using copy_out_frame[OF x(1)] by blast
  then have ty: "terminal y = terminal s" "active_terminal y = t" by (simp_all add: x(2) t)
  have "rtc_read (replicate k rtc_intr) (int i) (buffer_at u) 4 y = Blocked"
    using rtc_read_ticks[of y k "int i" "buffer_at u" 4] f t k by (simp add: rtc_ready_def ty)
  moreover have "sint (word_of_int (int i) :: u32) = int i" by (rule sint_of_int) (use f in simp_all)
  ultimately show ?thesis
    using f unat_at[OF s] cur_side(2)[OF y, of "int i"]
    by (simp add: kernel_read_def x(1) trap_calls(1) x(2)[symmetric] do_syscall_in_C_def read_call_def returns_def)
qed

lemma pingpong_waits:
  assumes s: "clocked u t i s" and b: "walls buf" "length g = 4" and c: "65 \<le> c" "c \<le> 90" and k: "k < 32"
  shows "pingpong_loop (kernel_sys u) (int i) c (buf, g, (s, replicate k rtc_intr # w)) = Some Blocked"
proof -
  let ?x = "(s, replicate k rtc_intr # w)" and ?m = "frame_text c 2 @ [0]"
  have "0 \<in> set ?m" "length ?m \<le> 2048" by (simp_all add: frame_text_def)
  moreover have "BACKSPACE \<notin> set (frame_text c 2)"
    using c set_update_subset_insert[of "replicate 76 32" 0 c] by (auto simp: frame_text_def)
  then have "list_all (\<lambda>c. c \<noteq> BACKSPACE) (cstr ?m)"
    using set_takeWhileD[of _ _ ?m] by (force simp: list_all_iff cstr_def)
  ultimately obtain y where y: "ece391_fdputs (kernel_sys u) 1 ?m ?x = Done y" "clocked u t i (fst y)"
    using clock_frames.fdputs[of u t i ?x ?m] s by auto
  have "snd y = snd ?x" using y(1) by (auto simp: ece391_fdputs_def andthen_Done_iff with_events_def)
  then have "sread (kernel_sys u) (int i) g 4 y = Blocked"
    using clocked_waits[OF y(2) b(2) k] by (simp add: next_events_def)
  then have "pingpong_frame (kernel_sys u) (int i) c 2 (buf, g, ?x) = Blocked"
    using y(1) by (simp add: pingpong_frame_def frame_is[OF b(1)])
  then have r: "each (pingpong_frame (kernel_sys u) (int i) c) (2 # js) (buf, g, ?x) = Blocked" for js by simp
  obtain js where "pingpong_positions = 2 # js" by (simp add: pingpong_positions_def upt_conv_Cons del: upt_rec_numeral)
  then show ?thesis using r[of js] by (subst pingpong_loop.simps) (simp del: each.simps)
qed

end
