(* ===== verification/Fish_List.thy ===== *)
theory Fish_List
  imports User_Programs
begin

text \<open>
  The blinking characters of the fish animation: the array \<open>blink_array\<close> with \<open>mp1_malloc\<close> and
  \<open>mp1_free\<close> of src/fish/fish.c, and the linked list that src/fish/blink.S keeps in it.  A pointer
  into the array is the index of the element, NULL is \<open>None\<close>; the video page is a map from offsets
  to bytes.  A walk along the list is \<open>None\<close> when it does not end.
\<close>

section \<open>The structures\<close>

record blink =
  location :: u16
  on_char :: u8
  off_char :: u8
  on_length :: u16
  off_length :: u16
  blink_countdown :: u16
  blink_status :: u16
  blink_next :: "nat option"

record fish =
  blink_array :: "nat \<Rightarrow> blink"
  mp1_list_head :: "nat option"
  vmem :: "nat \<Rightarrow> u8"

abbreviation (input) "BLINKS \<equiv> (2000::nat)"

definition zero_blink :: blink where
  "zero_blink = \<lparr>location = 0, on_char = 0, off_char = 0, on_length = 0, off_length = 0,
     blink_countdown = 0, blink_status = 0, blink_next = None\<rparr>"

definition mp1_malloc :: "fish \<Rightarrow> nat option" where
  "mp1_malloc f = find (\<lambda>i. location (blink_array f i) = 0) [0..<BLINKS]"

definition set_blink :: "nat \<Rightarrow> blink \<Rightarrow> fish \<Rightarrow> fish" where
  "set_blink i b f = f\<lparr>blink_array := (blink_array f)(i := b)\<rparr>"

definition mp1_free :: "nat \<Rightarrow> fish \<Rightarrow> fish" where
  "mp1_free i f = set_blink i zero_blink f"

definition mp1_poke :: "u8 \<Rightarrow> nat \<Rightarrow> fish \<Rightarrow> fish" where
  "mp1_poke cl eax f = f\<lparr>vmem := (vmem f)(eax := cl)\<rparr>"

section \<open>The operations\<close>

partial_function (option) find_from :: "u16 \<Rightarrow> fish \<Rightarrow> nat option \<Rightarrow> nat option option" where
  "find_from ax f ebx =
     (case ebx of None \<Rightarrow> Some None
      | Some i \<Rightarrow> if location (blink_array f i) = ax then Some (Some i)
                  else find_from ax f (blink_next (blink_array f i)))"

definition mp1_find_helper :: "u32 \<Rightarrow> fish \<Rightarrow> nat option option" where
  "mp1_find_helper arg f = find_from (ucast arg) f (mp1_list_head f)"

definition mp1_ioctl_add :: "blink \<Rightarrow> fish \<Rightarrow> int \<times> fish" where
  "mp1_ioctl_add b f =
     (if location b \<ge> 80 * 25 then (-1, f)
      else let b = b\<lparr>blink_status := 1, blink_countdown := on_length b\<rparr> in
        case mp1_malloc f of None \<Rightarrow> (-1, f)
        | Some i \<Rightarrow>
            let f = (set_blink i (b\<lparr>blink_next := mp1_list_head f\<rparr>) f)\<lparr>mp1_list_head := Some i\<rparr> in
            (0, mp1_poke (on_char b) (2 * unat (location b)) f))"

text \<open>
  The search for the pointer that points to the element: \<open>None\<close> stands for \<open>mp1_list_head\<close>, \<open>Some j\<close>
  for the field \<open>next\<close> of element \<open>j\<close>.
\<close>

definition cell :: "fish \<Rightarrow> nat option \<Rightarrow> nat option" where
  "cell f edx = (case edx of None \<Rightarrow> mp1_list_head f | Some j \<Rightarrow> blink_next (blink_array f j))"

definition put_cell :: "nat option \<Rightarrow> nat option \<Rightarrow> fish \<Rightarrow> fish" where
  "put_cell edx ecx f =
     (case edx of None \<Rightarrow> f\<lparr>mp1_list_head := ecx\<rparr>
      | Some j \<Rightarrow> set_blink j ((blink_array f j)\<lparr>blink_next := ecx\<rparr>) f)"

partial_function (option) find_prev :: "nat \<Rightarrow> fish \<Rightarrow> nat option \<Rightarrow> nat option outcome option" where
  "find_prev eax f edx =
     (if cell f edx = Some eax then Some (Done edx)
      else case cell f edx of None \<Rightarrow> Some (Fault WildPointer) | Some j \<Rightarrow> find_prev eax f (Some j))"

definition mp1_ioctl_remove :: "u32 \<Rightarrow> fish \<Rightarrow> (int \<times> fish) outcome option" where
  "mp1_ioctl_remove arg f =
     (case mp1_find_helper arg f of None \<Rightarrow> None
      | Some None \<Rightarrow> Some (Done (-1, f))
      | Some (Some a) \<Rightarrow> run_then (find_prev a f None) (\<lambda>edx.
          Some (Done (0, mp1_free a (put_cell edx (blink_next (blink_array f a)) f)))))"

definition mp1_ioctl_find :: "u16 \<Rightarrow> fish \<Rightarrow> (int \<times> blink option) option" where
  "mp1_ioctl_find loc f =
     (case mp1_find_helper (ucast loc) f of None \<Rightarrow> None
      | Some None \<Rightarrow> Some (-1, None)
      | Some (Some i) \<Rightarrow> Some (0, Some (blink_array f i)))"

text \<open>
  \<open>testb $0x1\<close> sets the sign flag to the top bit of the byte and clears the overflow flag; \<open>cmovl\<close>
  moves when the two differ.
\<close>

definition sync_char :: "blink \<Rightarrow> u8" where
  "sync_char b =
     (let sign_flag = bit (ucast (blink_status b) AND (1 :: u8)) 7; overflow_flag = False in
      if sign_flag \<noteq> overflow_flag then on_char b else off_char b)"

definition mp1_ioctl_sync :: "u32 \<Rightarrow> fish \<Rightarrow> (int \<times> fish) option" where
  "mp1_ioctl_sync arg f =
     (case mp1_find_helper (drop_bit 16 arg) f of None \<Rightarrow> None
      | Some None \<Rightarrow> Some (-1, f)
      | Some (Some esi) \<Rightarrow>
         (case mp1_find_helper (arg AND 0xFFFF) f of None \<Rightarrow> None
          | Some None \<Rightarrow> Some (-1, f)
          | Some (Some edi) \<Rightarrow>
              let a = blink_array f esi;
                  b = (blink_array f edi)\<lparr>on_length := on_length a, off_length := off_length a,
                    blink_countdown := blink_countdown a, blink_status := blink_status a\<rparr> in
              Some (0, mp1_poke (sync_char b) (2 * unat (location b)) (set_blink edi b f))))"

text \<open>One step of the tasklet's loop.  \<open>cmpw $0\<close> and \<open>jg\<close> compare as signed 16-bit numbers.\<close>

definition blink_tick :: "blink \<Rightarrow> u8 option \<times> blink" where
  "blink_tick b =
     (let b = b\<lparr>blink_countdown := blink_countdown b - 1\<rparr> in
      if sint (blink_countdown b) > 0 then (None, b)
      else if blink_status b AND 1 \<noteq> 0
      then (Some (off_char b), b\<lparr>blink_countdown := off_length b, blink_status := blink_status b XOR 1\<rparr>)
      else (Some (on_char b), b\<lparr>blink_countdown := on_length b, blink_status := blink_status b XOR 1\<rparr>))"

definition tick_node :: "nat \<Rightarrow> fish \<Rightarrow> fish" where
  "tick_node i f =
     (case blink_tick (blink_array f i) of
        (None, b) \<Rightarrow> set_blink i b f
      | (Some c, b) \<Rightarrow> set_blink i b (mp1_poke c (2 * unat (location b)) f))"

partial_function (option) tasklet_loop :: "nat option \<Rightarrow> fish \<Rightarrow> fish option" where
  "tasklet_loop ebx f =
     (case ebx of None \<Rightarrow> Some f
      | Some i \<Rightarrow> let f = tick_node i f in tasklet_loop (blink_next (blink_array f i)) f)"

definition mp1_rtc_tasklet :: "fish \<Rightarrow> fish option" where
  "mp1_rtc_tasklet f = tasklet_loop (mp1_list_head f) f"

section \<open>The list\<close>

text \<open>The elements along the pointers, as in the verifications of pointer programs.\<close>

fun chain :: "(nat \<Rightarrow> blink) \<Rightarrow> nat option \<Rightarrow> nat list \<Rightarrow> bool" where
  "chain a p [] \<longleftrightarrow> p = None"
| "chain a p (i # is) \<longleftrightarrow> p = Some i \<and> chain a (blink_next (a i)) is"

lemma chain_upd [simp]: "i \<notin> set is \<Longrightarrow> chain (a(i := b)) p is = chain a p is"
  by (induction "is" arbitrary: p) auto

lemma chain_append: "chain a p (xs @ i # ys) \<Longrightarrow> chain a (blink_next (a i)) ys"
  by (induction xs arbitrary: p) auto

text \<open>The used slots are those on the list.\<close>

definition linked_blinks :: "fish \<Rightarrow> nat list \<Rightarrow> bool" where
  "linked_blinks f is \<longleftrightarrow> chain (blink_array f) (mp1_list_head f) is \<and> distinct is \<and>
     (\<forall>i. i \<in> set is \<longleftrightarrow> i < BLINKS \<and> location (blink_array f i) \<noteq> 0)"

text \<open>What the list says, without the pointers.\<close>

abbreviation (input) "unlinked b \<equiv> b\<lparr>blink_next := None\<rparr>"

definition shows_blinks :: "fish \<Rightarrow> blink list \<Rightarrow> bool" where
  "shows_blinks f bs \<longleftrightarrow> (\<exists>is. linked_blinks f is \<and> bs = map (\<lambda>i. unlinked (blink_array f i)) is)"

lemma find_map: "find P (map g xs) = map_option g (find (\<lambda>x. P (g x)) xs)"
  by (induction xs) auto

lemma find_from_chain:
  "chain (blink_array f) p is \<Longrightarrow> find_from ax f p = Some (find (\<lambda>i. location (blink_array f i) = ax) is)"
  by (induction "is" arbitrary: p) (simp_all add: find_from.simps)

lemma helper_linked:
  "linked_blinks f is \<Longrightarrow> mp1_find_helper arg f = Some (find (\<lambda>i. location (blink_array f i) = ucast arg) is)"
  by (simp add: mp1_find_helper_def find_from_chain linked_blinks_def)

lemma find_split:
  "find P xs = Some a \<Longrightarrow> \<exists>us vs. xs = us @ a # vs \<and> (\<forall>x \<in> set us. \<not> P x) \<and> P a"
proof (induction xs)
  case (Cons x xs)
  show ?case
  proof (cases "P x")
    case True
    then show ?thesis using Cons.prems by (intro exI[of _ "[]"] exI[of _ xs]) simp
  next
    case False
    then obtain us vs where "xs = us @ a # vs" "\<forall>x \<in> set us. \<not> P x" "P a" using Cons by auto
    then show ?thesis using False by (intro exI[of _ "x # us"] exI[of _ vs]) simp
  qed
qed simp

text \<open>A free slot is there until all 2000 are used.\<close>

lemma malloc_free: "mp1_malloc f = Some i \<Longrightarrow> i < BLINKS \<and> location (blink_array f i) = 0"
  by (auto simp: mp1_malloc_def find_Some_iff simp del: upt_rec_numeral)

lemma malloc_none:
  assumes "linked_blinks f is"
  shows "mp1_malloc f = None \<longleftrightarrow> length is = BLINKS"
proof -
  have s: "set is \<subseteq> {..<BLINKS}" using assms by (auto simp: linked_blinks_def)
  have d: "card (set is) = length is" using assms by (simp add: linked_blinks_def distinct_card)
  have "mp1_malloc f = None \<longleftrightarrow> {..<BLINKS} \<subseteq> set is"
    using assms by (auto simp: mp1_malloc_def find_None_iff linked_blinks_def simp del: upt_rec_numeral)
  also have "\<dots> \<longleftrightarrow> set is = {..<BLINKS}" using s by auto
  also have "\<dots> \<longleftrightarrow> length is = BLINKS"
    using d s card_subset_eq[of "{..<BLINKS}" "set is"] by auto
  finally show ?thesis .
qed

section \<open>Adding\<close>

definition new_blink :: "blink \<Rightarrow> blink" where
  "new_blink b = b\<lparr>blink_status := 1, blink_countdown := on_length b, blink_next := None\<rparr>"

lemma add_refines:
  assumes s: "shows_blinks f bs" and l: "location b \<noteq> 0"
  shows "\<exists>f'. mp1_ioctl_add b f = (if location b < 2000 \<and> length bs < BLINKS then 0 else -1, f') \<and>
    shows_blinks f' (if location b < 2000 \<and> length bs < BLINKS then new_blink b # bs else bs) \<and>
    vmem f' = (if location b < 2000 \<and> length bs < BLINKS then (vmem f)(2 * unat (location b) := on_char b) else vmem f)"
proof -
  obtain "is" where i: "linked_blinks f is" "bs = map (\<lambda>i. unlinked (blink_array f i)) is" using s by (auto simp: shows_blinks_def)
  have "set is \<subseteq> {..<BLINKS}" using i(1) by (auto simp: linked_blinks_def)
  from card_mono[OF _ this] have le: "length is \<le> BLINKS" using i(1) by (simp add: linked_blinks_def distinct_card)
  show ?thesis
  proof (cases "location b < 2000 \<and> length bs < BLINKS")
    case False
    then have "location b \<ge> 2000 \<or> mp1_malloc f = None" using malloc_none[OF i(1)] i(2) le by auto
    then show ?thesis using False s by (auto simp: mp1_ioctl_add_def Let_def)
  next
    case True
    then obtain j where j: "mp1_malloc f = Some j" using malloc_none[OF i(1)] i(2) by fastforce
    note fr = malloc_free[OF j]
    then have nj: "j \<notin> set is" using i(1) by (simp add: linked_blinks_def)
    define b' where "b' = b\<lparr>blink_status := 1, blink_countdown := on_length b, blink_next := mp1_list_head f\<rparr>"
    define f' where "f' = mp1_poke (on_char b) (2 * unat (location b)) ((set_blink j b' f)\<lparr>mp1_list_head := Some j\<rparr>)"
    have a: "mp1_ioctl_add b f = (0, f')" using True j by (simp add: mp1_ioctl_add_def f'_def b'_def Let_def not_le)
    have arr: "blink_array f' = (blink_array f)(j := b')" "mp1_list_head f' = Some j"
      "vmem f' = (vmem f)(2 * unat (location b) := on_char b)"
      by (simp_all add: f'_def mp1_poke_def set_blink_def)
    have b': "blink_next b' = mp1_list_head f" "location b' = location b" by (simp_all add: b'_def)
    have "linked_blinks f' (j # is)"
      using i(1) nj fr l b' arr(1,2) by (auto simp: linked_blinks_def)
    moreover have "map (\<lambda>i. unlinked (blink_array f' i)) (j # is) = new_blink b # bs"
      using nj by (auto simp: arr(1) i(2) b'_def new_blink_def)
    ultimately have "shows_blinks f' (new_blink b # bs)" unfolding shows_blinks_def by metis
    then show ?thesis using True a arr(3) by auto
  qed
qed

section \<open>Removing\<close>

definition remove_first :: "u16 \<Rightarrow> blink list \<Rightarrow> blink list" where
  "remove_first loc bs =
     takeWhile (\<lambda>b. location b \<noteq> loc) bs @ drop 1 (dropWhile (\<lambda>b. location b \<noteq> loc) bs)"

lemma prev_chain:
  assumes "chain (blink_array f) (cell f edx) (us @ a # vs)" "a \<notin> set us"
  shows "find_prev a f edx = Some (Done (if us = [] then edx else Some (last us)))"
  using assms
proof (induction us arbitrary: edx)
  case Nil
  then show ?case by (simp add: find_prev.simps)
next
  case (Cons u us)
  then have c: "cell f edx = Some u" "u \<noteq> a" "chain (blink_array f) (cell f (Some u)) (us @ a # vs)"
    by (auto simp: cell_def)
  then have "find_prev a f edx = find_prev a f (Some u)" by (subst find_prev.simps) simp
  then show ?case using Cons.IH[OF c(3)] Cons.prems(2) by simp
qed

lemma unlink_chain:
  assumes "chain g p (us @ a # vs)" "distinct (us @ a # vs)" "us \<noteq> []"
  shows "chain (g(last us := (g (last us))\<lparr>blink_next := blink_next (g a)\<rparr>)) p (us @ vs)"
  using assms
proof (induction us arbitrary: p)
  case (Cons u us)
  show ?case
  proof (cases "us = []")
    case True
    then have c: "p = Some u" "chain g (blink_next (g a)) vs" "u \<notin> set vs" using Cons.prems by simp_all
    have "blink_next ((g u)\<lparr>blink_next := blink_next (g a)\<rparr>) = blink_next (g a)" by simp
    then show ?thesis
      using c(1,2) chain_upd[OF c(3)] by (simp only: True append.simps last.simps simp_thms if_True chain.simps fun_upd_same)
  next
    case False
    then have "u \<noteq> last us" using Cons.prems(2) by auto
    then show ?thesis using Cons False by simp
  qed
qed simp

lemma remove_refines:
  assumes s: "shows_blinks f bs" and found: "found = find (\<lambda>b. location b = ucast arg) bs"
  shows "\<exists>f'. mp1_ioctl_remove arg f = Some (Done (if found = None then -1 else 0, f')) \<and>
    shows_blinks f' (remove_first (ucast arg) bs) \<and> vmem f' = vmem f"
proof -
  obtain "is" where i: "linked_blinks f is" "bs = map (\<lambda>i. unlinked (blink_array f i)) is" using s by (auto simp: shows_blinks_def)
  let ?P = "\<lambda>i. location (blink_array f i) = ucast arg"
  have h: "mp1_find_helper arg f = Some (find ?P is)" by (rule helper_linked[OF i(1)])
  have fd: "found = map_option (\<lambda>i. unlinked (blink_array f i)) (find ?P is)" by (simp add: found i(2) find_map)
  show ?thesis
  proof (cases "find ?P is")
    case None
    then have "\<forall>b \<in> set bs. location b \<noteq> ucast arg" by (auto simp: i(2) find_None_iff)
    then have "remove_first (ucast arg) bs = bs" by (simp add: remove_first_def dropWhile_eq_Nil_conv[THEN iffD2] takeWhile_eq_all_conv[THEN iffD2])
    then show ?thesis using None h fd s by (simp add: mp1_ioctl_remove_def)
  next
    case (Some a)
    from find_split[OF this] obtain us vs where u: "is = us @ a # vs" "\<forall>x \<in> set us. \<not> ?P x" "?P a" by blast
    have c: "chain (blink_array f) (mp1_list_head f) (us @ a # vs)" "distinct (us @ a # vs)"
      using i(1) u(1) by (simp_all add: linked_blinks_def)
    have na: "a \<notin> set (us @ vs)" using c(2) by auto
    define prev where "prev = (if us = [] then None else Some (last us))"
    define g where "g = put_cell prev (blink_next (blink_array f a)) f"
    have fp: "find_prev a f None = Some (Done prev)"
      using prev_chain[of f None us a vs] c(1) na by (simp add: cell_def prev_def)
    have r: "mp1_ioctl_remove arg f = Some (Done (0, mp1_free a g))" by (simp add: mp1_ioctl_remove_def h Some fp g_def)
    have ch: "chain (blink_array g) (mp1_list_head g) (us @ vs)"
    proof (cases "us = []")
      case True
      then show ?thesis using c(1) by (simp add: g_def put_cell_def prev_def)
    next
      case False
      then show ?thesis using unlink_chain[OF c False] by (simp add: g_def put_cell_def prev_def set_blink_def)
    qed
    have gl: "location (blink_array g k) = location (blink_array f k)" "unlinked (blink_array g k) = unlinked (blink_array f k)" for k
      by (auto simp: g_def put_cell_def prev_def set_blink_def)
    have v: "vmem (mp1_free a g) = vmem f" by (auto simp: g_def put_cell_def prev_def set_blink_def mp1_free_def)
    have arr: "blink_array (mp1_free a g) = (blink_array g)(a := zero_blink)" "mp1_list_head (mp1_free a g) = mp1_list_head g"
      by (simp_all add: mp1_free_def set_blink_def)
    have "linked_blinks (mp1_free a g) (us @ vs)"
      using ch c(2) na i(1) u(1) gl(1) arr by (auto simp: linked_blinks_def zero_blink_def)
    moreover have "map (\<lambda>i. unlinked (blink_array (mp1_free a g) i)) (us @ vs) = remove_first (ucast arg) bs"
      using na u gl(2) by (auto simp: arr i(2) remove_first_def takeWhile_append dropWhile_append)
    ultimately have "shows_blinks (mp1_free a g) (remove_first (ucast arg) bs)" unfolding shows_blinks_def by metis
    then show ?thesis using r v fd Some by simp
  qed
qed

section \<open>The tick\<close>

lemma blink_tick_keeps [simp]:
  "blink_next (snd (blink_tick b)) = blink_next b" "location (snd (blink_tick b)) = location b"
  by (simp_all add: blink_tick_def Let_def)

lemma blink_tick_unlinked [simp]:
  "blink_tick (unlinked b) = (fst (blink_tick b), unlinked (snd (blink_tick b)))"
  by (simp add: blink_tick_def Let_def)

text \<open>
  The rule of blinking: the count goes down while more than one tick is left, and a count of 0 or
  above \<open>0x8000\<close> is no time left; at the end of a phase the element turns, on to off or off to on,
  its new phase is timed by the length for it, and the character of the new phase is shown.
\<close>

definition time_left :: "blink \<Rightarrow> bool" where
  "time_left b \<longleftrightarrow> 1 < unat (blink_countdown b) \<and> unat (blink_countdown b) \<le> 0x8000"

definition turned :: "blink \<Rightarrow> blink" where
  "turned b = (if odd (blink_status b)
     then b\<lparr>blink_status := blink_status b - 1, blink_countdown := off_length b\<rparr>
     else b\<lparr>blink_status := blink_status b + 1, blink_countdown := on_length b\<rparr>)"

definition passed :: "blink \<Rightarrow> blink" where
  "passed b = (if time_left b then b\<lparr>blink_countdown := blink_countdown b - 1\<rparr> else turned b)"

definition show_tick :: "blink \<Rightarrow> (nat \<Rightarrow> u8) \<Rightarrow> nat \<Rightarrow> u8" where
  "show_tick b v =
     (if time_left b then v
      else v(2 * unat (location b) := (if odd (blink_status b) then off_char b else on_char b)))"

lemma xor_one: "(w :: u16) XOR 1 = (if odd w then w - 1 else w + 1)"
  by (simp add: xor_one_eq)

lemma time_left_signed: "time_left b \<longleftrightarrow> 0 < sint (blink_countdown b - 1)"
proof -
  define n where "n = blink_countdown b"
  have w: "unat (n - 1) = (if n = 0 then 0xFFFF else unat n - 1)"
    by (cases "n = 0") (simp_all add: unat_minus_one unsigned_minus_1_eq_mask mask_eq_exp_minus_1)
  have "sint m = int (unat m) - (if unat m < 0x8000 then 0 else 0x10000)" for m :: u16
  proof -
    define k where "k = uint m"
    have k: "0 \<le> k" "k < 65536" using unsigned_less[of m, where ?'a = int] by (simp_all add: k_def)
    have "signed_take_bit 15 k = take_bit 16 k - 65536 * of_bool (bit k 15)"
      by (simp add: signed_take_bit_eq_take_bit_minus)
    moreover have "take_bit 16 k = k" using k by (simp add: take_bit_int_eq_self_iff)
    moreover have "bit k 15 \<longleftrightarrow> 32768 \<le> k"
    proof (cases "32768 \<le> k")
      case True
      then have "k div 32768 = 1" using k by (intro div_pos_geq[THEN trans]) simp_all
      then show ?thesis using True by (simp add: bit_iff_odd)
    next
      case False
      then have "k div 32768 = 0" using k by simp
      then show ?thesis using False by (simp add: bit_iff_odd)
    qed
    ultimately have "signed_take_bit 15 k = k - (if k < 32768 then 0 else 65536)" by simp
    moreover have "sint m = signed_take_bit 15 k" by (simp add: sint_uint k_def)
    moreover have km: "k = int (unat m)" by (simp add: k_def)
    moreover have "k < 32768 \<longleftrightarrow> unat m < 32768" using km by linarith
    ultimately show ?thesis by (simp only:)
  qed
  then have "sint (n - 1) = int (unat (n - 1)) - (if unat (n - 1) < 0x8000 then 0 else 0x10000)" .
  moreover have "unat (n - 1) < 0x10000" using unsigned_less[of "n - 1", where ?'a = nat] by simp
  moreover have "r = int u - (if u < 0x8000 then 0 else 0x10000) \<Longrightarrow> u < 0x10000 \<Longrightarrow> 0 < r \<longleftrightarrow> 0 < u \<and> u < 0x8000" for r u
    by (cases "u < 0x8000") simp_all
  ultimately have "0 < sint (n - 1) \<longleftrightarrow> 0 < unat (n - 1) \<and> unat (n - 1) < 0x8000" by blast
  then show ?thesis unfolding time_left_def n_def[symmetric] w by (auto simp: unat_eq_0)
qed

lemma time_left_unlinked [simp]: "time_left (unlinked b) = time_left b"
  by (simp add: time_left_def)

lemma blink_tick_eq:
  "blink_tick b = (if time_left b then None else Some (if odd (blink_status b) then off_char b else on_char b), passed b)"
  by (simp add: blink_tick_def Let_def passed_def turned_def time_left_signed and_one_eq odd_iff_mod_2_eq_one xor_one)

lemma tick_node_simps [simp]:
  "blink_array (tick_node i f) = (blink_array f)(i := snd (blink_tick (blink_array f i)))"
  "mp1_list_head (tick_node i f) = mp1_list_head f"
  "vmem (tick_node i f) = show_tick (blink_array f i) (vmem f)"
proof -
  obtain c b where t: "blink_tick (blink_array f i) = (c, b)" by fastforce
  then have l: "location b = location (blink_array f i)" using blink_tick_keeps(2)[of "blink_array f i"] by simp
  show "blink_array (tick_node i f) = (blink_array f)(i := snd (blink_tick (blink_array f i)))"
    "mp1_list_head (tick_node i f) = mp1_list_head f"
    by (cases c; simp add: tick_node_def set_blink_def mp1_poke_def t)+
  show "vmem (tick_node i f) = show_tick (blink_array f i) (vmem f)"
    using t l by (auto simp: tick_node_def set_blink_def mp1_poke_def blink_tick_eq show_tick_def split: if_splits)
qed

lemma tasklet_chain:
  assumes "chain (blink_array f) p is" "distinct is"
  shows "\<exists>f'. tasklet_loop p f = Some f' \<and> mp1_list_head f' = mp1_list_head f \<and>
    (\<forall>i. blink_array f' i = (if i \<in> set is then snd (blink_tick (blink_array f i)) else blink_array f i)) \<and>
    vmem f' = fold show_tick (map (blink_array f) is) (vmem f)"
  using assms
proof (induction "is" arbitrary: p f)
  case Nil
  then show ?case by (simp add: tasklet_loop.simps)
next
  case (Cons i "is")
  let ?g = "tick_node i f"
  have i: "p = Some i" "i \<notin> set is" "distinct is" using Cons.prems by simp_all
  have n: "chain (blink_array ?g) (blink_next (blink_array ?g i)) is" using Cons.prems by simp
  have m: "map (blink_array ?g) is = map (blink_array f) is" using i(2) by (intro map_cong refl) auto
  obtain f' where f': "tasklet_loop (blink_next (blink_array ?g i)) ?g = Some f'"
    "mp1_list_head f' = mp1_list_head f"
    "\<forall>k. blink_array f' k = (if k \<in> set is then snd (blink_tick (blink_array ?g k)) else blink_array ?g k)"
    "vmem f' = fold show_tick (map (blink_array f) is) (vmem ?g)"
    using Cons.IH[OF n i(3)] unfolding m tick_node_simps(2) by blast
  have "tasklet_loop p f = Some f'" using f'(1) by (subst tasklet_loop.simps) (simp add: i(1) Let_def)
  then show ?case using f'(2,4) i(2) f'(3) by (intro exI[of _ f']) auto
qed

lemma linked_cong:
  assumes "linked_blinks f is" "mp1_list_head f' = mp1_list_head f"
    and "\<And>i. blink_next (blink_array f' i) = blink_next (blink_array f i)"
    and "\<And>i. location (blink_array f' i) = location (blink_array f i)"
  shows "linked_blinks f' is"
proof -
  have "chain (blink_array f') p js = chain (blink_array f) p js" for p js
    by (induction js arbitrary: p) (simp_all add: assms(3))
  then show ?thesis using assms(1,2,4) by (simp add: linked_blinks_def)
qed

lemma tasklet_refines:
  assumes "shows_blinks f bs"
  shows "\<exists>f'. mp1_rtc_tasklet f = Some f' \<and> shows_blinks f' (map (\<lambda>b. snd (blink_tick b)) bs) \<and>
    vmem f' = fold show_tick bs (vmem f)"
proof -
  obtain "is" where i: "linked_blinks f is" "bs = map (\<lambda>i. unlinked (blink_array f i)) is"
    using assms by (auto simp: shows_blinks_def)
  then obtain f' where f': "mp1_rtc_tasklet f = Some f'" "mp1_list_head f' = mp1_list_head f"
    "\<forall>k. blink_array f' k = (if k \<in> set is then snd (blink_tick (blink_array f k)) else blink_array f k)"
    "vmem f' = fold show_tick (map (blink_array f) is) (vmem f)"
    using tasklet_chain[of f "mp1_list_head f" "is"] by (auto simp: mp1_rtc_tasklet_def linked_blinks_def)
  have "linked_blinks f' is" by (rule linked_cong[OF i(1) f'(2)]) (simp_all add: f'(3))
  moreover have "map (\<lambda>i. unlinked (blink_array f' i)) is = map (\<lambda>b. snd (blink_tick b)) bs" by (simp add: i(2) f'(3))
  ultimately have "shows_blinks f' (map (\<lambda>b. snd (blink_tick b)) bs)" unfolding shows_blinks_def by metis
  moreover have "show_tick (unlinked b) = show_tick b" for b by (intro ext) (simp add: show_tick_def)
  then have "fold show_tick bs v = fold show_tick (map (blink_array f) is) v" for v
    by (simp add: i(2) fold_map comp_def)
  ultimately show ?thesis using f'(1,4) by simp
qed

section \<open>Synchronising\<close>

definition synced :: "blink \<Rightarrow> blink \<Rightarrow> blink" where
  "synced a b = b\<lparr>on_length := on_length a, off_length := off_length a,
     blink_countdown := blink_countdown a, blink_status := blink_status a\<rparr>"

definition sync_first :: "u16 \<Rightarrow> blink \<Rightarrow> blink list \<Rightarrow> blink list" where
  "sync_first loc a bs = (case dropWhile (\<lambda>b. location b \<noteq> loc) bs of [] \<Rightarrow> bs
     | d # ds \<Rightarrow> takeWhile (\<lambda>b. location b \<noteq> loc) bs @ synced a d # ds)"

text \<open>The conditional move never moves: the second character is shown, on or off.\<close>

lemma sync_char_off: "sync_char b = off_char b"
  by (simp add: sync_char_def Let_def bit_simps)

lemma low_half: "ucast ((arg :: u32) AND 0xFFFF) = (ucast arg :: u16)"
proof -
  have m: "(0xFFFF :: u32) = mask 16" by (simp add: mask_eq_exp_minus_1)
  show ?thesis unfolding m by (intro bit_word_eqI) (simp add: bit_simps bit_mask_iff)
qed

lemma sync_refines:
  assumes s: "shows_blinks f bs"
    and a: "find (\<lambda>b. location b = ucast (drop_bit 16 arg)) bs = Some a"
    and d: "find (\<lambda>b. location b = ucast arg) bs = Some d"
  shows "\<exists>f'. mp1_ioctl_sync arg f = Some (0, f') \<and> shows_blinks f' (sync_first (ucast arg) a bs) \<and>
    vmem f' = (vmem f)(2 * unat (location d) := off_char d)"
proof -
  obtain "is" where i: "linked_blinks f is" "bs = map (\<lambda>i. unlinked (blink_array f i)) is"
    using s by (auto simp: shows_blinks_def)
  let ?P = "\<lambda>i. location (blink_array f i) = ucast arg"
  obtain esi where e: "find (\<lambda>i. location (blink_array f i) = ucast (drop_bit 16 arg)) is = Some esi"
    "a = unlinked (blink_array f esi)" using a by (auto simp: i(2) find_map)
  obtain edi where g: "find ?P is = Some edi" "d = unlinked (blink_array f edi)" using d by (auto simp: i(2) find_map)
  from find_split[OF g(1)] obtain us vs where u: "is = us @ edi # vs" "\<forall>x \<in> set us. \<not> ?P x" "?P edi" by blast
  define b where "b = synced (blink_array f esi) (blink_array f edi)"
  define f' where "f' = mp1_poke (sync_char b) (2 * unat (location b)) (set_blink edi b f)"
  have r: "mp1_ioctl_sync arg f = Some (0, f')"
    using helper_linked[OF i(1), of "drop_bit 16 arg"] helper_linked[OF i(1), of "arg AND 0xFFFF"] e(1) g(1)
    by (simp add: mp1_ioctl_sync_def low_half Let_def f'_def b_def synced_def)
  have f': "blink_array f' = (blink_array f)(edi := b)" "mp1_list_head f' = mp1_list_head f"
    "vmem f' = (vmem f)(2 * unat (location d) := off_char d)"
    by (simp_all add: f'_def mp1_poke_def set_blink_def sync_char_off b_def synced_def g(2))
  have "linked_blinks f' is" by (rule linked_cong[OF i(1) f'(2)]) (simp_all add: f'(1) b_def synced_def)
  moreover have "edi \<notin> set us" "edi \<notin> set vs" using i(1) u(1) by (auto simp: linked_blinks_def)
  then have "map (\<lambda>i. unlinked (blink_array f' i)) is = sync_first (ucast arg) a bs"
    using u by (auto simp: f'(1) i(2) sync_first_def dropWhile_append takeWhile_append b_def synced_def e(2))
  ultimately have "shows_blinks f' (sync_first (ucast arg) a bs)" unfolding shows_blinks_def by metis
  then show ?thesis using r f'(3) by blast
qed

lemma sync_missing:
  assumes s: "shows_blinks f bs"
    and "find (\<lambda>b. location b = ucast (drop_bit 16 arg)) bs = None \<or> find (\<lambda>b. location b = ucast arg) bs = None"
  shows "mp1_ioctl_sync arg f = Some (-1, f)"
proof -
  obtain "is" where i: "linked_blinks f is" "bs = map (\<lambda>i. unlinked (blink_array f i)) is"
    using s by (auto simp: shows_blinks_def)
  show ?thesis
    using assms(2) helper_linked[OF i(1), of "drop_bit 16 arg"] helper_linked[OF i(1), of "arg AND 0xFFFF"]
    by (auto simp: mp1_ioctl_sync_def low_half i(2) find_map split: option.splits)
qed

section \<open>Pictures\<close>

text \<open>
  What the program keeps, without pointers and slots: the characters from the newest on, and the
  screen.  The operations of the program are these four.
\<close>

type_synonym picture = "blink list \<times> (nat \<Rightarrow> u8)"

abbreviation (input) "at_loc loc bs \<equiv> find (\<lambda>b. location b = loc) bs"

definition pictures :: "fish \<Rightarrow> picture \<Rightarrow> bool" where
  "pictures f p \<longleftrightarrow> shows_blinks f (fst p) \<and> vmem f = snd p"

definition pic_add :: "blink \<Rightarrow> picture \<Rightarrow> picture" where
  "pic_add b p =
     (if location b < 2000 \<and> length (fst p) < BLINKS
      then (new_blink b # fst p, (snd p)(2 * unat (location b) := on_char b)) else p)"

definition pic_remove :: "u16 \<Rightarrow> picture \<Rightarrow> picture" where
  "pic_remove loc p = (remove_first loc (fst p), snd p)"

definition pic_sync :: "u16 \<Rightarrow> u16 \<Rightarrow> picture \<Rightarrow> picture" where
  "pic_sync src dst p =
     (case (at_loc src (fst p), at_loc dst (fst p)) of
        (Some a, Some d) \<Rightarrow> (sync_first dst a (fst p), (snd p)(2 * unat dst := off_char d))
      | _ \<Rightarrow> p)"

definition pic_tick :: "picture \<Rightarrow> picture" where
  "pic_tick p = (map passed (fst p), fold show_tick (fst p) (snd p))"

lemma pictures_add:
  assumes "pictures f p" "location b \<noteq> 0"
  obtains f' where "mp1_ioctl_add b f = (if location b < 2000 \<and> length (fst p) < BLINKS then 0 else -1, f')"
    "pictures f' (pic_add b p)"
proof -
  have s: "shows_blinks f (fst p)" "vmem f = snd p" using assms(1) by (simp_all add: pictures_def)
  from add_refines[OF s(1) assms(2)] obtain f' where
    f': "mp1_ioctl_add b f = (if location b < 2000 \<and> length (fst p) < BLINKS then 0 else -1, f')"
    "shows_blinks f' (if location b < 2000 \<and> length (fst p) < BLINKS then new_blink b # fst p else fst p)"
    "vmem f' = (if location b < 2000 \<and> length (fst p) < BLINKS then (vmem f)(2 * unat (location b) := on_char b) else vmem f)"
    by blast
  have "pictures f' (pic_add b p)" using f'(2,3) s(2) by (auto simp: pictures_def pic_add_def)
  with f'(1) show thesis by (rule that)
qed

lemma pictures_remove:
  assumes "pictures f p"
  obtains f' where "mp1_ioctl_remove arg f = Some (Done (if at_loc (ucast arg) (fst p) = None then -1 else 0, f'))"
    "pictures f' (pic_remove (ucast arg) p)"
  using remove_refines[OF _ refl, of f "fst p" arg] assms that by (auto simp: pictures_def pic_remove_def)

lemma pictures_sync:
  assumes "pictures f p"
  obtains f' where "mp1_ioctl_sync arg f =
      Some (if at_loc (ucast (drop_bit 16 arg)) (fst p) = None \<or> at_loc (ucast arg) (fst p) = None then -1 else 0, f')"
    "pictures f' (pic_sync (ucast (drop_bit 16 arg)) (ucast arg) p)"
proof -
  have s: "shows_blinks f (fst p)" "vmem f = snd p" using assms by (simp_all add: pictures_def)
  show thesis
  proof (cases "at_loc (ucast (drop_bit 16 arg)) (fst p) = None \<or> at_loc (ucast arg) (fst p) = None")
    case True
    then have "pic_sync (ucast (drop_bit 16 arg)) (ucast arg) p = p"
      by (auto simp: pic_sync_def split: option.split)
    then show ?thesis using that[of f] sync_missing[OF s(1) True] True assms by simp
  next
    case False
    then obtain a d where ad: "at_loc (ucast (drop_bit 16 arg)) (fst p) = Some a" "at_loc (ucast arg) (fst p) = Some d" by auto
    have l: "location d = ucast arg" using ad(2) by (auto simp: find_Some_iff)
    from sync_refines[OF s(1) ad] obtain f' where "mp1_ioctl_sync arg f = Some (0, f')"
      "shows_blinks f' (sync_first (ucast arg) a (fst p))" "vmem f' = (snd p)(2 * unat (location d) := off_char d)"
      unfolding s(2) by blast
    then show ?thesis using that[of f'] ad l by (simp add: pictures_def pic_sync_def)
  qed
qed

lemma pictures_tick:
  assumes "pictures f p"
  obtains f' where "mp1_rtc_tasklet f = Some f'" "pictures f' (pic_tick p)"
proof -
  have "(\<lambda>b. snd (blink_tick b)) = passed" by (simp add: blink_tick_eq fun_eq_iff)
  then show thesis
    using tasklet_refines[of f "fst p"] assms that by (auto simp: pictures_def pic_tick_def)
qed

section \<open>Location zero\<close>

text \<open>A list that points to itself holds the tasklet for ever.\<close>

lemma tasklet_self_loop:
  assumes "blink_next (blink_array f i) = Some i"
  shows "tasklet_loop (Some i) f = None"
proof -
  have "\<forall>j. p = Some j \<longrightarrow> blink_next (blink_array f j) \<noteq> Some j" if "tasklet_loop p f = Some y" for p f y
  proof (rule tasklet_loop.raw_induct[OF _ that, where P = "\<lambda>p f y. \<forall>j. p = Some j \<longrightarrow> blink_next (blink_array f j) \<noteq> Some j"])
    fix loop p and f :: fish and y :: fish
    assume ih: "\<And>p f y. loop p f = Some y \<Longrightarrow> \<forall>j. p = Some j \<longrightarrow> blink_next (blink_array f j) \<noteq> Some j"
      and step: "(case p of None \<Rightarrow> Some f
        | Some i \<Rightarrow> let f = tick_node i f in loop (blink_next (blink_array f i)) f) = Some y"
    show "\<forall>j. p = Some j \<longrightarrow> blink_next (blink_array f j) \<noteq> Some j"
    proof (intro allI impI)
      fix j assume j: "p = Some j"
      then have "loop (blink_next (blink_array f j)) (tick_node j f) = Some y" using step by (simp add: Let_def)
      from ih[OF this] show "blink_next (blink_array f j) \<noteq> Some j" by auto
    qed
  qed
  then show ?thesis using assms by (cases "tasklet_loop (Some i) f") auto
qed

lemma zero_location_loops:
  assumes "mp1_malloc f = Some i" "location a = 0" "location b = 0"
  shows "mp1_rtc_tasklet (snd (mp1_ioctl_add b (snd (mp1_ioctl_add a f)))) = None"
proof -
  define g where "g = snd (mp1_ioctl_add a f)"
  have g: "mp1_list_head g = Some i" "location (blink_array g i) = 0"
    "\<And>k. k \<noteq> i \<Longrightarrow> blink_array g k = blink_array f k"
    using assms(1,2) by (simp_all add: g_def mp1_ioctl_add_def Let_def mp1_poke_def set_blink_def)
  have "location (blink_array g k) = 0 \<longleftrightarrow> location (blink_array f k) = 0" for k
    using g(2,3) malloc_free[OF assms(1)] by (cases "k = i") simp_all
  then have "mp1_malloc g = Some i" using assms(1) by (simp add: mp1_malloc_def del: upt_rec_numeral)
  then have "blink_next (blink_array (snd (mp1_ioctl_add b g)) i) = Some i"
    "mp1_list_head (snd (mp1_ioctl_add b g)) = Some i"
    using assms(3) g(1) by (simp_all add: mp1_ioctl_add_def Let_def mp1_poke_def set_blink_def)
  then show ?thesis unfolding g_def mp1_rtc_tasklet_def by (simp add: tasklet_self_loop)
qed

end
