(* ===== verification/Fish_Main.thy ===== *)
theory Fish_Main
  imports Fish_List User_Output
begin

text \<open>
  The program src/fish/fish.c over the blinking characters: two frames, read character by character
  from two files, whose differences blink.  \<open>junk\<close> is what the uninitialised structure holds.
\<close>

section \<open>The frames\<close>

definition next_char :: "'s sys \<Rightarrow> int \<Rightarrow> u8 \<times> bool \<Rightarrow> 's \<Rightarrow> ((u8 \<times> bool) \<times> 's) outcome" where
  "next_char sys fd x s =
     (if fst x \<noteq> 10
      then andthen (sread sys fd [fst x] 1 s) (\<lambda>(num_bytes, buf, s).
             Done (if num_bytes = 0 then (10, True) else (buf ! 0, snd x), s))
      else Done (x, s))"

definition frame_blink :: "blink \<Rightarrow> nat \<Rightarrow> nat \<Rightarrow> u8 \<Rightarrow> u8 \<Rightarrow> blink" where
  "frame_blink junk row col c0 c1 =
     junk\<lparr>on_length := 15, off_length := 15, on_char := (if c0 = 10 then 32 else c0),
       off_char := (if c1 = 10 then 32 else c1), location := of_nat (row * 80 + col + 40)\<rparr>"

definition blank :: "u8 \<Rightarrow> bool" where
  "blank c \<longleftrightarrow> c = 32 \<or> c = 10"

text \<open>One row of both files; the result says which of them have ended.\<close>

partial_function (option) frame_row ::
    "'s sys \<Rightarrow> int \<Rightarrow> int \<Rightarrow> blink \<Rightarrow> nat \<Rightarrow> nat \<Rightarrow> u8 \<times> bool \<Rightarrow> u8 \<times> bool \<Rightarrow> fish \<Rightarrow> 's \<Rightarrow>
     (bool \<times> bool \<times> fish \<times> 's) outcome option" where
  "frame_row sys fd0 fd1 junk row col x0 x1 f s =
     upon (next_char sys fd0 x0 s) (\<lambda>(x0, s).
     upon (next_char sys fd1 x1 s) (\<lambda>(x1, s).
       if fst x0 = 10 \<and> fst x1 = 10 then Some (Done (snd x0, snd x1, f, s))
       else frame_row sys fd0 fd1 junk row (col + 1) x0 x1
              (if blank (fst x0) \<and> blank (fst x1) then f
               else snd (mp1_ioctl_add (frame_blink junk row col (fst x0) (fst x1)) f)) s))"

definition end_row :: "'s sys \<Rightarrow> int \<Rightarrow> bool \<Rightarrow> 's \<Rightarrow> ((u8 \<times> bool) \<times> 's) outcome" where
  "end_row sys fd eof s =
     (if eof then andthen (sclose sys fd s) (\<lambda>(r, s). Done ((10, True), s))
      else Done ((of_char CHR ''0'', False), s))"

partial_function (option) frame_rows ::
    "'s sys \<Rightarrow> int \<Rightarrow> int \<Rightarrow> blink \<Rightarrow> nat \<Rightarrow> u8 \<times> bool \<Rightarrow> u8 \<times> bool \<Rightarrow> fish \<Rightarrow> 's \<Rightarrow> (fish \<times> 's) outcome option" where
  "frame_rows sys fd0 fd1 junk row x0 x1 f s =
     (if snd x0 \<and> snd x1 then Some (Done (f, s))
      else run_then (frame_row sys fd0 fd1 junk row 0 x0 x1 f s) (\<lambda>(eof0, eof1, f, s).
        upon (end_row sys fd0 eof0 s) (\<lambda>(x0, s).
        upon (end_row sys fd1 eof1 s) (\<lambda>(x1, s).
          frame_rows sys fd0 fd1 junk (row + 1) x0 x1 f s))))"

text \<open>\<open>ece391_halt (-1)\<close> ends the program: \<open>Inl\<close> with the status.\<close>

definition add_frames ::
    "'s sys \<Rightarrow> u8 list \<Rightarrow> u8 list \<Rightarrow> blink \<Rightarrow> fish \<Rightarrow> 's \<Rightarrow> ((int + fish) \<times> 's) outcome option" where
  "add_frames sys f0 f1 junk f s =
     upon (sopen sys f0 s) (\<lambda>(fd0, s).
       if fd0 < 0 then Some (Done (Inl (-1), s))
       else upon (sopen sys f1 s) (\<lambda>(fd1, s).
         if fd1 < 0 then Some (Done (Inl (-1), s))
         else run_then (frame_rows sys fd0 fd1 junk 0 (of_char CHR ''0'', False) (of_char CHR ''0'', False) f s)
                (\<lambda>(f, s). Some (Done (Inr f, s)))))"

section \<open>The program\<close>

fun wait_ticks :: "'s sys \<Rightarrow> int \<Rightarrow> nat \<Rightarrow> u8 list \<times> fish \<times> 's \<Rightarrow> (u8 list \<times> fish \<times> 's) outcome option" where
  "wait_ticks sys rtc_fd 0 st = Some (Done st)"
| "wait_ticks sys rtc_fd (Suc n) st =
     (case st of (garbage, f, s) \<Rightarrow>
        upon (sread sys rtc_fd garbage 4 s) (\<lambda>(r, garbage, s).
          case mp1_rtc_tasklet f of None \<Rightarrow> None | Some f \<Rightarrow> wait_ticks sys rtc_fd n (garbage, f, s)))"

definition start_fish :: "(nat \<Rightarrow> u8) \<Rightarrow> fish" where
  "start_fish v = \<lparr>blink_array = (\<lambda>i. zero_blink), mp1_list_head = None, vmem = v\<rparr>"

definition spot_blink :: "blink \<Rightarrow> blink" where
  "spot_blink junk = junk\<lparr>on_char := of_char CHR ''I'', off_char := of_char CHR ''M'', on_length := 7,
     off_length := 6, location := 6 * 80 + 60\<rparr>"

text \<open>After the frames: blink, add a character, synchronise it with another, remove it.\<close>

definition show_spot :: "'s sys \<Rightarrow> int \<Rightarrow> blink \<Rightarrow> u8 list \<times> fish \<times> 's \<Rightarrow> (u8 list \<times> fish \<times> 's) outcome option" where
  "show_spot sys rtc_fd junk st =
     run_then (wait_ticks sys rtc_fd 100 st) (\<lambda>(garbage, f, s).
     run_then (wait_ticks sys rtc_fd 100 (garbage, snd (mp1_ioctl_add (spot_blink junk) f), s)) (\<lambda>(garbage, f, s).
       case mp1_ioctl_sync (push_bit 16 40 OR (6 * 80 + 60)) f of None \<Rightarrow> None
       | Some (r, f) \<Rightarrow>
         run_then (wait_ticks sys rtc_fd 100 (garbage, f, s)) (\<lambda>(garbage, f, s).
         run_then (mp1_ioctl_remove (6 * 80 + 60) f) (\<lambda>(r, f).
           wait_ticks sys rtc_fd 100 (garbage, f, s)))))"

definition fish_main ::
    "'s sys \<Rightarrow> nat \<Rightarrow> blink \<Rightarrow> u8 list \<Rightarrow> (nat \<Rightarrow> u8) \<Rightarrow> 's \<Rightarrow> (int \<times> fish \<times> 's) outcome option" where
  "fish_main sys p junk garbage v s =
     upon (svidmap sys p s) (\<lambda>(r, s).
       if r = -1 then Some (Done (-1, start_fish v, s))
       else upon (sopen sys (c_lit ''rtc'') s) (\<lambda>(rtc_fd, s).
         run_then (add_frames sys (c_lit ''frame0.txt'') (c_lit ''frame1.txt'') junk (start_fish v) s) (\<lambda>(x, s).
           case x of Inl status \<Rightarrow> Some (Done (status, start_fish v, s))
           | Inr f \<Rightarrow>
             upon (swrite sys rtc_fd (le32 32) 4 s) (\<lambda>(r, s).
             run_then (show_spot sys rtc_fd junk (garbage, f, s)) (\<lambda>(garbage, f, s).
             upon (sclose sys rtc_fd s) (\<lambda>(r, s). Some (Done (0, f, s))))))))"

section \<open>Every tick returns\<close>

text \<open>The run comes to an end, and a result it gives has the property.\<close>

definition ends_with :: "('a \<Rightarrow> bool) \<Rightarrow> 'a outcome option \<Rightarrow> bool" where
  "ends_with P m \<longleftrightarrow> m \<noteq> None \<and> (\<forall>a. m = Some (Done a) \<longrightarrow> P a)"

lemma ends_with_Done [simp]: "ends_with P (Some (Done a)) = P a"
  by (simp add: ends_with_def)

lemma ends_upon:
  assumes "\<And>a. m = Done a \<Longrightarrow> ends_with P (h a)"
  shows "ends_with P (upon m h)"
  using assms by (cases m) (auto simp: ends_with_def)

lemma ends_run_then:
  assumes "ends_with Q m" "\<And>a. Q a \<Longrightarrow> ends_with P (h a)"
  shows "ends_with P (run_then m h)"
proof (cases m)
  case (Some r)
  have "ends_with P (upon r h)" by (rule ends_upon) (use assms Some in \<open>auto simp: ends_with_def\<close>)
  then show ?thesis by (simp add: Some)
qed (use assms(1) in \<open>simp add: ends_with_def\<close>)

lemma ticks_end:
  assumes "pictures (fst (snd st)) p"
  shows "ends_with (\<lambda>st. pictures (fst (snd st)) ((pic_tick ^^ n) p)) (wait_ticks sys fd n st)"
  using assms
proof (induction n arbitrary: st p)
  case (Suc n)
  obtain g f s where st: "st = (g, f, s)" by (cases st) blast
  have "pictures f p" using Suc.prems by (simp add: st)
  then obtain h where h: "mp1_rtc_tasklet f = Some h" "pictures h (pic_tick p)" by (rule pictures_tick)
  show ?case
    unfolding st wait_ticks.simps prod.case
  proof (intro ends_upon, clarify)
    fix r g' s'
    show "ends_with (\<lambda>st. pictures (fst (snd st)) ((pic_tick ^^ Suc n) p))
      (case mp1_rtc_tasklet f of None \<Rightarrow> None | Some f \<Rightarrow> wait_ticks sys fd n (g', f, s'))"
      using Suc.IH[of "(g', h, s')" "pic_tick p"] h by (simp add: funpow_swap1)
  qed
qed simp

text \<open>
  What follows the frames: a hundred ticks, the added character, a hundred ticks, the timing of the
  character at 40 given to the one at 540, a hundred ticks, the character at 540 taken out, a hundred
  ticks.
\<close>

definition the_spot :: blink where
  "the_spot = \<lparr>location = 540, on_char = of_char CHR ''I'', off_char = of_char CHR ''M'', on_length = 7,
     off_length = 6, blink_countdown = 0, blink_status = 0, blink_next = None\<rparr>"

definition spot_shown :: "picture \<Rightarrow> picture" where
  "spot_shown p = (pic_tick ^^ 100) (pic_remove 540 ((pic_tick ^^ 100) (pic_sync 40 540
     ((pic_tick ^^ 100) (pic_add the_spot ((pic_tick ^^ 100) p))))))"

lemma pic_add_spot: "pic_add (spot_blink junk) p = pic_add the_spot p"
  by (simp add: pic_add_def spot_blink_def the_spot_def new_blink_def)

lemma spot_location [simp]: "location (spot_blink junk) = 540" "location the_spot = 540"
  by (simp_all add: spot_blink_def the_spot_def)

lemma sync_argument:
  "ucast (drop_bit 16 (push_bit 16 40 OR (6 * 80 + 60) :: u32)) = (40 :: u16)"
  "ucast (push_bit 16 40 OR (6 * 80 + 60) :: u32) = (540 :: u16)" "ucast (6 * 80 + 60 :: u32) = (540 :: u16)"
  by simp_all

lemma add_spot:
  assumes "pictures f p"
  shows "pictures (snd (mp1_ioctl_add (spot_blink junk) f)) (pic_add the_spot p)"
proof -
  obtain r f' where "mp1_ioctl_add (spot_blink junk) f = (r, f')" "pictures f' (pic_add (spot_blink junk) p)"
    using assms by (rule pictures_add[where b = "spot_blink junk"]) simp_all
  then show ?thesis by (simp add: pic_add_spot)
qed

lemma sync_spot:
  assumes "pictures f p"
  obtains r f' where "mp1_ioctl_sync (push_bit 16 40 OR (6 * 80 + 60)) f = Some (r, f')" "pictures f' (pic_sync 40 540 p)"
  using assms by (rule pictures_sync[where arg = "push_bit 16 40 OR (6 * 80 + 60)", unfolded sync_argument])

lemma remove_spot:
  assumes "pictures f p"
  obtains r f' where "mp1_ioctl_remove (6 * 80 + 60) f = Some (Done (r, f'))" "pictures f' (pic_remove 540 p)"
  using assms by (rule pictures_remove[where arg = "6 * 80 + 60", unfolded sync_argument])

lemma remove_ends:
  assumes "pictures f p"
  shows "ends_with (\<lambda>st. pictures (fst (snd st)) ((pic_tick ^^ n) (pic_remove 540 p)))
    (run_then (mp1_ioctl_remove (6 * 80 + 60) f) (\<lambda>(r, f). wait_ticks sys fd n (g, f, s)))"
proof -
  obtain r f' where "mp1_ioctl_remove (6 * 80 + 60) f = Some (Done (r, f'))" "pictures f' (pic_remove 540 p)"
    using assms by (rule remove_spot)
  then show ?thesis using ticks_end[of "(g, f', s)" "pic_remove 540 p" n] by simp
qed

lemma sync_ends:
  assumes "pictures f p"
  shows "ends_with (\<lambda>st. pictures (fst (snd st)) ((pic_tick ^^ m) (pic_remove 540 ((pic_tick ^^ n) (pic_sync 40 540 p)))))
    (case mp1_ioctl_sync (push_bit 16 40 OR (6 * 80 + 60)) f of None \<Rightarrow> None
     | Some (r, f) \<Rightarrow>
       run_then (wait_ticks sys fd n (g, f, s)) (\<lambda>(garbage, f, s).
       run_then (mp1_ioctl_remove (6 * 80 + 60) f) (\<lambda>(r, f).
         wait_ticks sys fd m (garbage, f, s))))"
proof -
  obtain r f' where f': "mp1_ioctl_sync (push_bit 16 40 OR (6 * 80 + 60)) f = Some (r, f')" "pictures f' (pic_sync 40 540 p)"
    using assms by (rule sync_spot)
  have "ends_with (\<lambda>st. pictures (fst (snd st)) ((pic_tick ^^ m) (pic_remove 540 ((pic_tick ^^ n) (pic_sync 40 540 p)))))
    (run_then (wait_ticks sys fd n (g, f', s)) (\<lambda>(garbage, f, s).
       run_then (mp1_ioctl_remove (6 * 80 + 60) f) (\<lambda>(r, f). wait_ticks sys fd m (garbage, f, s))))"
    by (rule ends_run_then[OF ticks_end[of "(g, f', s)", simplified, OF f'(2)]], clarify, rule remove_ends, simp only: fst_conv snd_conv)
  then show ?thesis by (simp only: f'(1) option.case prod.case)
qed

lemma show_spot_ends:
  assumes "pictures f p"
  shows "ends_with (\<lambda>st. pictures (fst (snd st)) (spot_shown p)) (show_spot sys fd junk (g, f, s))"
  unfolding show_spot_def spot_shown_def
proof (rule ends_run_then[OF ticks_end[of "(g, f, s)", simplified, OF assms]], clarify)
  fix g f s assume "pictures (fst (snd (g :: u8 list, f, s :: 'a))) ((pic_tick ^^ 100) p)"
  then have p1: "pictures (snd (mp1_ioctl_add (spot_blink junk) f)) (pic_add the_spot ((pic_tick ^^ 100) p))"
    (is "pictures ?f1 ?p1") by (intro add_spot) simp
  show "ends_with (\<lambda>st. pictures (fst (snd st)) ((pic_tick ^^ 100) (pic_remove 540 ((pic_tick ^^ 100) (pic_sync 40 540
     ((pic_tick ^^ 100) ?p1))))))
     (run_then (wait_ticks sys fd 100 (g, ?f1, s)) (\<lambda>(garbage, f, s).
       case mp1_ioctl_sync (push_bit 16 40 OR (6 * 80 + 60)) f of None \<Rightarrow> None
       | Some (r, f) \<Rightarrow>
         run_then (wait_ticks sys fd 100 (garbage, f, s)) (\<lambda>(garbage, f, s).
         run_then (mp1_ioctl_remove (6 * 80 + 60) f) (\<lambda>(r, f).
           wait_ticks sys fd 100 (garbage, f, s)))))"
    by (rule ends_run_then[OF ticks_end[of "(g, ?f1, s)", simplified, OF p1]], clarify, rule sync_ends, simp only: fst_conv snd_conv)
qed

section \<open>Reads that come back\<close>

text \<open>A descriptor on which reads come back as long as there are beats of the clock.\<close>

locale beats =
  fixes sys :: "'s sys" and ok :: "'s \<Rightarrow> bool" and fd :: int and pending :: "'s \<Rightarrow> 'e list" and beat :: 'e
  assumes beat_read: "ok s \<Longrightarrow> pending s = beat # es \<Longrightarrow> length g = 4 \<Longrightarrow>
      \<exists>s'. sread sys fd g 4 s = Done (0, g, s') \<and> ok s' \<and> pending s' = es"
begin

lemma ticks_come:
  assumes "pictures f p" "ok s" "pending s = replicate n beat @ es" "length g = 4"
  obtains f' s' where "wait_ticks sys fd n (g, f, s) = Some (Done (g, f', s'))" "pictures f' ((pic_tick ^^ n) p)"
    "ok s'" "pending s' = es"
  using assms
proof (induction n arbitrary: f p s thesis)
  case 0
  then show ?case by simp
next
  case (Suc n)
  obtain s1 where s1: "sread sys fd g 4 s = Done (0, g, s1)" "ok s1" "pending s1 = replicate n beat @ es"
    using beat_read[OF Suc.prems(3) _ Suc.prems(5)] Suc.prems(4) by auto
  obtain f1 where f1: "mp1_rtc_tasklet f = Some f1" "pictures f1 (pic_tick p)"
    using Suc.prems(2) by (rule pictures_tick)
  obtain f' s' where "wait_ticks sys fd n (g, f1, s1) = Some (Done (g, f', s'))" "pictures f' ((pic_tick ^^ n) (pic_tick p))"
    "ok s'" "pending s' = es"
    by (rule Suc.IH[OF _ f1(2) s1(2,3) Suc.prems(5)])
  then show ?case using Suc.prems(1)[of f' s'] s1(1) f1(1) by (simp add: funpow_swap1)
qed

lemma spot_comes:
  assumes "pictures f p" "ok s" "pending s = replicate 400 beat @ es" "length g = 4"
  obtains f' s' where "show_spot sys fd junk (g, f, s) = Some (Done (g, f', s'))" "pictures f' (spot_shown p)"
    "ok s'" "pending s' = es"
proof -
  have n: "replicate 400 beat @ es =
      replicate 100 beat @ replicate 100 beat @ replicate 100 beat @ replicate 100 beat @ es"
    by (simp only: append_assoc[symmetric] replicate_add[symmetric]) simp
  obtain f1 s1 where 1: "wait_ticks sys fd 100 (g, f, s) = Some (Done (g, f1, s1))" "pictures f1 ((pic_tick ^^ 100) p)"
    "ok s1" "pending s1 = replicate 100 beat @ replicate 100 beat @ replicate 100 beat @ es"
    by (rule ticks_come[OF assms(1,2) assms(3)[unfolded n] assms(4)])
  obtain f2 s2 where 2: "wait_ticks sys fd 100 (g, snd (mp1_ioctl_add (spot_blink junk) f1), s1) = Some (Done (g, f2, s2))"
    "pictures f2 ((pic_tick ^^ 100) (pic_add the_spot ((pic_tick ^^ 100) p)))" "ok s2"
    "pending s2 = replicate 100 beat @ replicate 100 beat @ es"
    by (rule ticks_come[OF add_spot[OF 1(2)] 1(3,4) assms(4)])
  obtain r f3 where 3: "mp1_ioctl_sync (push_bit 16 40 OR (6 * 80 + 60)) f2 = Some (r, f3)"
    "pictures f3 (pic_sync 40 540 ((pic_tick ^^ 100) (pic_add the_spot ((pic_tick ^^ 100) p))))"
    using 2(2) by (rule sync_spot)
  obtain f4 s4 where 4: "wait_ticks sys fd 100 (g, f3, s2) = Some (Done (g, f4, s4))"
    "pictures f4 ((pic_tick ^^ 100) (pic_sync 40 540 ((pic_tick ^^ 100) (pic_add the_spot ((pic_tick ^^ 100) p)))))"
    "ok s4" "pending s4 = replicate 100 beat @ es" by (rule ticks_come[OF 3(2) 2(3,4) assms(4)])
  obtain q f5 where 5: "mp1_ioctl_remove (6 * 80 + 60) f4 = Some (Done (q, f5))" "pictures f5 (pic_remove 540
    ((pic_tick ^^ 100) (pic_sync 40 540 ((pic_tick ^^ 100) (pic_add the_spot ((pic_tick ^^ 100) p))))))"
    using 4(2) by (rule remove_spot)
  obtain f6 s6 where 6: "wait_ticks sys fd 100 (g, f5, s4) = Some (Done (g, f6, s6))" "pictures f6 (spot_shown p)"
    "ok s6" "pending s6 = es" by (rule ticks_come[OF 5(2) 4(3,4) assms(4)]) (simp add: spot_shown_def)
  have "show_spot sys fd junk (g, f, s) = Some (Done (g, f6, s6))"
    by (simp only: show_spot_def 1(1) 2(1) 3(1) 4(1) 5(1) 6(1) run_then_simps upon_simps option.case prod.case)
  then show thesis using 6(2-4) by (rule that)
qed

end

end
