(* ===== verification/Fish_Frames.thy ===== *)
theory Fish_Frames
  imports Fish_Main
begin

text \<open>
  What \<open>add_frames\<close> makes of two files: the characters that the loops of the program add, line by
  line (\<open>rows_blinks\<close>), the reference \<open>frames_picture\<close>, position by position, with which they agree,
  and the interface \<open>two_files\<close> under which the loops read the files.
\<close>

section \<open>The reference\<close>

function text_lines :: "u8 list \<Rightarrow> u8 list list" where
  "text_lines t =
     takeWhile (\<lambda>c. c \<noteq> 10) t # (if 10 \<in> set t then text_lines (drop 1 (dropWhile (\<lambda>c. c \<noteq> 10) t)) else [])"
  by pat_completeness auto
termination
proof (relation "measure length")
  fix t :: "u8 list" assume t: "10 \<in> set t"
  then have "dropWhile (\<lambda>c. c \<noteq> 10) t \<noteq> []" "length (dropWhile (\<lambda>c. c \<noteq> 10) t) \<le> length t"
    by (auto simp: length_dropWhile_le)
  then show "(drop 1 (dropWhile (\<lambda>c. c \<noteq> 10) t), t) \<in> measure length" by (cases "dropWhile (\<lambda>c. c \<noteq> 10) t") auto
qed simp

declare text_lines.simps [simp del]

text \<open>The character of a line that has ended, or of a file that has, is a newline.\<close>

definition char_ahead :: "u8 list \<Rightarrow> u8" where
  "char_ahead l = (case l of [] \<Rightarrow> 10 | c # cs \<Rightarrow> c)"

function row_blinks :: "blink \<Rightarrow> nat \<Rightarrow> nat \<Rightarrow> u8 list \<Rightarrow> u8 list \<Rightarrow> blink list" where
  "row_blinks junk row col l0 l1 =
     (if l0 = [] \<and> l1 = [] then []
      else (if blank (char_ahead l0) \<and> blank (char_ahead l1) then []
            else [frame_blink junk row col (char_ahead l0) (char_ahead l1)]) @
           row_blinks junk row (col + 1) (tl l0) (tl l1))"
  by pat_completeness auto
termination
  by (relation "measure (\<lambda>(junk, row, col, l0, l1). length l0 + length l1)") (auto simp: neq_Nil_conv)

declare row_blinks.simps [simp del]

definition line_of :: "u8 list list \<Rightarrow> u8 list" where
  "line_of ls = (case ls of [] \<Rightarrow> [] | l # rest \<Rightarrow> l)"

function rows_blinks :: "blink \<Rightarrow> nat \<Rightarrow> u8 list list \<Rightarrow> u8 list list \<Rightarrow> blink list" where
  "rows_blinks junk row ls0 ls1 =
     (if ls0 = [] \<and> ls1 = [] then []
      else row_blinks junk row 0 (line_of ls0) (line_of ls1) @ rows_blinks junk (row + 1) (tl ls0) (tl ls1))"
  by pat_completeness auto
termination
  by (relation "measure (\<lambda>(junk, row, ls0, ls1). length ls0 + length ls1)") (auto simp: neq_Nil_conv)

declare rows_blinks.simps [simp del]

lemma text_lines_parts [simp]:
  "text_lines t \<noteq> []" "line_of (text_lines t) = takeWhile (\<lambda>c. c \<noteq> 10) t"
  "tl (text_lines t) = (if 10 \<in> set t then text_lines (drop 1 (dropWhile (\<lambda>c. c \<noteq> 10) t)) else [])"
  by (subst text_lines.simps, simp add: line_of_def)+

section \<open>The locations\<close>

lemma row_locations:
  "b \<in> set (row_blinks junk row col l0 l1) \<Longrightarrow>
    \<exists>k < max (length l0) (length l1). location b = of_nat (row * 80 + (col + k) + 40)"
proof (induction junk row col l0 l1 rule: row_blinks.induct)
  case (1 junk row col l0 l1)
  show ?case
  proof (cases "l0 = [] \<and> l1 = []")
    case True
    then show ?thesis using 1(2) by (simp add: row_blinks.simps)
  next
    case False
    then have pos: "0 < max (length l0) (length l1)" by (auto simp: less_max_iff_disj)
    show ?thesis
    proof (cases "b \<in> set (row_blinks junk row (col + 1) (tl l0) (tl l1))")
      case True
      then obtain k where "k < max (length (tl l0)) (length (tl l1))" "location b = of_nat (row * 80 + (col + 1 + k) + 40)"
        using 1(1)[OF False True] by blast
      then show ?thesis by (intro exI[of _ "Suc k"]) (auto simp: less_max_iff_disj)
    next
      case no: False
      then have "b = frame_blink junk row col (char_ahead l0) (char_ahead l1)"
        using 1(2) False by (subst (asm) row_blinks.simps) (auto split: if_splits)
      then show ?thesis using pos by (intro exI[of _ 0]) (simp add: frame_blink_def)
    qed
  qed
qed

lemma rows_locations:
  assumes "b \<in> set (rows_blinks junk row ls0 ls1)" "\<forall>l \<in> set ls0 \<union> set ls1. length l \<le> m"
  shows "\<exists>r k. r < max (length ls0) (length ls1) \<and> k < m \<and> location b = of_nat ((row + r) * 80 + k + 40)"
  using assms
proof (induction junk row ls0 ls1 rule: rows_blinks.induct)
  case (1 junk row ls0 ls1)
  have ne: "\<not> (ls0 = [] \<and> ls1 = [])" using 1(2) by (auto simp: rows_blinks.simps)
  then have pos: "0 < max (length ls0) (length ls1)" by (auto simp: less_max_iff_disj)
  have lo: "length (line_of ls0) \<le> m" "length (line_of ls1) \<le> m"
    using 1(3) by (auto simp: line_of_def split: list.split)
  show ?case
  proof (cases "b \<in> set (row_blinks junk row 0 (line_of ls0) (line_of ls1))")
    case True
    from row_locations[OF this] obtain k where "k < max (length (line_of ls0)) (length (line_of ls1))"
      "location b = of_nat (row * 80 + (0 + k) + 40)" by blast
    then show ?thesis using pos lo by (intro exI[of _ 0] exI[of _ k]) auto
  next
    case False
    then have t: "b \<in> set (rows_blinks junk (row + 1) (tl ls0) (tl ls1))"
      using 1(2) ne by (subst (asm) rows_blinks.simps) auto
    have "\<forall>l \<in> set (tl ls0) \<union> set (tl ls1). length l \<le> m" using 1(3) by (cases ls0; cases ls1; auto)
    then obtain r k where "r < max (length (tl ls0)) (length (tl ls1))" "k < m"
      "location b = of_nat ((row + 1 + r) * 80 + k + 40)" using 1(1)[OF ne t] by blast
    then show ?thesis by (intro exI[of _ "Suc r"] exI[of _ k]) (auto simp: less_max_iff_disj algebra_simps)
  qed
qed

lemma text_lines_bound: "length (text_lines t) \<le> length t + 1 \<and> (\<forall>l \<in> set (text_lines t). length l \<le> length t)"
proof (induction t rule: text_lines.induct)
  case (1 t)
  have w: "length (takeWhile (\<lambda>c. c \<noteq> 10) t) \<le> length t" by (rule length_takeWhile_le)
  show ?case
  proof (cases "10 \<in> set t")
    case True
    let ?r = "drop 1 (dropWhile (\<lambda>c. c \<noteq> 10) t)"
    have "dropWhile (\<lambda>c. c \<noteq> 10) t \<noteq> []" using True by auto
    moreover have "length (dropWhile (\<lambda>c. c \<noteq> 10) t) \<le> length t" by (rule length_dropWhile_le)
    ultimately have l: "length ?r + 1 \<le> length t" by (cases "dropWhile (\<lambda>c. c \<noteq> 10) t") auto
    then show ?thesis using 1[OF True] True w by (subst (1 2) text_lines.simps) fastforce
  qed (use w in \<open>simp add: text_lines.simps\<close>)
qed

text \<open>Files of at most 800 bytes make no location zero, neither as such nor by wrap-around.\<close>

lemma rows_nonzero:
  assumes "length t0 \<le> 800" "length t1 \<le> 800" "b \<in> set (rows_blinks junk 0 (text_lines t0) (text_lines t1))"
  shows "location b \<noteq> 0"
proof -
  have "\<forall>l \<in> set (text_lines t0) \<union> set (text_lines t1). length l \<le> 800"
    using text_lines_bound[of t0] text_lines_bound[of t1] assms(1,2) by fastforce
  from rows_locations[OF assms(3) this] obtain r k
    where r: "r < max (length (text_lines t0)) (length (text_lines t1))" "k < 800" "location b = of_nat (r * 80 + k + 40)"
    by auto
  then have "r \<le> 800" using text_lines_bound[of t0] text_lines_bound[of t1] assms(1,2) by linarith
  then have "r * 80 + k + 40 < 2 ^ 16" using r(2) by simp
  then have "unat (location b) = r * 80 + k + 40" unfolding r(3) by (simp only: unat_of_nat) (simp add: take_bit_nat_eq_self_iff flip: take_bit_eq_mod)
  then show ?thesis by auto
qed

section \<open>Position by position\<close>

text \<open>
  The reference: a text is a grid whose cells outside the lines are spaces, and the row \<open>r\<close> and the
  column \<open>c\<close> of it are 40 columns to the right on the screen.  Where one of the two texts has
  something else than a space, there is a character that shows the first text when it is on and the
  second when it is off, for 15 ticks each; the later ones come first.
\<close>

definition char_at :: "u8 list list \<Rightarrow> nat \<Rightarrow> nat \<Rightarrow> u8" where
  "char_at ls r c = (if r < length ls \<and> c < length (ls ! r) then ls ! r ! c else 32)"

definition frame_cell :: "u8 list list \<Rightarrow> u8 list list \<Rightarrow> nat \<Rightarrow> nat \<Rightarrow> blink list" where
  "frame_cell ls0 ls1 r c =
     (if 80 * r + 40 + c < 2000 \<and> (char_at ls0 r c \<noteq> 32 \<or> char_at ls1 r c \<noteq> 32)
      then [\<lparr>location = of_nat (80 * r + 40 + c), on_char = char_at ls0 r c, off_char = char_at ls1 r c,
        on_length = 15, off_length = 15, blink_countdown = 15, blink_status = 1, blink_next = None\<rparr>] else [])"

definition frame_cells :: "u8 list list \<Rightarrow> u8 list list \<Rightarrow> blink list" where
  "frame_cells ls0 ls1 = concat (map (\<lambda>r. concat (map (frame_cell ls0 ls1 r) [0..<1960])) [0..<25])"

definition draw :: "blink \<Rightarrow> (nat \<Rightarrow> u8) \<Rightarrow> nat \<Rightarrow> u8" where
  "draw b v = v(2 * unat (location b) := on_char b)"

definition frames_picture :: "u8 list \<Rightarrow> u8 list \<Rightarrow> (nat \<Rightarrow> u8) \<Rightarrow> picture" where
  "frames_picture t0 t1 v =
     (let cells = frame_cells (text_lines t0) (text_lines t1) in (rev cells, fold draw cells v))"

text \<open>The loops go through the same positions.\<close>

definition nth_char :: "u8 list \<Rightarrow> nat \<Rightarrow> u8" where
  "nth_char l k = (if k < length l then l ! k else 10)"

definition nth_line :: "u8 list list \<Rightarrow> nat \<Rightarrow> u8 list" where
  "nth_line ls r = (if r < length ls then ls ! r else [])"

definition one_blink :: "blink \<Rightarrow> nat \<Rightarrow> nat \<Rightarrow> u8 \<Rightarrow> u8 \<Rightarrow> blink list" where
  "one_blink junk r c x y = (if blank x \<and> blank y then [] else [frame_blink junk r c x y])"

lemma nth_ahead [simp]:
  "nth_char l 0 = char_ahead l" "nth_char l (Suc k) = nth_char (tl l) k"
  "nth_line ls 0 = line_of ls" "nth_line ls (Suc r) = nth_line (tl ls) r"
  by (cases l; cases ls; simp add: nth_char_def nth_line_def char_ahead_def line_of_def)+

lemma upt_first: "[0..<Suc n] = 0 # map Suc [0..<n]"
  by (simp add: upt_conv_Cons map_Suc_upt del: upt_Suc)

lemma row_positions:
  "max (length l0) (length l1) \<le> n \<Longrightarrow> row_blinks junk row col l0 l1 =
    concat (map (\<lambda>k. one_blink junk row (col + k) (nth_char l0 k) (nth_char l1 k)) [0..<n])"
proof (induction n arbitrary: col l0 l1)
  case 0
  then show ?case by (simp add: row_blinks.simps)
next
  case (Suc n)
  show ?case
  proof (cases "l0 = [] \<and> l1 = []")
    case True
    then show ?thesis by (simp add: row_blinks.simps one_blink_def nth_char_def blank_def del: upt_Suc)
  next
    case False
    have "max (length (tl l0)) (length (tl l1)) \<le> n" using Suc.prems by auto
    from Suc.IH[OF this, of "col + 1"] show ?thesis
      unfolding upt_first
      by (subst row_blinks.simps) (simp only: False if_False, simp add: comp_def one_blink_def[of junk row col])
  qed
qed

lemma rows_positions:
  "max (length ls0) (length ls1) \<le> n \<Longrightarrow> rows_blinks junk row ls0 ls1 =
    concat (map (\<lambda>r. row_blinks junk (row + r) 0 (nth_line ls0 r) (nth_line ls1 r)) [0..<n])"
proof (induction n arbitrary: row ls0 ls1)
  case 0
  then show ?case by (simp add: rows_blinks.simps)
next
  case (Suc n)
  show ?case
  proof (cases "ls0 = [] \<and> ls1 = []")
    case True
    then show ?thesis by (simp add: rows_blinks.simps row_blinks.simps nth_line_def del: upt_Suc)
  next
    case False
    have "max (length (tl ls0)) (length (tl ls1)) \<le> n" using Suc.prems by auto
    from Suc.IH[OF this, of "row + 1"] show ?thesis
      unfolding upt_first by (subst rows_blinks.simps) (simp only: False if_False, simp add: comp_def)
  qed
qed

text \<open>What the list takes of them: what is on the screen.\<close>

abbreviation (input) "taken bs \<equiv> map new_blink (filter (\<lambda>b. location b < 2000) bs)"

lemma taken_concat: "taken (concat xss) = concat (map (\<lambda>xs. taken xs) xss)"
  by (simp add: filter_concat map_concat comp_def)

lemma small_location:
  assumes "n < 2 ^ 16"
  shows "unat (of_nat n :: u16) = n" "(of_nat n :: u16) < 2000 \<longleftrightarrow> n < 2000"
proof -
  show u: "unat (of_nat n :: u16) = n"
    using assms by (simp only: unat_of_nat) (simp add: take_bit_nat_eq_self_iff flip: take_bit_eq_mod)
  show "(of_nat n :: u16) < 2000 \<longleftrightarrow> n < 2000" by (simp only: word_less_nat_alt u) simp
qed

lemma char_at_line:
  assumes "\<forall>l \<in> set ls. 10 \<notin> set l"
  shows "char_at ls r c = (if nth_char (nth_line ls r) c = 10 then 32 else nth_char (nth_line ls r) c)"
  using assms by (auto simp: char_at_def nth_char_def nth_line_def) (metis nth_mem)

lemma cell_taken:
  assumes n: "\<forall>l \<in> set ls0 \<union> set ls1. 10 \<notin> set l \<and> length l \<le> 800" and r: "r \<le> 800"
  shows "taken (one_blink junk r c (nth_char (nth_line ls0 r) c) (nth_char (nth_line ls1 r) c)) = frame_cell ls0 ls1 r c"
proof (cases "c < 800")
  case True
  define m where "m = 80 * r + 40 + c"
  have "m < 2 ^ 16" using True r by (simp add: m_def)
  note w = small_location(2)[OF this]
  have loc: "r * 80 + c + 40 = m" by (simp add: m_def)
  have "\<forall>l \<in> set ls0. 10 \<notin> set l" "\<forall>l \<in> set ls1. 10 \<notin> set l" using n by auto
  note c = this[THEN char_at_line]
  show ?thesis
    unfolding frame_cell_def c one_blink_def frame_blink_def blank_def loc m_def[symmetric]
    by (simp add: new_blink_def w)
next
  case False
  have l: "length (nth_line ls0 r) \<le> 800" "length (nth_line ls1 r) \<le> 800"
    using n by (auto simp: nth_line_def)
  then have "nth_char (nth_line ls0 r) c = 10" "nth_char (nth_line ls1 r) c = 10"
    using False by (simp_all add: nth_char_def)
  moreover have "char_at ls0 r c = 32" "char_at ls1 r c = 32"
    using l False by (auto simp: char_at_def nth_line_def)
  ultimately show ?thesis by (simp add: one_blink_def blank_def frame_cell_def)
qed

lemma concat_tail:
  assumes "m \<le> n" "\<And>i. m \<le> i \<Longrightarrow> f i = []"
  shows "concat (map f [0..<n]) = concat (map f [0..<m])"
proof -
  have "[0..<n] = [0..<m] @ [m..<n]" using upt_add_eq_append[of 0 m "n - m"] assms(1) by simp
  moreover have "concat (map f [m..<n]) = []" using assms(2) by simp
  ultimately show ?thesis by simp
qed

lemma rows_taken:
  assumes n: "\<forall>l \<in> set ls0 \<union> set ls1. 10 \<notin> set l \<and> length l \<le> 800" and l: "length ls0 \<le> 801" "length ls1 \<le> 801"
  shows "taken (rows_blinks junk 0 ls0 ls1) = frame_cells ls0 ls1"
proof -
  have row: "taken (row_blinks junk r 0 (nth_line ls0 r) (nth_line ls1 r)) = concat (map (frame_cell ls0 ls1 r) [0..<1960])"
    if "r \<le> 800" for r
  proof -
    have "length (nth_line ls0 r) \<le> 800" "length (nth_line ls1 r) \<le> 800" using n by (auto simp: nth_line_def)
    then have "max (length (nth_line ls0 r)) (length (nth_line ls1 r)) \<le> 1960" by simp
    from row_positions[OF this, of junk r 0] show ?thesis
      by (simp only: taken_concat map_map comp_def add_0 cell_taken[OF n that])
  qed
  have "taken (rows_blinks junk 0 ls0 ls1) =
      concat (map (\<lambda>r. taken (row_blinks junk r 0 (nth_line ls0 r) (nth_line ls1 r))) [0..<801])"
    using rows_positions[of ls0 ls1 801 junk 0] l by (simp only: taken_concat map_map comp_def add_0 max.bounded_iff simp_thms)
  also have "\<dots> = concat (map (\<lambda>r. concat (map (frame_cell ls0 ls1 r) [0..<1960])) [0..<801])"
    by (intro arg_cong[where f = concat] map_cong refl row) simp
  also have "\<dots> = frame_cells ls0 ls1"
    unfolding frame_cells_def by (rule concat_tail) (simp_all add: frame_cell_def)
  finally show ?thesis .
qed

section \<open>What the list shows then\<close>

abbreviation (input) "add_to b f \<equiv> snd (mp1_ioctl_add b f)"

lemma adds_refine:
  assumes "\<forall>b \<in> set new. location b \<noteq> 0" "pictures f p"
  shows "pictures (fold add_to new f) (fold pic_add new p)"
  using assms
proof (induction new arbitrary: f p)
  case (Cons b new)
  obtain r f' where "mp1_ioctl_add b f = (r, f')" "pictures f' (pic_add b p)"
    using Cons.prems by (auto elim: pictures_add)
  then show ?case using Cons by simp
qed simp

lemma start_shows: "shows_blinks (start_fish v) []"
  by (auto simp: shows_blinks_def linked_blinks_def start_fish_def zero_blink_def)

lemma start_picture: "pictures (start_fish v) ([], v)"
  by (simp add: pictures_def start_shows) (simp add: start_fish_def)

lemma draw_new [simp]: "draw (new_blink b) = draw b"
  by (simp add: draw_def new_blink_def fun_eq_iff)

lemma adds_taken:
  "length (taken new) + length bs \<le> BLINKS \<Longrightarrow>
    fold pic_add new (bs, v) = (rev (taken new) @ bs, fold draw (taken new) v)"
proof (induction new arbitrary: bs v)
  case (Cons b new)
  then show ?case
    by (cases "location b < 2000") (simp_all add: pic_add_def draw_def[of b, symmetric])
qed simp

lemma row_count: "length (row_blinks junk row col l0 l1) \<le> length l0 + length l1"
proof (induction junk row col l0 l1 rule: row_blinks.induct)
  case (1 junk row col l0 l1)
  show ?case
  proof (cases "l0 = [] \<and> l1 = []")
    case False
    then have "length (tl l0) + length (tl l1) + 1 \<le> length l0 + length l1" by (cases l0; cases l1; simp)
    then show ?thesis using 1[OF False] by (subst row_blinks.simps) auto
  qed (simp add: row_blinks.simps)
qed

lemma rows_count: "length (rows_blinks junk row ls0 ls1) \<le> sum_list (map length ls0) + sum_list (map length ls1)"
proof (induction junk row ls0 ls1 rule: rows_blinks.induct)
  case (1 junk row ls0 ls1)
  show ?case
  proof (cases "ls0 = [] \<and> ls1 = []")
    case False
    have "sum_list (map length ls) = length (line_of ls) + sum_list (map length (tl ls))" for ls :: "u8 list list"
      by (cases ls) (simp_all add: line_of_def)
    note n = this[of ls0] this[of ls1]
    have "length (rows_blinks junk row ls0 ls1) =
        length (row_blinks junk row 0 (line_of ls0) (line_of ls1)) + length (rows_blinks junk (row + 1) (tl ls0) (tl ls1))"
      using False by (subst rows_blinks.simps) auto
    then show ?thesis
      using 1[OF False] row_count[of junk row 0 "line_of ls0" "line_of ls1"] n by linarith
  qed (simp add: rows_blinks.simps)
qed

lemma text_lines_facts:
  "sum_list (map length (text_lines t)) \<le> length t" "\<forall>l \<in> set (text_lines t). 10 \<notin> set l"
proof (induction t rule: text_lines.induct)
  case (1 t)
  {
    case 1
    let ?d = "dropWhile (\<lambda>c. c \<noteq> 10) t"
    have "length (takeWhile (\<lambda>c. c \<noteq> 10) t) + length ?d = length t"
      by (metis length_append takeWhile_dropWhile_id)
    then show ?case using "1.IH"(1) by (subst text_lines.simps) auto
  next
    case 2
    have "10 \<notin> set (takeWhile (\<lambda>c. c \<noteq> 10) t)" by (auto dest: set_takeWhileD)
    then show ?case using "1.IH"(2) by (subst text_lines.simps) auto
  }
qed

text \<open>Two files of at most 800 bytes fit.\<close>

lemma frames_drawn:
  assumes "length t0 \<le> 800" "length t1 \<le> 800"
  shows "pictures (fold add_to (rows_blinks junk 0 (text_lines t0) (text_lines t1)) (start_fish v)) (frames_picture t0 t1 v)"
proof -
  let ?new = "rows_blinks junk 0 (text_lines t0) (text_lines t1)"
  note b = text_lines_bound[of t0] text_lines_bound[of t1] text_lines_facts[of t0] text_lines_facts[of t1]
  have "\<forall>l \<in> set (text_lines t0) \<union> set (text_lines t1). 10 \<notin> set l \<and> length l \<le> 800"
    using b assms by (auto intro: order_trans)
  then have t: "taken ?new = frame_cells (text_lines t0) (text_lines t1)" by (rule rows_taken) (use b assms in linarith)+
  have "length (taken ?new) \<le> length ?new" by simp
  also have "\<dots> \<le> 1600" using rows_count[of junk 0 "text_lines t0" "text_lines t1"] b assms by linarith
  finally have "fold pic_add ?new ([], v) = frames_picture t0 t1 v"
    using adds_taken[of ?new "[]" v] unfolding t by (simp add: frames_picture_def Let_def)
  moreover have "pictures (fold add_to ?new (start_fish v)) (fold pic_add ?new ([], v))"
    by (rule adds_refine[OF _ start_picture]) (use rows_nonzero[OF assms] in blast)
  ultimately show ?thesis by simp
qed

section \<open>Reading the files\<close>

text \<open>
  Two descriptors with what is left of their files, \<open>None\<close> when closed: a read of one byte gives the
  next one and leaves the other file alone, and a close never fails to come back.
\<close>

locale two_files =
  fixes sys :: "'s sys" and ok :: "'s \<Rightarrow> bool" and fd :: "bool \<Rightarrow> int" and left :: "'s \<Rightarrow> bool \<Rightarrow> u8 list option"
  assumes read_byte: "ok s \<Longrightarrow> left s b = Some t \<Longrightarrow> \<exists>buf s'. sread sys (fd b) [c] 1 s = Done (if t = [] then 0 else 1, buf, s') \<and>
      (t \<noteq> [] \<longrightarrow> buf = [hd t]) \<and> ok s' \<and> left s' = (left s)(b := Some (tl t))"
    and close_file: "ok s \<Longrightarrow> \<exists>r s'. sclose sys (fd b) s = Done (r, s') \<and> ok s' \<and> left s' = (left s)(b := None)"
begin

text \<open>The cursor in a file within a row: the character read last and whether the file has ended.\<close>

definition good :: "u8 \<times> bool \<Rightarrow> u8 list option \<Rightarrow> bool" where
  "good x u \<longleftrightarrow> (fst x \<noteq> 10 \<longrightarrow> \<not> snd x \<and> u \<noteq> None)"

definition ahead :: "u8 \<times> bool \<Rightarrow> u8 list option \<Rightarrow> u8 list" where
  "ahead x u = (if fst x \<noteq> 10 then takeWhile (\<lambda>c. c \<noteq> 10) (the u) else [])"

definition after_line :: "u8 \<times> bool \<Rightarrow> u8 list option \<Rightarrow> u8 list option" where
  "after_line x u = (if fst x \<noteq> 10 then Some (drop 1 (dropWhile (\<lambda>c. c \<noteq> 10) (the u))) else u)"

definition ends :: "u8 \<times> bool \<Rightarrow> u8 list option \<Rightarrow> bool" where
  "ends x u \<longleftrightarrow> (if fst x \<noteq> 10 then 10 \<notin> set (the u) else snd x)"

lemma next_char_reads:
  assumes "ok s" "good x (left s b)"
  shows "\<exists>x' u s'. next_char sys (fd b) x s = Done (x', s') \<and> ok s' \<and> left s' = (left s)(b := u) \<and> good x' u \<and>
    fst x' = char_ahead (ahead x (left s b)) \<and> ahead x' u = tl (ahead x (left s b)) \<and>
    after_line x' u = after_line x (left s b) \<and> ends x' u = ends x (left s b)"
proof (cases "fst x = 10")
  case True
  then show ?thesis
    using assms by (intro exI[of _ x] exI[of _ "left s b"] exI[of _ s]) (simp add: next_char_def good_def ahead_def char_ahead_def)
next
  case False
  then obtain t where t: "left s b = Some t" "\<not> snd x" using assms(2) by (auto simp: good_def)
  from read_byte[OF assms(1) t(1), of "fst x"] obtain buf s' where
    r: "sread sys (fd b) [fst x] 1 s = Done (if t = [] then 0 else 1, buf, s')" "t \<noteq> [] \<longrightarrow> buf = [hd t]"
      "ok s'" "left s' = (left s)(b := Some (tl t))" by blast
  show ?thesis
  proof (cases t)
    case Nil
    then show ?thesis
      using r False t(1)
      by (intro exI[of _ "(10, True)"] exI[of _ "Some []"] exI[of _ s'])
        (simp add: next_char_def good_def ahead_def char_ahead_def after_line_def ends_def)
  next
    case (Cons c cs)
    then show ?thesis
      using r False t
      by (intro exI[of _ "(c, False)"] exI[of _ "Some cs"] exI[of _ s'])
        (simp add: next_char_def good_def ahead_def char_ahead_def after_line_def ends_def)
  qed
qed

lemma ahead_newline: "10 \<notin> set (ahead x u)"
  by (auto simp: ahead_def dest: set_takeWhileD)

lemma char_ahead_newline: "10 \<notin> set l \<Longrightarrow> char_ahead l = 10 \<longleftrightarrow> l = []"
  by (auto simp: char_ahead_def split: list.split)

lemma frame_row_reads:
  assumes "ok s" "good x0 (left s False)" "good x1 (left s True)"
    and "l0 = ahead x0 (left s False)" "l1 = ahead x1 (left s True)"
  shows "\<exists>s'. frame_row sys (fd False) (fd True) junk row col x0 x1 f s =
      Some (Done (ends x0 (left s False), ends x1 (left s True), fold add_to (row_blinks junk row col l0 l1) f, s')) \<and>
    ok s' \<and> left s' False = after_line x0 (left s False) \<and> left s' True = after_line x1 (left s True)"
  using assms
proof (induction junk row col l0 l1 arbitrary: x0 x1 f s rule: row_blinks.induct)
  case (1 junk row col l0 l1)
  from next_char_reads[OF 1(2,3)] obtain y0 u0 s1 where y0: "next_char sys (fd False) x0 s = Done (y0, s1)" "ok s1"
    "left s1 = (left s)(False := u0)" "good y0 u0" "fst y0 = char_ahead l0" "ahead y0 u0 = tl l0"
    "after_line y0 u0 = after_line x0 (left s False)" "ends y0 u0 = ends x0 (left s False)"
    unfolding 1(5) by blast
  have f1: "left s1 True = left s True" "left s1 False = u0" by (simp_all add: y0(3))
  from next_char_reads[OF y0(2), of x1 True, unfolded f1, OF 1(4)] obtain y1 u1 s2
    where y1: "next_char sys (fd True) x1 s1 = Done (y1, s2)" "ok s2"
    "left s2 = (left s1)(True := u1)" "good y1 u1" "fst y1 = char_ahead l1" "ahead y1 u1 = tl l1"
    "after_line y1 u1 = after_line x1 (left s True)" "ends y1 u1 = ends x1 (left s True)"
    unfolding 1(6) by blast
  have f2: "left s2 True = u1" "left s2 False = u0" by (simp_all add: y1(3) f1)
  have stop: "fst y0 = 10 \<and> fst y1 = 10 \<longleftrightarrow> l0 = [] \<and> l1 = []"
    using char_ahead_newline ahead_newline 1(5,6) y0(5) y1(5) by metis
  show ?case
  proof (cases "l0 = [] \<and> l1 = []")
    case True
    then have e: "fst y0 = 10" "fst y1 = 10" using stop by simp_all
    then have "u0 = after_line x0 (left s False)" "snd y0 = ends x0 (left s False)"
      "u1 = after_line x1 (left s True)" "snd y1 = ends x1 (left s True)"
      using y0(7,8) y1(7,8) by (simp_all add: after_line_def ends_def)
    then show ?thesis
      using True e y1(2) f2 by (subst frame_row.simps) (simp add: y0(1) y1(1) row_blinks.simps)
  next
    case False
    let ?f = "if blank (fst y0) \<and> blank (fst y1) then f else add_to (frame_blink junk row col (fst y0) (fst y1)) f"
    have go: "\<not> (fst y0 = 10 \<and> fst y1 = 10)" using False stop by blast
    have "frame_row sys (fd False) (fd True) junk row col x0 x1 f s =
        frame_row sys (fd False) (fd True) junk row (col + 1) y0 y1 ?f s2"
      by (subst frame_row.simps) (simp only: y0(1) y1(1) go upon_simps prod.case if_False)
    moreover have "fold add_to (row_blinks junk row col l0 l1) f = fold add_to (row_blinks junk row (col + 1) (tl l0) (tl l1)) ?f"
      using False by (subst row_blinks.simps) (auto simp: y0(5) y1(5))
    moreover have "good y0 (left s2 False)" "good y1 (left s2 True)"
      "tl l0 = ahead y0 (left s2 False)" "tl l1 = ahead y1 (left s2 True)" by (simp_all add: f2 y0(4,6) y1(4,6))
    from 1(1)[OF False y1(2) this, of ?f] obtain s3 where
      "frame_row sys (fd False) (fd True) junk row (col + 1) y0 y1 ?f s2 =
        Some (Done (ends y0 u0, ends y1 u1, fold add_to (row_blinks junk row (col + 1) (tl l0) (tl l1)) ?f, s3))"
      "ok s3" "left s3 False = after_line y0 u0" "left s3 True = after_line y1 u1"
      unfolding f2 by blast
    ultimately show ?thesis by (simp add: y0(7,8) y1(7,8))
  qed
qed

text \<open>The rows: a cursor is fresh at the start of a line, or its file is done.\<close>

definition at_line :: "u8 \<times> bool \<Rightarrow> u8 list option \<Rightarrow> u8 list list \<Rightarrow> bool" where
  "at_line x u ls \<longleftrightarrow> (if snd x then fst x = 10 \<and> ls = [] else fst x \<noteq> 10 \<and> (\<exists>t. u = Some t \<and> ls = text_lines t))"

lemma at_line_ahead:
  assumes "at_line x u ls"
  shows "good x u" "ahead x u = line_of ls" "ends x u \<longleftrightarrow> tl ls = []"
    "\<not> ends x u \<Longrightarrow> \<exists>t. after_line x u = Some t \<and> tl ls = text_lines t"
proof -
  have "good x u \<and> ahead x u = line_of ls \<and> (ends x u \<longleftrightarrow> tl ls = []) \<and>
    (\<not> ends x u \<longrightarrow> (\<exists>t. after_line x u = Some t \<and> tl ls = text_lines t))"
  proof (cases "snd x")
    case True
    then show ?thesis using assms by (simp add: at_line_def good_def ahead_def ends_def line_of_def)
  next
    case False
    then obtain t where "u = Some t" "ls = text_lines t" "fst x \<noteq> 10" using assms by (auto simp: at_line_def)
    then show ?thesis using False by (auto simp: good_def ahead_def ends_def after_line_def)
  qed
  then show "good x u" "ahead x u = line_of ls" "ends x u \<longleftrightarrow> tl ls = []"
    "\<not> ends x u \<Longrightarrow> \<exists>t. after_line x u = Some t \<and> tl ls = text_lines t" by simp_all
qed

lemma end_row_reads:
  assumes "ok s" "\<not> e \<Longrightarrow> \<exists>t. left s b = Some t \<and> ls = text_lines t" "e \<longleftrightarrow> ls = []"
  shows "\<exists>x s'. end_row sys (fd b) e s = Done (x, s') \<and> ok s' \<and> at_line x (left s' b) ls \<and>
    left s' (\<not> b) = left s (\<not> b) \<and> (snd x \<longleftrightarrow> e)"
proof (cases e)
  case True
  from close_file[OF assms(1), of b] obtain r s' where "sclose sys (fd b) s = Done (r, s')" "ok s'" "left s' = (left s)(b := None)"
    by blast
  then show ?thesis using True assms(3) by (auto simp: end_row_def at_line_def)
qed (use assms in \<open>auto simp: end_row_def at_line_def\<close>)

lemma frame_rows_reads:
  assumes "ok s" "at_line x0 (left s False) ls0" "at_line x1 (left s True) ls1"
  shows "\<exists>s'. frame_rows sys (fd False) (fd True) junk row x0 x1 f s =
    Some (Done (fold add_to (rows_blinks junk row ls0 ls1) f, s')) \<and> ok s'"
  using assms
proof (induction junk row ls0 ls1 arbitrary: x0 x1 f s rule: rows_blinks.induct)
  case (1 junk row ls0 ls1)
  note a0 = at_line_ahead[OF 1(3)] and a1 = at_line_ahead[OF 1(4)]
  have stop: "snd x0 \<and> snd x1 \<longleftrightarrow> ls0 = [] \<and> ls1 = []"
    using 1(3,4) by (auto simp: at_line_def split: if_splits)
  show ?case
  proof (cases "ls0 = [] \<and> ls1 = []")
    case True
    then show ?thesis using stop 1(2) by (subst frame_rows.simps) (simp add: rows_blinks.simps)
  next
    case False
    let ?f = "fold add_to (row_blinks junk row 0 (line_of ls0) (line_of ls1)) f"
    obtain s1 where s1: "frame_row sys (fd False) (fd True) junk row 0 x0 x1 f s =
        Some (Done (ends x0 (left s False), ends x1 (left s True), ?f, s1))"
      "ok s1" "left s1 False = after_line x0 (left s False)" "left s1 True = after_line x1 (left s True)"
      using frame_row_reads[OF 1(2) a0(1) a1(1) a0(2)[symmetric] a1(2)[symmetric]] by blast
    obtain y0 s2 where y0: "end_row sys (fd False) (ends x0 (left s False)) s1 = Done (y0, s2)" "ok s2"
      "at_line y0 (left s2 False) (tl ls0)" "left s2 True = left s1 True"
      using end_row_reads[OF s1(2), of "ends x0 (left s False)" False "tl ls0"] a0(3,4) s1(3) by auto
    obtain y1 s3 where y1: "end_row sys (fd True) (ends x1 (left s True)) s2 = Done (y1, s3)" "ok s3"
      "at_line y1 (left s3 True) (tl ls1)" "left s3 False = left s2 False"
      using end_row_reads[OF y0(2), of "ends x1 (left s True)" True "tl ls1"] a1(3,4) s1(4) y0(4) by auto
    have "frame_rows sys (fd False) (fd True) junk row x0 x1 f s =
        frame_rows sys (fd False) (fd True) junk (row + 1) y0 y1 ?f s3"
      by (subst frame_rows.simps) (simp only: stop False s1(1) y0(1) y1(1) run_then_simps upon_simps prod.case if_False)
    moreover from 1(1)[OF False y1(2), of y0 y1 ?f] y0(3) y1(3,4) obtain s4 where
      "frame_rows sys (fd False) (fd True) junk (row + 1) y0 y1 ?f s3 =
        Some (Done (fold add_to (rows_blinks junk (row + 1) (tl ls0) (tl ls1)) ?f, s4))" "ok s4"
      by auto
    moreover have "rows_blinks junk row ls0 ls1 =
        row_blinks junk row 0 (line_of ls0) (line_of ls1) @ rows_blinks junk (row + 1) (tl ls0) (tl ls1)"
      using False by (subst rows_blinks.simps) auto
    ultimately show ?thesis by simp
  qed
qed

end

end
