(* ===== verification/Fish_Kernel.thy ===== *)
theory Fish_Kernel
  imports User_Runs User_Tests User_Clock Fish_Frames
begin

text \<open>
  The animation on the kernel: the interpretation of \<open>two_files\<close> on two descriptors of a process,
  \<open>add_frames\<close> on the files of the kernel, and the interpretation of \<open>beats\<close> on the clock.
\<close>

section \<open>Two open files\<close>

definition two_open :: "user_side \<Rightarrow> nat \<Rightarrow> (bool \<Rightarrow> nat) \<Rightarrow> (bool \<Rightarrow> u32) \<Rightarrow> kernel \<Rightarrow> bool" where
  "two_open u t k inode s \<longleftrightarrow> serves u t s \<and> k False \<noteq> k True \<and> (\<forall>b. 2 \<le> k b \<and> k b < 8 \<and>
     (flags (cur_fd (int (k b)) s) \<noteq> NOT_ENGAGED \<longrightarrow> reads_file (int (k b)) (inode b) 1 s))"

definition bytes_left :: "(bool \<Rightarrow> nat) \<Rightarrow> kernel \<Rightarrow> bool \<Rightarrow> u8 list option" where
  "bytes_left k s b =
     (if flags (cur_fd (int (k b)) s) = NOT_ENGAGED then None else Some (concat (chunks_left (int (k b)) 1 s)))"

lemma two_open_step:
  assumes "two_open u t k inode s" "serves u t s'" "others_kept (k b) s s'"
    and "flags (cur_fd (int (k b)) s') \<noteq> NOT_ENGAGED \<Longrightarrow> reads_file (int (k b)) (inode b) 1 s'"
  shows "two_open u t k inode s'" "bytes_left k s' = (bytes_left k s)(b := bytes_left k s' b)"
proof -
  have d: "k (\<not> b) \<noteq> k b" using assms(1) by (cases b) (auto simp: two_open_def)
  note o = others_keptD(4,5)[OF assms(3) d]
  have c: "cur_fd (int (k (\<not> b))) s' = cur_fd (int (k (\<not> b))) s" using assms(3) d by (simp add: others_kept_def)
  have r: "2 \<le> k x" "k x < 8" "flags (cur_fd (int (k x)) s) \<noteq> NOT_ENGAGED \<longrightarrow> reads_file (int (k x)) (inode x) 1 s" for x
    using assms(1) by (auto simp: two_open_def)
  have "flags (cur_fd (int (k x)) s') \<noteq> NOT_ENGAGED \<longrightarrow> reads_file (int (k x)) (inode x) 1 s'" for x
    using assms(4) r(3)[of "\<not> b"] c o(1) by (cases "x = b") auto
  then show "two_open u t k inode s'" using assms(1,2) r(1,2) by (auto simp: two_open_def)
  show "bytes_left k s' = (bytes_left k s)(b := bytes_left k s' b)"
  proof
    fix x show "bytes_left k s' x = ((bytes_left k s)(b := bytes_left k s' b)) x"
      using c o(2) by (cases "x = b") (auto simp: bytes_left_def)
  qed
qed

lemma two_read:
  assumes s: "two_open u t k inode s" and l: "bytes_left k s b = Some r"
  shows "\<exists>buf s'. kernel_read u evs (int (k b)) [c] 1 s = Done (if r = [] then 0 else 1, buf, s') \<and>
    (r \<noteq> [] \<longrightarrow> buf = [hd r]) \<and> two_open u t k inode s' \<and> bytes_left k s' = (bytes_left k s)(b := Some (tl r))"
proof -
  let ?i = "k b"
  have en: "flags (cur_fd (int ?i) s) \<noteq> NOT_ENGAGED" "r = concat (chunks_left (int ?i) 1 s)"
    using l by (auto simp: bytes_left_def split: if_splits)
  then have rf: "reads_file (int ?i) (inode b) 1 s" and sv: "serves u t s" using s by (auto simp: two_open_def)
  have still: "bytes_left k z b = Some (concat (chunks_left (int ?i) 1 z))" if "reads_file (int ?i) (inode b) 1 z" for z
    using that by (auto simp: bytes_left_def reads_file_def)
  show ?thesis
  proof (cases "chunks_left (int ?i) 1 s")
    case Nil
    then have r: "r = []" using en(2) by simp
    have "inode_num (cur_fd (int ?i) s) = inode b" using rf by (simp add: reads_file_def)
    then have e: "unat (inode_length (fs s) (inode b)) \<le> unat (file_position (cur_fd (int ?i) s))"
      using Nil chunks_from.simps[of s "inode b" 1] by (auto simp: chunks_left_def split: if_splits)
    obtain z where z: "kernel_read u evs (int ?i) [c] (int 1) s = Done (0, [c], z)" "serves u t z"
      "reads_file (int ?i) (inode b) 1 z" "others_kept ?i s z" "cur_fd (int ?i) z = cur_fd (int ?i) s"
      using file_read_end[OF sv rf e, of 1 "[c]" evs] by auto
    have "chunks_left (int ?i) 1 z = chunks_left (int ?i) 1 s"
      using z(4,5) chunks_from_cong[of z s] others_keptD(1)[OF z(4)] by (simp add: chunks_left_def others_kept_def)
    then have "bytes_left k z b = Some (tl r)" using still[OF z(3)] Nil r by simp
    then show ?thesis using two_open_step[OF s z(2,4)] z(1,3) r by (intro exI[of _ "[c]"] exI[of _ z]) simp
  next
    case (Cons ch cs)
    have "ch \<noteq> [] \<and> length ch \<le> 1" using chunks_from_size[of ch s "inode_num (cur_fd (int ?i) s)" 1 "unat (file_position (cur_fd (int ?i) s))"] Cons
      by (simp add: chunks_left_def)
    then obtain x where x: "ch = [x]" by (cases ch) auto
    obtain rest z where z: "kernel_read u evs (int ?i) [c] (int 1) s = Done (int (length ch), ch @ rest, z)"
      "length (ch @ rest) = length [c]" "serves u t z" "reads_file (int ?i) (inode b) 1 z"
      "chunks_left (int ?i) 1 z = cs" "others_kept ?i s z"
      using file_read_chunk[OF sv rf Cons, of "[c]" evs] by auto
    have r: "r = x # concat cs" using en(2) Cons x by simp
    have "bytes_left k z b = Some (tl r)" using still[OF z(4)] z(5) r by simp
    then show ?thesis
      using two_open_step[OF s z(3,6)] z(1,2,4) r x by (intro exI[of _ "[x]"] exI[of _ z]) simp
  qed
qed

lemma two_close:
  assumes s: "two_open u t k inode s"
  shows "\<exists>r s'. trap u [] 6 (word_of_int (int (k b))) 0 0 s = Done (r, s') \<and> two_open u t k inode s' \<and>
    bytes_left k s' = (bytes_left k s)(b := None)"
proof -
  let ?i = "k b"
  have i: "2 \<le> ?i" "?i < 8" and sv: "serves u t s" using s by (auto simp: two_open_def)
  define y where "y = s\<lparr>if_flag := True\<rparr>"
  have y: "side y = side s" "console_ok t y" using sv by (simp_all add: y_def serves_def)
  have svy: "serves u t y" by (rule serves_side[OF sv y])
  have w: "sint (word_of_int (int ?i) :: u32) = int ?i" by (rule sint_of_int) (use i in simp_all)
  have call: "trap u [] 6 (word_of_int (int ?i)) 0 0 s = andthen (close_call (int ?i) y) (\<lambda>(r, s). Done (r, s\<lparr>if_flag := True\<rparr>))"
    using w by (simp add: trap_calls(4) y_def do_syscall_in_C_def returns_then)
  have kept: "others_kept ?i s z" if "fs z = fs s" "inodesCount z = inodesCount s" "data_count_blk z = data_count_blk s"
    "stack_junk z = stack_junk s" "\<And>j. j \<noteq> ?i \<Longrightarrow> cur_fd (int j) z = cur_fd (int j) s" for z
    using that by (simp add: others_kept_def)
  have "\<exists>r z. close_call (int ?i) y = Done (r, z) \<and> serves u t z \<and> others_kept ?i s z \<and>
      flags (cur_fd (int ?i) z) = NOT_ENGAGED"
  proof (cases "flags (cur_fd (int ?i) s) = NOT_ENGAGED")
    case True
    then have "close_call (int ?i) y = Done (-1, y)" using cur_side(2)[OF y(1)] by (auto simp: close_call_def)
    moreover have "others_kept ?i s y" by (rule kept) (simp_all add: y_def cur_fd_def cur_pcb_addr_def)
    ultimately show ?thesis using svy True cur_side(2)[OF y(1)] by auto
  next
    case False
    then have "reads_file (int ?i) (inode b) 1 s" using s by (simp add: two_open_def)
    then have "close_call (int ?i) y = Done (0, release_fd ?i y)"
      using close_call_eq[of "int ?i" y] i cur_side(2)[OF y(1)] False by (simp add: close_file_def reads_file_def)
    moreover have "serves u t (release_fd ?i y)" by (rule serves_release[OF svy i(1)])
    moreover have "cur_fd (int j) (release_fd ?i y) = (if j = ?i then (cur_fd (int ?i) s)\<lparr>inode_num := NOINODE,
        file_position := START_OF_FILE, flags := NOT_ENGAGED\<rparr> else cur_fd (int j) s)" for j
      using cur_fd_release[of j ?i y] cur_side(2)[OF y(1)] by simp
    moreover from this have "others_kept ?i s (release_fd ?i y)"
      by (intro kept) (simp_all add: release_fd_def upd_pcb_def y_def)
    ultimately show ?thesis by auto
  qed
  then obtain r z where z: "close_call (int ?i) y = Done (r, z)" "serves u t z" "others_kept ?i s z"
    "flags (cur_fd (int ?i) z) = NOT_ENGAGED" by blast
  define s' where "s' = z\<lparr>if_flag := True\<rparr>"
  have sd: "side s' = side z" by (simp add: s'_def)
  have "serves u t s'" by (rule serves_side[OF z(2) sd]) (use z(2) in \<open>simp add: s'_def serves_def\<close>)
  moreover have "others_kept ?i s s'" using z(3) cur_side(2)[OF sd] by (simp add: others_kept_def s'_def)
  moreover have fl: "flags (cur_fd (int ?i) s') = NOT_ENGAGED" using z(4) cur_side(2)[OF sd] by simp
  ultimately have st: "two_open u t k inode s'" "bytes_left k s' = (bytes_left k s)(b := bytes_left k s' b)"
    using two_open_step[OF s, of s' b] by auto
  have "bytes_left k s' b = None" using fl by (simp add: bytes_left_def)
  moreover have "trap u [] 6 (word_of_int (int ?i)) 0 0 s = Done (r, s')"
    unfolding call z(1) by (simp add: s'_def)
  ultimately show ?thesis using st by auto
qed

interpretation frames: two_files "kernel_sys u" "\<lambda>x. two_open u t k inode (fst x)" "\<lambda>b. int (k b)" "\<lambda>x. bytes_left k (fst x)"
  for u t k inode
proof unfold_locales
  fix x :: user_state and b r c
  assume "two_open u t k inode (fst x)" "bytes_left k (fst x) b = Some r"
  from two_read[OF this, of "next_events (snd x)" c] show "\<exists>buf s'. sread (kernel_sys u) (int (k b)) [c] 1 x =
      Done (if r = [] then 0 else 1, buf, s') \<and> (r \<noteq> [] \<longrightarrow> buf = [hd r]) \<and> two_open u t k inode (fst s') \<and>
      bytes_left k (fst s') = (bytes_left k (fst x))(b := Some (tl r))" by fastforce
next
  fix x :: user_state and b
  assume "two_open u t k inode (fst x)"
  from two_close[OF this, of b] show "\<exists>r s'. sclose (kernel_sys u) (int (k b)) x = Done (r, s') \<and>
      two_open u t k inode (fst s') \<and> bytes_left k (fst s') = (bytes_left k (fst x))(b := None)" by fastforce
qed

section \<open>The frames on the kernel\<close>

lemma byte_chunks:
  "concat (chunks_from s inode 1 pos) = map (file_byte s inode) [pos..<unat (inode_length (fs s) inode)]"
proof (induction "unat (inode_length (fs s) inode) - pos" arbitrary: pos)
  case 0
  then show ?case by (subst chunks_from.simps) simp
next
  case (Suc m)
  then have "m = unat (inode_length (fs s) inode) - (pos + 1)" "pos < unat (inode_length (fs s) inode)" by simp_all
  then show ?case using Suc.hyps(1)[of "pos + 1"] by (subst chunks_from.simps) (auto simp: upt_conv_Cons)
qed

lemma names_file_kept:
  assumes "names_file s name inode" "others_kept i s s'"
  shows "names_file s' name inode" "file_content s' inode = file_content s inode"
proof -
  have f: "fs s' = fs s" "inodesCount s' = inodesCount s" using assms(2) by (simp_all add: others_kept_def)
  note o = others_keptD(1-3)[OF assms(2)]
  show "names_file s' name inode"
    using assms(1) f o by (simp add: names_file_def has_file_def file_dentry_def readable_def)
  show "file_content s' inode = file_content s inode" using f o by (simp add: file_content_def)
qed

lemma frames_shown:
  assumes s: "serves u t s" and f0: "names_file s name0 i0" "length name0 \<le> 2048" "length (file_content s i0) \<le> 800"
    and f1: "names_file s name1 i1" "length name1 \<le> 2048" "length (file_content s i1) \<le> 800"
    and slots: "find (free_fd s) [2..<8] = Some k0" "find (\<lambda>j. free_fd s j \<and> j \<noteq> k0) [2..<8] = Some k1"
  shows "\<exists>f s' w'. add_frames (kernel_sys u) name0 name1 junk (start_fish v) (s, w) = Some (Done (Inr f, (s', w'))) \<and>
    serves u t s' \<and> pictures f (frames_picture (file_content s i0) (file_content s i1) v)"
proof -
  obtain y where y: "kernel_open u name0 s = Done (int k0, y)" "serves u t y" "reads_file (int k0) i0 1 y"
    "chunks_left (int k0) 1 y = chunks_from s i0 1 0" "others_kept k0 s y"
    using open_readable[OF s f0(1,2) slots(1), of 1] by auto
  have en: "flags (cur_fd (int k0) y) \<noteq> NOT_ENGAGED" using y(3) by (simp add: reads_file_def)
  have "free_fd y j \<longleftrightarrow> free_fd s j \<and> j \<noteq> k0" for j
    using en y(5) by (cases "j = k0") (simp_all add: free_fd_def others_kept_def)
  then have "free_fd y = (\<lambda>j. free_fd s j \<and> j \<noteq> k0)" by (intro ext)
  then have sl: "find (free_fd y) [2..<8] = Some k1" using slots(2) by simp
  note n1 = names_file_kept[OF f1(1) y(5)]
  obtain z where z: "kernel_open u name1 y = Done (int k1, z)" "serves u t z" "reads_file (int k1) i1 1 z"
    "chunks_left (int k1) 1 z = chunks_from y i1 1 0" "others_kept k1 y z"
    using open_readable[OF y(2) n1(1) f1(2) sl, of 1] by auto
  have k: "k0 \<noteq> k1" "2 \<le> k0" "k0 < 8" "2 \<le> k1" "k1 < 8"
    using slots by (auto simp: find_Some_iff nth_upt simp del: upt_rec_numeral)
  define k inode where "k = (\<lambda>b. if b then k1 else k0)" and "inode = (\<lambda>b. if b then i1 else i0)"
  note o = others_keptD[OF z(5)]
  have "two_open u t k inode z"
    using z(2,3) k o(4)[OF k(1), of i0 1] y(3) by (auto simp: two_open_def k_def inode_def)
  moreover have cz: "cur_fd (int k0) z = cur_fd (int k0) y" using z(5) k(1) by (simp add: others_kept_def)
  have fy: "file_content s i1 = concat (chunks_from y i1 1 0)" "file_content s i0 = concat (chunks_from s i0 1 0)"
    unfolding n1(2)[symmetric] by (simp_all only: file_content_def byte_chunks)
  have bl: "bytes_left k z False = Some (file_content s i0)" "bytes_left k z True = Some (file_content s i1)"
    using en cz z(3,4) y(4) o(5)[OF k(1), of 1] fy by (auto simp: bytes_left_def k_def reads_file_def)
  have at: "frames.at_line (of_char CHR ''0'', False) (Some t) (text_lines t)" for t by (simp add: frames.at_line_def)
  let ?new = "rows_blinks junk 0 (text_lines (file_content s i0)) (text_lines (file_content s i1))"
  obtain x where x: "frame_rows (kernel_sys u) (int k0) (int k1) junk 0 (of_char CHR ''0'', False) (of_char CHR ''0'', False)
      (start_fish v) (z, w) = Some (Done (fold add_to ?new (start_fish v), x))" "two_open u t k inode (fst x)"
    using frames.frame_rows_reads[of u t k inode "(z, w)" "(of_char CHR ''0'', False)" "text_lines (file_content s i0)"
        "(of_char CHR ''0'', False)" "text_lines (file_content s i1)" junk 0 "start_fish v"] calculation bl at
    by (auto simp: k_def)
  have "pictures (fold add_to ?new (start_fish v)) (frames_picture (file_content s i0) (file_content s i1) v)"
    by (rule frames_drawn[OF f0(3) f1(3)])
  moreover have "add_frames (kernel_sys u) name0 name1 junk (start_fish v) (s, w) =
      Some (Done (Inr (fold add_to ?new (start_fish v)), x))"
    using x(1) by (simp add: add_frames_def y(1) z(1))
  moreover have "serves u t (fst x)" using x(2) by (simp add: two_open_def)
  ultimately show ?thesis by (metis prod.collapse)
qed

section \<open>The ticks of the kernel's clock\<close>

interpretation clock_beats: beats "kernel_sys u" "\<lambda>x. clocked u t i (fst x)" "int i" snd "replicate 32 rtc_intr" for u t i
proof unfold_locales
  fix x :: user_state and es and g :: "u8 list"
  assume "clocked u t i (fst x)" "snd x = replicate 32 rtc_intr # es" "length g = 4"
  from clock_frames.tick[OF this] show "\<exists>s'. sread (kernel_sys u) (int i) g 4 x = Done (0, g, s') \<and>
      clocked u t i (fst s') \<and> snd s' = es" by blast
qed

end
