(* ===== verification/Emulate.thy ===== *)
theory Emulate
  imports User_Programs Console
begin

text \<open>
  The emulation of the system calls on Linux, syscalls/ece391emulate.c (fish/ece391emulate.c is the
  same file): the programs are linked with it instead of the system call stubs and run as ordinary
  Linux processes.

  Linux and its C library are a record of operations over a state of their own.  The raw system
  calls give the value of EAX; a name in a directory comes as the array \<open>d_name\<close>; running a program
  gives its wait status, or \<open>None\<close> when \<open>execv\<close> returns.
\<close>

section \<open>Linux\<close>

record ('w, 'd) linux =
  l_opendir :: "u8 list \<Rightarrow> 'w \<Rightarrow> 'd option \<times> 'w"
  l_readdir :: "'d \<Rightarrow> 'w \<Rightarrow> u8 list option \<times> 'w"
  l_closedir :: "'d \<Rightarrow> 'w \<Rightarrow> 'w"
  l_open :: "u8 list \<Rightarrow> 'w \<Rightarrow> int \<times> 'w"
  l_close :: "int \<Rightarrow> 'w \<Rightarrow> 'w"
  l_mmap :: "int \<Rightarrow> 'w \<Rightarrow> nat option \<times> 'w"
  l_fork :: "'w \<Rightarrow> bool \<times> 'w"
  l_execv :: "u8 list \<Rightarrow> u8 list list \<Rightarrow> 'w \<Rightarrow> u32 option \<times> 'w"
  l_open_call :: "u8 list \<Rightarrow> 'w \<Rightarrow> u32 \<times> 'w"
  l_read_call :: "int \<Rightarrow> u8 list \<Rightarrow> int \<Rightarrow> 'w \<Rightarrow> u32 \<times> u8 list \<times> 'w"
  l_write_call :: "int \<Rightarrow> u8 list \<Rightarrow> int \<Rightarrow> 'w \<Rightarrow> u32 \<times> 'w"
  l_close_call :: "int \<Rightarrow> 'w \<Rightarrow> u32 \<times> 'w"

text \<open>The static variables, the arguments that \<open>start_esp\<close> points at, and Linux.\<close>

record ('w, 'd) emulation =
  emu_dir :: "'d option"
  dir_fd :: int
  mem_fd :: int
  argv :: "u8 list list"
  world :: 'w

definition start_emulation :: "u8 list list \<Rightarrow> 'w \<Rightarrow> ('w, 'd) emulation" where
  "start_emulation args w = \<lparr>emu_dir = None, dir_fd = -1, mem_fd = -1, argv = map (\<lambda>a. a @ [0]) args, world = w\<rparr>"

text \<open>The macro \<open>DO_CALL\<close> and \<open>ece391_open\<close>: an error number becomes -1.\<close>

definition call_result :: "u32 \<Rightarrow> int" where
  "call_result eax = (if eax \<le> 0xFFFFC000 then sint eax else -1)"

section \<open>Running a program\<close>

text \<open>\<open>ece391_strcpy\<close> from one array into another.\<close>

fun strcpy_to :: "u8 list \<Rightarrow> nat \<Rightarrow> u8 list \<Rightarrow> u8 list outcome" where
  "strcpy_to buf i [] = Fault OutOfBounds"
| "strcpy_to buf i (c # s) =
     (if length buf \<le> i then Fault OutOfBounds
      else if c = 0 then Done (buf[i := 0])
      else strcpy_to (buf[i := c]) (Suc i) s)"

text \<open>The scans over the copy of the command.  Pointers into it are indices.\<close>

function scan_word :: "u8 list \<Rightarrow> nat \<Rightarrow> nat outcome" where
  "scan_word buf i =
     (if length buf \<le> i then Fault OutOfBounds
      else if buf ! i \<noteq> 0 \<and> buf ! i \<noteq> SPACE \<and> buf ! i \<noteq> NEWLINE then scan_word buf (Suc i)
      else Done i)"
  by pat_completeness auto
termination
  by (relation "measure (\<lambda>(buf, i). length buf - i)") auto

function scan_spaces :: "u8 list \<Rightarrow> nat \<Rightarrow> nat outcome" where
  "scan_spaces buf i =
     (if length buf \<le> i then Fault OutOfBounds
      else if buf ! i = SPACE then scan_spaces buf (Suc i)
      else Done i)"
  by pat_completeness auto
termination
  by (relation "measure (\<lambda>(buf, i). length buf - i)") auto

declare scan_word.simps [simp del] scan_spaces.simps [simp del]

lemma scan_word_bounds: "scan_word buf i = Done j \<Longrightarrow> i \<le> j \<and> j < length buf"
proof (induction buf i rule: scan_word.induct)
  case (1 buf i)
  show ?case
    using 1(2) by (subst (asm) scan_word.simps) (auto split: if_splits dest!: 1(1))
qed

lemma scan_spaces_bounds: "scan_spaces buf i = Done j \<Longrightarrow> i \<le> j \<and> j < length buf"
proof (induction buf i rule: scan_spaces.induct)
  case (1 buf i)
  show ?case
    using 1(2) by (subst (asm) scan_spaces.simps) (auto split: if_splits dest!: 1(1))
qed

text \<open>The loop over the arguments: each is ended by a NUL, and its address goes to \<open>args\<close>.\<close>

function parse_args :: "u8 list \<Rightarrow> nat \<Rightarrow> nat list \<Rightarrow> (u8 list \<times> nat list) outcome" where
  "parse_args buf scan args =
     andthen (scan_spaces buf scan) (\<lambda>first.
       if buf ! first = 0 \<or> buf ! first = NEWLINE then Done (buf[first := 0], args)
       else if 1024 \<le> length args then Fault OutOfBounds
       else andthen (scan_word buf first) (\<lambda>last'.
         if buf ! last' \<noteq> 0 then parse_args (buf[last' := 0]) (Suc last') (args @ [first])
         else parse_args buf last' (args @ [first])))"
  by pat_completeness auto
termination
  by (relation "measure (\<lambda>(buf, scan, args). length buf - scan)")
    (auto dest!: scan_spaces_bounds scan_word_bounds,
     metis diff_less_mono2 le_less_trans le_neq_implies_less less_le_trans)

declare parse_args.simps [simp del]

text \<open>
  The copy \<open>buf\<close> of the command and the offsets \<open>args\<close> in it, from arrays that hold \<open>junk\<close>; the
  NULL at the end of \<open>args\<close> needs a place too.
\<close>

definition build_args :: "u8 list \<Rightarrow> u8 list \<Rightarrow> (u8 list \<times> nat list) outcome" where
  "build_args junk command =
     andthen (strcpy_to (junk[0 := of_char CHR ''.'', 1 := of_char CHR ''/'']) 2 command) (\<lambda>buf.
     andthen (scan_word buf 2) (\<lambda>scan.
     andthen (if buf ! scan \<noteq> 0 then parse_args (buf[scan := 0]) (Suc scan) [0] else Done (buf, [0]))
       (\<lambda>(buf, args). if 1024 \<le> length args then Fault OutOfBounds else Done (buf, args))))"

definition strings_at :: "u8 list \<Rightarrow> nat list \<Rightarrow> u8 list list" where
  "strings_at buf offs = map (\<lambda>i. cstr (drop i buf)) offs"

text \<open>
  The macros \<open>WIFEXITED\<close>, \<open>WEXITSTATUS\<close> and \<open>WTERMSIG\<close>.  The child kills itself with signal 9 when
  \<open>execv\<close> returns; when \<open>fork\<close> fails, \<open>status\<close> keeps what it held.
\<close>

definition wait_value :: "u32 \<Rightarrow> int" where
  "wait_value status =
     (if status AND 0x7F = 0 then uint (drop_bit 8 status AND 0xFF)
      else if status AND 0x7F = 9 then -1 else 256)"

definition emu_execute :: "('w, 'd) linux \<Rightarrow> u8 list \<Rightarrow> u32 \<Rightarrow> u8 list \<Rightarrow>
    ('w, 'd) emulation \<Rightarrow> (int \<times> ('w, 'd) emulation) outcome" where
  "emu_execute L junk status command e =
     andthen (of_opt OutOfBounds (ece391_strlen command)) (\<lambda>n.
       if 1023 < n then Done (-1, e)
       else andthen (build_args junk command) (\<lambda>(buf, args).
         case l_fork L (world e) of (forked, w) \<Rightarrow>
           if \<not> forked then Done (wait_value status, e\<lparr>world := w\<rparr>)
           else case l_execv L (cstr buf) (strings_at buf args) w of (st, w) \<Rightarrow>
             Done (wait_value (case st of None \<Rightarrow> 9 | Some st \<Rightarrow> st), e\<lparr>world := w\<rparr>)))"

section \<open>The arguments of a program\<close>

text \<open>The loop over \<open>argv[idx]\<close>, with the place \<open>pos\<close> in the buffer and what is left of it.\<close>

fun join_args :: "u8 list list \<Rightarrow> u8 list \<Rightarrow> nat \<Rightarrow> int \<Rightarrow> (int \<times> u8 list) outcome" where
  "join_args [] buf pos nbytes =
     (if nbytes < 1 then Done (-1, buf) else andthen (set_at buf (int pos) 0) (\<lambda>buf. Done (0, buf)))"
| "join_args (a # args) buf pos nbytes =
     andthen (of_opt OutOfBounds (ece391_strlen a)) (\<lambda>len.
       if int len > nbytes then Done (-1, buf)
       else andthen (strcpy_to buf pos a) (\<lambda>buf.
         if args = [] then join_args [] buf (pos + len) (nbytes - int len)
         else if nbytes - int len < 1 then Done (-1, buf)
         else andthen (set_at buf (int (pos + len)) SPACE) (\<lambda>buf.
           join_args args buf (pos + len + 1) (nbytes - int len - 1))))"

definition emu_getargs :: "u8 list \<Rightarrow> int \<Rightarrow> ('w, 'd) emulation \<Rightarrow> (int \<times> u8 list \<times> ('w, 'd) emulation) outcome" where
  "emu_getargs buf nbytes e =
     andthen (join_args (tl (argv e)) buf 0 nbytes) (\<lambda>(r, buf). Done (r, buf, e))"

section \<open>Files and directories\<close>

definition emu_open :: "('w, 'd) linux \<Rightarrow> u8 list \<Rightarrow> ('w, 'd) emulation \<Rightarrow> (int \<times> ('w, 'd) emulation) outcome" where
  "emu_open L filename e =
     andthen (of_opt OutOfBounds (ece391_strcmp filename (c_lit ''.''))) (\<lambda>c.
       if c = 0
       then case l_opendir L (c_lit ''.'') (world e) of (d, w) \<Rightarrow>
              case l_open L (c_lit ''/dev/null'') w of (fd, w) \<Rightarrow>
                Done (fd, e\<lparr>emu_dir := d, dir_fd := fd, world := w\<rparr>)
       else case l_open_call L filename (world e) of (eax, w) \<Rightarrow> Done (call_result eax, e\<lparr>world := w\<rparr>))"

text \<open>The copy of a name, and the zeros that follow it.\<close>

function pad_name :: "u8 list \<Rightarrow> nat \<Rightarrow> int \<Rightarrow> (int \<times> u8 list) outcome" where
  "pad_name buf copied nbytes =
     (if nbytes > int copied \<and> 32 > copied
      then if length buf \<le> copied then Fault OutOfBounds
           else pad_name (buf[copied := 0]) (Suc copied) nbytes
      else Done (int copied, buf))"
  by pat_completeness auto
termination
  by (relation "measure (\<lambda>(buf, copied, nbytes). 32 - copied)") auto

declare pad_name.simps [simp del]

fun copy_name :: "u8 list \<Rightarrow> u8 list \<Rightarrow> nat \<Rightarrow> int \<Rightarrow> (int \<times> u8 list) outcome" where
  "copy_name [] buf copied nbytes = Fault OutOfBounds"
| "copy_name (c # name) buf copied nbytes =
     (if c = 0 then pad_name buf copied nbytes
      else if length buf \<le> copied then Fault OutOfBounds
      else if int (Suc copied) = nbytes then Done (nbytes, buf[copied := c])
      else if Suc copied = 32 then Done (32, buf[copied := c])
      else copy_name name (buf[copied := c]) (Suc copied) nbytes)"

definition emu_read :: "('w, 'd) linux \<Rightarrow> int \<Rightarrow> u8 list \<Rightarrow> int \<Rightarrow>
    ('w, 'd) emulation \<Rightarrow> (int \<times> u8 list \<times> ('w, 'd) emulation) outcome" where
  "emu_read L fd buf nbytes e =
     (case if dir_fd e = fd then emu_dir e else None of
        None \<Rightarrow> (case l_read_call L fd buf nbytes (world e) of (eax, buf, w) \<Rightarrow>
                   Done (call_result eax, buf, e\<lparr>world := w\<rparr>))
      | Some d \<Rightarrow> (case l_readdir L d (world e) of (de, w) \<Rightarrow>
          case de of None \<Rightarrow> Done (0, buf, e\<lparr>world := w\<rparr>)
          | Some name \<Rightarrow> andthen (copy_name name buf 0 nbytes) (\<lambda>(r, buf). Done (r, buf, e\<lparr>world := w\<rparr>))))"

definition emu_write :: "('w, 'd) linux \<Rightarrow> int \<Rightarrow> u8 list \<Rightarrow> int \<Rightarrow>
    ('w, 'd) emulation \<Rightarrow> (int \<times> ('w, 'd) emulation) outcome" where
  "emu_write L fd buf nbytes e =
     (if emu_dir e = None \<or> dir_fd e \<noteq> fd
      then case l_write_call L fd buf nbytes (world e) of (eax, w) \<Rightarrow> Done (call_result eax, e\<lparr>world := w\<rparr>)
      else Done (-1, e))"

definition emu_close :: "('w, 'd) linux \<Rightarrow> int \<Rightarrow> ('w, 'd) emulation \<Rightarrow> (int \<times> ('w, 'd) emulation) outcome" where
  "emu_close L fd e =
     (case if dir_fd e = fd then emu_dir e else None of
        None \<Rightarrow> (case l_close_call L fd (world e) of (eax, w) \<Rightarrow> Done (call_result eax, e\<lparr>world := w\<rparr>))
      | Some d \<Rightarrow> Done (0, e\<lparr>emu_dir := None, dir_fd := -1,
                         world := l_close L (dir_fd e) (l_closedir L d (world e))\<rparr>))"

text \<open>The mapping of low memory; the address that is stored in \<open>*screen_start\<close> is the second result.\<close>

definition emu_vidmap :: "('w, 'd) linux \<Rightarrow> ('w, 'd) emulation \<Rightarrow> (int \<times> nat option \<times> ('w, 'd) emulation) outcome" where
  "emu_vidmap L e =
     (let (fd, w) = (if mem_fd e = -1 then l_open L (c_lit ''/dev/mem'') (world e) else (mem_fd e, world e))
      in case l_mmap L fd w of
           (None, w) \<Rightarrow> Done (-1, None, e\<lparr>mem_fd := fd, world := w\<rparr>)
         | (Some low, w) \<Rightarrow> Done (0, Some (low + 0xB8000), e\<lparr>mem_fd := fd, world := w\<rparr>))"

text \<open>
  The emulation as the system calls of a program.  The calls that it does not provide stay those
  of \<open>S\<close>.
\<close>

definition emu_sys :: "('w, 'd) linux \<Rightarrow> u8 list \<Rightarrow> u32 \<Rightarrow> ('w, 'd) emulation sys \<Rightarrow> ('w, 'd) emulation sys" where
  "emu_sys L junk status S =
     S\<lparr>sread := emu_read L, swrite := emu_write L, sopen := emu_open L, sclose := emu_close L,
       sgetargs := emu_getargs, sexecute := emu_execute L junk status,
       svidmap := (\<lambda>p e. andthen (emu_vidmap L e) (\<lambda>(r, a, e). Done (r, e)))\<rparr>"

end
