(* ===== verification/Emulate_Runs.thy ===== *)
theory Emulate_Runs
  imports Emulate User_Specs Process
begin

text \<open>
  Programs under the emulation: the arguments that a program gets, and \<open>ls\<close>.
\<close>

section \<open>Splitting the command\<close>

lemma nth_drop_prefix: "drop i buf = xs @ c # r \<Longrightarrow> i + length xs < length buf \<and> buf ! (i + length xs) = c"
proof -
  assume a: "drop i buf = xs @ c # r"
  then have "length (drop i buf) = length xs + Suc (length r)" by simp
  moreover have "drop i buf ! length xs = c" using a by simp
  ultimately show ?thesis by (cases "i \<le> length buf") auto
qed

lemma scan_spaces_run: "drop i buf = replicate k SPACE @ c # r \<Longrightarrow> c \<noteq> SPACE \<Longrightarrow> scan_spaces buf i = Done (i + k)"
proof (induction k arbitrary: i)
  case 0
  then show ?case using nth_drop_prefix[of i buf "[]"] by (subst scan_spaces.simps) simp
next
  case (Suc k)
  have "drop (Suc i) buf = replicate k SPACE @ c # r"
    using Suc.prems(1) by (metis append_Cons drop_Suc list.sel(3) replicate_Suc tl_drop)
  then show ?case
    using Suc nth_drop_prefix[of i buf "[]"] by (subst scan_spaces.simps) simp
qed

lemma scan_word_run:
  "drop i buf = w @ c # r \<Longrightarrow> \<forall>x \<in> set w. x \<noteq> 0 \<and> x \<noteq> SPACE \<and> x \<noteq> NEWLINE \<Longrightarrow>
   c = 0 \<or> c = SPACE \<or> c = NEWLINE \<Longrightarrow> scan_word buf i = Done (i + length w)"
proof (induction w arbitrary: i)
  case Nil
  then show ?case using nth_drop_prefix[of i buf "[]" c r] by (subst scan_word.simps) auto
next
  case (Cons x w)
  have "drop (Suc i) buf = w @ c # r" using Cons.prems(1) by (metis append_Cons drop_Suc list.sel(3) tl_drop)
  then show ?case using Cons nth_drop_prefix[of i buf "[]"] by (subst scan_word.simps) simp
qed

text \<open>
  The words of a text without NUL, as the loop takes them: it stops at a newline only where an
  argument would begin.
\<close>

definition word_of :: "u8 list \<Rightarrow> u8 list" where
  "word_of t = takeWhile (\<lambda>c. c \<noteq> SPACE \<and> c \<noteq> NEWLINE) t"

function words_of :: "u8 list \<Rightarrow> u8 list list" where
  "words_of cs =
     (let t = skip_spaces cs in
      if t = [] \<or> hd t = NEWLINE then []
      else word_of t # words_of (drop (Suc (length (word_of t))) t))"
  by pat_completeness auto
termination
proof (relation "measure length")
  fix cs t assume t: "t = skip_spaces cs" "\<not> (t = [] \<or> hd t = NEWLINE)"
  have "length t \<le> length cs" unfolding t skip_spaces_def by (rule length_dropWhile_le)
  then show "(drop (Suc (length (word_of t))) t, cs) \<in> measure length" using t(2) by (cases t) auto
qed simp

declare words_of.simps [simp del]

lemma skip_spaces_split: "\<exists>k. cs = replicate k SPACE @ skip_spaces cs"
proof -
  have "takeWhile (\<lambda>c. c = SPACE) cs = replicate (length (takeWhile (\<lambda>c. c = SPACE) cs)) SPACE"
    by (rule replicate_length_same[symmetric]) (auto dest: set_takeWhileD)
  then show ?thesis unfolding skip_spaces_def by (metis takeWhile_dropWhile_id)
qed

lemma hd_skip_spaces: "skip_spaces cs = c # r \<Longrightarrow> c \<noteq> SPACE"
  unfolding skip_spaces_def by (auto simp: dropWhile_eq_Cons_conv)

lemma word_of_split:
  obtains r where "t = word_of t @ r" "r = [] \<or> hd r = SPACE \<or> hd r = NEWLINE"
    "\<forall>x \<in> set (word_of t). x \<noteq> SPACE \<and> x \<noteq> NEWLINE"
proof (rule that[of "dropWhile (\<lambda>c. c \<noteq> SPACE \<and> c \<noteq> NEWLINE) t"])
  show "t = word_of t @ dropWhile (\<lambda>c. c \<noteq> SPACE \<and> c \<noteq> NEWLINE) t" by (simp add: word_of_def)
  show "dropWhile (\<lambda>c. c \<noteq> SPACE \<and> c \<noteq> NEWLINE) t = [] \<or>
      hd (dropWhile (\<lambda>c. c \<noteq> SPACE \<and> c \<noteq> NEWLINE) t) = SPACE \<or>
      hd (dropWhile (\<lambda>c. c \<noteq> SPACE \<and> c \<noteq> NEWLINE) t) = NEWLINE"
    using hd_dropWhile[of "\<lambda>c. c \<noteq> SPACE \<and> c \<noteq> NEWLINE" t] by auto
  show "\<forall>x \<in> set (word_of t). x \<noteq> SPACE \<and> x \<noteq> NEWLINE" by (auto simp: word_of_def dest: set_takeWhileD)
qed

lemma half_count: "0 < w \<Longrightarrow> 2 * n \<le> Suc (r - w) \<Longrightarrow> Suc r \<le> k \<Longrightarrow> Suc (2 * n) \<le> (k :: nat)"
  by presburger

lemma words_of_count: "2 * length (words_of cs) \<le> length cs + 1"
proof (induction cs rule: words_of.induct)
  case (1 cs)
  let ?t = "skip_spaces cs"
  have l: "length ?t \<le> length cs" unfolding skip_spaces_def by (rule length_dropWhile_le)
  show ?case
  proof (cases "?t = [] \<or> hd ?t = NEWLINE")
    case False
    then obtain c r where t: "?t = c # r" by (cases ?t) auto
    then have "0 < length (word_of ?t)" using False hd_skip_spaces[OF t] by (simp add: word_of_def)
    moreover have "2 * length (words_of (drop (Suc (length (word_of ?t))) ?t)) \<le> length ?t - Suc (length (word_of ?t)) + 1"
      using 1[OF refl False] by simp
    ultimately have "2 * Suc (length (words_of (drop (Suc (length (word_of ?t))) ?t))) \<le> length cs + 1"
      using l arg_cong[OF t, of length] by (simp del: length_greater_0_conv add: half_count)
    then show ?thesis using False by (subst words_of.simps) (simp add: Let_def)
  qed (subst words_of.simps, simp add: Let_def)
qed

text \<open>
  The loop finds the words; what lies before its start stays, and the string it ends in front of
  its start stays ended.
\<close>

lemma parse_args_words:
  assumes "drop scan buf = cs @ 0 # r" "0 \<notin> set cs" "length args + length (words_of cs) < 1024"
  shows "\<exists>buf' offs. parse_args buf scan args = Done (buf', args @ offs) \<and> length buf' = length buf \<and>
    take scan buf' = take scan buf \<and> strings_at buf' offs = words_of cs"
  using assms
proof (induction "length cs" arbitrary: buf scan args cs rule: less_induct)
  case less
  obtain k where k: "cs = replicate k SPACE @ skip_spaces cs" using skip_spaces_split by blast
  define t where "t = skip_spaces cs"
  have cs: "cs = replicate k SPACE @ t" using k by (simp add: t_def)
  obtain c r' where c: "t @ 0 # r = c # r'" by (cases t) auto
  have csp: "c \<noteq> SPACE" using c hd_skip_spaces[of cs] by (cases t) (auto simp: t_def)
  have d: "drop scan buf = replicate k SPACE @ c # r'" using less.prems(1) c by (simp add: cs)
  have first: "scan_spaces buf scan = Done (scan + k)" by (rule scan_spaces_run[OF d csp])
  have at: "scan + k < length buf" "buf ! (scan + k) = c" using nth_drop_prefix[OF d] by auto
  have dt: "drop (scan + k) buf = t @ 0 # r" using less.prems(1) by (simp add: cs add.commute flip: drop_drop)
  show ?case
  proof (cases "t = [] \<or> hd t = NEWLINE")
    case True
    then have "c = 0 \<or> c = NEWLINE" using c by (cases t) auto
    then have "parse_args buf scan args = Done (buf[scan + k := 0], args)"
      using first at by (subst parse_args.simps) simp
    moreover have "words_of cs = []" using True by (subst words_of.simps) (simp add: t_def)
    ultimately show ?thesis by (auto simp: strings_at_def)
  next
    case False
    obtain q where q: "t = word_of t @ q" "q = [] \<or> hd q = SPACE \<or> hd q = NEWLINE"
      "\<forall>x \<in> set (word_of t). x \<noteq> SPACE \<and> x \<noteq> NEWLINE" by (rule word_of_split)
    let ?w = "word_of t"
    have nz: "0 \<notin> set t" using less.prems(2) by (simp add: cs)
    have ct: "c \<noteq> 0" "c \<noteq> NEWLINE" using False c nz by (cases t; auto)+
    have w0: "0 < length ?w" using False csp c by (cases t) (auto simp: word_of_def)
    have wz: "\<forall>x \<in> set ?w. x \<noteq> 0 \<and> x \<noteq> SPACE \<and> x \<noteq> NEWLINE" using q(1,3) nz by (metis Un_iff set_append)
    let ?l = "scan + k + length ?w"
    have wo: "words_of cs = ?w # words_of (drop (Suc (length ?w)) t)"
      using False by (subst words_of.simps) (simp add: t_def Let_def)
    have full: "\<not> 1024 \<le> length args" using less.prems(3) wo by simp
    show ?thesis
    proof (cases q)
      case Nil
      then have dw: "drop (scan + k) buf = ?w @ 0 # r" using dt q(1) by simp
      have last0: "buf ! ?l = 0" "?l < length buf" using nth_drop_prefix[OF dw] by auto
      have sw: "scan_word buf (scan + k) = Done ?l" by (rule scan_word_run[OF dw wz]) simp
      have dl: "drop ?l buf = replicate 0 SPACE @ 0 # r" using arg_cong[OF dw, of "drop (length ?w)"] by (simp add: add.commute add.left_commute)
      have "scan_spaces buf ?l = Done (?l + 0)" by (rule scan_spaces_run[OF dl]) simp
      then have "parse_args buf ?l (args @ [scan + k]) = Done (buf, args @ [scan + k])"
        using last0 by (subst parse_args.simps) (simp add: list_update_same_conv)
      then have "parse_args buf scan args = Done (buf, args @ [scan + k])"
        using first at ct full sw last0 by (subst parse_args.simps) simp
      moreover have "strings_at buf [scan + k] = words_of cs"
      proof -
        have "words_of [] = []" by (subst words_of.simps) (simp add: skip_spaces_def)
        moreover have "drop (Suc (length ?w)) t = []" using Nil q(1) by (metis append_Nil2 drop_all le_Suc_eq order_refl)
        ultimately show ?thesis using dw wz wo by (auto simp: strings_at_def cstr_append_nul)
      qed
      ultimately show ?thesis by auto
    next
      case (Cons z t3)
      then have z: "z = SPACE \<or> z = NEWLINE" "z \<noteq> 0" using q(2) by auto
      have tq: "t = ?w @ z # t3" using q(1) Cons by simp
      then have dw: "drop (scan + k) buf = ?w @ z # t3 @ 0 # r" using dt by (metis append.assoc append_Cons)
      have lz: "buf ! ?l = z" "?l < length buf" using nth_drop_prefix[OF dw] by auto
      have sw: "scan_word buf (scan + k) = Done ?l" by (rule scan_word_run[OF dw wz]) (use z in auto)
      let ?b = "buf[?l := 0]"
      have "drop (Suc ?l) buf = t3 @ 0 # r"
        using arg_cong[OF dw, of "drop (Suc (length ?w))"] by (simp add: add.commute add.left_commute)
      then have d3: "drop (Suc ?l) ?b = t3 @ 0 # r" by simp
      have t3: "drop (Suc (length ?w)) t = t3" using arg_cong[OF tq, of "drop (Suc (length ?w))"] by simp
      have z3: "0 \<notin> set t3" using nz by (subst (asm) tq) simp
      have l3: "length t3 < length cs" using arg_cong[OF tq, of length] by (simp add: cs)
      have n3: "length (args @ [scan + k]) + length (words_of t3) < 1024" using less.prems(3) wo t3 by simp
      obtain b' offs where b': "parse_args ?b (Suc ?l) (args @ [scan + k]) = Done (b', (args @ [scan + k]) @ offs)"
        "length b' = length ?b" "take (Suc ?l) b' = take (Suc ?l) ?b" "strings_at b' offs = words_of t3"
        using less.hyps[OF l3 d3 z3 n3] by blast
      have "parse_args buf scan args = Done (b', args @ (scan + k) # offs)"
        using first at ct full sw lz z(2) b'(1) by (subst parse_args.simps) simp
      moreover have tk: "take ?l b' = take ?l buf" "b' ! ?l = 0"
        using arg_cong[OF b'(3), of "take ?l"] arg_cong[OF b'(3), of "\<lambda>x. x ! ?l"] lz(2) by simp_all
      have "take scan b' = take scan buf" using arg_cong[OF tk(1), of "take scan"] by (simp add: min_def)
      moreover have "cstr (drop (scan + k) b') = ?w"
      proof -
        have "take (length ?w) (drop (scan + k) b') = take (length ?w) (drop (scan + k) buf)"
          using arg_cong[OF tk(1), of "drop (scan + k)"] by (simp add: drop_take)
        also have "\<dots> = ?w" using dw by simp
        finally have "drop (scan + k) b' = ?w @ drop ?l b'"
          by (metis append_take_drop_id drop_drop add.commute)
        moreover have "drop ?l b' = 0 # drop (Suc ?l) b'"
          using tk(2) lz(2) b'(2) by (metis Cons_nth_drop_Suc length_list_update)
        ultimately show ?thesis using wz by (metis cstr_append_nul)
      qed
      ultimately show ?thesis using b'(2,4) wo t3 by (auto simp: strings_at_def)
    qed
  qed
qed

lemma strcpy_to_eq:
  "0 \<in> set s \<Longrightarrow> i + length (cstr s) < length buf \<Longrightarrow>
   strcpy_to buf i s = Done (take i buf @ cstr s @ 0 # drop (Suc (i + length (cstr s))) buf)"
proof (induction s arbitrary: buf i)
  case (Cons c s)
  show ?case
  proof (cases "c = 0")
    case True
    then show ?thesis using Cons.prems(2) by (simp add: upd_conv_take_nth_drop)
  next
    case False
    then have "strcpy_to buf i (c # s) = strcpy_to (buf[i := c]) (Suc i) s" using Cons.prems(2) by simp
    also have "\<dots> = Done (take (Suc i) (buf[i := c]) @ cstr s @ 0 # drop (Suc (Suc i + length (cstr s))) (buf[i := c]))"
      by (rule Cons.IH) (use False Cons.prems in simp_all)
    also have "take (Suc i) (buf[i := c]) = take i buf @ [c]"
      using Cons.prems(2) by (simp add: take_Suc_conv_app_nth)
    finally show ?thesis using False by simp
  qed
qed simp

text \<open>Every command gives an argument list, and no array is overrun.\<close>

lemma build_args_words:
  assumes "0 \<in> set command" "length (cstr command) \<le> 1023" "length junk = 1026"
  defines "w \<equiv> word_of (cstr command)"
  shows "\<exists>buf args. build_args junk command = Done (buf, args) \<and> cstr buf = chars ''./'' @ w \<and>
    strings_at buf args = (chars ''./'' @ w) # words_of (drop (Suc (length w)) (cstr command)) \<and> length args \<le> 512"
proof -
  define buf where "buf = chars ''./'' @ cstr command @ 0 # drop (Suc (2 + length (cstr command))) junk"
  have len: "length buf = 1026" using assms(2,3) by (simp add: buf_def chars_def)
  have c: "strcpy_to (junk[0 := of_char CHR ''.'', 1 := of_char CHR ''/'']) 2 command = Done buf"
  proof -
    have "take 2 (junk[0 := of_char CHR ''.'', 1 := of_char CHR ''/'']) = chars ''./''"
      using assms(3) by (cases junk; cases "tl junk") (auto simp: chars_def)
    then show ?thesis
      using strcpy_to_eq[OF assms(1), of 2 "junk[0 := of_char CHR ''.'', 1 := of_char CHR ''/'']"] assms(2,3)
      by (simp add: buf_def)
  qed
  obtain q where q: "cstr command = w @ q" "q = [] \<or> hd q = SPACE \<or> hd q = NEWLINE"
    "\<forall>x \<in> set w. x \<noteq> SPACE \<and> x \<noteq> NEWLINE" unfolding w_def by (rule word_of_split)
  define tail where "tail = drop (Suc (2 + length (cstr command))) junk"
  have nz: "0 \<notin> set (cstr command)" by (rule cstr_no_nul)
  have wz: "\<forall>x \<in> set w. x \<noteq> 0 \<and> x \<noteq> SPACE \<and> x \<noteq> NEWLINE" using q(1,3) nz by (metis Un_iff set_append)
  have nzw: "0 \<notin> set (chars ''./'' @ w)" using wz by (auto simp: chars_def)
  have d2: "drop 2 buf = w @ q @ 0 # tail" using q(1) by (simp add: buf_def tail_def chars_def)
  have l2: "length (chars ''./'') = 2" by (simp add: chars_def)
  show ?thesis
  proof (cases q)
    case Nil
    have d: "drop 2 buf = w @ 0 # tail" using d2 Nil by simp
    have "scan_word buf 2 = Done (2 + length w)" by (rule scan_word_run[OF d wz]) simp
    moreover have "buf ! (2 + length w) = 0" using nth_drop_prefix[OF d] by simp
    ultimately have "build_args junk command = Done (buf, [0])" by (simp add: build_args_def c[simplified])
    moreover have "buf = (chars ''./'' @ w) @ 0 # tail" using q(1) Nil by (simp add: buf_def tail_def)
    then have "cstr buf = chars ''./'' @ w" using cstr_append_nul[OF nzw] by simp
    moreover have "words_of (drop (Suc (length w)) (cstr command)) = []"
      using q(1) Nil by (subst words_of.simps) (simp add: skip_spaces_def)
    ultimately show ?thesis by (simp add: strings_at_def)
  next
    case (Cons z t3)
    then have z: "z = SPACE \<or> z = NEWLINE" "z \<noteq> 0" using q(2) by auto
    have d: "drop 2 buf = w @ z # t3 @ 0 # tail" using d2 Cons by simp
    let ?l = "2 + length w"
    have sw: "scan_word buf 2 = Done ?l" by (rule scan_word_run[OF d wz]) (use z in auto)
    have lz: "buf ! ?l = z" "?l < length buf" using nth_drop_prefix[OF d] by auto
    let ?b = "buf[?l := 0]"
    have "drop (Suc ?l) buf = t3 @ 0 # tail"
      using arg_cong[OF d, of "drop (Suc (length w))"] by (simp add: add.commute)
    then have d3: "drop (Suc ?l) ?b = t3 @ 0 # tail" by simp
    have t3: "drop (Suc (length w)) (cstr command) = t3" using q(1) Cons by simp
    have z3: "0 \<notin> set t3" using nz q(1) Cons by simp
    have n: "2 * length (words_of t3) \<le> 1023" using words_of_count[of t3] assms(2) q(1) Cons by simp
    then have n3: "length [0::nat] + length (words_of t3) < 1024" by simp
    obtain b' offs where b': "parse_args ?b (Suc ?l) [0] = Done (b', [0] @ offs)"
      "length b' = length ?b" "take (Suc ?l) b' = take (Suc ?l) ?b" "strings_at b' offs = words_of t3"
      using parse_args_words[OF d3 z3 n3] by blast
    have lo: "length offs = length (words_of t3)" using arg_cong[OF b'(4), of length] by (simp add: strings_at_def)
    have "build_args junk command = Done (b', 0 # offs)"
      using sw lz z(2) b'(1) lo n by (simp add: build_args_def c[simplified])
    moreover have "cstr b' = chars ''./'' @ w"
    proof -
      have "buf = (chars ''./'' @ w) @ z # t3 @ 0 # tail" using q(1) Cons by (simp add: buf_def tail_def)
      then have "take (Suc ?l) ?b = (chars ''./'' @ w) @ [0]" using l2 by (simp add: list_update_append)
      then have "b' = (chars ''./'' @ w) @ 0 # drop (Suc ?l) b'"
        using b'(3) by (metis append.assoc append_Cons append_Nil append_take_drop_id)
      then show ?thesis using cstr_append_nul[OF nzw] by metis
    qed
    ultimately show ?thesis using b'(4) t3 lo n by (simp add: strings_at_def)
  qed
qed

section \<open>Joining the arguments\<close>

fun joined :: "u8 list list \<Rightarrow> u8 list" where
  "joined [] = []"
| "joined [w] = w"
| "joined (w # ws) = w @ SPACE # joined ws"

lemma joined_Cons: "ws \<noteq> [] \<Longrightarrow> joined (w # ws) = w @ SPACE # joined ws"
  by (cases ws) simp_all

lemma join_args_eq:
  assumes "\<forall>w \<in> set ws. 0 \<notin> set w" "length (joined ws) < n" "pos + n \<le> length buf"
  shows "join_args (map (\<lambda>w. w @ [0]) ws) buf pos (int n) =
    Done (0, take pos buf @ joined ws @ 0 # drop (Suc (pos + length (joined ws))) buf)"
  using assms
proof (induction ws arbitrary: buf pos n)
  case Nil
  then show ?case by (simp add: set_at_def upd_conv_take_nth_drop)
next
  case (Cons w ws)
  have w: "0 \<notin> set w" using Cons.prems(1) by simp
  then have cw: "cstr (w @ [0]) = w" by (simp add: cstr_append_nul)
  have lw: "length w < n" using Cons.prems(2) by (cases ws) auto
  define b where "b = take pos buf @ w @ 0 # drop (Suc (pos + length w)) buf"
  have b: "strcpy_to buf pos (w @ [0]) = Done b"
    using strcpy_to_eq[of "w @ [0]" pos buf] cw lw Cons.prems(3) by (simp add: b_def)
  have lb: "length b = length buf" using lw Cons.prems(3) by (simp add: b_def)
  show ?case
  proof (cases "ws = []")
    case True
    have "b ! (pos + length w) = 0" using lw Cons.prems(3) by (simp add: b_def nth_append)
    then have "b[pos + length w := 0] = b" by (metis list_update_id)
    then have "set_at b (int (pos + length w)) 0 = Done b"
      using lb lw Cons.prems(3) by (simp only: set_at_def nat_int) simp
    then show ?thesis using True cw lw b by (simp add: ece391_strlen_cstr) (simp add: b_def)
  next
    case False
    have j: "joined (w # ws) = w @ SPACE # joined ws" by (rule joined_Cons[OF False])
    have n: "length w + 1 + length (joined ws) < n" using Cons.prems(2) j by simp
    let ?b = "b[pos + length w := SPACE]"
    have sb: "set_at b (int (pos + length w)) SPACE = Done ?b"
      using lb n Cons.prems(3) by (simp only: set_at_def nat_int) simp
    have m: "int n - int (length w) - 1 = int (n - length w - 1)" using n by simp
    have "join_args (map (\<lambda>w. w @ [0]) (w # ws)) buf pos (int n) =
        join_args (map (\<lambda>w. w @ [0]) ws) ?b (pos + length w + 1) (int n - int (length w) - 1)"
      using cw lw b sb False n by (simp add: ece391_strlen_cstr)
    also have "int n - int (length w) - 1 = int (n - length w - 1)" by (rule m)
    also have "join_args (map (\<lambda>w. w @ [0]) ws) ?b (pos + length w + 1) (int (n - length w - 1)) =
        Done (0, take (pos + length w + 1) ?b @ joined ws @
        0 # drop (Suc (pos + length w + 1 + length (joined ws))) ?b)"
      by (rule Cons.IH) (use Cons.prems n lb in auto)
    also have "take (pos + length w + 1) ?b = take pos buf @ w @ [SPACE]"
      using n Cons.prems(3) by (simp add: b_def list_update_append)
    also have "drop (Suc (pos + length w + 1 + length (joined ws))) ?b =
        drop (Suc (pos + length (joined (w # ws)))) buf"
      using n Cons.prems(3) by (simp add: b_def j add_ac)
    finally show ?thesis using j by simp
  qed
qed

text \<open>
  An argument as long as the buffer: it passes the test, and the NUL goes behind the end.
\<close>

lemma getargs_overruns:
  assumes "0 \<notin> set w" "length buf = length w"
  shows "emu_getargs buf (int (length buf)) (start_emulation [prog, w] x) = Fault OutOfBounds"
proof -
  have "strcpy_to buf i (v @ [0]) = Fault OutOfBounds" if "0 \<notin> set v" "i + length v = length buf" for i v
    using that
  proof (induction v arbitrary: i buf)
    case (Cons c v)
    then show ?case using Cons.IH[of "Suc i" "buf[i := c]"] by simp
  qed simp
  then have "strcpy_to buf 0 (w @ [0]) = Fault OutOfBounds" using assms by simp
  then show ?thesis
    using assms cstr_append_nul[of w "[]"] by (simp add: emu_getargs_def start_emulation_def ece391_strlen_cstr)
qed

section \<open>The same arguments as on the kernel\<close>

text \<open>Words that are separated by single spaces.\<close>

definition plain_word :: "u8 list \<Rightarrow> bool" where
  "plain_word w \<longleftrightarrow> w \<noteq> [] \<and> list_all (\<lambda>c. c \<noteq> 0 \<and> c \<noteq> SPACE \<and> c \<noteq> NEWLINE) w"

definition command_of :: "u8 list \<Rightarrow> u8 list list \<Rightarrow> u8 list" where
  "command_of prog ws = joined (prog # ws) @ [0]"

lemma plain_wordD: "plain_word w \<Longrightarrow> c \<in> set w \<Longrightarrow> c \<noteq> 0 \<and> c \<noteq> SPACE \<and> c \<noteq> NEWLINE"
  by (simp add: plain_word_def list_all_iff)

lemma word_of_plain: "plain_word w \<Longrightarrow> word_of w = w" "plain_word w \<Longrightarrow> word_of (w @ SPACE # r) = w"
  unfolding plain_word_def word_of_def by (auto simp: list_all_iff)

lemma words_of_joined: "list_all plain_word ws \<Longrightarrow> words_of (joined ws) = ws"
proof (induction ws rule: joined.induct)
  case 1
  then show ?case by (subst words_of.simps) (simp add: skip_spaces_def)
next
  case (2 w)
  have "words_of [] = []" by (subst words_of.simps) (simp add: skip_spaces_def)
  then show ?case
    using 2 word_of_plain(1)[of w] by (subst words_of.simps) (cases w; auto simp: skip_spaces_def plain_word_def Let_def)
next
  case (3 w v vs)
  then have w: "plain_word w" "skip_spaces (w @ SPACE # joined (v # vs)) = w @ SPACE # joined (v # vs)"
    by (cases w; auto simp: skip_spaces_def plain_word_def)+
  have "hd (w @ SPACE # joined (v # vs)) \<noteq> NEWLINE" using w(1) by (cases w) (auto simp: plain_word_def)
  then show ?case
    using 3 word_of_plain(2)[OF w(1)] w(2) by (subst words_of.simps) (simp add: Let_def)
qed

lemma joined_no_break: "list_all plain_word ws \<Longrightarrow> \<forall>c \<in> set (joined ws). c \<noteq> 0 \<and> c \<noteq> NEWLINE"
  by (induction ws rule: joined.induct) (auto dest: plain_wordD)

lemma takeWhile_plain:
  "plain_word w \<Longrightarrow> dropWhile (\<lambda>c. c \<noteq> SPACE \<and> c \<noteq> 0 \<and> c \<noteq> NEWLINE) (w @ c # r) =
     dropWhile (\<lambda>c. c \<noteq> SPACE \<and> c \<noteq> 0 \<and> c \<noteq> NEWLINE) (c # r)"
  unfolding plain_word_def by (subst dropWhile_append2) (auto simp: list_all_iff)

lemma kernel_arg_text:
  assumes "plain_word prog" "list_all plain_word ws"
  shows "arg_text (skip_spaces (command_of prog ws)) = joined ws"
proof -
  have "skip_spaces (prog @ r) = prog @ r" for r
    using assms(1) by (cases prog) (auto simp: skip_spaces_def plain_word_def)
  then have s: "skip_spaces (command_of prog ws) = command_of prog ws"
    by (cases ws) (simp_all add: command_of_def)
  show ?thesis
  proof (cases "ws = []")
    case True
    then show ?thesis
      unfolding s using assms(1) by (simp add: command_of_def arg_text_def takeWhile_plain) (simp add: skip_spaces_def)
  next
    case False
    have n: "\<forall>c \<in> set (joined ws). c \<noteq> 0 \<and> c \<noteq> NEWLINE" by (rule joined_no_break[OF assms(2)])
    obtain w vs where ws: "ws = w # vs" using False by (cases ws) auto
    have "skip_spaces (SPACE # joined ws @ [0]) = joined ws @ [0]"
      using assms(2) unfolding ws by (cases w; cases vs) (auto simp: skip_spaces_def plain_word_def)
    then show ?thesis
      unfolding s using assms(1) n False
      by (simp add: command_of_def arg_text_def takeWhile_plain joined_Cons takeWhile_append)
  qed
qed

lemma emulated_args:
  assumes "plain_word prog" "list_all plain_word ws" "length (command_of prog ws) \<le> 1024" "length junk = 1026"
  shows "\<exists>buf args. build_args junk (command_of prog ws) = Done (buf, args) \<and>
    strings_at buf args = (chars ''./'' @ prog) # ws"
    and "length (joined ws) < n \<Longrightarrow> n \<le> length out \<Longrightarrow>
      emu_getargs out (int n) (start_emulation (p # ws) x) =
        Done (0, joined ws @ 0 # drop (Suc (length (joined ws))) out, start_emulation (p # ws) x)"
proof -
  have all: "list_all plain_word (prog # ws)" using assms(1,2) by simp
  then have c: "cstr (command_of prog ws) = joined (prog # ws)"
    unfolding command_of_def using joined_no_break[OF all] by (intro cstr_append_nul) auto
  have z: "0 \<in> set (command_of prog ws)" by (simp add: command_of_def)
  have l: "length (cstr (command_of prog ws)) \<le> 1023" unfolding c using assms(3) by (simp add: command_of_def)
  have w: "word_of (joined (prog # ws)) = prog"
    using word_of_plain[OF assms(1)] by (cases ws) simp_all
  have d: "drop (Suc (length prog)) (joined (prog # ws)) = joined ws" by (cases ws) simp_all
  show "\<exists>buf args. build_args junk (command_of prog ws) = Done (buf, args) \<and>
      strings_at buf args = (chars ''./'' @ prog) # ws"
    using build_args_words[OF z l assms(4)] words_of_joined[OF assms(2)] unfolding c w d by auto
  have "\<forall>w \<in> set ws. 0 \<notin> set w" using assms(2) by (auto simp: list_all_iff plain_word_def)
  then show "length (joined ws) < n \<Longrightarrow> n \<le> length out \<Longrightarrow>
      emu_getargs out (int n) (start_emulation (p # ws) x) =
        Done (0, joined ws @ 0 # drop (Suc (length (joined ws))) out, start_emulation (p # ws) x)"
    using join_args_eq[of ws n 0 out] by (simp add: emu_getargs_def start_emulation_def)
qed

section \<open>Reading a directory\<close>

text \<open>What a read of a directory gives: the name, filled up with zeros to 32 bytes.\<close>

definition name_field :: "u8 list \<Rightarrow> u8 list" where
  "name_field name = take 32 (name @ replicate 32 0)"

lemma length_name_field [simp]: "length (name_field name) = 32"
  by (simp add: name_field_def)

lemma pad_name_eq:
  assumes "copied \<le> m" "m = nat (min nbytes 32)" "m \<le> length buf"
  shows "pad_name buf copied nbytes = Done (int m, take copied buf @ replicate (m - copied) 0 @ drop m buf)"
  using assms
proof (induction buf copied nbytes rule: pad_name.induct)
  case (1 buf copied nbytes)
  show ?case
  proof (cases "copied < m")
    case True
    then have c: "nbytes > int copied \<and> 32 > copied" "\<not> length buf \<le> copied" using 1(3,4) by auto
    have "pad_name buf copied nbytes = pad_name (buf[copied := 0]) (Suc copied) nbytes"
      using c by (subst pad_name.simps) simp
    also have "\<dots> = Done (int m, take (Suc copied) (buf[copied := 0]) @ replicate (m - Suc copied) 0 @
        drop m (buf[copied := 0]))"
      using 1(1)[OF c] 1(3,4) True by simp
    also have "take (Suc copied) (buf[copied := 0]) = take copied buf @ [0]"
      using c(2) by (simp add: take_Suc_conv_app_nth)
    also have "drop m (buf[copied := 0]) = drop m buf" using True by simp
    also have "(take copied buf @ [0]) @ replicate (m - Suc copied) 0 @ drop m buf =
        take copied buf @ replicate (m - copied) 0 @ drop m buf"
      using True by (simp flip: replicate_Suc add: Suc_diff_Suc)
    finally show ?thesis .
  next
    case False
    then have "\<not> (nbytes > int copied \<and> 32 > copied)" "copied = m" using 1(2,3) by auto
    then show ?thesis using 1(4) by (subst pad_name.simps) auto
  qed
qed

lemma copy_name_eq:
  assumes "0 \<notin> set name" "copied < m" "m = nat (min nbytes 32)" "m \<le> length buf"
  shows "copy_name (name @ [0]) buf copied nbytes =
    Done (int m, take copied buf @ take (m - copied) (name @ replicate 32 0) @ drop m buf)"
  using assms
proof (induction name arbitrary: buf copied)
  case Nil
  have m: "m - copied \<le> 32" using Nil.prems(3) by simp
  have "pad_name buf copied nbytes = Done (int m, take copied buf @ replicate (m - copied) 0 @ drop m buf)"
    by (rule pad_name_eq) (use Nil.prems in simp_all)
  then show ?case using m by (simp add: min.absorb1)
next
  case (Cons c name)
  let ?b = "buf[copied := c]"
  have c: "c \<noteq> 0" "0 \<notin> set name" "\<not> length buf \<le> copied" using Cons.prems by auto
  have b: "take (Suc copied) ?b = take copied buf @ [c]" "drop m ?b = drop m buf"
    using c(3) Cons.prems(2) by (simp_all add: take_Suc_conv_app_nth)
  have m: "int m = min nbytes 32" using Cons.prems(2,3) by simp
  show ?case
  proof (cases "Suc copied = m")
    case True
    then have "copy_name ((c # name) @ [0]) buf copied nbytes = Done (int m, ?b)"
      using c m by (auto simp: min_def split: if_splits)
    moreover have "?b = take copied buf @ take (m - copied) ((c # name) @ replicate 32 0) @ drop m buf"
      using b True by (metis Cons_eq_appendI Suc_diff_le append_take_drop_id diff_self_eq_0 order_refl take0 take_Suc_Cons append_Nil append.assoc)
    ultimately show ?thesis by simp
  next
    case False
    then have l: "Suc copied < m" "int (Suc copied) \<noteq> nbytes" "Suc copied \<noteq> 32" using Cons.prems(2) m by auto
    then have "copy_name ((c # name) @ [0]) buf copied nbytes = copy_name (name @ [0]) ?b (Suc copied) nbytes"
      using c by simp
    also have "\<dots> = Done (int m, take (Suc copied) ?b @ take (m - Suc copied) (name @ replicate 32 0) @ drop m ?b)"
      by (rule Cons.IH[OF c(2) l(1) Cons.prems(3)]) (use Cons.prems(4) in simp)
    finally show ?thesis unfolding b using l(1) by (simp add: Suc_diff_Suc[symmetric])
  qed
qed

text \<open>
  What \<open>ls\<close> relies on.  Writing to descriptor 1 writes everything and shows it on \<open>view\<close>, and
  leaves the open directory \<open>d\<close> alone; \<open>readdir\<close> gives the names that are left of \<open>d\<close> in turn.
\<close>

definition writes_shown :: "('w, 'd) linux \<Rightarrow> ('w \<Rightarrow> 'v) \<Rightarrow> (u8 \<Rightarrow> 'v \<Rightarrow> 'v) \<Rightarrow> ('w \<Rightarrow> u8 list list) \<Rightarrow> bool" where
  "writes_shown L view emit names \<longleftrightarrow> (\<forall>buf n w. n \<le> length buf \<longrightarrow> (\<exists>w'. l_write_call L 1 buf (int n) w = (of_nat n, w') \<and>
     view w' = fold emit (take n buf) (view w) \<and> names w' = names w))"

definition names_given :: "('w, 'd) linux \<Rightarrow> 'd \<Rightarrow> ('w \<Rightarrow> 'v) \<Rightarrow> ('w \<Rightarrow> u8 list list) \<Rightarrow> bool" where
  "names_given L d view names \<longleftrightarrow> (\<forall>w. \<exists>w'. l_readdir L d w = (case names w of [] \<Rightarrow> None | x # xs \<Rightarrow> Some (x @ [0]), w') \<and>
     names w' = tl (names w) \<and> view w' = view w)"

lemma writes_shownD:
  "writes_shown L view emit names \<Longrightarrow> n \<le> length buf \<Longrightarrow> \<exists>w'. l_write_call L 1 buf (int n) w = (of_nat n, w') \<and>
     view w' = fold emit (take n buf) (view w) \<and> names w' = names w"
  by (simp add: writes_shown_def)

lemma names_givenD:
  "names_given L d view names \<Longrightarrow> \<exists>w'. l_readdir L d w = (case names w of [] \<Rightarrow> None | x # xs \<Rightarrow> Some (x @ [0]), w') \<and>
     names w' = tl (names w) \<and> view w' = view w"
  by (simp add: names_given_def)

definition directory_open :: "('w, 'd) linux \<Rightarrow> int \<Rightarrow> 'd \<Rightarrow> ('w \<Rightarrow> 'v) \<Rightarrow> (u8 \<Rightarrow> 'v \<Rightarrow> 'v) \<Rightarrow> ('w \<Rightarrow> u8 list list) \<Rightarrow>
    ('w, 'd) emulation \<Rightarrow> bool" where
  "directory_open L fd d view emit names e \<longleftrightarrow>
     writes_shown L view emit names \<and> names_given L d view names \<and> fd \<noteq> 1 \<and> dir_fd e = fd \<and> emu_dir e = Some d \<and>
     (\<forall>x \<in> set (names (world e)). 0 \<notin> set x)"

lemma call_result_nat: "n \<le> 2048 \<Longrightarrow> call_result (of_nat n) = int n"
  unfolding call_result_def
  by (subst sint_u32) (auto simp: word_le_nat_alt unat_of_nat take_bit_nat_eq_self)

lemma emu_sys_simps [simp]:
  "sread (emu_sys L junk status S) = emu_read L" "swrite (emu_sys L junk status S) = emu_write L"
  "sopen (emu_sys L junk status S) = emu_open L" "sclose (emu_sys L junk status S) = emu_close L"
  "sgetargs (emu_sys L junk status S) = emu_getargs" "sexecute (emu_sys L junk status S) = emu_execute L junk status"
  by (simp_all add: emu_sys_def)

lemma emu_write_out:
  assumes e: "directory_open L fd d view emit names e" and n: "n \<le> length buf" "length buf \<le> 2048"
  shows "\<exists>e'. emu_write L 1 buf (int n) e = Done (int n, e') \<and> directory_open L fd d view emit names e' \<and>
    view (world e') = fold emit (take n buf) (view (world e)) \<and> names (world e') = names (world e)"
proof -
  obtain w' where w: "l_write_call L 1 buf (int n) (world e) = (of_nat n, w')"
    "view w' = fold emit (take n buf) (view (world e))" "names w' = names (world e)"
    using e writes_shownD[of L view emit names n buf "world e"] n(1) by (auto simp: directory_open_def)
  then show ?thesis
    using e call_result_nat[of n] n by (auto simp: emu_write_def directory_open_def)
qed

lemma emu_read_name:
  assumes e: "directory_open L fd d view emit names e" and x: "names (world e) = x # xs" and l: "32 \<le> length buf"
  shows "\<exists>e'. emu_read L fd buf 32 e = Done (32, name_field x @ drop 32 buf, e') \<and>
    directory_open L fd d view emit names e' \<and> view (world e') = view (world e) \<and> names (world e') = xs"
proof -
  obtain w' where w: "l_readdir L d (world e) = (Some (x @ [0]), w')" "names w' = xs" "view w' = view (world e)"
    using e x names_givenD[of L d view names "world e"] by (auto simp: directory_open_def)
  have z: "0 \<notin> set x" using e x by (simp add: directory_open_def)
  have "copy_name (x @ [0]) buf 0 32 = Done (int 32, take 0 buf @ take (32 - 0) (x @ replicate 32 0) @ drop 32 buf)"
    by (rule copy_name_eq[OF z]) (use l in simp_all)
  then have c: "copy_name (x @ [0]) buf 0 32 = Done (32, name_field x @ drop 32 buf)"
    by (simp only: name_field_def diff_zero take_0 append_Nil of_nat_numeral)
  have "emu_read L fd buf 32 e = Done (32, name_field x @ drop 32 buf, e\<lparr>world := w'\<rparr>)"
    using e w(1) c by (simp add: emu_read_def directory_open_def)
  moreover have "directory_open L fd d view emit names (e\<lparr>world := w'\<rparr>)"
    using e x w(2) by (simp add: directory_open_def)
  ultimately show ?thesis using w(2,3) by (intro exI[of _ "e\<lparr>world := w'\<rparr>"]) simp
qed

interpretation emu_pipe: pipe "emu_sys L junk status S" "directory_open L fd d view emit names"
    "\<lambda>e. view (world e)" emit "\<lambda>c. True" 2048 fd 32 "\<lambda>e. map name_field (names (world e))"
  for L junk status S fd d view emit names
proof unfold_locales
  fix e :: "('a, 'b) emulation" and m and buf :: "u8 list"
  assume a: "directory_open L fd d view emit names e" "m \<le> length buf" "length buf \<le> 2048"
  obtain e' where e': "emu_write L 1 buf (int m) e = Done (int m, e')" "directory_open L fd d view emit names e'"
    "view (world e') = fold emit (take m buf) (view (world e))" "names (world e') = names (world e)"
    using emu_write_out[OF a] by blast
  then show "\<exists>r s'. swrite (emu_sys L junk status S) 1 buf (int m) e = Done (r, s') \<and> (0 < m \<longrightarrow> r \<noteq> -1) \<and>
      directory_open L fd d view emit names s' \<and> view (world s') = fold emit (take m buf) (view (world e))"
    by auto
  fix r y
  assume "swrite (emu_sys L junk status S) 1 buf (int m) e = Done (r, y)"
  then show "map name_field (names (world y)) = map name_field (names (world e))" using e'(1,4) by simp
next
  fix e :: "('a, 'b) emulation" and c
  assume "c \<in> set (map name_field (names (world e)))"
  then have "length c = 32" by auto
  then show "c \<noteq> [] \<and> length c \<le> 32" by auto
next
  fix e :: "('a, 'b) emulation" and c cs and buf :: "u8 list"
  assume a: "directory_open L fd d view emit names e" "map name_field (names (world e)) = c # cs"
    "32 \<le> length buf" "length buf \<le> 2048"
  then obtain x xs where x: "names (world e) = x # xs" "c = name_field x" "cs = map name_field xs" by auto
  from emu_read_name[OF a(1) x(1) a(3)]
  show "\<exists>rest s'. sread (emu_sys L junk status S) fd buf (int 32) e = Done (int (length c), c @ rest, s') \<and>
      length (c @ rest) = length buf \<and> directory_open L fd d view emit names s' \<and> view (world s') = view (world e) \<and>
      map name_field (names (world s')) = cs"
    using a(3) x(2,3) by fastforce
next
  fix e :: "('a, 'b) emulation" and m and buf :: "u8 list"
  assume a: "directory_open L fd d view emit names e" "map name_field (names (world e)) = []"
  obtain w' where w: "l_readdir L d (world e) = (None, w')" "names w' = []" "view w' = view (world e)"
    using a names_givenD[of L d view names "world e"] by (auto simp: directory_open_def)
  then show "\<exists>buf' s'. sread (emu_sys L junk status S) fd buf (int m) e = Done (0, buf', s') \<and> length buf' = length buf \<and>
      directory_open L fd d view emit names s' \<and> view (world s') = view (world e)"
    using a by (auto simp: emu_read_def directory_open_def)
qed

lemma emulated_ls:
  assumes "writes_shown L view emit names" "names_given L d view names"
    and o: "l_opendir L (c_lit ''.'') w = (Some d, w1)" "l_open L (c_lit ''/dev/null'') w1 = (fd, w2)" "fd \<noteq> -1" "fd \<noteq> 1"
    and n: "\<forall>x \<in> set (names w2). 0 \<notin> set x" and b: "length buf = 33"
  shows "\<exists>e'. ls_main (emu_sys L junk status S) buf (start_emulation args w) = Some (Done (0, e')) \<and>
    view (world e') = fold emit (concat (map (\<lambda>x. name_field x @ [10]) (names w2))) (view w2)"
proof -
  let ?e = "(start_emulation args w)\<lparr>emu_dir := Some d, dir_fd := fd, world := w2\<rparr>"
  have op: "emu_open L (c_lit ''.'') (start_emulation args w) = Done (fd, ?e)"
    using o(1,2) by (simp add: emu_open_def c_lit_def chars_def start_emulation_def)
  have e: "directory_open L fd d view emit names ?e" using assms(1,2) o(4) n by (simp add: directory_open_def)
  obtain e' where e': "ls_loop (emu_sys L junk status S) fd buf ?e = Some (Done (0, e'))"
    "view (world e') = fold emit (concat (map (\<lambda>c. c @ [10]) (map name_field (names (world ?e))))) (view (world ?e))"
    using emu_pipe.ls_prints[OF refl e b, of junk status S] by (auto simp: list_all_iff)
  then show ?thesis using op o(3) by (simp add: ls_main_def comp_def)
qed

section \<open>An example\<close>

text \<open>A Linux whose state is what was printed and the names left in its only directory.\<close>

definition sample_linux :: "(u8 list \<times> u8 list list, unit) linux" where
  "sample_linux =
     \<lparr>l_opendir = \<lambda>name w. (Some (), w),
      l_readdir = \<lambda>d (shown, names).
        ((case names of [] \<Rightarrow> None | x # xs \<Rightarrow> Some (x @ [0])), (shown, tl names)),
      l_closedir = \<lambda>d w. w, l_open = \<lambda>name w. (3, w), l_close = \<lambda>fd w. w,
      l_mmap = \<lambda>fd w. (None, w), l_fork = \<lambda>w. (False, w), l_execv = \<lambda>path args w. (None, w),
      l_open_call = \<lambda>name w. (0xFFFFFFFE, w), l_read_call = \<lambda>fd buf n w. (0, buf, w),
      l_write_call = \<lambda>fd buf n (shown, names). (word_of_int n, (shown @ take (nat n) buf, names)),
      l_close_call = \<lambda>fd w. (0, w)\<rparr>"

lemma fold_snoc: "fold (\<lambda>c v. v @ [c]) cs v = v @ cs"
  by (induction cs arbitrary: v) simp_all

lemma sample_linux_laws:
  "writes_shown sample_linux fst (\<lambda>c v. v @ [c]) snd" "names_given sample_linux () fst snd"
  by (auto simp: writes_shown_def names_given_def sample_linux_def fold_snoc)

end
