(* ===== verification/Emulate_Kernel.thy ===== *)
theory Emulate_Kernel
  imports Emulate_Runs Loading
begin

text \<open>
  The kernel's side of the comparison with the emulation: what \<open>execute_call\<close> and the \<open>getargs_call\<close>
  of the program that it starts make of a command of plain words.
\<close>

lemma entered_arguments:
  assumes "entered s p parent arg esp ebp k" "0 \<notin> set arg"
  shows "cstr (terminal_cmd (pcbs k (cur_pcb_addr k))) = arg" "0 \<in> set (terminal_cmd (pcbs k (cur_pcb_addr k)))"
    and "0x8000000 \<le> va \<Longrightarrow> va + n \<le> 0x8400000 \<Longrightarrow> in_user k va n"
proof -
  have "pid (active_term k) = p" using assms(1) by (simp add: entered_def)
  then have "cur_pcb_addr k = pcb_of p" by (simp add: cur_pcb_addr_def pcb_of_def get_pcb_blk_addr)
  then have "\<exists>rest. terminal_cmd (pcbs k (cur_pcb_addr k)) = arg @ 0 # rest"
    using assms(1) by (simp add: entered_def started_pcb_def)
  then obtain rest where c: "terminal_cmd (pcbs k (cur_pcb_addr k)) = arg @ 0 # rest" by blast
  show "cstr (terminal_cmd (pcbs k (cur_pcb_addr k))) = arg" "0 \<in> set (terminal_cmd (pcbs k (cur_pcb_addr k)))"
    using assms(2) by (simp_all add: c cstr_append_nul)
  have "page_directory k 32 = user_pde (word_of_int p)" using assms(1) by (simp add: entered_def)
  then show "0x8000000 \<le> va \<Longrightarrow> va + n \<le> 0x8400000 \<Longrightarrow> in_user k va n"
    by (simp add: in_user_def user_pde_def bit_or_iff)
qed

lemma kernel_arguments:
  assumes p: "plain_word prog" "list_all plain_word ws" "ws \<noteq> []"
    and np: "names_program s (command_of prog ws) inode" "has_pid s" "init_flag (active_term s) = 1"
    and n: "length (joined ws) < n" "0x8000000 \<le> va" "va + n \<le> 0x8400000"
  obtains e k k' where "execute_call (command_of prog ws) esp ebp s = Done (Enter_user e USER_STACK, k)"
    "getargs_call va (int n) k = Done (0, k')"
    "copy_in va n k' = Done (joined ws @ replicate (n - length (joined ws)) 0)"
proof -
  note arg = kernel_arg_text[OF p(1,2)]
  obtain e k where ex: "execute_call (command_of prog ws) esp ebp s = Done (Enter_user e USER_STACK, k)"
    using execute_loads[OF np(1,2)] by blast
  obtain i where en: "entered s (int i) (pid (active_term s)) (joined ws) esp ebp k"
    using execute_call_enters[OF ex] np(3) unfolding arg by (auto simp: runs_shell_def)
  have nz: "0 \<notin> set (joined ws)" using joined_no_break[OF p(2)] by auto
  have ne: "joined ws \<noteq> []" using p(2,3) by (cases ws rule: joined.cases) (auto simp: plain_word_def)
  note a = entered_arguments[OF en nz]
  have "in_user k va (nat (int n))" using a(3) n(2,3) by simp
  from getargs_correct[OF _ _ this a(2)] obtain k' where
    "getargs_call va (int n) k = Done (if joined ws = [] then -1 else 0, k')"
    "copy_in va n k' = Done (take n (joined ws) @ replicate (n - length (joined ws)) 0)"
    using n(1,2) unfolding a(1) by auto
  then show thesis using that[OF ex] ne n(1) by simp
qed

end
