(* ===== verification/Sample_Users.thy ===== *)
theory Sample_Users
  imports User_Shell User_Tests Fish_Kernel
begin

text \<open>
  A concrete kernel for the programs: the directory \<open>.\<close> and the file \<open>notes\<close> of eight bytes, and a
  process on terminal 0 with \<open>notes\<close> as its argument.
\<close>

definition notes_image :: mem where
  "notes_image a =
     (if a = 4 then 2 else if a = 8 then 1
      else if a = 64 then 46 else if a = 96 then 1
      else if a = 128 then 110 else if a = 129 then 111 else if a = 130 then 116
      else if a = 131 then 101 else if a = 132 then 115
      else if a = 160 then 2 else if a = 164 then 1
      else if a = 8192 then 8
      else if a = 12288 then 111 else if a = 12289 then 110 else if a = 12290 then 101
      else if a = 12291 then 10 else if a = 12292 then 116 else if a = 12293 then 119
      else if a = 12294 then 111 else if a = 12295 then 10
      else 0)"

definition notes_kernel :: kernel where
  "notes_kernel = upd_pcb (cur_pcb_addr sample_kernel)
     (\<lambda>p. p\<lparr>terminal_cmd := chars ''notes'' @ replicate 123 0\<rparr>) (sample_kernel\<lparr>fs := notes_image\<rparr>)"

definition notes_user :: user_side where
  "notes_user = \<lparr>buffer_at = 0x8000000, user_esp = 0, user_ebp = 0, other_regs = (0, 0, 0),
     child = \<lambda>start stack s. Done (0, s)\<rparr>"

lemma notes_state [simp]:
  "fs notes_kernel = notes_image" "inodesCount notes_kernel = 2" "data_count_blk notes_kernel = 1"
  "stack_junk notes_kernel = (\<lambda>a. 0)" "terminal notes_kernel = shell_term"
  "active_terminal notes_kernel = 0" "displayed_terminal notes_kernel = 0"
  "page_directory notes_kernel 32 = user_pde 0" "curr_pid notes_kernel = 0" "internalCounter notes_kernel = 0"
  "control_key notes_kernel = 0" "alt_key notes_kernel = 0" "shift_key notes_kernel = 0" "caps notes_kernel = 0"
  "cur_pcb_addr notes_kernel = cur_pcb_addr sample_kernel" "buffer_at notes_user = 0x8000000"
  by (simp_all add: notes_kernel_def upd_pcb_def cur_pcb_addr_def notes_user_def)

lemma notes_pcb: "pcbs notes_kernel (cur_pcb_addr sample_kernel) =
    (shell_pcb 0)\<lparr>terminal_cmd := chars ''notes'' @ replicate 123 0\<rparr>"
  using sample_cur_pcb by (simp add: notes_kernel_def upd_pcb_def)

lemma notes_fd: "cur_fd fd notes_kernel = fresh_files (nat fd) blank_fd"
  by (simp add: cur_fd_def notes_pcb shell_pcb_def)

lemma notes_serves: "serves notes_user 0 notes_kernel"
proof -
  have "console_ok 0 notes_kernel" by (simp add: console_ok_def)
  moreover have "\<exists>p<6. user_pde 0 = user_pde p" by (rule exI[of _ 0]) simp
  ultimately show ?thesis by (simp add: serves_def notes_pcb notes_fd shell_pcb_def fresh_files_def)
qed

lemma notes_free: "2 \<le> i \<Longrightarrow> i < 8 \<Longrightarrow> free_fd notes_kernel i"
  by (simp add: free_fd_def notes_fd fresh_files_def blank_fd_def)

lemma notes_slots: "find (free_fd notes_kernel) [2..<8] = Some 2" "open_fds notes_kernel = {}"
  using notes_free by (auto simp: open_fds_def)

section \<open>The names\<close>

lemma notes_entries:
  "cstr (filename (dentry_at notes_image 0)) = chars ''.''"
  "cstr (filename (dentry_at notes_image (Suc 0))) = chars ''notes''"
  "2 \<le> i \<Longrightarrow> i < 64 \<Longrightarrow> cstr (filename (dentry_at notes_image i)) = []"
proof -
  show "cstr (filename (dentry_at notes_image 0)) = chars ''.''"
    "cstr (filename (dentry_at notes_image (Suc 0))) = chars ''notes''"
    by (simp_all add: dentry_at_def dentry_off_def load_def notes_image_def chars_def)
  show "cstr (filename (dentry_at notes_image i)) = []" if "2 \<le> i" "i < 64"
  proof -
    have "notes_image (64 + 64 * i) = 0" using that by (simp add: notes_image_def)
    then show ?thesis by (simp add: dentry_at_def dentry_off_def load_def upt_conv_Cons)
  qed
qed

lemma notes_named:
  assumes "cstr name \<noteq> []"
  shows "dentries_named notes_image name =
    (if cstr name = chars ''.'' then [0] else if cstr name = chars ''notes'' then [1] else [])"
proof -
  have "filter (entry_named notes_image name) [2..<64] = []"
    using assms notes_entries(3) by (auto simp: filter_empty_conv entry_named_def)
  moreover have "[0..<64] = 0 # 1 # [2..<64::nat]" by (simp add: upt_conv_Cons)
  ultimately show ?thesis
    using notes_entries(1,2)
    by (auto simp: dentries_named_def entry_named_def chars_def simp del: upt_rec_numeral)
qed

lemma notes_dot:
  "has_file notes_kernel (c_lit ''.'')" "filetype (file_dentry notes_kernel (c_lit ''.'')) = 1"
proof -
  have c: "cstr (c_lit ''.'') = chars ''.''" by (simp add: c_lit_def chars_def)
  then have n: "dentries_named notes_image (c_lit ''.'') = [0]" using notes_named[of "c_lit ''.''"] by (simp add: chars_def)
  show "has_file notes_kernel (c_lit ''.'')" using n c by (simp add: has_file_def chars_def c_lit_def)
  show "filetype (file_dentry notes_kernel (c_lit ''.'')) = 1"
    using n by (simp add: file_dentry_def dentry_at_def dentry_off_def rd32_def notes_image_def)
qed

lemma notes_missing: "dentries_named notes_image (c_lit ''helloo'') = []" "dentries_named notes_image (c_lit ''shel'') = []"
  by (simp_all add: notes_named c_lit_def chars_def)

lemma notes_ready: "tests_ready notes_user 0 notes_kernel"
proof -
  have "free_fd notes_kernel i" if "2 \<le> i" "i < 8" for i using that notes_slots(2) by (auto simp: open_fds_def)
  then show ?thesis
    using notes_serves notes_dot notes_missing by (simp add: tests_ready_def notes_fd fresh_files_def)
qed

section \<open>The file\<close>

lemma notes_words: "inode_length notes_image 1 = 8" "NumDataBlk notes_image 1 0 = 0"
  by (simp_all add: inode_length_def NumDataBlk_def rd32_def inode_off_def notes_image_def)

lemma notes_verylarge: "verylarge_inode notes_kernel = 0"
proof -
  have "dentries_named notes_image (c_lit ''verylargetextwithverylongname.tx'') = []"
    by (simp add: notes_named c_lit_def chars_def)
  then show ?thesis
    using read_dentry_by_name_eq[of "c_lit ''verylargetextwithverylongname.tx''" notes_kernel]
    by (simp add: verylarge_inode_def c_lit_def rd32_def)
qed

lemma notes_content: "file_content notes_kernel 1 = chars ''one'' @ [10] @ chars ''two'' @ [10]"
proof -
  have "[0..<8] = [0, 1, 2, 3, 4, 5, 6, 7::nat]" by (simp add: upt_conv_Cons)
  moreover have "file_byte notes_kernel 1 k = notes_image (12288 + k)" if "k < 8" for k
    using that by (simp add: file_byte_def notes_words data_off_def)
  ultimately show ?thesis by (simp add: file_content_def notes_words notes_image_def chars_def)
qed

lemma notes_names: "names_file notes_kernel (c_lit ''notes'') 1"
proof -
  have c: "cstr (c_lit ''notes'') = chars ''notes''" by (simp add: c_lit_def chars_def)
  then have n: "dentries_named notes_image (c_lit ''notes'') = [1]" using notes_named[of "c_lit ''notes''"] by (simp add: chars_def)
  have "has_file notes_kernel (c_lit ''notes'')" using n c by (simp add: has_file_def chars_def c_lit_def)
  moreover have "filetype (file_dentry notes_kernel (c_lit ''notes'')) = 2"
    "dentry_inode (file_dentry notes_kernel (c_lit ''notes'')) = 1"
    using n by (simp_all add: file_dentry_def dentry_at_def dentry_off_def rd32_def notes_image_def)
  moreover have "readable notes_kernel 1 0 1032" by (simp add: readable_def block_ok_def notes_words)
  ultimately show ?thesis by (simp add: names_file_def notes_verylarge notes_words word_le_nat_alt)
qed

lemma notes_args: "args_of notes_kernel = chars ''notes''" "0 \<in> set (terminal_cmd (pcbs notes_kernel (cur_pcb_addr notes_kernel)))"
proof -
  show "args_of notes_kernel = chars ''notes''"
    using cstr_append_nul[of "chars ''notes''" "replicate 122 0"]
    by (simp add: args_of_def notes_pcb replicate_Suc[symmetric] chars_def del: replicate_Suc)
  show "0 \<in> set (terminal_cmd (pcbs notes_kernel (cur_pcb_addr notes_kernel)))" by (simp add: notes_pcb)
qed

lemma notes_plain_names: "j < 17 \<Longrightarrow> BACKSPACE \<notin> set (filename (dentry_at notes_image j))"
  by (auto simp: dentry_at_def load_def notes_image_def dentry_off_def split: if_splits)

lemma notes_shell: "shell_ready notes_user 0 notes_kernel"
  using notes_serves by (simp add: shell_ready_def no_command_def notes_fd fresh_files_def)

section \<open>A command without a name\<close>

lemma byte_not_256: "uint (b :: u8) \<noteq> 256"
  using unsigned_less[of b, where ?'a = int] by simp

lemma execute_no_name:
  assumes "serves u t s"
  shows "\<exists>s'. kernel_execute u [0] s = Done (-1, s')"
proof -
  obtain x y name where x: "copy_out (buffer_at u) [0] s = Done x" "y = x\<lparr>if_flag := True\<rparr>"
    and us: "user_string (buffer_at u) y = Done name" and c: "cstr name = cstr [0]" "0 \<in> set name" "serves u t y"
    "side y = side s" "screen_of t y = screen_of t s" "internalCounter y = internalCounter s"
    by (rule string_argument[OF assms, of "[0]"]) simp_all
  obtain rest where n: "name = 0 # rest" using c(1,2) by (cases name) (auto simp: cstr_def split: if_splits)
  have "first_word (skip_spaces name) = []" by (simp add: n skip_spaces_def first_word_def)
  moreover have z: "cstr (zero_buffer []) = []" "0 \<in> set (zero_buffer [])" by (simp_all add: zero_buffer_def cstr_def eval_nat_numeral)
  ultimately have f: "find_program (skip_spaces name) v = Done (None, v)" for v
    using read_dentry_by_name_eq[of "zero_buffer []" v] by (simp add: find_program_def)
  have ex: "execute_call name a b y = Done (Return (-1), exec_begin y)" for a b
    by (simp add: execute_call_unfold f strlen_cstr c(1,2) cstr_def)
  show ?thesis
    using us unat_at[OF assms] by (simp add: kernel_execute_def x(1) syscall_entry_def cli_def sti_def x(2)[symmetric] do_syscall_in_C_def ex)
qed

end
