(* ===== verification/Sample_Session.thy ===== *)
theory Sample_Session
  imports Sample_Users User_Session
begin

text \<open>
  A kernel whose image has the directory, the file \<open>notes\<close> and the executables \<open>cat\<close> and \<open>ls\<close>, with
  a shell on terminal 0: the hypotheses of a session hold in it.
\<close>

section \<open>The image\<close>

text \<open>
  Four entries from 64 on, the inodes 1 to 3 from 8192 on, the data blocks 0 to 2 from 20480 on; the
  executables have 28 bytes and the entry addresses 1 and 2.
\<close>

definition tools_image :: mem where
  "tools_image a =
     (if a = 64 then 46 else if a = 96 then 1
      else if a = 128 then 110 else if a = 129 then 111 else if a = 130 then 116
      else if a = 131 then 101 else if a = 132 then 115 else if a = 160 then 2 else if a = 164 then 1
      else if a = 192 then 99 else if a = 193 then 97 else if a = 194 then 116
      else if a = 224 then 2 else if a = 228 then 2
      else if a = 256 then 108 else if a = 257 then 115 else if a = 288 then 2 else if a = 292 then 3
      else if a = 8192 then 8
      else if a = 12288 then 28 else if a = 12292 then 1
      else if a = 16384 then 28 else if a = 16388 then 2
      else if a = 20480 then 111 else if a = 20481 then 110 else if a = 20482 then 101 else if a = 20483 then 10
      else if a = 20484 then 116 else if a = 20485 then 119 else if a = 20486 then 111 else if a = 20487 then 10
      else if a = 24576 then 0x7F else if a = 24577 then 0x45 else if a = 24578 then 0x4C else if a = 24579 then 0x46
      else if a = 24600 then 1
      else if a = 28672 then 0x7F else if a = 28673 then 0x45 else if a = 28674 then 0x4C else if a = 28675 then 0x46
      else if a = 28696 then 2
      else 0)"

definition tools_kernel :: kernel where
  "tools_kernel = sample_kernel\<lparr>fs := tools_image, inodesCount := 4, data_count_blk := 3\<rparr>"

definition tools_user :: user_side where
  "tools_user = notes_user\<lparr>child := \<lambda>start stack.
     if start = 1 then start_main (cat_main (kernel_sys notes_user) (replicate 1024 0))
     else start_main (ls_main (kernel_sys notes_user) (replicate 33 0))\<rparr>"

lemma tools_state [simp]:
  "fs tools_kernel = tools_image" "inodesCount tools_kernel = 4" "data_count_blk tools_kernel = 3"
  "stack_junk tools_kernel = (\<lambda>a. 0)" "terminal tools_kernel = shell_term" "pcbs tools_kernel = pcbs sample_start"
  "active_terminal tools_kernel = 0" "displayed_terminal tools_kernel = 0" "pid_array tools_kernel = (\<lambda>i. 0)"
  "page_directory tools_kernel 32 = user_pde 0" "curr_pid tools_kernel = 0" "internalCounter tools_kernel = 0"
  "control_key tools_kernel = 0" "alt_key tools_kernel = 0" "shift_key tools_kernel = 0" "caps tools_kernel = 0"
  "cur_pcb_addr tools_kernel = cur_pcb_addr sample_kernel" "buffer_at tools_user = 0x8000000"
  by (simp_all add: tools_kernel_def cur_pcb_addr_def tools_user_def)

lemma tools_pcb: "pcbs sample_start (cur_pcb_addr sample_kernel) = shell_pcb 0"
  using sample_cur_pcb by simp

lemma tools_fd: "cur_fd fd tools_kernel = fresh_files (nat fd) blank_fd"
  by (simp add: cur_fd_def tools_pcb shell_pcb_def)

lemma tools_shell: "shell_ready tools_user 0 tools_kernel"
proof -
  have "console_ok 0 tools_kernel" by (simp add: console_ok_def)
  moreover have "\<exists>p<6. user_pde 0 = user_pde p" by (rule exI[of _ 0]) simp
  ultimately have "serves tools_user 0 tools_kernel"
    by (simp add: serves_def tools_pcb tools_fd) (simp add: shell_pcb_def fresh_files_def)
  then show ?thesis by (simp add: shell_ready_def no_command_def tools_fd fresh_files_def)
qed

lemma tools_proc_rel: "proc_rel tools_kernel sample_stacks"
  using sample_proc_rel proc_rel_core[of tools_kernel sample_kernel sample_stacks] by simp

section \<open>The names\<close>

lemma tools_entries:
  "cstr (filename (dentry_at tools_image 0)) = chars ''.''"
  "cstr (filename (dentry_at tools_image 1)) = chars ''notes''"
  "cstr (filename (dentry_at tools_image 2)) = chars ''cat''"
  "cstr (filename (dentry_at tools_image 3)) = chars ''ls''"
  "4 \<le> i \<Longrightarrow> i < 64 \<Longrightarrow> cstr (filename (dentry_at tools_image i)) = []"
proof -
  show "cstr (filename (dentry_at tools_image 0)) = chars ''.''"
    "cstr (filename (dentry_at tools_image 1)) = chars ''notes''"
    "cstr (filename (dentry_at tools_image 2)) = chars ''cat''"
    "cstr (filename (dentry_at tools_image 3)) = chars ''ls''"
    by (simp_all add: dentry_at_def dentry_off_def load_def tools_image_def chars_def)
  show "cstr (filename (dentry_at tools_image i)) = []" if "4 \<le> i" "i < 64"
  proof -
    have "tools_image (64 + 64 * i) = 0" using that by (simp add: tools_image_def)
    then show ?thesis by (simp add: dentry_at_def dentry_off_def load_def upt_conv_Cons)
  qed
qed

lemma tools_named:
  assumes "cstr name \<noteq> []"
  shows "dentries_named tools_image name =
    (if cstr name = chars ''.'' then [0] else if cstr name = chars ''notes'' then [1]
     else if cstr name = chars ''cat'' then [2] else if cstr name = chars ''ls'' then [3] else [])"
proof -
  have "filter (entry_named tools_image name) [4..<64] = []"
    using assms tools_entries(5) by (auto simp: filter_empty_conv entry_named_def)
  moreover have "[0..<64] = 0 # 1 # 2 # 3 # [4..<64::nat]" by (simp add: upt_conv_Cons)
  ultimately show ?thesis
    using tools_entries(1-4)
    by (auto simp: dentries_named_def entry_named_def chars_def simp del: upt_rec_numeral)
qed

lemma tools_file:
  assumes "cstr name = chars m" "0 \<in> set name" "m \<in> {''.'', ''notes'', ''cat'', ''ls''}"
  shows "has_file tools_kernel name"
    "file_dentry tools_kernel name = dentry_at tools_image (if m = ''.'' then 0 else if m = ''notes'' then 1 else if m = ''cat'' then 2 else 3)"
  using assms tools_named[of name] by (auto simp: has_file_def file_dentry_def chars_def)

lemma tools_dentries:
  "filetype (dentry_at tools_image 0) = 1" "filetype (dentry_at tools_image 1) = 2" "dentry_inode (dentry_at tools_image 1) = 1"
  "dentry_inode (dentry_at tools_image 2) = 2" "dentry_inode (dentry_at tools_image 3) = 3"
  by (simp_all add: dentry_at_def dentry_off_def rd32_def tools_image_def)

lemma tools_verylarge: "verylarge_inode tools_kernel = 0"
proof -
  have "dentries_named tools_image (c_lit ''verylargetextwithverylongname.tx'') = []"
    by (simp add: tools_named c_lit_def chars_def)
  then show ?thesis
    using read_dentry_by_name_eq[of "c_lit ''verylargetextwithverylongname.tx''" tools_kernel]
    by (simp add: verylarge_inode_def c_lit_def rd32_def)
qed

section \<open>The executables\<close>

lemma tools_words:
  "inode_length tools_image 1 = 8" "NumDataBlk tools_image 1 0 = 0"
  "inode_length tools_image 2 = 28" "NumDataBlk tools_image 2 0 = 1"
  "inode_length tools_image 3 = 28" "NumDataBlk tools_image 3 0 = 2"
  by (simp_all add: inode_length_def NumDataBlk_def rd32_def inode_off_def tools_image_def)

lemma tools_loadable: "loadable tools_kernel 2" "loadable tools_kernel 3"
  by (simp_all add: loadable_def tools_verylarge tools_words readable_def block_ok_def word_le_nat_alt)

lemma tools_bytes:
  "k < 4096 \<Longrightarrow> file_byte tools_kernel 1 k = tools_image (20480 + k)"
  "k < 4096 \<Longrightarrow> file_byte tools_kernel 2 k = tools_image (24576 + k)"
  "k < 4096 \<Longrightarrow> file_byte tools_kernel 3 k = tools_image (28672 + k)"
  by (simp_all add: file_byte_def tools_words data_off_def)

lemma tools_content:
  "file_content tools_kernel 1 = map (\<lambda>k. tools_image (20480 + k)) [0..<8]"
  "file_content tools_kernel 2 = map (\<lambda>k. tools_image (24576 + k)) [0..<28]"
  "file_content tools_kernel 3 = map (\<lambda>k. tools_image (28672 + k)) [0..<28]"
  using tools_bytes by (auto simp: file_content_def tools_words simp del: upt_rec_numeral)

lemma tools_magic:
  "take 4 (file_content tools_kernel 2) = elf_magic" "take 4 (file_content tools_kernel 3) = elf_magic"
  by (simp_all add: tools_content take_map take_upt elf_magic_def tools_image_def upt_conv_Cons)

lemma tools_entry:
  "elf_entry (file_content tools_kernel 2) = 1" "elf_entry (file_content tools_kernel 3) = 2"
  by (simp_all add: tools_content elf_entry_def rd32_def tools_image_def del: upt_rec_numeral)

lemma tools_notes: "file_content tools_kernel 1 = chars ''one'' @ [10] @ chars ''two'' @ [10]"
  by (simp add: tools_content tools_image_def chars_def upt_conv_Cons)

section \<open>The lines\<close>

lemma tools_words_of:
  "strlen (chars ''cat notes'' @ [0]) = Some 9" "strlen (chars ''ls'' @ [0]) = Some 2" "strlen (chars ''cat'' @ [0]) = Some 3"
  "first_word (skip_spaces (chars ''cat notes'' @ [0])) = chars ''cat''" "first_word (skip_spaces (chars ''ls'' @ [0])) = chars ''ls''"
  "first_word (skip_spaces (chars ''cat'' @ [0])) = chars ''cat''"
  "arg_text (skip_spaces (chars ''cat notes'' @ [0])) = chars ''notes''" "arg_text (skip_spaces (chars ''ls'' @ [0])) = []"
  "arg_text (skip_spaces (chars ''cat'' @ [0])) = []"
  "arg_text (skip_spaces (chars ''cat notes'')) = chars ''notes''" "arg_text (skip_spaces (chars ''ls'')) = []"
  "arg_text (skip_spaces (chars ''cat'')) = []"
  by (simp_all add: skip_spaces_def first_word_def arg_text_def chars_def)

lemma tools_program:
  assumes "m \<in> {''cat'', ''ls''}"
  shows "has_file tools_kernel (zero_buffer (chars m))"
    "dentry_inode (file_dentry tools_kernel (zero_buffer (chars m))) = (if m = ''cat'' then 2 else 3)"
proof -
  have "0 \<notin> set (chars m)" "length (chars m) \<le> 3" using assms by (auto simp: chars_def)
  then have "cstr (zero_buffer (chars m)) = chars m" "0 \<in> set (zero_buffer (chars m))"
    using cstr_append_nul[of "chars m" "replicate (1023 - length (chars m)) 0"]
    by (simp_all add: zero_buffer_def Suc_diff_le[symmetric] replicate_Suc[symmetric] del: replicate_Suc)
  note f = tools_file[OF this]
  show "has_file tools_kernel (zero_buffer (chars m))" by (rule f(1)) (use assms in auto)
  show "dentry_inode (file_dentry tools_kernel (zero_buffer (chars m))) = (if m = ''cat'' then 2 else 3)"
    using f(2) assms tools_dentries by auto
qed

lemma tools_commands:
  "names_program tools_kernel (chars ''cat notes'' @ [0]) 2" "names_program tools_kernel (chars ''cat'' @ [0]) 2"
  "names_program tools_kernel (chars ''ls'' @ [0]) 3" "\<not> names_program tools_kernel (chars ''ls'' @ [0]) 2"
  using tools_program[of "''cat''"] tools_program[of "''ls''"] tools_loadable tools_magic
  by (simp_all add: names_program_def tools_words_of Let_def del: upt_rec_numeral) (simp_all add: chars_def)

lemma tools_cat_names: "cstr (chars ''notes'' @ [0]) = chars ''notes''"
  by (simp add: chars_def)

lemma tools_cat_file:
  "names_file tools_kernel (chars ''notes'' @ [0]) 1" "dentry_inode (file_dentry tools_kernel (chars ''notes'' @ [0])) = 1"
  "\<not> missing_file (chars ''notes'') tools_kernel"
proof -
  note f = tools_file[OF tools_cat_names]
  show "names_file tools_kernel (chars ''notes'' @ [0]) 1" "dentry_inode (file_dentry tools_kernel (chars ''notes'' @ [0])) = 1"
    using f tools_dentries by (simp_all add: names_file_def tools_verylarge tools_words readable_def block_ok_def word_le_nat_alt)
  show "\<not> missing_file (chars ''notes'') tools_kernel"
    using tools_named[of "chars ''notes'' @ [0]"] tools_cat_names by (simp add: missing_file_def) (simp add: chars_def)
qed

lemma tools_cat_text: "cat_text (chars ''notes'') tools_kernel = chars ''one'' @ [10] @ chars ''two'' @ [10]"
proof -
  have "chunks_from tools_kernel 1 1024 0 = [file_content tools_kernel 1]"
    by (rule small_file_chunks) (simp_all add: tools_words)
  moreover have "chars ''notes'' \<noteq> []" by (simp add: chars_def)
  ultimately show ?thesis by (simp add: cat_text_def tools_cat_file tools_notes)
qed

lemma tools_array: "array_fits notes_user"
  by (simp add: array_fits_def)

lemma tools_not_program: "no_program tools_kernel (chars ''notes'' @ [0])"
proof -
  have w: "strlen (chars ''notes'' @ [0]) = Some 5" "first_word (skip_spaces (chars ''notes'' @ [0])) = chars ''notes''"
    by (simp_all add: skip_spaces_def first_word_def chars_def)
  have "0 \<notin> set (chars ''notes'')" by (simp add: chars_def)
  then have "cstr (zero_buffer (chars ''notes'')) = chars ''notes''" "0 \<in> set (zero_buffer (chars ''notes''))"
    using cstr_append_nul[of "chars ''notes''" "replicate 1018 0"]
    by (simp_all add: zero_buffer_def chars_def replicate_Suc[symmetric] del: replicate_Suc)
  from tools_file(2)[OF this] have "dentry_inode (file_dentry tools_kernel (zero_buffer (chars ''notes''))) = 1"
    using tools_dentries(3) by simp
  moreover have "map (file_byte tools_kernel 1) [0..<4] = map (\<lambda>k. tools_image (20480 + k)) [0..<4]"
    using tools_bytes(1) by (intro map_cong refl) simp
  then have "not_executable tools_kernel 1"
    by (simp add: not_executable_def tools_verylarge tools_words readable_def block_ok_def word_le_nat_alt elf_magic_def
        tools_image_def upt_conv_Cons del: upt_rec_numeral)
  ultimately show ?thesis by (simp add: no_program_def w)
qed

lemma tools_lines:
  "cs \<in> {chars ''cat notes'', chars ''cat'', chars ''ls'', chars ''notes'', []} \<Longrightarrow>
    good_line notes_user (replicate 1024 0) (replicate 33 0) tools_kernel 2 3 cs"
proof -
  have "BACKSPACE \<notin> set (cat_text (chars ''notes'') tools_kernel)" unfolding tools_cat_text by (simp add: chars_def)
  then have c: "cat_able notes_user (replicate 1024 0) (chars ''notes'') tools_kernel"
    "cat_able notes_user (replicate 1024 0) [] tools_kernel"
    using tools_cat_file by (simp_all add: cat_able_def tools_array)
  have "\<forall>j<17. BACKSPACE \<notin> set (filename (dentry_at tools_image j))"
    by (auto simp: dentry_at_def load_def tools_image_def dentry_off_def split: if_splits)
  moreover have "has_file tools_kernel (c_lit ''.'')" "filetype (file_dentry tools_kernel (c_lit ''.'')) = 1"
    using tools_file[of "c_lit ''.''" "''.''"] tools_dentries by (simp_all add: c_lit_def chars_def)
  ultimately have l: "ls_able notes_user (replicate 33 0) [] tools_kernel" by (simp add: ls_able_def tools_array)
  have ne: "chars ''cat notes'' \<noteq> chars ''exit''" "chars ''cat'' \<noteq> chars ''exit''" "chars ''ls'' \<noteq> chars ''exit''"
    "chars ''notes'' \<noteq> chars ''exit''" "[] \<noteq> chars ''exit''" by (simp_all add: chars_def)
  show "cs \<in> {chars ''cat notes'', chars ''cat'', chars ''ls'', chars ''notes'', []} \<Longrightarrow>
    good_line notes_user (replicate 1024 0) (replicate 33 0) tools_kernel 2 3 cs"
    using c l ne tools_commands tools_not_program by (elim insertE) (simp_all add: good_line_def tools_words_of)
qed

text \<open>The keys: enter is 0x1C.\<close>

lemma tools_keys:
  "types tools_kernel [0x2E, 0x1E, 0x14, 0x39, 0x31, 0x18, 0x14, 0x12, 0x1F] (chars ''cat notes'')"
  "types tools_kernel [0x2E, 0x1E, 0x14] (chars ''cat'')" "types tools_kernel [0x31, 0x18, 0x14, 0x12, 0x1F] (chars ''notes'')"
  "types tools_kernel [] []"
  "types tools_kernel [0x26, 0x1F] (chars ''ls'')"
  by (simp_all add: types_def key_char_def Let_def letter_def table_defs chars_def plain_def)

lemma tools_exit:
  "types tools_kernel [0x12, 0x2D, 0x17, 0x14] (chars ''exit'')" "plain 0x1C" "key_char tools_kernel 0x1C = ENT"
  by (simp_all add: types_def key_char_def Let_def letter_def table_defs chars_def plain_def)

lemma tools_bodies:
  "child tools_user (elf_entry (file_content tools_kernel 2)) USER_STACK = start_main (cat_main (kernel_sys notes_user) (replicate 1024 0))"
  "child tools_user (elf_entry (file_content tools_kernel 3)) USER_STACK = start_main (ls_main (kernel_sys notes_user) (replicate 33 0))"
  by (simp_all add: tools_entry tools_user_def)

lemma tools_line_texts:
  "line_text tools_kernel 2 3 (chars ''cat notes'') = chars ''391OS> cat notes'' @ [10] @ chars ''one'' @ [10] @ chars ''two'' @ [10]"
  "line_text tools_kernel 2 3 (chars ''ls'') = chars ''391OS> ls'' @ [10] @ ls_text [] tools_kernel"
  "line_text tools_kernel 2 3 (chars ''cat'') = chars ''391OS> cat'' @ [10] @ chars ''could not read arguments'' @ [10] @
     chars ''program terminated abnormally'' @ [10]"
  "line_text tools_kernel 2 3 (chars ''notes'') = chars ''391OS> notes'' @ [10] @ chars ''no such command'' @ [10]"
  "line_text tools_kernel 2 3 [] = chars ''391OS> '' @ [10]"
proof -
  have r: "cat_result (chars ''notes'') tools_kernel = 0" "cat_result [] tools_kernel = 3"
    "cat_text [] tools_kernel = chars ''could not read arguments'' @ [10]"
    using tools_cat_file(3) by (simp_all add: cat_result_def cat_text_def) (simp add: chars_def)
  have ne: "chars ''cat notes'' \<noteq> []" "chars ''ls'' \<noteq> []" "chars ''cat'' \<noteq> []" "chars ''notes'' \<noteq> []"
    "chars ''391OS> cat notes'' = chars ''391OS> '' @ chars ''cat notes''" "chars ''391OS> ls'' = chars ''391OS> '' @ chars ''ls''"
    "chars ''391OS> cat'' = chars ''391OS> '' @ chars ''cat''" "chars ''391OS> notes'' = chars ''391OS> '' @ chars ''notes''"
    by (simp_all add: chars_def)
  have n: "\<not> names_program tools_kernel (chars ''notes'' @ [0]) i" for i
    by (rule no_program_names[OF tools_not_program]) simp
  note l = line_text_def Let_def tools_words_of tools_commands tools_cat_text report_line_def r ne n
  show "line_text tools_kernel 2 3 (chars ''cat notes'') = chars ''391OS> cat notes'' @ [10] @ chars ''one'' @ [10] @ chars ''two'' @ [10]"
    "line_text tools_kernel 2 3 (chars ''ls'') = chars ''391OS> ls'' @ [10] @ ls_text [] tools_kernel"
    "line_text tools_kernel 2 3 (chars ''cat'') = chars ''391OS> cat'' @ [10] @ chars ''could not read arguments'' @ [10] @
       chars ''program terminated abnormally'' @ [10]"
    "line_text tools_kernel 2 3 (chars ''notes'') = chars ''391OS> notes'' @ [10] @ chars ''no such command'' @ [10]"
    "line_text tools_kernel 2 3 [] = chars ''391OS> '' @ [10]"
    by (simp_all add: l)
qed

end
