(* ===== verification/Sample_Clock.thy ===== *)
theory Sample_Clock
  imports Sample_Users User_Clock
begin

text \<open>A kernel whose image has the directory and the clock: the hypotheses of pingpong hold in it.\<close>

definition clock_image :: mem where
  "clock_image a =
     (if a = 64 then 46 else if a = 96 then 1
      else if a = 128 then 114 else if a = 129 then 116 else if a = 130 then 99 else 0)"

definition clock_kernel :: kernel where
  "clock_kernel = notes_kernel\<lparr>fs := clock_image\<rparr>"

lemma clock_state [simp]:
  "fs clock_kernel = clock_image" "inodesCount clock_kernel = 2" "terminal clock_kernel = shell_term"
  by (simp_all add: clock_kernel_def)

lemma clock_fd [simp]: "cur_pcb_addr clock_kernel = cur_pcb_addr notes_kernel" "cur_fd fd clock_kernel = cur_fd fd notes_kernel"
  by (simp_all add: clock_kernel_def cur_pcb_addr_def cur_fd_def)

lemma clock_serves: "serves notes_user 0 clock_kernel"
  using notes_serves by (simp add: serves_def console_ok_def) (simp add: clock_kernel_def)

lemma clock_slots: "find (free_fd clock_kernel) [2..<8] = Some 2"
proof -
  have "free_fd clock_kernel = free_fd notes_kernel"
    by (simp add: fun_eq_iff free_fd_def)
  then show ?thesis using notes_slots(1) by simp
qed

lemma clock_entries:
  "cstr (filename (dentry_at clock_image 0)) = chars ''.''"
  "cstr (filename (dentry_at clock_image (Suc 0))) = chars ''rtc''"
  "2 \<le> i \<Longrightarrow> i < 64 \<Longrightarrow> cstr (filename (dentry_at clock_image i)) = []"
proof -
  show "cstr (filename (dentry_at clock_image 0)) = chars ''.''"
    "cstr (filename (dentry_at clock_image (Suc 0))) = chars ''rtc''"
    by (simp_all add: dentry_at_def dentry_off_def load_def clock_image_def chars_def)
  show "cstr (filename (dentry_at clock_image i)) = []" if "2 \<le> i" "i < 64"
  proof -
    have "clock_image (64 + 64 * i) = 0" using that by (simp add: clock_image_def)
    then show ?thesis by (simp add: dentry_at_def dentry_off_def load_def upt_conv_Cons)
  qed
qed

lemma clock_file:
  "has_file clock_kernel (c_lit ''rtc'')" "filetype (file_dentry clock_kernel (c_lit ''rtc'')) = 0"
proof -
  have "filter (entry_named clock_image (c_lit ''rtc'')) [2..<64] = []"
    using clock_entries(3) by (auto simp: filter_empty_conv entry_named_def c_lit_def chars_def)
  moreover have "[0..<64] = 0 # 1 # [2..<64::nat]" by (simp add: upt_conv_Cons)
  ultimately have "dentries_named clock_image (c_lit ''rtc'') = [1]"
    using clock_entries(1,2)
    by (auto simp: dentries_named_def entry_named_def c_lit_def chars_def simp del: upt_rec_numeral)
  then show "has_file clock_kernel (c_lit ''rtc'')" "filetype (file_dentry clock_kernel (c_lit ''rtc'')) = 0"
    by (simp_all add: has_file_def file_dentry_def c_lit_def chars_def dentry_at_def dentry_off_def rd32_def clock_image_def)
qed

end
