(* ===== verification/Spec2Isabelle.thy ===== *)
theory Spec2Isabelle
  imports Lib_String Lib_Mem I8259 Paging Task RTC File_System Console Terminal File_Calls Process
    Terminal_Switch Keyboard Scheduler IDT Exceptions Syscalls System Gate Boot Loading Starting Sample_Kernel
    User_Programs User_Syserr User_Specs User_Grep User_Output User_Kernel User_Tests User_Runs User_Shell
    User_Kept User_Child User_Round User_Session User_Clock Fish_List Fish_Main Fish_Frames Fish_Kernel Emulate Emulate_Runs Emulate_Kernel
    Sample_Users Sample_Session Sample_Clock
begin

text \<open>
  A model of the operating system kernel under student-distrib, with the theorems that make it
  correct.  The kernel runs up to six processes on three terminals of a single processor: the
  keyboard edits the line of the displayed terminal, the timer goes round the terminals and runs
  the top process of each, programs are loaded from a read-only file system image, and ten
  system calls give them files, the clock, the terminal, arguments and the video page.

  \<^bold>\<open>The state.\<close>  One record \<open>kernel\<close> (theory Kernel_State) holds the C globals: \<open>terminal[]\<close>, the
  process control blocks by address, \<open>process_id_array\<close>, the page directory and the two page
  tables, the task state segment, the 8259 masks, the modifier keys, the physical memory and
  the file system image.  What goes to the ports is the log \<open>outs\<close>; what is read from a port is an
  argument of the operation that reads it, and so are stack contents that C leaves undefined
  (\<open>stack_junk\<close>), the linker's addresses, and the values of ESP and EBP at a call that saves them.

  \<^bold>\<open>Outcomes.\<close>  An operation gives \<open>Done\<close> with its value and the new state, \<open>Fault\<close> for an access that
  C leaves undefined or that would fault, or \<open>Blocked\<close> when a wait loop has used up the events it
  was given.  A routine that can leave the C call (\<open>execute\<close>, \<open>halt\<close>, the timer) gives a \<open>control\<close>:
  return, enter a user program, resume a suspended \<open>execute\<close>, switch stacks, or idle.

  \<^bold>\<open>The theories, and the files they model.\<close>
  \<^item> Prelude: words, memories, C strings, outcomes, the collections \<open>frame\<close> and \<open>keeps\<close>.
  \<^item> Lib_String, Lib_Mem: the string routines, \<open>itoa\<close>, and \<open>memset\<close>, \<open>memcpy\<close>, \<open>memmove\<close> of lib.c, the
    last three at the level of their string instructions, with byte-wise references.
  \<^item> Kernel_State: types.h, the port and flag primitives of lib.h.
  \<^item> I8259: i8259.c; the locale \<open>irq_lines\<close> is the contract of the mask routines.
  \<^item> Paging, Task: paging.c, paging_assembly.S, task.c; \<open>mmu\<close> is the processor's translation,
    \<open>paging_inv\<close> what the tables always satisfy, and what user code can reach under it.
  \<^item> RTC: rtc.c; the locale \<open>countdown\<close> is a virtual clock, interpreted for each terminal.
  \<^item> File_System: file_system.c over the raw image; \<open>dentries_named\<close>, \<open>file_content\<close> are the references.
  \<^item> Console: the video routines and \<open>printf\<close> of lib.c; \<open>screen\<close> with \<open>scr_putc\<close> is the abstract
    console and \<open>printf_text\<close> the reference for formats.
  \<^item> Terminal, Terminal_Switch: terminal.c; the display switch, and the first shell.
  \<^item> Keyboard: keyboard.c; \<open>edit\<close> is the abstract line editor.
  \<^item> File_Calls: the calls of system_calls.c but \<open>halt\<close> and \<open>execute\<close>; the locale \<open>driver\<close> says what
    every operation table keeps, the locale \<open>slot_table\<close> is lowest-free-slot allocation, interpreted
    for the file descriptors and, in Process, for the process ids.
  \<^item> Process: \<open>halt_call\<close> and \<open>execute_call\<close>; \<open>proc_rel\<close> relates the state to one stack of frames per
    terminal, the specification in which \<open>execute\<close> is push and \<open>halt\<close> is pop.
  \<^item> Scheduler: pit.c.  IDT: idt.c and the descriptor of x86_desc.h.  Exceptions: print_exceptions.c
    and the stubs of exceptions.S.  Syscalls: the system call gate of exceptions.S.
  \<^item> System: the whole as a transition relation.  \<open>plain_step\<close> has the steps that leave every process stack
    as it is: the calls, the interrupts, and the two halves of a \<open>read\<close> that waits (\<open>await_line\<close>, \<open>await_tick\<close>
    and \<open>end_read\<close>), between which any other steps may come, timer switches too.  \<open>kstep\<close> adds \<open>execute\<close>,
    \<open>halt\<close> and exceptions, and marks as astray the steps after which the code is out of control: a call
    that faults, since no pointer of a program is checked, any state following it; a program that is found
    but cannot be loaded; a base shell that ends with no shell to start.  \<open>sys_inv\<close> is the invariant of the
    states reached without such a step; \<open>meanwhile\<close> is what may happen while a program runs, other
    programs started and ended included.
  \<^item> Gate: when no system call faults, and that they return.  Boot: \<open>entry\<close> of kernel.c.  Loading: when
    \<open>execute\<close> succeeds, and what it loads.  Starting: the shells, from the globals at the start to the second timer tick.
  \<^item> Samples, Sample_Kernel: a concrete image and kernel for the examples.
  \<^item> User_Lib, User_Programs, User_Syserr: ece391support.c and the programs of src/syscalls, each a function of
    its system calls (a record \<open>sys\<close> of operations over any state) and of what its uninitialised arrays hold.
  \<^item> User_Specs, User_Grep, User_Output: what the programs do over the interfaces \<open>stdout\<close> (a view on which
    characters are emitted), \<open>pipe\<close> (a descriptor that gives its input in chunks), \<open>greppable\<close> and \<open>refusing\<close>
    (a kernel that refuses the calls of the error tests).
  \<^item> User_Kernel: \<open>kernel_sys\<close>, the kernel model as the system calls (ece391syscall.S and the gate), and the
    interpretations of the interfaces on it; User_Tests, User_Runs, User_Shell: whole runs of syserr, cat, ls,
    grep and one round of the shell on the kernel.
  \<^item> User_Kept, User_Child: \<open>kept\<close>, what the calls of a process leave to the others (the interface
    \<open>keeping_pipe\<close> carries it through the loops), and the locale \<open>program\<close>, a program as its parent sees it:
    inside it, \<open>execute\<close> to \<open>halt\<close> gives the parent back what it had.  User_Round, User_Session: a round of
    the shell with the echo of the keys, the interpretations of \<open>program\<close> on cat and ls, and sessions.  User_Clock: the interface \<open>ticking\<close> (a screen
    and a descriptor that comes back tick by tick) and its interpretation on the kernel's clock, for pingpong.
  \<^item> Fish_List, Fish_Main: the linked list of src/fish/blink.S in the array of fish.c, and the program.
    \<open>shows_blinks\<close> relates the array to a list, \<open>pictures\<close> the array and the video page to a \<open>picture\<close> with its
    own four operations (\<open>pic_add\<close>, \<open>pic_remove\<close>, \<open>pic_sync\<close>, \<open>pic_tick\<close>).  Fish_Frames: \<open>frames_picture\<close>, what two
    texts give position by position, and the loops over the interface \<open>two_files\<close>.  Fish_Kernel: the
    interpretations of \<open>two_files\<close> on two descriptors of the kernel and of \<open>beats\<close> on its clock.
  \<^item> Emulate, Emulate_Runs: ece391emulate.c, the system calls on Linux, whose own calls are the record \<open>linux\<close>;
    what a program run there gets as arguments, and the interpretation of \<open>pipe\<close> on a Linux directory.
    Emulate_Kernel: what it gets as arguments on the kernel.
  \<^item> Sample_Users, Sample_Session, Sample_Clock: kernels with a directory and a text file, with the executables
    cat and ls, and with the clock.

  \<^bold>\<open>What the properties show.\<close>  A session: keys, line editor, shell, \<open>execute\<close>, loader, program, \<open>halt\<close> and
  console together, for any number of commands.  Processes: \<open>execute\<close> and \<open>halt\<close> refine push and pop, \<open>execute\<close> loads the
  file it is given, a base shell comes back.  The system: the invariant, well-formed process
  structures and what user code can address in every state reached without going astray, round-robin scheduling, the start of
  the three shells.  Typing and the screen: the line a program reads is the edited text of the
  keys, the console implements its specification, nothing leaks from one terminal to another.
  Files: lookup, reading, descriptors, the directory.  System calls: the gate, arguments, the video
  page, exceptions.  Devices: the clock, the interrupt controller, the descriptor table, the boot
  set-up.  Memory and strings: the library routines equal their references.  User programs: from the
  keys to the screen, what the shell, cat, grep, ls, syserr, counter, pingpong and fish do when they run on the kernel.

  \<^bold>\<open>Bounds and fuel.\<close>  No definition runs on fuel; a program's loop is a \<open>partial_function\<close> whose
  endless run is \<open>None\<close>, and the theorems on programs show that a result is there.
  The two wait loops (\<open>terminal_read\<close>, \<open>rtc_read\<close>) take the list of events that happen meanwhile and are \<open>Blocked\<close> at its end; \<open>clock_wakes_reader\<close>
  and \<open>typed_line_is_read\<close> say which lists are long enough.  \<open>printf\<close>, \<open>itoa\<close>, \<open>strncpy\<close> and the block
  loop of \<open>read_data\<close> have termination proofs.  A variable argument list is a HOL list.  The keyboard
  table has 62 rows, and what lies behind them, which the code reads for a released modifier, is
  the argument \<open>beyond\<close>.

  \<^bold>\<open>Granularity.\<close>  An interrupt handler and a system call are atomic, but for the two wait loops: as a
  function, such a call takes the events of its wait as an argument; as steps of the system, it is two,
  with any others between them.  The code runs some calls with interrupts enabled, so this is an
  idealisation: \<open>kstep\<close> does not show the races inside a call.

  \<^bold>\<open>Pointers of programs.\<close>  The kernel uses them unchecked (\<open>copy_out\<close> and \<open>copy_in\<close> of Task).  Inside the
  program page the model follows the access; outside it the model stops with a fault, because what lies
  there depends on where the linker puts the kernel's variables, and \<open>kstep\<close> lets every state follow.  So the
  properties of reachable states are properties of runs in which no program passes such a pointer, and
  a program that does can break all of them (\<open>wild_pointer_goes_astray\<close>).

  \<^bold>\<open>User programs.\<close>  An array argument of a call lies at one fixed address of the program page, where
  its contents are put before the call and read back after it; what happens during the waits of successive
  calls is a list of event lists; a program that \<open>execute\<close> enters is a parameter, a status and the state in
  which it halts, so a program's own instructions are not run by the kernel model.  In a session the parameter
  is, for the entry addresses of cat and ls, what the model of their source does with the kernel's calls; the
  link from the bytes of the executables to the source, which a compiler makes, is not modelled.

  \<^bold>\<open>Not modelled.\<close>  tests.c (the kernel's own tests), boot.S and x86_desc.S (the jump to \<open>entry\<close> and
  static tables), debug.h, what sigtest does after its store through NULL (a page fault, which ends it),
  and the host tools createfs and elfconvert, which are binaries.
\<close>

section \<open>A session\<close>

text \<open>C1.  A whole session, from the keys to the screen.  The shell starts, the keys type any number of
  lines, and then \<open>exit\<close>; a line is empty, names the executable \<open>cat\<close> or
  \<open>ls\<close>, or names no program.  Every program is loaded, runs as a process of its own
  and halts, after which the shell goes on; the shell returns 0, the process stacks are those of
  the beginning, and the screen shows, in this order, the greeting, and for each line the prompt,
  the line, what the program prints (the file, the names of the directory, or that the argument or
  the file is missing), the report of a status that is not 0, or that there is no such command.\<close>

theorem shell_session:
  assumes shell: "shell_ready u t s" "length buf = 1024" "proc_rel s st" "st t \<noteq> []" "\<exists>i. 3 \<le> i \<and> i < 6 \<and> free_pid s i"
    and cat: "child u (elf_entry (file_content s ci)) USER_STACK = start_main (cat_main (kernel_sys v) cbuf)"
    and ls: "child u (elf_entry (file_content s li)) USER_STACK = start_main (ls_main (kernel_sys v) lbuf)"
    and typed: "\<forall>c\<in>set cmds. types s (fst c) (snd c) \<and> good_line v cbuf lbuf s ci li (snd c)"
    and ending: "types s ks (chars ''exit'')" "plain e" "key_char s e = ENT"
  shows "\<exists>s'. shell_main (kernel_sys u) buf
      (s, map (\<lambda>c. map (press beyond) (fst c @ [e])) cmds @ map (press beyond) (ks @ [e]) # w) = Some (Done (0, (s', w))) \<and>
    proc_rel s' st \<and> shell_ready u t s' \<and>
    screen_of t s' = fold scr_putc (chars ''Starting 391 Shell'' @ [10] @
      concat (map (\<lambda>c. line_text s ci li (snd c)) cmds) @ chars ''391OS> exit'' @ [10]) (screen_of t s)"
proof -
  let ?w = "map (\<lambda>c. map (press beyond) (fst c @ [e])) cmds @ map (press beyond) (ks @ [e]) # w"
  obtain y where y: "ece391_fdputs (kernel_sys u) 1 (c_line ''Starting 391 Shell'') (s, ?w) = Done (y, ?w)" "shell_ready u t y"
    "kept s y" "screen_of t y = fold scr_putc (chars ''Starting 391 Shell'' @ [10]) (screen_of t s)"
    using greeting_shown[of u t "(s, ?w)"] shell(1) by auto
  have "line_runs u t st beyond e s (fst c) (line_text s ci li (snd c))" if "c \<in> set cmds" for c
    using good_line_runs[where st = st and t = t, OF cat ls _ _ ending(2,3) shell(4,5)] typed that by blast
  moreover have "proc_rel y st" using shell(3) kept_rel[OF y(3)] by simp
  ultimately show ?thesis
    using session_ends[of u t y buf st s cmds beyond e fst "\<lambda>c. line_text s ci li (snd c)" ks w] y shell(2)
      same_session_kept[OF y(3)] ending by (auto simp: shell_main_def)
qed

theorem shell_session_witness:
  "\<exists>s'. shell_main (kernel_sys tools_user) (replicate 1024 0)
      (tools_kernel, map (map (press (\<lambda>i. 0))) [[0x2E, 0x1E, 0x14, 0x39, 0x31, 0x18, 0x14, 0x12, 0x1F, 0x1C], [0x26, 0x1F, 0x1C],
         [0x1C], [0x31, 0x18, 0x14, 0x12, 0x1F, 0x1C], [0x2E, 0x1E, 0x14, 0x1C], [0x12, 0x2D, 0x17, 0x14, 0x1C]]) = Some (Done (0, (s', []))) \<and>
    screen_of 0 s' = fold scr_putc (chars ''Starting 391 Shell'' @ [10] @ chars ''391OS> cat notes'' @ [10] @ chars ''one'' @ [10] @
      chars ''two'' @ [10] @ chars ''391OS> ls'' @ [10] @ ls_text [] tools_kernel @ chars ''391OS> '' @ [10] @
      chars ''391OS> notes'' @ [10] @ chars ''no such command'' @ [10] @ chars ''391OS> cat'' @ [10] @
      chars ''could not read arguments'' @ [10] @ chars ''program terminated abnormally'' @ [10] @ chars ''391OS> exit'' @ [10])
      (screen_of 0 tools_kernel)"
proof -
  let ?cmds = "[([0x2E, 0x1E, 0x14, 0x39, 0x31, 0x18, 0x14, 0x12, 0x1F], chars ''cat notes''), ([0x26, 0x1F], chars ''ls''), ([], []),
    ([0x31, 0x18, 0x14, 0x12, 0x1F], chars ''notes''), ([0x2E, 0x1E, 0x14], chars ''cat'')] :: (u8 list \<times> u8 list) list"
  have free: "\<exists>i. 3 \<le> i \<and> i < 6 \<and> free_pid tools_kernel i" by (rule exI[of _ 3]) (simp add: free_pid_def)
  have typed: "\<forall>c\<in>set ?cmds. types tools_kernel (fst c) (snd c) \<and>
      good_line notes_user (replicate 1024 0) (replicate 33 0) tools_kernel 2 3 (snd c)"
    using tools_keys tools_lines by simp
  obtain s' where s': "shell_main (kernel_sys tools_user) (replicate 1024 0)
      (tools_kernel, map (\<lambda>c. map (press (\<lambda>i. 0)) (fst c @ [0x1C])) ?cmds @ map (press (\<lambda>i. 0)) ([0x12, 0x2D, 0x17, 0x14] @ [0x1C]) # []) =
      Some (Done (0, (s', [])))"
    "screen_of 0 s' = fold scr_putc (chars ''Starting 391 Shell'' @ [10] @
      concat (map (\<lambda>c. line_text tools_kernel 2 3 (snd c)) ?cmds) @ chars ''391OS> exit'' @ [10]) (screen_of 0 tools_kernel)"
    using shell_session[where st = sample_stacks and t = 0, OF tools_shell _ tools_proc_rel _ free tools_bodies typed tools_exit, of "replicate 1024 0" "\<lambda>i. 0" "[]"]
    by auto
  show ?thesis using s' by (intro exI[of _ s']) (simp add: tools_line_texts)
qed

section \<open>Processes\<close>

text \<open>C2.  \<open>execute_call\<close> refines a push.  When it enters a program on a terminal that already
  has a process, the new process gets the lowest free id, becomes the top of that terminal's
  process stack with the registers to resume its parent, and runs with its own page and kernel
  stack; the stacks of the other terminals stay as they are.\<close>

theorem execute_pushes_frame:
  assumes "proc_rel s st" "active_terminal s < 3" "st (active_terminal s) \<noteq> []"
    and "execute_call command esp ebp s = Done (Enter_user e u, s')"
  shows "\<exists>i. find (free_pid s) [3..<6] = Some i
    \<and> proc_rel s' (st(active_terminal s := (i, esp, ebp) # st (active_terminal s)))
    \<and> curr_pid s' = int i \<and> page_directory s' 32 = user_pde (of_nat i)
    \<and> tss_esp0 s' = get_kernel_stack_addr (of_nat i)"
  by (rule execute_pushes[OF assms])

theorem execute_pushes_frame_witness:
  "\<exists>e u s'. execute_call (c_lit ''shell'') 7 8 sample_kernel = Done (Enter_user e u, s') \<and>
     proc_rel s' (sample_stacks(0 := [(3, 7, 8), (0, 0, 0)])) \<and> page_directory s' 32 = user_pde 3"
proof -
  obtain e u s' where ex: "execute_call (c_lit ''shell'') 7 8 sample_kernel = Done (Enter_user e u, s')"
    using sample_executes by blast
  have "sample_stacks (active_terminal sample_kernel) \<noteq> []" by simp
  from execute_pushes_frame[OF sample_proc_rel _ this ex] ex show ?thesis
    by (auto simp add: sample_free simp del: upt_rec_numeral)
qed

text \<open>C3.  \<open>halt_call\<close> refines a pop.  The top process of the active terminal ends, its id
  becomes free, its parent is the current process again with its page and kernel stack, and the
  processor resumes where the parent called \<open>execute\<close>, with the status as the value.\<close>

theorem halt_pops_frame:
  assumes "proc_rel s st" "active_terminal s < 3"
    and "st (active_terminal s) = (p, esp, ebp) # (p', r) # below"
  shows "\<exists>s'. halt_call status esp' ebp' s = Done (Resume (ucast status) esp ebp, s')
    \<and> proc_rel s' (st(active_terminal s := (p', r) # below))
    \<and> curr_pid s' = int p' \<and> page_directory s' 32 = user_pde (of_nat p')
    \<and> tss_esp0 s' = get_kernel_stack_addr (of_nat p') \<and> active_terminal s' = active_terminal s"
  by (rule halt_pops[OF assms])

theorem halt_pops_frame_witness:
  "\<exists>s s'. proc_rel s (sample_stacks(0 := [(3, 7, 8), (0, 0, 0)])) \<and>
     halt_call 5 0 0 s = Done (Resume 5 7 8, s') \<and> proc_rel s' (sample_stacks(0 := [(0, 0, 0)]))"
proof -
  obtain s where r: "proc_rel s (sample_stacks(0 := [(3, 7, 8), (0, 0, 0)]))" and a: "active_terminal s = 0"
    using sample_child by blast
  from halt_pops_frame[OF r, of 3 7 8 0 "(0, 0)" "[]" 5 0 0] r a show ?thesis by auto
qed



text \<open>C5.  \<open>execute_call\<close> succeeds whenever it should: if the first word of the command names
  a well-formed executable of the image and there is a process id for it, the call returns by
  entering the address that the executable gives, and the program page holds the bytes of the
  file.\<close>

theorem execute_loads_program:
  assumes "names_program s command inode" "has_pid s"
  shows "\<exists>s'. execute_call command esp ebp s =
      Done (Enter_user (elf_entry (file_content s inode)) USER_STACK, s') \<and>
    copy_in PROGRAM_ADDR (unat (inode_length (fs s) inode)) s' = Done (file_content s inode)"
  using execute_loads[OF assms] by blast

theorem execute_loads_program_witness:
  "\<exists>s'. execute_call (c_lit ''shell'') 0 0 sample_kernel =
      Done (Enter_user (elf_entry (file_content sample_kernel 1)) USER_STACK, s') \<and>
    copy_in PROGRAM_ADDR 40 s' = Done (file_content sample_kernel 1)"
  using execute_loads_program[OF sample_names_program sample_has_pid, of 0 0] by (simp add: sample_words)

text \<open>C6.  A command that names no program, or finds no free process id, makes \<open>execute_call\<close>
  return -1 with every process structure as it was.\<close>

theorem execute_refused:
  assumes "execute_call command esp ebp s = Done (c, s')"
    and "\<And>inode s1. find_program (skip_spaces command) (exec_begin s) = Done (Some inode, s1) \<Longrightarrow>
      choose_pid s1 = None"
  shows "c = Return (-1) \<and> same_procs s s'"
  by (rule execute_call_refused[OF assms])

theorem execute_refused_witness:
  "\<exists>s'. execute_call [0] 0 0 sample_kernel = Done (Return (-1), s') \<and> same_procs sample_kernel s'"
proof -
  have f: "find_program (skip_spaces [0]) x = Done (None, x)" for x
  proof -
    have z: "zero_buffer [] = 0 # replicate 1023 0" by (simp add: zero_buffer_def eval_nat_numeral)
    then have "cstr (zero_buffer []) = []" "0 \<in> set (zero_buffer [])" by (simp_all add: cstr_def)
    then show ?thesis
      using read_dentry_by_name_eq[of "zero_buffer []" x]
      by (simp add: find_program_def skip_spaces_def first_word_def)
  qed
  have ex: "execute_call [0] 0 0 sample_kernel = Done (Return (-1), exec_begin sample_kernel)"
    by (simp add: execute_call_unfold f)
  have "same_procs sample_kernel (exec_begin sample_kernel)"
    using execute_refused[OF ex] f by simp
  then show ?thesis using ex by blast
qed

text \<open>C7.  When a terminal's base shell halts and the image has a well-formed executable
  \<open>shell\<close>, it is started again: the processor enters that executable's entry address
  with its bytes in the program page, and the terminal's stack is again the one base frame, under
  the terminal's own process id.\<close>

theorem base_shell_restarts:
  assumes "proc_rel s st" "active_terminal s < 3" "st (active_terminal s) = [f]" "shell_image s inode"
  shows "\<exists>s'. halt_call status esp ebp s = Done (Enter_user (shell_entry s inode) USER_STACK, s') \<and>
    copy_in PROGRAM_ADDR (unat (inode_length (fs s) inode)) s' = Done (file_content s inode) \<and>
    proc_rel s' (st(active_terminal s := [(active_terminal s, esp, ebp)])) \<and> running s' \<and>
    active_terminal s' = active_terminal s"
  by (rule base_shell_again[OF assms])

theorem base_shell_restarts_witness:
  "\<exists>s'. halt_call 0 3 4 sample_kernel = Done (Enter_user sample_entry USER_STACK, s') \<and>
     proc_rel s' (sample_stacks(0 := [(0, 3, 4)]))"
proof -
  have "sample_stacks (active_terminal sample_kernel) = [(0, 0, 0)]" by simp
  from base_shell_restarts[OF sample_proc_rel _ this sample_shell_image(1), of 0 3 4] show ?thesis
    by (auto simp: sample_shell_image(2))
qed

section \<open>The system\<close>

text \<open>C8.  The system invariant holds in every state that system calls, exceptions, key presses, clock and
  timer interrupts lead to, a \<open>read\<close> that waits while the other terminals run
  included, provided that no step on the way is marked astray: each terminal has a process stack,
  the ids in use are those of the stacks, the processor runs on the page and the kernel stack of
  the active terminal's process, and the page structures are in order.  The steps marked astray,
  of which the theorem says nothing, are the calls that fault (a pointer outside the program page,
  which no call checks, or data that overrun a buffer; any state may follow), the
  \<open>execute\<close> of a program that is found but cannot be loaded, and the end of a base
  shell when there is none to start.  A call that does not wait is one step.\<close>

theorem reachable_states_sound:
  assumes "(kstep False)\<^sup>*\<^sup>* s s'" "sys_inv s st"
  shows "\<exists>st'. sys_inv s' st'"
  by (rule reachable_inv[OF assms])

theorem reachable_states_sound_witness:
  "\<exists>s' st'. (kstep False)\<^sup>*\<^sup>* sample_kernel s' \<and> s' \<noteq> sample_kernel \<and> sys_inv s' st'"
proof -
  have step: "(kstep False)\<^sup>*\<^sup>* sample_kernel (rtc_intr sample_kernel)"
    by (intro r_into_rtranclp kstep.plain plain_step.clock)
  have "outs (rtc_intr sample_kernel) \<noteq> outs sample_kernel"
    by (simp add: rtc_intr_def Let_def outb_def send_eoi_def sti_def cli_def fold_upd_term word_le_nat_alt)
  then show ?thesis using step reachable_states_sound[OF step sample_sys_inv] by force
qed

text \<open>C9.  What user code can address with its own loads and stores: in every state reached without a step
  marked astray, an address that translates in user mode leads into the 4 MB frame of the process
  that runs on the active terminal, or into one of the four text pages of video memory; no
  \<open>execute\<close>, \<open>halt\<close>, \<open>vidmap\<close>, display switch or timer tick
  opens more.  This is no isolation from a program that hands the kernel a pointer outside its
  page: the calls do not check their pointers, such a call is a step marked astray, after which
  any state may follow.\<close>

theorem user_code_isolated:
  assumes "(kstep False)\<^sup>*\<^sup>* s0 s" "sys_inv s0 st0" "va < 2 ^ 32" "mmu s True va = Some pa"
  shows "\<exists>p. pid (active_term s) = int p \<and> p < 6 \<and>
    (0x800000 + 0x400000 * p \<le> pa \<and> pa < 0x800000 + 0x400000 * (p + 1) \<or>
     VIDEO \<le> pa \<and> pa < VIDEO + 4 * 4096)"
  by (rule reachable_isolated[OF assms])

theorem user_code_isolated_witness:
  "mmu sample_kernel True 0x8000010 = Some 0x800010 \<and> (\<exists>p. pid (active_term sample_kernel) = int p \<and> p < 6)"
proof -
  have m: "mmu sample_kernel True 0x8000010 = Some 0x800010"
    using user_phys_mmu[of sample_kernel 0 "0x8000010"] sample_in_user[of "0x8000010" "Suc 0"]
      user_pde_fields(4)[of 0] by (simp add: user_phys_def)
  from user_code_isolated[OF rtranclp.rtrancl_refl sample_sys_inv _ m] m show ?thesis by auto
qed

text \<open>C10.  Once the three shells are up, the timer goes round the terminals: after \<open>n\<close> ticks
  the active terminal is \<open>n\<close> places on, so each runs within three ticks, and a tick
  resumes exactly the registers that were saved for that terminal, those of two ticks ago.\<close>

theorem round_robin_fair:
  assumes "all_started s"
  shows "\<exists>xs s'. ticks rs s = Done (xs, s') \<and> length xs = length rs \<and> all_started s' \<and>
    active_terminal s' = (active_terminal s + length rs) mod 3 \<and>
    (\<forall>i<length rs. xs ! i =
       (if i < 2 then saved s ((active_terminal s + 1 + i) mod 3) else rs ! (i - 2)))"
  by (rule round_robin[OF assms])

theorem round_robin_fair_witness:
  "\<exists>xs s'. ticks [(1, 2), (3, 4), (5, 6)] sample_kernel = Done (xs, s') \<and> active_terminal s' = 0 \<and> xs ! 2 = (1, 2)"
proof -
  obtain xs s' where h: "ticks [(1, 2), (3, 4), (5, 6)] sample_kernel = Done (xs, s')"
    "active_terminal s' = (active_terminal sample_kernel + length [(1::u32, 2::u32), (3, 4), (5, 6)]) mod 3"
    "\<forall>i<length [(1::u32, 2::u32), (3, 4), (5, 6)]. xs ! i =
       (if i < 2 then saved sample_kernel ((active_terminal sample_kernel + 1 + i) mod 3)
        else [(1, 2), (3, 4), (5, 6)] ! (i - 2))"
    using round_robin_fair[OF sample_started] by blast
  have "xs ! 2 = (1, 2)" using h(3)[rule_format, of 2] by simp
  then show ?thesis using h(1,2) by auto
qed

text \<open>C11.  Booting brings up the three shells.  From the globals at the start, with a well-formed
  executable \<open>shell\<close> in the image, the device part of the boot code,
  \<open>init_terminals\<close> and two timer ticks each enter the entry address of
  \<open>shell\<close>; then each terminal has its one base shell and the system invariant holds.
  Between the ticks anything may happen that leaves the process and page structures and the image
  alone.\<close>

theorem shells_are_started:
  assumes "fresh_globals g" "shell_image (boot_devices regb rega g) inode"
    and "\<And>x. same_kernel x (f1 x) \<and> same_image x (f1 x)" "\<And>x. same_kernel x (f2 x) \<and> same_image x (f2 x)"
  shows "\<exists>s1 s2 s3 st. let s = boot_devices regb rega g; e = shell_entry s inode in
    init_terminals b0 c0 s = Done (Enter_user e USER_STACK, s1) \<and>
    pit_intr p1 q1 b1 c1 (f1 s1) = Done (Enter_user e USER_STACK, s2) \<and>
    pit_intr p2 q2 b2 c2 (f2 s2) = Done (Enter_user e USER_STACK, s3) \<and>
    sys_inv s3 st \<and> st 0 = [(0, b0, c0)] \<and> st 1 = [(1, b1, c1)] \<and> st 2 = [(2, b2, c2)]"
  by (rule shells_come_up[OF assms])

theorem shells_are_started_witness:
  "\<exists>s1 s2 s3 st. init_terminals 1 1 sample_booted = Done (Enter_user sample_entry USER_STACK, s1) \<and>
     pit_intr 0 0 2 2 s1 = Done (Enter_user sample_entry USER_STACK, s2) \<and>
     pit_intr 0 0 3 3 s2 = Done (Enter_user sample_entry USER_STACK, s3) \<and>
     sys_inv s3 st \<and> st 2 = [(2, 3, 3)]"
proof -
  have keep: "same_kernel x (id x) \<and> same_image x (id x)" for x by (simp add: same_image_def)
  have shell: "shell_image (boot_devices 0 0 (initial_globals 0x1000 0x2000 sample_image)) 1"
    using sample_booted_shell(1) by (simp add: sample_booted_def)
  from shells_are_started[OF sample_globals shell keep keep, of 1 1 0 0 2 2 0 0 3 3]
  show ?thesis by (auto simp: Let_def sample_booted_def[symmetric] sample_booted_shell(2))
qed

text \<open>C12.  Well-formedness of the process structures, in every state that steps of the system lead to,
  provided that none of them is marked astray (a call that faults, for a pointer outside the
  program page or an overrun buffer, a program that is found but cannot be loaded, a base shell
  that ends when there is none to start): no process id occurs twice, there are at most six
  processes, each terminal's base shell is at the bottom of its stack, and the process that the
  terminal structure names is the top.\<close>

theorem processes_well_formed:
  assumes "(kstep False)\<^sup>*\<^sup>* s0 s" "sys_inv s0 st0"
  shows "\<exists>st. sys_inv s st \<and> distinct (map fst (st 0 @ st 1 @ st 2)) \<and> length (st 0 @ st 1 @ st 2) \<le> 6 \<and>
    (\<forall>t<3. fst (last (st t)) = t \<and> pid (terminal s t) = int (fst (hd (st t))))"
  using reachable_inv[OF assms] sys_inv_stacks by blast

theorem processes_well_formed_witness:
  "\<exists>s st. (kstep False)\<^sup>*\<^sup>* sample_kernel s \<and> curr_pid s = 3 \<and> sys_inv s st \<and> distinct (map fst (st 0 @ st 1 @ st 2))"
proof -
  obtain e u s where ex: "execute_call (c_lit ''shell'') 7 8 sample_kernel = Done (Enter_user e u, s)"
    using sample_executes by blast
  have step: "(kstep False)\<^sup>*\<^sup>* sample_kernel s" by (intro r_into_rtranclp kstep.execute[OF ex])
  obtain i where "find (free_pid sample_kernel) [3..<6] = Some i" "curr_pid s = int i"
    using execute_pushes[OF sample_proc_rel _ _ ex] by auto
  then have "curr_pid s = 3" by (simp add: sample_free del: upt_rec_numeral)
  then show ?thesis using step processes_well_formed[OF step sample_sys_inv] by blast
qed

section \<open>User programs\<close>

text \<open>C13.  A round of the shell on the kernel, for a line \<open>cs\<close> typed without editing: from any
  state in which the shell is ready it shows the prompt \<open>391OS> \<close>, the line as it is
  typed and a newline, and in the state \<open>x\<close> that follows the process structures, the
  page directory, the files, the modifier keys and all that belongs to other processes are as they
  were (\<open>kept\<close>); there it ends with status 0 on \<open>exit\<close>, prompts again on
  an empty line, and passes any other line, terminated by a NUL, to \<open>execute\<close>,
  reports the result and goes on. The report of a status byte is nothing for 0 and \<open>program
  terminated abnormally\<close> for any other, and leaves the shell ready.\<close>

theorem shell_runs_command:
  assumes "shell_ready u t s" "length buf = 1024" "types s ks cs" "plain e" "key_char s e = ENT"
  shows "\<exists>x rest. shell_ready u t x \<and> kept s x \<and> length (cs @ 0 # rest) = 1024 \<and>
    screen_of t x = fold scr_putc (chars ''391OS> '' @ cs @ [10]) (screen_of t s) \<and>
    shell_loop (kernel_sys u) buf (s, map (press beyond) (ks @ [e]) # w) =
      (if cs = chars ''exit'' then Some (Done (0, (x, w)))
       else if cs = [] then shell_loop (kernel_sys u) (cs @ 0 # rest) (x, w)
       else upon (with_events w (kernel_execute u (cs @ 0 # rest) x)) (\<lambda>(rval, y).
              upon (shell_report (kernel_sys u) rval y) (shell_loop (kernel_sys u) (cs @ 0 # rest)))) \<and>
    (\<exists>y. shell_report (kernel_sys u) (uint (status :: u8)) (s, w) = Done (y, w) \<and> shell_ready u t y \<and> kept s y \<and>
      screen_of t y = fold scr_putc
        (if status = 0 then [] else chars ''program terminated abnormally'' @ [10]) (screen_of t s))"
proof -
  obtain y where "shell_report (kernel_sys u) (uint status) (s, w) = Done (y, w)" "shell_ready u t y" "kept s y"
    "screen_of t y = fold scr_putc (report_line status) (screen_of t s)"
    using report_shown[of u t "(s, w)" status] assms(1) by auto
  then show ?thesis using round_line[OF assms, of beyond w] unfolding report_line_def by blast
qed

theorem shell_runs_command_witness:
  "\<exists>x. shell_loop (kernel_sys notes_user) (replicate 1024 0)
      (notes_kernel, [map (press (\<lambda>i. 0)) ([0x12, 0x2D, 0x17, 0x14] @ [0x1C])]) = Some (Done (0, (x, []))) \<and>
    screen_of 0 x = fold scr_putc (chars ''391OS> exit'' @ [10]) (screen_of 0 notes_kernel)"
proof -
  let ?ks = "[0x12, 0x2D, 0x17, 0x14] :: u8 list"
  have k: "map (key_char notes_kernel) ?ks = chars ''exit''" "key_char notes_kernel 0x1C = ENT"
    by (simp_all add: key_char_def Let_def letter_def table_defs chars_def)
  have p: "list_all plain ?ks" "plain 0x1C" by (simp_all add: plain_def)
  have t: "types notes_kernel ?ks (chars ''exit'')" unfolding types_def k(1) using p(1) by (simp add: chars_def)
  have c: "chars ''391OS> exit'' = chars ''391OS> '' @ chars ''exit''" by (simp add: chars_def)
  show ?thesis unfolding c
    using shell_runs_command[OF notes_shell _ t p(2) k(2), of "replicate 1024 0" "\<lambda>i. 0" "[]" 0] by auto
qed

text \<open>C14.  \<open>cat\<close> on the kernel: when its argument names an ordinary file, it ends with status
  0 and the screen shows the content of the file; when the file has at most 1024 bytes it shows
  nothing else, behind a longer one come the bytes up to the next multiple of 1024, because
  \<open>read_data\<close> does not stop at the end of the file.\<close>

theorem cat_prints_file:
  assumes "serves u t s" "0 \<in> set (terminal_cmd (pcbs s (cur_pcb_addr s)))"
    and "length (args_of s) < 1024" "names_file s (args_of s @ [0]) inode" "find (free_fd s) [2..<8] = Some i"
    and "length buf = 1024" "out = concat (chunks_from s inode 1024 0)" "BACKSPACE \<notin> set out"
    and "n = unat (inode_length (fs s) inode)"
  shows "\<exists>s' w'. cat_main (kernel_sys u) buf (s, w) = Some (Done (0, (s', w'))) \<and> serves u t s' \<and>
    screen_of t s' = fold scr_putc out (screen_of t s) \<and>
    take n out = file_content s inode \<and> length out < n + 1024 \<and> (n \<le> 1024 \<longrightarrow> out = file_content s inode)"
  using cat_runs[OF assms(1-6), of w] cat_output[of s inode n] assms(7-9) by auto

theorem cat_prints_file_witness:
  "\<exists>s' w'. cat_main (kernel_sys notes_user) (replicate 1024 0) (notes_kernel, []) = Some (Done (0, (s', w'))) \<and>
    screen_of 0 s' = fold scr_putc (chars ''one'' @ [10] @ chars ''two'' @ [10]) (screen_of 0 notes_kernel)"
proof -
  have c: "concat (chunks_from notes_kernel 1 1024 0) = chars ''one'' @ [10] @ chars ''two'' @ [10]"
    using small_file_chunks[of notes_kernel 1 1024] notes_content by (simp add: notes_words)
  have "names_file notes_kernel (args_of notes_kernel @ [0]) 1"
    using notes_names unfolding notes_args(1) by (simp add: c_lit_def)
  then show ?thesis
    using cat_prints_file[OF notes_serves notes_args(2) _ _ notes_slots(1) _ c[symmetric] _ refl,
        of "replicate 1024 0" "[]"]
    by (auto simp: notes_args(1) chars_def)
qed

text \<open>C15.  \<open>grep\<close> of one file on the kernel: for an ordinary file of at most 1024 bytes it
  ends with status 0 and the screen shows, in the order of the file, every line that contains the
  search string, once each, after the file's name and a colon; the reference
  \<open>grep_text\<close> is \<open>sublist\<close> on the lines of the content.\<close>

theorem grep_prints_matches:
  assumes "serves u t s" "names_file s name inode" "length name \<le> 2048" "find (free_fd s) [2..<8] = Some i"
    and "inode_length (fs s) inode \<noteq> 0" "unat (inode_length (fs s) inode) \<le> 1024"
    and "0 \<in> set str" "length data = 1025"
    and "0 \<notin> set (file_content s inode)" "BACKSPACE \<notin> set (file_content s inode)" "BACKSPACE \<notin> set (cstr name)"
  shows "\<exists>s' w'. do_one_file (kernel_sys u) str name data (s, w) = Some (Done (0, (s', w'))) \<and>
    screen_of t s' = fold scr_putc (grep_text (cstr str) (cstr name) (file_content s inode)) (screen_of t s)"
  by (rule grep_runs[OF assms])

theorem grep_prints_matches_witness:
  "\<exists>s' w'. do_one_file (kernel_sys notes_user) (c_lit ''w'') (c_lit ''notes'') (replicate 1025 0) (notes_kernel, []) =
      Some (Done (0, (s', w'))) \<and>
    screen_of 0 s' = fold scr_putc (chars ''notes:two'' @ [10]) (screen_of 0 notes_kernel)"
proof -
  have "grep_text (cstr (c_lit ''w'')) (cstr (c_lit ''notes'')) (file_content notes_kernel 1) = chars ''notes:two'' @ [10]"
    by (simp add: notes_content grep_text_def grep_line_def line_matches_def lines_of.simps c_lit_def chars_def
        sublist_Cons_right)
  then show ?thesis
    using grep_prints_matches[OF notes_serves notes_names _ notes_slots(1), of "c_lit ''w''" "replicate 1025 0" "[]"]
    by (simp add: notes_content notes_words c_lit_def chars_def)
qed

text \<open>C16.  \<open>ls\<close> on the kernel, when no directory was read before: it ends with status 0 and
  the screen shows the names of the seventeen directory entries in order, 32 bytes and a newline
  each; the counter of the directory, one for the whole kernel, is back at 0.\<close>

theorem ls_lists_directory:
  assumes "serves u t s" "has_file s (c_lit ''.'')" "filetype (file_dentry s (c_lit ''.'')) = 1"
    and "find (free_fd s) [2..<8] = Some i" "internalCounter s = 0" "length buf = 33"
    and "\<And>j. j < 17 \<Longrightarrow> BACKSPACE \<notin> set (filename (dentry_at (fs s) j))"
  shows "\<exists>s' w'. ls_main (kernel_sys u) buf (s, w) = Some (Done (0, (s', w'))) \<and> serves u t s' \<and>
    screen_of t s' = fold scr_putc (concat (map (\<lambda>j. filename (dentry_at (fs s) j) @ [10]) [0..<17])) (screen_of t s) \<and>
    internalCounter s' = 0"
proof -
  obtain s' w' where r: "ls_main (kernel_sys u) buf (s, w) = Some (Done (0, (s', w')))" "serves u t s'" "kept s s'"
    "screen_of t s' = fold scr_putc (concat (map (\<lambda>j. filename (dentry_at (fs s) j) @ [10]) [0..<17])) (screen_of t s)"
    using ls_runs[OF assms] by blast
  then have "internalCounter s' = 0" using kept_image(2)[OF r(3)] assms(5) by simp
  then show ?thesis using r by blast
qed

theorem ls_lists_directory_witness:
  "\<exists>s' w'. ls_main (kernel_sys notes_user) (replicate 33 0) (notes_kernel, []) = Some (Done (0, (s', w'))) \<and>
    serves notes_user 0 s'"
  using ls_lists_directory[OF notes_serves notes_dot notes_slots(1), of "replicate 33 0" "[]"] notes_plain_names
  by (auto simp del: upt_rec_numeral)

text \<open>C17.  The kernel's error handling, as the program syserr tests it: from a process with no open
  descriptor, all eight tests (bad descriptors, too many opens, missing files, unopened
  descriptors, bad addresses for \<open>vidmap\<close>, wrong use of stdin and stdout, bad system
  call numbers) report no failure, whatever their uninitialised buffers hold, and leave no
  descriptor open.\<close>

theorem syserr_passes:
  assumes "tests_ready u t (fst x)" "open_fds (fst x) = {}" "\<And>y. length (junk y) = 32"
  shows "\<exists>y. each add_test (syserr_tests (kernel_sys u) junk) (0, x) = Done (0, y) \<and>
    tests_ready u t (fst y) \<and> open_fds (fst y) = {}"
  using tested.tests_pass[of u t x junk] assms by (simp add: tested.calm_at_def)

theorem syserr_passes_witness:
  "\<exists>y. each add_test (syserr_tests (kernel_sys notes_user) (\<lambda>s. replicate 32 0)) (0, (notes_kernel, [])) = Done (0, y) \<and>
    open_fds (fst y) = {}"
  using syserr_passes[of notes_user 0 "(notes_kernel, [])" "\<lambda>s. replicate 32 0"] notes_ready notes_slots(2) by auto

text \<open>C18.  pingpong on the kernel: it opens the clock, sets it to 32 Hz and shows one frame per 32 ticks of
  the hardware clock, 152 frames a round with the mark going from column 2 to 77 and back, each
  round with the next letter of the alphabet; it runs for as many rounds as the clock gives it
  ticks for and then goes on, and when fewer than 32 ticks come for the next frame it sleeps in
  \<open>read\<close>.\<close>

theorem pingpong_bounces:
  assumes "serves u t s" "init_flag (terminal s t) = 1" "has_file s (c_lit ''rtc'')" "filetype (file_dentry s (c_lit ''rtc'')) = 0"
    and "find (free_fd s) [2..<8] = Some i" "length g = 4" "k < 32"
  shows "(\<exists>s' buf. pingpong_main (kernel_sys u) g (s, replicate (152 * n) (replicate 32 rtc_intr) @ w) =
        pingpong_loop (kernel_sys u) (int i) ((pingpong_next ^^ n) STARTCHAR) (buf, g, (s', w)) \<and> serves u t s' \<and>
        screen_of t s' = fold scr_putc
          (concat (map (\<lambda>k. concat (map (frame_text ((pingpong_next ^^ k) STARTCHAR)) pingpong_positions)) [0..<n])) (screen_of t s)) \<and>
    65 \<le> (pingpong_next ^^ n) STARTCHAR \<and> (pingpong_next ^^ n) STARTCHAR \<le> 90 \<and>
    pingpong_main (kernel_sys u) g (s, replicate (152 * n) (replicate 32 rtc_intr) @ replicate k rtc_intr # w) = Some Blocked"
proof -
  note run = pingpong_runs[OF assms(1-6), of n]
  obtain s' buf where "pingpong_main (kernel_sys u) g (s, replicate (152 * n) (replicate 32 rtc_intr) @ replicate k rtc_intr # w) =
      pingpong_loop (kernel_sys u) (int i) ((pingpong_next ^^ n) STARTCHAR) (buf, g, (s', replicate k rtc_intr # w))"
    "walls buf" "clocked u t i s'" using run[of "replicate k rtc_intr # w"] by blast
  then have "pingpong_main (kernel_sys u) g (s, replicate (152 * n) (replicate 32 rtc_intr) @ replicate k rtc_intr # w) = Some Blocked"
    using pingpong_waits[OF _ _ assms(6) _ _ assms(7)] letters[of n] by simp
  then show ?thesis using run[of w] letters[of n] by (auto simp: clocked_def)
qed

theorem pingpong_bounces_witness:
  "pingpong_main (kernel_sys notes_user) [0, 0, 0, 0] (clock_kernel, replicate 152 (replicate 32 rtc_intr) @ [replicate 31 rtc_intr]) =
    Some Blocked"
  using pingpong_bounces[OF clock_serves _ clock_file clock_slots, of "[0, 0, 0, 0]" 31 1 "[]"] by simp

text \<open>C19.  The linked list of the fish animation, kept in an array by assembly code, implements a plain
  list and a screen (\<open>picture\<close>), as long as no character is added at location 0,
  which would mark its slot as free (\<open>zero_location_hangs\<close>): adding puts an element
  in front and shows it, unless the location is off the screen or all 2000 slots are used, and
  then gives -1 and changes nothing; removing takes out the first element with the location, if
  there is one; synchronising copies the timing of the first element to the second when both are
  there, and shows the second character of the latter whether it is on or off, which is the bug in
  the choice of the character; a tick counts every element down or turns it from on to off or
  back, with the length and the character of its new phase. Every walk along the list comes to an
  end.\<close>

theorem blink_list_refines:
  assumes "pictures f p" "location b \<noteq> 0"
  shows "(\<exists>f'. mp1_ioctl_add b f = (if location b < 2000 \<and> length (fst p) < 2000 then 0 else -1, f') \<and>
      pictures f' (pic_add b p)) \<and>
    (\<exists>f'. mp1_ioctl_remove arg f =
        Some (Done (if find (\<lambda>b. location b = ucast arg) (fst p) = None then -1 else 0, f')) \<and>
      pictures f' (pic_remove (ucast arg) p)) \<and>
    (\<exists>f'. mp1_ioctl_sync arg f =
        Some (if find (\<lambda>b. location b = ucast (drop_bit 16 arg)) (fst p) = None \<or>
          find (\<lambda>b. location b = ucast arg) (fst p) = None then -1 else 0, f') \<and>
      pictures f' (pic_sync (ucast (drop_bit 16 arg)) (ucast arg) p)) \<and>
    (\<exists>f'. mp1_rtc_tasklet f = Some f' \<and> pictures f' (pic_tick p))"
  by (intro conjI; rule pictures_add[OF assms] pictures_remove[OF assms(1), of arg] pictures_sync[OF assms(1), of arg]
    pictures_tick[OF assms(1)]; blast)

theorem blink_list_refines_witness:
  "\<exists>f f'. pictures f (pic_add the_spot ([], \<lambda>i. 0)) \<and> mp1_rtc_tasklet f = Some f' \<and>
    pictures f' (pic_tick (pic_add the_spot ([], \<lambda>i. 0)))"
proof -
  have l: "location the_spot \<noteq> 0" by simp
  obtain f where f: "pictures f (pic_add the_spot ([], \<lambda>i. 0))"
    using blink_list_refines[OF start_picture l] by blast
  show ?thesis using blink_list_refines[OF f l] f by blast
qed

text \<open>C20.  The frames of the animation, read byte by byte from two files of the kernel of at most 800 bytes
  each: \<open>add_frames\<close> ends, and the list and the screen are
  \<open>frames_picture\<close>, given position by position: the two texts are laid out line by
  line from column 40 and padded with spaces, and at every position of the screen where one of
  them has something else than a space there is one element that shows the first text when on, the
  second when off, 15 ticks each; all start on and are drawn so. Positions behind the end of the
  screen have no element.\<close>

theorem fish_frames_shown:
  assumes "serves u t s" "names_file s name0 i0" "length name0 \<le> 2048" "length (file_content s i0) \<le> 800"
    and "names_file s name1 i1" "length name1 \<le> 2048" "length (file_content s i1) \<le> 800"
    and "find (free_fd s) [2..<8] = Some k0" "find (\<lambda>j. free_fd s j \<and> j \<noteq> k0) [2..<8] = Some k1"
  shows "\<exists>f s' w'. add_frames (kernel_sys u) name0 name1 junk (start_fish v) (s, w) = Some (Done (Inr f, (s', w'))) \<and>
    serves u t s' \<and> pictures f (frames_picture (file_content s i0) (file_content s i1) v)"
  by (rule frames_shown[OF assms])

theorem fish_frames_shown_witness:
  "\<exists>f s' w'. add_frames (kernel_sys notes_user) (c_lit ''notes'') (c_lit ''notes'') zero_blink (start_fish (\<lambda>i. 0))
      (notes_kernel, []) = Some (Done (Inr f, (s', w'))) \<and>
    pictures f (frames_picture (file_content notes_kernel 1) (file_content notes_kernel 1) (\<lambda>i. 0))"
proof -
  have "find (\<lambda>j. free_fd notes_kernel j \<and> j \<noteq> 2) [2..<8] = Some 3" using notes_free by simp
  then show ?thesis
    using fish_frames_shown[OF notes_serves notes_names _ _ notes_names _ _ notes_slots(1), of 3 zero_blink "\<lambda>i. 0" "[]"]
    by (auto simp: notes_content c_lit_def chars_def)
qed

text \<open>C21.  What follows the frames: a hundred ticks, a character added at 540, a hundred ticks, the timing
  of the character at 40 given to it, a hundred ticks, the character taken out, a hundred ticks.
  Whatever the system calls give, no walk along the list is endless, and a run that gives a result
  has made exactly these steps on the list and on the screen; and on the kernel, with the clock of
  the terminal at 32 Hz, four hundred times 32 interrupts of the hardware clock are enough and are
  used up: the run returns.\<close>

theorem fish_animation_ends:
  assumes "pictures f p" "clocked u t i s" "length g = 4"
  shows "show_spot S fd junk (g0, f, s0) \<noteq> None \<and>
    (\<forall>g' f' s'. show_spot S fd junk (g0, f, s0) = Some (Done (g', f', s')) \<longrightarrow> pictures f' (spot_shown p)) \<and>
    (\<exists>f' s'. show_spot (kernel_sys u) (int i) junk (g, f, (s, replicate 400 (replicate 32 rtc_intr) @ w)) =
      Some (Done (g, f', (s', w))) \<and> pictures f' (spot_shown p) \<and> serves u t s')"
proof -
  have c: "clocked u t i (fst (s, replicate 400 (replicate 32 rtc_intr) @ w))" using assms(2) by simp
  obtain f' x where "show_spot (kernel_sys u) (int i) junk (g, f, (s, replicate 400 (replicate 32 rtc_intr) @ w)) =
      Some (Done (g, f', x))" "pictures f' (spot_shown p)" "clocked u t i (fst x)" "snd x = w"
    by (rule clock_beats.spot_comes[OF assms(1) c _ assms(3)]) simp_all
  then show ?thesis
    using show_spot_ends[OF assms(1), of S fd junk g0 s0]
    by (auto simp: ends_with_def clocked_def intro!: exI[of _ f'] exI[of _ "fst x"])
qed

theorem fish_animation_ends_witness:
  "\<exists>s f' s'. show_spot (kernel_sys notes_user) 2 zero_blink
      ([0, 0, 0, 0], start_fish (\<lambda>i. 0), (s, replicate 400 (replicate 32 rtc_intr))) =
    Some (Done ([0, 0, 0, 0], f', (s', []))) \<and> pictures f' (spot_shown ([], \<lambda>i. 0))"
proof -
  obtain s where s: "clocked notes_user 0 2 s"
    using pingpong_runs[OF clock_serves _ clock_file clock_slots, of "[0, 0, 0, 0]" 0 "[]"] by auto
  show ?thesis
    using fish_animation_ends[OF start_picture[of "\<lambda>i. 0"] s, where g = "[0, 0, 0, 0]" and w = "[]" and junk = zero_blink,
      THEN conjunct2, THEN conjunct2] by auto
qed

section \<open>Programs on Linux\<close>

text \<open>C22.  A program gets the same arguments on Linux and on the kernel: for a command of plain words with
  single spaces between them, with one argument at least, that names a program of the kernel's
  file system (its argument text then has less than 128 bytes), and a buffer with room for the
  text. On Linux the emulated \<open>execute\<close> builds the argument list of the program and
  the words in its arrays, and the emulated \<open>getargs\<close> returns 0 and fills the
  program's buffer; on the kernel \<open>execute_call\<close> enters the program, and its
  \<open>getargs_call\<close> returns 0 and fills its buffer; both buffers hold the same string,
  the words joined by spaces.\<close>

theorem emulated_arguments:
  assumes "plain_word prog" "list_all plain_word ws" "ws \<noteq> []"
    and "length (command_of prog ws) \<le> 1024" "length junk = 1026" "length (joined ws) < n" "n \<le> length out"
    and "names_program s (command_of prog ws) inode" "has_pid s" "init_flag (active_term s) = 1"
    and "0x8000000 \<le> va" "va + n \<le> 0x8400000"
  shows "\<exists>buf args out' e k k' text. build_args junk (command_of prog ws) = Done (buf, args) \<and>
    strings_at buf args = (chars ''./'' @ prog) # ws \<and>
    emu_getargs out (int n) (start_emulation (strings_at buf args) w) = Done (0, out', start_emulation (strings_at buf args) w) \<and>
    execute_call (command_of prog ws) esp ebp s = Done (Enter_user e USER_STACK, k) \<and>
    getargs_call va (int n) k = Done (0, k') \<and> copy_in va n k' = Done text \<and>
    cstr text = joined ws \<and> cstr out' = cstr text"
proof -
  obtain e k k' where k: "execute_call (command_of prog ws) esp ebp s = Done (Enter_user e USER_STACK, k)"
    "getargs_call va (int n) k = Done (0, k')"
    "copy_in va n k' = Done (joined ws @ replicate (n - length (joined ws)) 0)"
    by (rule kernel_arguments[OF assms(1-3,8-10,6,11,12)])
  have nz: "0 \<notin> set (joined ws)" using joined_no_break[OF assms(2)] by auto
  obtain m where m: "n - length (joined ws) = Suc m" using assms(6) by (metis Suc_diff_Suc)
  have c: "cstr (joined ws @ 0 # r) = joined ws" for r by (rule cstr_append_nul[OF nz])
  obtain buf args where b: "build_args junk (command_of prog ws) = Done (buf, args)"
    "strings_at buf args = (chars ''./'' @ prog) # ws" using emulated_args(1)[OF assms(1,2,4,5)] by blast
  show ?thesis
    using b k emulated_args(2)[OF assms(1,2,4,5,6,7), of "chars ''./'' @ prog" w]
    by (intro exI[of _ buf] exI[of _ args] exI[of _ "joined ws @ 0 # drop (Suc (length (joined ws))) out"]
        exI[of _ e] exI[of _ k] exI[of _ k'] exI[of _ "joined ws @ replicate (n - length (joined ws)) 0"])
      (simp add: m c)
qed

theorem emulated_arguments_witness:
  "\<exists>buf args out' e k k' text em. build_args (replicate 1026 0) (c_lit ''shell a b'') = Done (buf, args) \<and>
    emu_getargs (replicate 8 1) 8 (start_emulation (strings_at buf args) ()) = Done (0, out', em :: (unit, unit) emulation) \<and>
    execute_call (c_lit ''shell a b'') 7 8 sample_kernel = Done (Enter_user e USER_STACK, k) \<and>
    getargs_call 0x8000000 8 k = Done (0, k') \<and> copy_in 0x8000000 8 k' = Done text \<and>
    cstr text = chars ''a b'' \<and> cstr out' = cstr text"
proof -
  have p: "plain_word (chars ''shell'')" "list_all plain_word [chars ''a'', chars ''b'']"
    by (simp_all add: plain_word_def chars_def)
  have c: "command_of (chars ''shell'') [chars ''a'', chars ''b''] = c_lit ''shell a b''"
    by (simp add: command_of_def chars_def c_lit_def)
  have j: "joined [chars ''a'', chars ''b''] = chars ''a b''" by (simp add: chars_def)
  have l: "length (command_of (chars ''shell'') [chars ''a'', chars ''b'']) \<le> 1024"
    "length (joined [chars ''a'', chars ''b'']) < 8"
    unfolding c j by (simp_all add: c_lit_def chars_def)
  have w: "first_word (skip_spaces (c_lit ''shell a b'')) = chars ''shell''"
    "length (arg_text (skip_spaces (c_lit ''shell a b''))) < 128" "strlen (c_lit ''shell a b'') = Some 9"
    by (simp_all add: skip_spaces_def first_word_def arg_text_def c_lit_def chars_def)
  have "names_program sample_kernel (command_of (chars ''shell'') [chars ''a'', chars ''b'']) 1"
    using sample_names_program w unfolding c names_program_def sample_command by (simp add: Let_def)
  from emulated_arguments[where 'a = unit and 'b = unit, OF p _ l(1) _ l(2) _ this sample_has_pid, of "replicate 1026 0" "replicate 8 1" "0x8000000" "()" 7 8]
  show ?thesis unfolding c j by auto
qed

text \<open>C23.  The emulated \<open>execute\<close> stays inside its arrays of 1026 bytes and 1024 pointers: for
  every command of at most 1023 characters, spaces and newlines anywhere, the argument list is
  built without a fault, has at most 512 entries, and its strings are the first word after ./ and
  the words of the rest.\<close>

theorem emulated_command_bounds:
  assumes "0 \<in> set command" "length (cstr command) \<le> 1023" "length junk = 1026"
  shows "\<exists>buf args. build_args junk command = Done (buf, args) \<and> length args \<le> 512 \<and>
    (let w = word_of (cstr command)
     in strings_at buf args = (chars ''./'' @ w) # words_of (drop (Suc (length w)) (cstr command)))"
  unfolding Let_def using build_args_words[OF assms] by blast

theorem emulated_command_bounds_witness:
  "\<exists>buf args. build_args (replicate 1026 7) (c_lit ''ls'') = Done (buf, args) \<and> strings_at buf args = [chars ''./ls'']"
proof -
  have c: "cstr (c_lit ''ls'') = chars ''ls''" "word_of (chars ''ls'') = chars ''ls''"
    by (simp_all add: c_lit_def chars_def word_of_def)
  have w: "words_of [] = []" by (subst words_of.simps) (simp add: skip_spaces_def)
  have z: "0 \<in> set (c_lit ''ls'')" "length (chars ''ls'') \<le> 1023" by (simp_all add: c_lit_def chars_def)
  have d: "drop (Suc (length (chars ''ls''))) (chars ''ls'') = []" "chars ''./'' @ chars ''ls'' = chars ''./ls''"
    by (simp_all add: chars_def)
  from emulated_command_bounds[OF z(1), of "replicate 1026 7"] z(2)
  show ?thesis unfolding c Let_def d w by (simp only: length_replicate) blast
qed

text \<open>C24.  The program ls runs on Linux as on the kernel: when writing to descriptor 1 shows what is
  written and readdir gives the names of the directory in turn, it ends with status 0 after one
  line of 32 bytes for each name, the name filled up with zeros, longer names cut.\<close>

theorem emulated_ls_lists:
  assumes "writes_shown lx view emit names" "names_given lx d view names"
    and "l_opendir lx (c_lit ''.'') w = (Some d, w1)" "l_open lx (c_lit ''/dev/null'') w1 = (fd, w2)" "fd \<noteq> -1" "fd \<noteq> 1"
    and "\<forall>x \<in> set (names w2). 0 \<notin> set x" "length buf = 33"
  shows "\<exists>e. ls_main (emu_sys lx junk status S) buf (start_emulation args w) = Some (Done (0, e)) \<and>
    view (world e) = fold emit (concat (map (\<lambda>x. take 32 (x @ replicate 32 0) @ [10]) (names w2))) (view w2)"
  using emulated_ls[OF assms] unfolding name_field_def by blast

theorem emulated_ls_lists_witness:
  "\<forall>S. \<exists>e. ls_main (emu_sys sample_linux [] 0 S) (replicate 33 0) (start_emulation [] ([], [chars ''notes''])) = Some (Done (0, e)) \<and>
    fst (world e) = chars ''notes'' @ replicate 27 0 @ [10]"
proof
  fix S :: "(u8 list \<times> u8 list list, unit) emulation sys"
  let ?w = "([], [chars ''notes'']) :: u8 list \<times> u8 list list"
  have o: "l_opendir sample_linux (c_lit ''.'') ?w = (Some (), ?w)" "l_open sample_linux (c_lit ''/dev/null'') ?w = (3, ?w)"
    by (simp_all add: sample_linux_def)
  have n: "\<forall>x \<in> set (snd ?w). 0 \<notin> set x" by (simp add: chars_def)
  have m: "(3 :: int) \<noteq> -1" "(3 :: int) \<noteq> 1" by simp_all
  have t: "take 32 (chars ''notes'' @ replicate 32 0) = chars ''notes'' @ replicate 27 0" by (simp add: chars_def)
  from emulated_ls_lists[where view = fst and emit = "\<lambda>c v. v @ [c]" and names = snd and lx = sample_linux and w = ?w and
      d = "()" and ?w1.0 = ?w and ?w2.0 = ?w and fd = 3 and buf = "replicate 33 0" and junk = "[]" and status = 0 and S = S and
      args = "[]", OF sample_linux_laws o m n length_replicate]
  show "\<exists>e. ls_main (emu_sys sample_linux [] 0 S) (replicate 33 0) (start_emulation [] ?w) = Some (Done (0, e)) \<and>
      fst (world e) = chars ''notes'' @ replicate 27 0 @ [10]"
    by (simp only: fold_snoc fst_conv snd_conv list.map concat.simps append_Nil append_Nil2 append_assoc t)
qed

section \<open>Typing and the screen\<close>

text \<open>C25.  From the keyboard to the program: if the keys of \<open>ks\<close> and then enter are pressed
  while a program on the displayed terminal is blocked in \<open>terminal_read\<close>, the read
  returns the line that an ideal line editor makes of the key characters, backspaces applied and
  characters beyond the 127th dropped, closed by the newline, and its value is the number of
  bytes.\<close>

theorem typed_line_is_read:
  assumes "typing s l" "list_all plain ks" "ENT \<notin> key_char s ` set ks" "plain e" "key_char s e = ENT"
    and "buf \<noteq> 0" "in_user s buf 128"
  defines "text \<equiv> fold edit (map (key_char s) ks) l"
  shows "\<exists>s'. terminal_read (map (press beyond) (ks @ [e])) fd buf n s = Done (int (length text + 1), s') \<and>
    copy_in buf (length text + 1) s' = Done (text @ [ENT])"
  unfolding text_def by (rule read_typed_line[OF assms(1-7)])

theorem typed_line_is_read_witness:
  "\<exists>s'. terminal_read (map (press (\<lambda>i. 0)) ([0x23, 0x12, 0x0E, 0x17] @ [0x1C])) 0 0x8000000 0 sample_kernel = Done (3, s') \<and>
    copy_in 0x8000000 3 s' = Done (chars ''hi'' @ [ENT])"
proof -
  let ?ks = "[0x23, 0x12, 0x0E, 0x17] :: u8 list"
  have k: "map (key_char sample_kernel) ?ks = [104, 101, 8, 105]" "key_char sample_kernel 0x1C = ENT"
    by (simp_all add: key_char_def Let_def letter_def table_defs chars_def)
  have p: "list_all plain ?ks" "plain 0x1C" by (simp_all add: plain_def)
  have t: "fold edit (map (key_char sample_kernel) ?ks) [] = chars ''hi''"
    unfolding k(1) by (simp add: edit_def chars_def)
  have n: "ENT \<notin> key_char sample_kernel ` set ?ks" using k(1) by (simp add: image_iff)
  show ?thesis
    using typed_line_is_read[OF sample_typing p(1) n p(2) k(2) _ sample_in_user, of "0x8000000" "\<lambda>i. 0" 0 0] t
    by (simp add: chars_def numeral_3_eq_3)
qed

text \<open>C26.  One press of an ordinary key: the handler edits the line of the displayed terminal as the ideal
  editor does, raises the reader's flag exactly at enter, echoes the character on that terminal's
  screen exactly when the line took it, and returns with interrupts enabled and the modifier state
  as it was.\<close>

theorem key_edits_line:
  assumes "plain k" "no_command s" "line_rel s l" "console_ok (displayed_terminal s) s"
  shows "\<exists>s'. print_keycode 1 k beyond esp ebp s = Done (Return 0, s') \<and>
    line_rel s' (edit (key_char s k) l) \<and> line_entered (key_char s k) l s s' \<and> same_keys s s' \<and> if_flag s' \<and>
    screen_of (displayed_terminal s) s' =
      (if echoes (key_char s k) l then scr_putc (key_char s k) (screen_of (displayed_terminal s) s)
       else screen_of (displayed_terminal s) s)"
  using press_plain[OF assms(1-3)] assms(4) by blast

theorem key_edits_line_witness:
  "\<exists>s'. print_keycode 1 0x1E (\<lambda>i. 0) 0 0 sample_kernel = Done (Return 0, s') \<and> line_rel s' [97] \<and>
     screen_of 0 s' = scr_putc 97 (screen_of 0 sample_kernel)"
proof -
  have s: "no_command sample_kernel" "line_rel sample_kernel []" "plain 0x1E" "console_ok 0 sample_kernel"
    using sample_typing sample_console[of 0] by (simp_all add: typing_def plain_def)
  have k: "key_char sample_kernel 0x1E = 97" by (simp add: key_char_def Let_def letter_def table_defs chars_def)
  show ?thesis
    using key_edits_line[OF s(3,1,2), of "\<lambda>i. 0" 0 0] s(4) k by (auto simp: edit_def echoes_def)
qed

text \<open>C27.  \<open>terminal_putc\<close> implements the abstract screen of 2000 cells and a cursor: the
  character, newline, backspace, and the scroll with its blank last row.  The consistency of
  cursor and scroll flag is kept, except by a backspace on the very last cell.\<close>

theorem putc_implements_console:
  assumes "console_ok tid s"
  shows "screen_of tid (terminal_putc c tid s) = scr_putc c (screen_of tid s) \<and>
    (\<not> (c = BACKSPACE \<and> cursor (screen_of tid s) = 1999) \<longrightarrow> console_ok tid (terminal_putc c tid s))"
  by (rule terminal_putc_refines[OF assms])

theorem putc_implements_console_witness:
  "screen_of 1 (terminal_putc 65 1 sample_kernel) = scr_putc 65 (screen_of 1 sample_kernel) \<and>
   console_ok 1 (terminal_putc 65 1 sample_kernel)"
  using putc_implements_console[of 1 sample_kernel 65] sample_console[of 1] by simp

text \<open>C28.  Printing on one terminal writes no byte outside the 4000 bytes of its video page, so that every
  other terminal's screen stays as it is, scrolling included, and the cursor stays on the screen.\<close>

theorem putc_confined:
  assumes "cursor_ok tid s"
  shows "(\<forall>a. a \<notin> page tid s \<longrightarrow> phys (terminal_putc c tid s) a = phys s a) \<and>
    (\<forall>u. u \<noteq> tid \<longrightarrow> screen_of u (terminal_putc c tid s) = screen_of u s) \<and> cursor_ok tid (terminal_putc c tid s)"
  using terminal_putc_in_page[OF assms] terminal_putc_isolated[OF assms] terminal_putc_cursor_ok[OF assms] by simp

theorem putc_confined_witness:
  "screen_of 0 (terminal_putc 65 1 sample_kernel) = screen_of 0 sample_kernel \<and> cursor_ok 1 (terminal_putc 65 1 sample_kernel)"
  using putc_confined[of 1 sample_kernel 65] sample_console[of 1] by simp

text \<open>C29.  \<open>printf\<close> equals its reference: for every format and arguments to which
  \<open>printf_text\<close> gives a text, the call terminates, prints exactly those characters in
  order, and returns the number of format bytes.\<close>

theorem printf_prints_reference:
  assumes "printf_text format args = Some (out, n)"
  shows "printf format args s = Done (n, fold put_on out s)"
  by (rule printf_correct[OF assms])

theorem printf_prints_reference_witness:
  "printf (c_lit ''a%d'') [Num (- 12)] sample_kernel = Done (3, fold put_on (map (Pair To_active) (chars ''a-12'')) sample_kernel)"
proof -
  have "printf_text (c_lit ''a%d'') [Num (- 12)] = Some (map (Pair To_active) (chars ''a-12''), 3)"
    by (simp add: c_lit_def chars_def int_text_def itoa_text_def digits.simps digit_char_def lookup_def)
  then show ?thesis by (rule printf_prints_reference)
qed

text \<open>C30.  Switching the display to a started terminal loses nothing: every terminal's screen (the
  displayed one in video memory, the others in their backing pages), line and process are as
  before, the new terminal is displayed, its video page is mapped, and the process that runs keeps
  its page and kernel stack.\<close>

theorem switching_keeps_screens:
  assumes "video_linked s" "tid < 3" "tid \<noteq> displayed_terminal s" "init_flag (terminal s tid) \<noteq> 0"
  shows "\<exists>s'. open_terminal (int tid) esp ebp s = Done (Return 0, s') \<and>
    displayed_terminal s' = tid \<and> video_linked s' \<and> terminal s' = terminal s \<and> if_flag s' \<and>
    active_terminal s' = active_terminal s \<and> pcbs s' = pcbs s \<and> pid_array s' = pid_array s \<and>
    page_directory s' 32 = page_directory s 32 \<and> tss_esp0 s' = tss_esp0 s \<and>
    page_table_video s' 0 = video_pte 0 \<and> (\<forall>u<3. screen_of u s' = screen_of u s)"
  by (rule open_terminal_switches[OF assms])

theorem switching_keeps_screens_witness:
  "\<exists>s'. open_terminal 2 0 0 sample_kernel = Done (Return 0, s') \<and> displayed_terminal s' = 2 \<and>
     screen_of 0 s' = screen_of 0 sample_kernel"
  using switching_keeps_screens[OF sample_video, of 2 0 0] by auto

section \<open>Files\<close>

text \<open>C31.  Opening an existing file and reading it: \<open>open_call\<close> returns the lowest free
  descriptor, \<open>read_call\<close> on it copies the first bytes of the file's content into the
  user's buffer and returns how many, at most the length of the file, and the file position moves
  on by as many.\<close>

theorem open_then_read_file:
  assumes "has_file s name" "find (free_fd s) [2..<8] = Some fd" "filetype (file_dentry s name) = 2"
    and "dentry_inode (file_dentry s name) = inode" "inode \<le> inodesCount s" "inode \<noteq> verylarge_inode s"
    and "curr_pid s = pid (active_term s)"
    and "0 < n" "n < 2 ^ 31" "unat (inode_length (fs s) inode) < 2 ^ 31" "inode_length (fs s) inode \<noteq> 0"
    and "readable s inode 0 (nat n)" "buf \<noteq> 0" "in_user s buf (nat n)"
  shows "\<exists>s1 s2. open_call (Some name) s = Done (int fd, s1)
    \<and> read_call [] (int fd) buf n s1 = Done (int (min (nat n) (length (file_content s inode))), s2)
    \<and> copy_in buf (min (nat n) (length (file_content s inode))) s2 = Done (take (nat n) (file_content s inode))
    \<and> file_position (cur_fd (int fd) s2) = of_nat (min (nat n) (length (file_content s inode)))"
  by (rule open_then_read[OF assms])

theorem open_then_read_file_witness:
  "\<exists>s1 s2. open_call (Some (zero_buffer (chars ''shell''))) sample_kernel = Done (2, s1) \<and>
     read_call [] 2 0x8000000 20 s1 = Done (20, s2) \<and>
     copy_in 0x8000000 20 s2 = Done (take 20 (file_content sample_kernel 1))"
proof -
  have r: "readable sample_kernel 1 0 (nat 20)" using sample_block by (simp add: readable_def)
  have l: "length (file_content sample_kernel 1) = 40" by (simp add: file_content_def sample_words)
  from open_then_read_file[OF sample_dentry(1) sample_fds _ _ _ _ _ _ _ _ _ r, of "0x8000000"] show ?thesis
    by (auto simp: sample_dentry sample_words sample_verylarge sample_in_user l)
qed

text \<open>C32.  The directory search against the 63 entries of the boot block: a name of 1 to 32 bytes that some
  entry bears gives the last such entry, and every other name gives -1, with one exception: the
  search runs one index too far and takes the beginning of the block of inode 0 for an entry 63,
  so a name that these 32 bytes spell gives this entry instead (a bug of the code). The second
  part is the lookup as it is meant, for every name that the block does not spell.\<close>

theorem lookup_by_name:
  "read_dentry_by_name s (name @ [0]) False =
      Done (let key = cstr (name @ [0]); found = directory_named (fs s) key in
        if key = [] \<or> length key > 32 then (-1, None)
        else if cstr (filename (dentry_at (fs s) 63)) = key then (0, Some (dentry_at (fs s) 63))
        else if found = [] then (-1, None) else (0, Some (dentry_at (fs s) (last found)))) \<and>
    (cstr (filename (dentry_at (fs s) 63)) \<noteq> cstr (name @ [0]) \<longrightarrow>
      read_dentry_by_name s (name @ [0]) False =
        Done (let key = cstr (name @ [0]); found = directory_named (fs s) key in
          if key = [] \<or> length key > 32 \<or> found = [] then (-1, None) else (0, Some (dentry_at (fs s) (last found)))))"
proof -
  have "read_dentry_by_name s (name @ [0]) False =
      Done (let key = cstr (name @ [0]); found = directory_named (fs s) key in
        if key = [] \<or> length key > 32 then (-1, None)
        else if cstr (filename (dentry_at (fs s) 63)) = key then (0, Some (dentry_at (fs s) 63))
        else if found = [] then (-1, None) else (0, Some (dentry_at (fs s) (last found))))"
    by (subst read_dentry_by_name_eq) (simp_all add: Let_def dentries_named_63)
  then show ?thesis by (simp add: Let_def)
qed

theorem lookup_by_name_witness:
  "read_dentry_by_name sample_kernel (chars ''no'' @ [0]) False = Done (-1, None) \<and>
    cstr (filename (dentry_at (fs sample_kernel) 63)) = []"
proof -
  have e: "cstr (filename (dentry_at (fs sample_kernel) 63)) = []" using sample_no_name[of 63] by simp
  have k: "cstr (chars ''no'' @ [0]) = chars ''no''" by (simp add: chars_def cstr_def)
  have "directory_named (fs sample_kernel) (chars ''no'') = []"
  proof -
    have "cstr (filename (dentry_at sample_image i)) \<noteq> chars ''no''" if "i < 63" for i
      using sample_no_name[of i] sample_first that by (cases "i = 0") (simp_all add: chars_def)
    then show ?thesis by (simp add: directory_named_def filter_empty_conv)
  qed
  moreover have "cstr (filename (dentry_at (fs sample_kernel) 63)) \<noteq> cstr (chars ''no'' @ [0])"
    unfolding e k by (simp add: chars_def)
  ultimately show ?thesis
    using lookup_by_name[of sample_kernel "chars ''no''"] e by (simp add: Let_def k)
qed

section \<open>System calls\<close>

text \<open>C33.  \<open>getargs_call\<close> with a buffer that has room for the argument text and its NUL: it
  fills the \<open>n\<close> bytes of the buffer with the text, padded with NULs, changes nothing
  but memory, and returns -1 when there are no arguments, 0 otherwise. (A buffer without the room
  is not covered: there the code cuts the text and returns 0, its comment says -1.)\<close>

theorem getargs_copies:
  assumes "buf \<noteq> 0" "in_user s buf (nat n)" "0 \<in> set (terminal_cmd (pcbs s (cur_pcb_addr s)))"
  defines "args \<equiv> cstr (terminal_cmd (pcbs s (cur_pcb_addr s)))"
  assumes "int (length args) < n"
  shows "\<exists>s'. getargs_call buf n s = Done (if args = [] then -1 else 0, s')
    \<and> s' = s\<lparr>phys := phys s'\<rparr> \<and> copy_in buf (nat n) s' = Done (args @ replicate (nat n - length args) 0)"
proof -
  have n: "0 < n" "take (nat n) args = args" using assms(5) by simp_all
  obtain s' where s': "getargs_call buf n s = Done (if args = [] then -1 else 0, s')"
    "copy_in buf (nat n) s' = Done (take (nat n) args @ replicate (nat n - length args) 0)"
    using getargs_correct[OF assms(1) n(1) assms(2,3)] by (auto simp: args_def)
  moreover have "s' = s\<lparr>phys := phys s'\<rparr>"
    using s'(1) by (auto simp: getargs_call_def copy_out_def andthen_Done_iff split: if_splits)
  ultimately show ?thesis using n(2) by auto
qed

theorem getargs_copies_witness:
  "\<exists>s s'. getargs_call 0x8000000 4 s = Done (0, s') \<and> copy_in 0x8000000 4 s' = Done [97, 98, 0, 0]"
proof -
  define s where "s = upd_pcb (cur_pcb_addr sample_kernel) (\<lambda>p. p\<lparr>terminal_cmd := [97, 98, 0]\<rparr>) sample_kernel"
  have c: "terminal_cmd (pcbs s (cur_pcb_addr s)) = [97, 98, 0]"
    by (simp add: s_def upd_pcb_def cur_pcb_addr_def)
  have u: "in_user s 0x8000000 4"
    using sample_in_user[of "0x8000000" 4] by (simp add: s_def in_user_def upd_pcb_def)
  have t: "cstr [97, 98, 0] = [97, 98]" by (simp add: cstr_def)
  have r: "replicate 2 (0 :: u8) = [0, 0]" by (simp add: numeral_2_eq_2)
  show ?thesis using getargs_copies[of "0x8000000" s 4] u unfolding c t by (auto simp: r)
qed

text \<open>C34.  \<open>vidmap_call\<close> with a pointer into the user page, in a process of the active
  terminal: it returns 0 and has written the address of the video page through the pointer, user
  code reaches the 4 KB of video memory there, the translation buffer is flushed, and the state is
  the old one but for four things: entry 0 of the page table for video memory, entry 33 of the
  page directory, the flushed buffer and the four bytes at the pointer. All other directory
  entries, the kernel page and the program page among them, are as before.\<close>

theorem vidmap_maps_screen:
  assumes "linked s" "terminal_on (pcbs s (cur_pcb_addr s)) = int (active_terminal s)"
    and "in_user s ptr 4" "off < 4096"
  shows "\<exists>s'. vidmap_call ptr s = Done (0, s') \<and> copy_in ptr 4 s' = Done (le32 0x8400000)
    \<and> mmu s' True (0x8400000 + off) = Some (VIDEO + off)
    \<and> s' = s\<lparr>page_table_video := (page_table_video s)(0 := page_table_video s' 0),
          page_directory := (page_directory s)(33 := page_directory s' 33), tlb_fresh := True,
          phys := store (phys s) (user_phys s ptr) (le32 0x8400000)\<rparr>"
  by (rule vidmap_correct[OF assms])

theorem vidmap_maps_screen_witness:
  "\<exists>s'. vidmap_call 0x8000000 sample_kernel = Done (0, s') \<and> mmu s' True (0x8400000 + 2) = Some (VIDEO + 2)"
proof -
  have "linked sample_kernel" using sample_paging by (simp add: paging_inv_def)
  moreover have "terminal_on (pcbs sample_kernel (cur_pcb_addr sample_kernel)) = int (active_terminal sample_kernel)"
    unfolding sample_cur_pcb by (simp add: shell_pcb_def)
  ultimately show ?thesis using vidmap_maps_screen[OF _ _ sample_in_user, of "0x8000000" 2] by auto
qed

text \<open>C35.  The system call gate, for any number in EAX.  For numbers other than \<open>halt\<close> and
  \<open>execute\<close>, whatever descriptors, counts and addresses are in the other registers as
  long as the addresses that the call uses lead into the program page, with the room it needs
  there, and descriptors, line buffers and argument are as \<open>execute\<close>,
  \<open>open\<close> and the keyboard leave them: the call never faults, it returns to the
  program with the system invariant and every process stack as they were, or waits in
  \<open>read\<close>; a number outside 1 to 10 gives -1 and only enables interrupts.  When
  \<open>halt\<close> and \<open>execute\<close> enter or resume a program, the invariant holds
  there.  An address outside the page is not covered: the calls do not check it.\<close>

theorem syscall_gate_sound:
  assumes "sys_inv s st" "harmless evs"
  shows "(sint eax \<notin> {1, 2} \<longrightarrow> calls_ready s \<longrightarrow> args_in_page (sint eax) ebx ecx edx s \<longrightarrow>
      sint eax = 3 \<and> syscall_entry evs eax ebx ecx edx esp ebp s = Blocked \<or>
      (\<exists>r s'. syscall_entry evs eax ebx ecx edx esp ebp s = Done (Return r, s') \<and> sys_inv s' st)) \<and>
    (sint eax < 1 \<or> 10 < sint eax \<longrightarrow>
      syscall_entry evs eax ebx ecx edx esp ebp s = Done (Return (-1), s\<lparr>if_flag := True\<rparr>)) \<and>
    (\<forall>c s'. sint eax \<in> {1, 2} \<longrightarrow> syscall_entry evs eax ebx ecx edx esp ebp s = Done (c, s') \<longrightarrow> (\<forall>r. c \<noteq> Return r) \<longrightarrow>
      (\<exists>st'. sys_inv s' st'))"
proof -
  have "calm evs" using assms(2) by (simp add: harmless_def)
  then have "\<exists>st'. sys_inv s' st'" if "sint eax \<in> {1, 2}" "syscall_entry evs eax ebx ecx edx esp ebp s = Done (c, s')" "\<forall>r. c \<noteq> Return r" for c s'
    using syscall_inv[OF assms(1) _ that(2)] that(3) by blast
  moreover have "syscall_entry evs eax ebx ecx edx esp ebp s = Done (Return (-1), s\<lparr>if_flag := True\<rparr>)"
    if "sint eax < 1 \<or> 10 < sint eax" by (rule syscall_bad_number) (use that in linarith)
  ultimately show ?thesis using gate_serves[OF assms(1) _ assms(2)] by blast
qed

theorem syscall_gate_sound_witness:
  "\<exists>r s'. syscall_entry [] 7 0x8000000 4 0 0 0 sample_kernel = Done (Return r, s') \<and> sys_inv s' sample_stacks"
proof -
  have "calls_ready sample_kernel" by (rule sample_calls_ready)
  moreover have "args_in_page 7 0x8000000 4 0 sample_kernel"
    using sample_in_user[of "0x8000000" 128] by (simp add: args_in_page_def)
  moreover have "harmless []" by (simp add: harmless_def calm_def)
  ultimately show ?thesis
    using syscall_gate_sound[OF sample_sys_inv, of "[]" 7 "0x8000000" 4 0 0 0] by auto
qed

text \<open>C36.  A processor exception in a program ends exactly that program: whatever the vector, the handler
  shows the message of the vector on the screen of the active terminal, and nothing else, pops the
  top process of this terminal, and the parent goes on where it called \<open>execute\<close>.
  (Which value \<open>execute\<close> gives is left open here.)\<close>

theorem exception_kills_program:
  assumes "exception_handler h = Some f" "proc_rel s st" "active_terminal s < 3"
    and "st (active_terminal s) = (p, esp, ebp) # (p', r) # below"
    and "console_ok (active_terminal s) s"
  shows "\<exists>v s'. f esp' ebp' s = Done (Resume v esp ebp, s') \<and>
    proc_rel s' (st(active_terminal s := (p', r) # below)) \<and> active_terminal s' = active_terminal s \<and>
    screen_of (active_terminal s) s' = fold scr_putc (exception_text h) (screen_of (active_terminal s) s)"
proof -
  let ?a = "active_terminal s"
  obtain s1 where s1: "f esp' ebp' s = halt_call 0 esp' ebp' s1" "same_procs s s1"
    "s1 = fold (\<lambda>c. terminal_putc c ?a) (exception_text h) s"
    using report_prints[OF exception_text_prints, of h esp' ebp' s] handler_reports[OF assms(1)] by auto
  have a: "active_terminal s1 = ?a" using s1(2) by (simp add: same_procs_def)
  have "BACKSPACE \<notin> set (exception_text h)" by (cases h) (simp_all add: chars_def)
  then have scr: "screen_of ?a s1 = fold scr_putc (exception_text h) (screen_of ?a s)"
    using print_refines[OF assms(5)] unfolding s1(3) by blast
  obtain s' where s': "halt_call 0 esp' ebp' s1 = Done (Resume (ucast (0 :: u8)) esp ebp, s')" "same_view s1 s'"
    "proc_rel s' (st(?a := (p', r) # below))"
    using halt_leaves[OF proc_rel_same[OF s1(2) assms(2)], of p esp ebp p' r below 0 esp' ebp'] assms(3,4) a by auto
  have "active_terminal s' = ?a" "screen_of ?a s' = screen_of ?a s1"
    using s'(2) a same_view_console[OF s'(2)] assms(3) by (simp_all add: same_view_def)
  then show ?thesis using s1(1) s'(1,3) scr by auto
qed

theorem exception_kills_program_witness:
  "\<exists>s v s'. handle_Pagefault 0 0 s = Done (Resume v 7 8, s') \<and> proc_rel s' (sample_stacks(0 := [(0, 0, 0)])) \<and>
     screen_of 0 s' = fold scr_putc (chars '' Page fault handler happening '' @ [10]) (screen_of 0 s)"
proof -
  obtain s e u where ex: "execute_call (c_lit ''shell'') 7 8 sample_kernel = Done (Enter_user e u, s)"
    and r: "proc_rel s (sample_stacks(0 := [(3, 7, 8), (0, 0, 0)]))" "active_terminal s = 0"
    using sample_child by blast
  have "same_view sample_kernel s" by (rule execute_view[OF ex]) simp
  then have "console_ok 0 s" using sample_console[of 0] by (simp add: same_view_console)
  from exception_kills_program[of Pagefault handle_Pagefault, OF _ r(1), of 3 7 8 0 "(0, 0)" "[]" 0 0] r \<open>console_ok 0 s\<close>
  show ?thesis by auto
qed

section \<open>Devices\<close>

text \<open>C37.  The virtual clock: a program that reads the clock sleeps until the hardware clock has ticked as
  often as its terminal's counter says, not earlier, and is woken by that very tick.\<close>

theorem clock_wakes_reader:
  assumes "rtc_ready (active_terminal s) s"
  shows "rtc_read (replicate k rtc_intr) fd buf n s =
    (if k < unat (rtc_counter (active_term s)) then Blocked
     else Done (0, (rtc_intr ^^ unat (rtc_counter (active_term s)))
       (upd_term (active_terminal s) (\<lambda>t. t\<lparr>rtc_flag := 1\<rparr>) s)))"
  by (rule rtc_read_ticks[OF assms])

theorem clock_wakes_reader_witness:
  "rtc_read (replicate 511 rtc_intr) 2 0 4 sample_kernel = Blocked \<and>
   (\<exists>s'. rtc_read (replicate 512 rtc_intr) 2 0 4 sample_kernel = Done (0, s'))"
proof -
  have "rtc_ready (active_terminal sample_kernel) sample_kernel" by (simp add: rtc_ready_def)
  from clock_wakes_reader[OF this] show ?thesis by simp
qed

text \<open>C38.  After the device part of the boot code the page structures satisfy the paging invariant, exactly
  the interrupt lines of timer, keyboard, cascade and clock are enabled, the process ids of
  programs are free, and the counts of the file system are those of the boot block.\<close>

theorem boot_enables_devices:
  fixes regb rega :: u8
  assumes "linked s" "page_table_video s = (\<lambda>_. 0)" "master_mask s = 0xFF" "slave_mask s = 0xFF"
  shows "paging_inv (boot_devices regb rega s) \<and>
    (\<forall>k. irq_on (boot_devices regb rega s) k \<longleftrightarrow> k \<in> {0, 1, 2, 8}) \<and>
    (\<forall>i. 3 \<le> i \<and> i < 6 \<longrightarrow> pid_array (boot_devices regb rega s) i = 0) \<and>
    inodesCount (boot_devices regb rega s) = rd32 (fs s) 4 \<and>
    data_count_blk (boot_devices regb rega s) = rd32 (fs s) 8"
  using boot_devices_ready[OF assms, where regb = regb and rega = rega] by blast

theorem boot_enables_devices_witness:
  "paging_inv (boot_devices 0 0 (initial_globals 0x1000 0x2000 sample_image)) \<and>
   irq_on (boot_devices 0 0 (initial_globals 0x1000 0x2000 sample_image)) 8"
  using boot_enables_devices[of "initial_globals 0x1000 0x2000 sample_image" 0 0]
  by (simp add: linked_def initial_globals_def)

section \<open>Memory and strings\<close>

text \<open>C39.  The block routines of the library, with their word moves and alignment heads and tails, equal
  the byte-wise definitions: \<open>memset\<close> for all arguments, \<open>memmove\<close> for
  overlapping blocks in either direction, \<open>memcpy\<close> unless the destination starts
  inside the source.\<close>

theorem block_moves:
  assumes "dest \<le> src \<or> src + n \<le> dest"
  shows "memcpy m dest src n = copy m dest src n \<and> memset m a c k = fill m a (ucast c) k \<and>
    fst (memmove m d' s' n') = copy m d' s' n'"
  using memcpy_correct[of dest src n m] assms
  by (simp add: forward_ok_def memset_correct memmove_correct)

theorem block_moves_witness:
  "\<forall>m. memcpy m 5 2 3 = copy m 5 2 3 \<and> memset m 1 0x141 9 = fill m 1 0x41 9 \<and> fst (memmove m 3 2 7) = copy m 3 2 7"
proof -
  have c: "ucast (0x141 :: u32) = (0x41 :: u8)" by simp
  show ?thesis using block_moves[of 5 2 3 _ 1 "0x141" 9 3 2 7] unfolding c by simp
qed

text \<open>C40.  \<open>itoa\<close> then reading the digits back gives the number, in every radix from 2 to 36:
  the call writes a NUL-terminated text of digits without touching the rest of the buffer.\<close>

theorem itoa_roundtrip:
  assumes "2 \<le> unat radix" "unat radix \<le> 36" "length (itoa_text (unat radix) (unat v)) < length buf"
  shows "\<exists>text. itoa v buf radix = Some (text @ 0 # drop (Suc (length text)) buf) \<and> 0 \<notin> set text \<and>
    atoi (unat radix) text = unat v"
  using itoa_correct[OF assms] atoi_itoa_text[OF assms(1,2)] itoa_text_nonzero[OF assms(1,2)] by blast

theorem itoa_roundtrip_witness:
  "\<exists>text. itoa 0xBEEF (replicate 36 0) 16 = Some (text @ 0 # drop (Suc (length text)) (replicate 36 0)) \<and>
     atoi 16 text = 48879"
proof -
  have "length (itoa_text (unat (16::u32)) (unat (0xBEEF::u32))) \<le> 8"
    by (rule itoa_text_length) simp_all
  then show ?thesis using itoa_roundtrip[of 16 "0xBEEF" "replicate 36 0"] by auto
qed

section \<open>Further facts\<close>

text \<open>What a shell learns of a program: \<open>execute\<close> gives -1 or the status byte with which
  the program halted, so the message for a program that died by an exception is never shown, and
  -1 is told as a missing command, 0 as success, everything else as an abnormal end.\<close>

lemma shell_sees_status:
  assumes "kernel_execute u command s = Done (r, s')"
  shows "(r = -1 \<or> (\<exists>start stack x y status. child u start stack x = Done (status, y) \<and> r = uint status)) \<and>
    shell_report S r z = (if r = -1 then ece391_fdputs S 1 (c_line ''no such command'') z
      else if r = 0 then Done z else ece391_fdputs S 1 (c_line ''program terminated abnormally'') z)"
  using kernel_execute_value[OF assms] byte_not_256 by (auto simp: shell_report_def)

lemma shell_sees_status_witness:
  "\<exists>s'. kernel_execute notes_user [0] notes_kernel = Done (-1, s') \<and>
    shell_report (kernel_sys notes_user) (-1) (s', []) =
      ece391_fdputs (kernel_sys notes_user) 1 (c_line ''no such command'') (s', [])"
proof -
  obtain s' where "kernel_execute notes_user [0] notes_kernel = Done (-1, s')"
    using execute_no_name[OF notes_serves] by blast
  then show ?thesis using shell_sees_status[of notes_user "[0]" notes_kernel "-1" s' "kernel_sys notes_user" "(s', [])"] by simp
qed

text \<open>The loop of counter on the kernel shows the numbers from 1 to \<open>n\<close> in decimal, one
  per line, for every \<open>n\<close> up to a million, ten times the largest that the program
  uses.\<close>

lemma counter_prints_numbers:
  assumes "serves u t (fst x)" "n \<le> 1000000" "length buf = 1024"
  shows "\<exists>y. counter_loop (kernel_sys u) buf 0 n x = Done y \<and> serves u t (fst y) \<and>
    screen_of t (fst y) = fold scr_putc (count_text 0 n) (screen_of t (fst x))"
proof -
  have "c \<noteq> BACKSPACE" if "(48 \<le> c \<and> c \<le> 57) \<or> c = 10" for c using that by auto
  then show ?thesis using screen.counter_prints[of u t x 0 n buf] assms by auto
qed

lemma counter_prints_numbers_witness:
  "\<exists>y. counter_loop (kernel_sys notes_user) (replicate 1024 0) 0 100 (notes_kernel, []) = Done y \<and>
    screen_of 0 (fst y) = fold scr_putc (count_text 0 100) (screen_of 0 notes_kernel)"
  using counter_prints_numbers[of notes_user 0 "(notes_kernel, [])" 100 "replicate 1024 0"] notes_serves by auto

text \<open>Descriptors: a successful \<open>open_call\<close> takes the lowest free slot from 2 to 7, and
  fills it with the operations of the file's type, its inode, position 0 and the engaged flag, all
  other slots unchanged; it fails, with nothing changed, exactly when all six are taken.\<close>

lemma open_takes_lowest:
  assumes "has_file s name"
  shows "(if \<forall>j. 2 \<le> j \<and> j < 8 \<longrightarrow> \<not> free_fd s j then open_call (Some name) s = Done (-1, s)
     else \<exists>i s'. open_call (Some name) s = Done (int i, s') \<and> 2 \<le> i \<and> i < 8 \<and> free_fd s i \<and>
       (\<forall>j. 2 \<le> j \<and> j < i \<longrightarrow> \<not> free_fd s j) \<and>
       cur_fd (int i) s' = \<lparr>table_ptr = type_operations (filetype (file_dentry s name)),
         inode_num = dentry_inode (file_dentry s name), file_position = 0, flags = ENGAGED\<rparr> \<and>
       (\<forall>j. j \<noteq> i \<longrightarrow> cur_fd (int j) s' = cur_fd (int j) s))"
proof (cases "find (free_fd s) [2..<8]")
  case None
  then show ?thesis using fds_full[of s] open_call_fails[OF assms] by (simp del: upt_rec_numeral)
next
  case (Some i)
  then have i: "2 \<le> i \<and> i < 8 \<and> free_fd s i \<and> (\<forall>j. 2 \<le> j \<and> j < i \<longrightarrow> \<not> free_fd s j)"
    unfolding fds_lowest .
  have "open_call (Some name) s = Done (int i, engage_fd i (file_dentry s name) s)"
    using open_call_file[OF assms] Some by (simp del: upt_rec_numeral)
  then show ?thesis using i engaged_fd by fastforce
qed

lemma open_takes_lowest_witness:
  "\<exists>i s'. open_call (Some (zero_buffer (chars ''shell''))) sample_kernel = Done (int i, s') \<and> free_fd sample_kernel i \<and>
     table_ptr (cur_fd (int i) s') = files_operations"
proof -
  have "free_fd sample_kernel 2" using sample_fds unfolding fds_lowest by blast
  then have n: "\<not> (\<forall>j. 2 \<le> j \<and> j < 8 \<longrightarrow> \<not> free_fd sample_kernel j)" by auto
  have "type_operations (filetype (file_dentry sample_kernel (zero_buffer (chars ''shell'')))) = files_operations"
    by (simp add: sample_dentry sample_words type_operations_def)
  then show ?thesis using open_takes_lowest[OF sample_dentry(1)] unfolding if_not_P[OF n] by force
qed

text \<open>Writing a rate to the clock, a power of two from 2 to 1024 as a 4-byte number, returns 4 and
  from then on the terminal's clock fires every \<open>1024 / f\<close> hardware ticks.\<close>

lemma rtc_write_sets_rate:
  assumes "buf \<noteq> 0" "copy_in buf 4 s = Done bs" "valid_freq f" "f = sint (rd32 (\<lambda>i. bs ! i) 0)"
    and "active_terminal s < 3" "init_flag (active_term s) = 1"
  shows "\<exists>s'. rtc_write fd buf n s = Done (4, s') \<and> rtc_ready (active_terminal s) s' \<and>
    unat (rtc_counter (active_term s')) = nat (1024 div f) \<and> unat (rtc_target (active_term s')) = nat (1024 div f)"
  using rtc_write_ok[OF assms(1,2)] change_freq_ready[OF assms(3,5,6)] assms(3,4) by auto

lemma rtc_write_sets_rate_witness:
  "\<exists>s s'. rtc_write 2 0x8000000 4 s = Done (4, s') \<and> unat (rtc_counter (active_term s')) = 32"
proof -
  define s where "s = sample_kernel\<lparr>phys := (\<lambda>a. if a = 0x800000 then 32 else 0)\<rparr>"
  have u: "in_user s 0x8000000 4" using sample_in_user[of "0x8000000" 4] by (simp add: s_def in_user_def)
  have p: "user_phys s 0x8000000 = 0x800000" by (simp add: s_def user_phys_def user_pde_def)
  have c: "copy_in 0x8000000 4 s = Done [32, 0, 0, 0]"
    using u by (simp add: copy_in_def p load_def upt_conv_Cons) (simp add: s_def)
  have v: "valid_freq 32" "32 = sint (rd32 (\<lambda>i. [32, 0, 0, 0] ! i) 0)"
    by (simp_all add: valid_freq_def rd32_def)
  have "\<exists>s'. rtc_write 2 0x8000000 4 s = Done (4, s') \<and> rtc_ready (active_terminal s) s' \<and>
      unat (rtc_counter (active_term s')) = nat (1024 div 32) \<and> unat (rtc_target (active_term s')) = nat (1024 div 32)"
    by (rule rtc_write_sets_rate[OF _ c v]) (simp_all add: s_def)
  then show ?thesis by auto
qed

text \<open>The control blocks and kernel stacks of the six processes never overlap, a stack of one process
  and the control block of any other included.\<close>

lemma process_regions_disjoint:
  assumes "p < 6" "q < 6"
  shows "stack_region p \<inter> pcb_region q = {} \<and>
    (p \<noteq> q \<longrightarrow> pcb_region p \<inter> pcb_region q = {} \<and> stack_region p \<inter> stack_region q = {})"
  using regions_disjoint[OF assms] by blast

lemma process_regions_disjoint_witness:
  "stack_region 5 \<inter> pcb_region 4 = {} \<and> pcb_region 5 \<inter> pcb_region 4 = {}"
  using process_regions_disjoint[of 5 4] by simp

text \<open>A boundary case of the screen: a backspace on the last cell leaves the scroll flag set, so that
  the next character, although the cursor is on the cell before the last, is treated as the last
  of the screen and the cursor goes to the start of the scrolled row instead of back to the last
  cell.\<close>

lemma backspace_breaks_flag:
  assumes "console_ok tid s" "cursor (screen_of tid s) = 1999"
    and "c \<noteq> NEWLINE" "c \<noteq> RETURN" "c \<noteq> BACKSPACE"
  shows "cursor (screen_of tid (terminal_putc BACKSPACE tid s)) = 1998 \<and>
    cursor (screen_of tid (terminal_putc c tid (terminal_putc BACKSPACE tid s))) = 1920 \<and>
    cursor (scr_putc c (scr_putc BACKSPACE (screen_of tid s))) = 1999"
  using backspace_on_last_cell[OF assms] assms(2-5) by (simp add: scr_putc_def)

text \<open>\<open>read_data\<close> follows the block list of the inode: from an offset inside the file it
  delivers the bytes of the file from there on, block after block.\<close>

lemma read_data_chunk:
  assumes "inode \<le> inodesCount s" "len \<noteq> 0" "offset < inode_length (fs s) inode"
    and "readable s inode (unat offset) (unat offset + unat len)"
  shows "read_data inode offset False len s =
    Done (read_result (note_verylarge inode s) (inode_length (fs s) inode) len,
          map (file_byte s inode) [unat offset..<unat offset + unat len], note_verylarge inode s)"
  by (rule read_data_readable[OF assms])

text \<open>The counter kept for the very large file: after \<open>k\<close> chunks of \<open>len\<close>
  bytes the value of the next read is what the file still has, \<open>len\<close> at most.\<close>

lemma verylarge_chunks:
  assumes "inode = verylarge_inode s" "unat (large_text_blk_count s) = k"
    and "unat flen < 2 ^ 31" "unat len * Suc k < 2 ^ 32" "len \<noteq> 0" "unat len * k < unat flen"
  shows "read_result (note_verylarge inode s) flen len = int (min (unat len) (unat flen - unat len * k))"
  by (rule read_result_verylarge[OF assms])

text \<open>Open, close, open: closing a descriptor that \<open>open_call\<close> gave returns 0 and frees
  the slot, so that the next \<open>open_call\<close> gives the same number.\<close>

lemma descriptor_reused:
  assumes "has_file s name" "open_call (Some name) s = Done (fd, s1)" "fd \<noteq> -1"
    and "filetype (file_dentry s name) \<le> 2"
  shows "\<exists>s2 s3. close_call fd s1 = Done (0, s2) \<and> open_call (Some name) s2 = Done (fd, s3)"
  by (rule open_close_open[OF assms])

text \<open>Reading a directory: as long as the counter is below 17 each read delivers the 32-byte name of
  the next entry and advances, and the read after the last delivers 0 and starts over.\<close>

lemma directory_listing:
  assumes "0 \<le> internalCounter s" "in_user s buf 32"
  shows "read_from_directory fd buf n s =
    (if internalCounter s < 17
     then Done (32, s\<lparr>phys := store (phys s) (user_phys s buf)
                        (filename (dentry_at (fs s) (nat (internalCounter s)))),
                      internalCounter := internalCounter s + 1\<rparr>)
     else Done (0, s\<lparr>internalCounter := 0\<rparr>))"
  using read_from_directory_steps[OF assms(1) _ assms(2)] read_from_directory_end[of s] by simp

text \<open>The interrupt controller driver: enabling or disabling a line changes the mask of that line and
  of no other, on the master and on the slave, and an invalid line number changes nothing.\<close>

lemma interrupt_lines:
  "(irq_on (enable_irq irq s) k \<longleftrightarrow> irq_on s k \<or> (irq < 16 \<and> k = unat irq)) \<and>
   (irq_on (disable_irq irq s) k \<longleftrightarrow> irq_on s k \<and> \<not> (irq < 16 \<and> k = unat irq))"
  by (simp add: irq_on_enable irq_on_disable)

text \<open>Every rate above 18 Hz gives the timer a divisor that fits its 16 bits, sent low byte first.\<close>

lemma pit_programming:
  fixes f :: u32
  assumes "18 < unat f"
  shows "1193180 div unat f < 65536 \<and> outs (pit_change_freq f s) =
      outs s @ [(CMD_PORT, PIT_CMD), (DATA_PORT_CH_0, of_nat (1193180 div unat f mod 256)),
        (DATA_PORT_CH_0, of_nat (1193180 div unat f div 256))]"
  using pit_divisor[OF assms] by simp

text \<open>\<open>strcpy\<close> and \<open>strncpy\<close> write exactly the copied string and its
  padding, and \<open>strncmp\<close> is 0 exactly if the two strings agree on their first
  \<open>n\<close> characters.\<close>

lemma string_routines:
  assumes "0 \<in> set src" "length (cstr src) < length dest" "n \<le> length dest" "n \<le> length other"
  shows "strcpy dest src = Some (cstr src @ 0 # drop (Suc (length (cstr src))) dest) \<and>
    (n < length src \<longrightarrow> strncpy dest src n =
      Some (take n (cstr src) @ replicate (n - length (cstr src)) 0 @ drop n dest)) \<and>
    (n \<le> length src \<longrightarrow> (strncmp src other n = Some 0 \<longleftrightarrow> take n (cstr src) = take n (cstr other)))"
  using strcpy_correct[OF assms(1,2)] strncpy_correct[OF assms(3), of src] strncmp_zero_iff[of n src other] assms(4)
  by blast

text \<open>\<open>read_data\<close> terminates on every image, with any inode, offset and length: it always
  gives a result; the block loop cannot run for ever.\<close>

lemma read_data_terminates:
  assumes "len \<noteq> 0"
  shows "\<exists>r. read_data inode offset buf_null len s = Done r"
  by (rule read_data_returns[OF assms])

text \<open>The descriptor table: a vector is present exactly if a handler is installed for it, and then
  leads to that handler in the kernel segment; only the system call gate may be used from user
  level; and the device vectors are trap gates, all others interrupt gates.\<close>

lemma idt_gates:
  fixes addr :: "handler \<Rightarrow> u32" and idt :: "nat \<Rightarrow> idt_desc_t"
  assumes "v < 256"
  shows "(present (init_idt addr idt v) = 1 \<longleftrightarrow> v \<in> fst ` set installed) \<and>
    (\<forall>h. (v, h) \<in> set installed \<longrightarrow> gate_offset (init_idt addr idt v) = addr h) \<and>
    seg_selector (init_idt addr idt v) = KERNEL_CS \<and>
    dpl (init_idt addr idt v) = (if v = VECTOR_SYSTEM then 3 else 0) \<and>
    gate_type (init_idt addr idt v) =
      (if FIRST_INTERRUPT \<le> v \<and> v \<le> LAST_INTERRUPT then TRAP_GATE else INTERRUPT_GATE)"
  using init_idt_correct[OF assms, where addr = addr and idt = idt] by simp

text \<open>Location 0 marks a free slot: two characters added there make the list point to itself, and the
  next tick never ends.\<close>

lemma zero_location_hangs:
  assumes "mp1_malloc f = Some i" "location a = 0" "location b = 0"
  shows "mp1_rtc_tasklet (snd (mp1_ioctl_add b (snd (mp1_ioctl_add a f)))) = None"
  by (rule zero_location_loops[OF assms])

text \<open>No call checks the pointers of the program: \<open>getargs\<close> with any address outside the
  program page makes the kernel write there, in the model a fault, after which every state is
  possible.\<close>

lemma wild_pointer_goes_astray:
  assumes "ebx \<noteq> 0" "0 < sint ecx" "unat ebx < 0x8000000 \<or> 0x8400000 \<le> unat ebx"
  shows "syscall_entry evs 7 ebx ecx edx esp ebp s = Fault WildPointer \<and> kstep True s s'"
proof -
  have n: "replicate (nat (sint ecx)) (0 :: u8) \<noteq> []" using assms(2) by simp
  have "copy_out (unat ebx) (replicate (nat (sint ecx)) 0) x = Fault WildPointer" for x
    using n assms(3) unfolding copy_out_def in_user_def by auto
  then have "getargs_call (unat ebx) (sint ecx) x = Fault WildPointer" for x
    using assms(1) by (simp add: getargs_call_def unat_eq_0)
  then have "syscall_entry evs 7 ebx ecx edx esp ebp s = Fault WildPointer"
    by (simp add: syscall_entry_def do_syscall_in_C_def returns_def sti_def)
  then show ?thesis using kstep.fault by blast
qed

lemma wild_pointer_goes_astray_witness:
  "syscall_entry [] 7 0x1000 4 0 0 0 sample_kernel = Fault WildPointer"
  using wild_pointer_goes_astray[of "0x1000" 4 "[]" 0 0 0 sample_kernel] by simp

text \<open>A buffer that is too small for the arguments: \<open>getargs_call\<close> fills it with the
  beginning of the text, with no NUL behind it, and returns 0, where its comment says -1.\<close>

lemma getargs_cuts:
  assumes "buf \<noteq> 0" "0 < n" "in_user s buf (nat n)" "0 \<in> set (terminal_cmd (pcbs s (cur_pcb_addr s)))"
    and "n \<le> int (length (cstr (terminal_cmd (pcbs s (cur_pcb_addr s)))))"
  shows "\<exists>s'. getargs_call buf n s = Done (0, s') \<and>
    copy_in buf (nat n) s' = Done (take (nat n) (cstr (terminal_cmd (pcbs s (cur_pcb_addr s)))))"
proof -
  have "cstr (terminal_cmd (pcbs s (cur_pcb_addr s))) \<noteq> []" using assms(2,5) by auto
  moreover have "nat n - length (cstr (terminal_cmd (pcbs s (cur_pcb_addr s)))) = 0" using assms(5) by simp
  ultimately show ?thesis using getargs_correct[OF assms(1-4)] by simp
qed

lemma getargs_cuts_witness:
  "\<exists>s s'. getargs_call 0x8000000 1 s = Done (0, s') \<and> copy_in 0x8000000 1 s' = Done [97]"
proof -
  define s where "s = upd_pcb (cur_pcb_addr sample_kernel) (\<lambda>p. p\<lparr>terminal_cmd := [97, 98, 0]\<rparr>) sample_kernel"
  have c: "terminal_cmd (pcbs s (cur_pcb_addr s)) = [97, 98, 0]"
    by (simp add: s_def upd_pcb_def cur_pcb_addr_def)
  have u: "in_user s 0x8000000 1"
    using sample_in_user[of "0x8000000" 1] by (simp add: s_def in_user_def upd_pcb_def)
  have t: "cstr [97, 98, 0] = [97, 98]" by (simp add: cstr_def)
  show ?thesis using getargs_cuts[of "0x8000000" 1 s] u unfolding c t by auto
qed

text \<open>The value with which \<open>execute\<close> returns in the parent of a program that an exception
  ended is 0, where the comment of \<open>execute_call\<close> says 256: the handlers pass 256 as
  one byte.\<close>

lemma exception_value_zero:
  assumes "exception_handler h = Some f" "proc_rel s st" "active_terminal s < 3"
    and "st (active_terminal s) = (p, esp, ebp) # (p', r) # below"
  shows "\<exists>s'. f esp' ebp' s = Done (Resume 0 esp ebp, s')"
  using exception_pops[OF assms, of esp' ebp'] by blast

lemma exception_value_zero_witness: "\<exists>s s'. handle_Pagefault 0 0 s = Done (Resume 0 7 8, s')"
proof -
  obtain s where "proc_rel s (sample_stacks(0 := [(3, 7, 8), (0, 0, 0)]))" "active_terminal s = 0"
    using sample_child by blast
  then show ?thesis using exception_value_zero[of Pagefault handle_Pagefault s "sample_stacks(0 := [(3, 7, 8), (0, 0, 0)])"
      3 7 8 0 "(0, 0)" "[]" 0 0] by auto
qed

end
